(* ===== verification/Chunker.thy ===== *)
theory Chunker
  imports Prelude
begin

text \<open>
  Document chunking, \<open>rust/ingestion/src/chunker.rs\<close>, with the raw document of
  \<open>rust/ingestion/src/connector.rs\<close>: paragraphs are trimmed, spilled when oversized, packed
  greedily into chunks, and each chunk is prefixed with the last words of its predecessor.

  A metadata \<open>HashMap\<close> is an association list with distinct keys, in the map's iteration order.
\<close>

section \<open>Data\<close>

type_synonym metadata = "(string \<times> string) list"

record raw_document =
  rd_id :: string
  rd_source :: string
  rd_title :: "string option"
  rd_content :: string
  rd_metadata :: metadata
  rd_acl :: "string list option"

definition raw_document_new :: "string \<Rightarrow> string \<Rightarrow> string \<Rightarrow> raw_document" where
  "raw_document_new i src content =
     \<lparr>rd_id = i, rd_source = src, rd_title = None, rd_content = content, rd_metadata = [], rd_acl = None\<rparr>"

record chunk =
  ch_id :: string
  ch_document_id :: string
  ch_index :: nat
  ch_text :: string
  ch_metadata :: metadata
  ch_acl :: "string list option"

record chunker =
  max_chars :: nat
  overlap_chars :: nat

definition chunker_new :: "nat \<Rightarrow> nat \<Rightarrow> chunker" where
  "chunker_new m ov = (let m' = max m 1 in \<lparr>max_chars = m', overlap_chars = min ov (m' - 1)\<rparr>)"

definition DEFAULT_MAX_CHARS :: nat where "DEFAULT_MAX_CHARS = 500"
definition DEFAULT_OVERLAP_CHARS :: nat where "DEFAULT_OVERLAP_CHARS = 64"

definition chunker_default :: chunker where
  "chunker_default = chunker_new DEFAULT_MAX_CHARS DEFAULT_OVERLAP_CHARS"

definition pack_budget :: "chunker \<Rightarrow> nat" where
  "pack_budget ck =
     (if overlap_chars ck = 0 then max_chars ck
      else max (max_chars ck - (overlap_chars ck + 1)) 1)"

section \<open>Splitting\<close>

definition is_heading :: "string \<Rightarrow> bool" where
  "is_heading u = starts_with u ''#''"

text \<open>\<open>slice.chunks(n)\<close>\<close>

function slice_chunks :: "nat \<Rightarrow> 'a list \<Rightarrow> 'a list list" where
  "slice_chunks n xs = (if n = 0 \<or> xs = [] then [] else take n xs # slice_chunks n (drop n xs))"
  by pat_completeness auto
termination by (relation "measure (\<lambda>(n, xs). length xs)") auto

declare slice_chunks.simps [simp del]

definition split_oversized_word :: "string \<Rightarrow> nat \<Rightarrow> string list" where
  "split_oversized_word word budget =
     (if length word \<le> budget then [word] else slice_chunks (max budget 1) word)"

definition spill_step :: "nat \<Rightarrow> string \<Rightarrow> string list \<times> string \<Rightarrow> string list \<times> string" where
  "spill_step budget piece st =
     (case st of (out, current) \<Rightarrow>
        if current = [] then (out, piece)
        else if length current + 1 + length piece > budget then (out @ [current], piece)
        else (out, current @ '' '' @ piece))"

definition flush :: "string list \<times> string \<Rightarrow> string list" where
  "flush st = (case st of (out, current) \<Rightarrow> if current \<noteq> [] then out @ [current] else out)"

definition spill :: "string \<Rightarrow> nat \<Rightarrow> string list" where
  "spill para budget =
     flush (fold (\<lambda>word st. fold (spill_step budget) (split_oversized_word word budget) st)
                 (split_whitespace para) ([], []))"

definition para_units :: "nat \<Rightarrow> string \<Rightarrow> string list" where
  "para_units budget para =
     (let trimmed = trim para in
      if trimmed = [] then []
      else if length trimmed \<le> budget then [trimmed]
      else spill trimmed budget)"

definition blank_line :: string where
  "blank_line = newline @ newline"

definition pack_step :: "nat \<Rightarrow> string \<Rightarrow> string list \<times> string \<Rightarrow> string list \<times> string" where
  "pack_step budget u st =
     (case st of (chunks, current) \<Rightarrow>
        if current = [] then (chunks, u)
        else if is_heading u then (chunks @ [current], u)
        else if length current + 2 + length u \<le> budget then (chunks, current @ blank_line @ u)
        else (chunks @ [current], u))"

fun trailing_loop :: "nat \<Rightarrow> nat \<Rightarrow> nat \<Rightarrow> string list \<Rightarrow> nat" where
  "trailing_loop limit tk len [] = tk"
| "trailing_loop limit tk len (word # words) =
     (let add = length word + (if tk > 0 then 1 else 0) in
      if len + add > limit then tk else trailing_loop limit (tk + 1) (len + add) words)"

definition trailing_words :: "string \<Rightarrow> nat \<Rightarrow> string" where
  "trailing_words s limit =
     (if limit = 0 then []
      else
        let words = split_whitespace s;
            tk = trailing_loop limit 0 0 (rev words)
        in if tk = 0 then [] else join_str '' '' (drop (length words - tk) words))"

definition overlap_one :: "chunker \<Rightarrow> string \<Rightarrow> string \<Rightarrow> string" where
  "overlap_one ck prev c =
     (let room = min (max_chars ck - (length c + 1)) (overlap_chars ck);
          tail = trailing_words prev room
      in if tail = [] then c else tail @ '' '' @ c)"

fun overlap_loop :: "chunker \<Rightarrow> string \<Rightarrow> string list \<Rightarrow> string list" where
  "overlap_loop ck prev [] = []"
| "overlap_loop ck prev (c # cs) = overlap_one ck prev c # overlap_loop ck c cs"

definition apply_overlap :: "chunker \<Rightarrow> string list \<Rightarrow> string list" where
  "apply_overlap ck chunks =
     (if overlap_chars ck = 0 \<or> length chunks < 2 then chunks
      else hd chunks # overlap_loop ck (hd chunks) (tl chunks))"

text \<open>\<open>split_text\<close> in its two halves: the packed chunks, then the overlap.\<close>

definition pack_text :: "chunker \<Rightarrow> string \<Rightarrow> string list" where
  "pack_text ck content =
     (let budget = pack_budget ck;
          paras = split_str blank_line (replace_str [CHR 0x0D, CHR 0x0A] newline content);
          units = concat (map (para_units budget) paras)
      in flush (fold (pack_step budget) units ([], [])))"

definition split_text :: "chunker \<Rightarrow> string \<Rightarrow> string list" where
  "split_text ck content = apply_overlap ck (pack_text ck content)"

definition or_insert :: "string \<Rightarrow> string \<Rightarrow> metadata \<Rightarrow> metadata" where
  "or_insert k v m = (if map_of m k = None then m @ [(k, v)] else m)"

definition base_metadata :: "raw_document \<Rightarrow> metadata" where
  "base_metadata d =
     or_insert ''source'' (rd_source d)
       (case rd_title d of Some t \<Rightarrow> or_insert ''title'' t (rd_metadata d) | None \<Rightarrow> rd_metadata d)"

definition chunk_id :: "string \<Rightarrow> nat \<Rightarrow> string" where
  "chunk_id doc i = doc @ ''#'' @ show_nat i"

definition chunk_document :: "chunker \<Rightarrow> raw_document \<Rightarrow> chunk list" where
  "chunk_document ck d =
     map (\<lambda>(i, text). \<lparr>ch_id = chunk_id (rd_id d) i, ch_document_id = rd_id d, ch_index = i,
                       ch_text = text, ch_metadata = base_metadata d, ch_acl = rd_acl d\<rparr>)
       (enumerate 0 (split_text ck (rd_content d)))"

section \<open>Size\<close>

lemma pack_budget_pos: "0 < max_chars ck \<Longrightarrow> 0 < pack_budget ck"
  by (auto simp: pack_budget_def max_def)

lemma pack_budget_le: "0 < max_chars ck \<Longrightarrow> pack_budget ck \<le> max_chars ck"
  by (simp add: pack_budget_def)

lemma slice_chunks_length: "p \<in> set (slice_chunks n xs) \<Longrightarrow> length p \<le> n \<and> p \<noteq> []"
proof (induction n xs rule: slice_chunks.induct)
  case (1 n xs)
  then show ?case
    by (cases "n = 0 \<or> xs = []") (auto simp: slice_chunks.simps [of n xs])
qed

lemma slice_chunks_concat: "0 < n \<Longrightarrow> concat (slice_chunks n xs) = xs"
proof (induction n xs rule: slice_chunks.induct)
  case (1 n xs)
  then show ?case
    by (subst slice_chunks.simps) auto
qed

lemma split_oversized_word_piece:
  assumes "w \<noteq> []" "0 < budget" "p \<in> set (split_oversized_word w budget)"
  shows "p \<noteq> [] \<and> length p \<le> budget"
  using assms slice_chunks_length [of p "max budget 1" w]
  by (auto simp: split_oversized_word_def split: if_splits)

lemma split_oversized_word_concat: "concat (split_oversized_word w budget) = w"
  by (simp add: split_oversized_word_def slice_chunks_concat)

lemma fold_fold_concat: "fold (\<lambda>x s. fold f (g x) s) xs s = fold f (concat (map g xs)) s"
  by (induction xs arbitrary: s) auto

definition spill_pieces :: "string \<Rightarrow> nat \<Rightarrow> string list" where
  "spill_pieces para budget = concat (map (\<lambda>w. split_oversized_word w budget) (split_whitespace para))"

lemma spill_eq: "spill para budget = flush (fold (spill_step budget) (spill_pieces para budget) ([], []))"
  by (simp add: spill_def spill_pieces_def fold_fold_concat)

lemma spill_pieces_ok:
  "0 < budget \<Longrightarrow> p \<in> set (spill_pieces para budget) \<Longrightarrow> p \<noteq> [] \<and> length p \<le> budget"
  using split_whitespace_word by (fastforce simp: spill_pieces_def dest: split_oversized_word_piece)

text \<open>Both packers keep every closed piece and the open one within the budget.\<close>

definition within :: "nat \<Rightarrow> string list \<times> string \<Rightarrow> bool" where
  "within b st = (case st of (out, current) \<Rightarrow> (\<forall>c \<in> set out. c \<noteq> [] \<and> length c \<le> b) \<and> length current \<le> b)"

lemma spill_fold_within:
  "\<forall>p \<in> set ps. p \<noteq> [] \<and> length p \<le> b \<Longrightarrow> within b st \<Longrightarrow> within b (fold (spill_step b) ps st)"
proof (induction ps arbitrary: st)
  case (Cons p ps)
  then have "within b (spill_step b p st)"
    by (auto simp: within_def spill_step_def split: prod.splits)
  with Cons show ?case by simp
qed simp

lemma pack_fold_within:
  "\<forall>p \<in> set ps. p \<noteq> [] \<and> length p \<le> b \<Longrightarrow> within b st \<Longrightarrow> within b (fold (pack_step b) ps st)"
proof (induction ps arbitrary: st)
  case (Cons p ps)
  then have "within b (pack_step b p st)"
    by (auto simp: within_def pack_step_def blank_line_def newline_def split: prod.splits)
  with Cons show ?case by simp
qed simp

lemma flush_within: "within b st \<Longrightarrow> c \<in> set (flush st) \<Longrightarrow> c \<noteq> [] \<and> length c \<le> b"
  by (auto simp: within_def flush_def split: prod.splits if_splits)

lemma within_start: "within b ([], [])"
  by (simp add: within_def)

lemma para_units_ok:
  assumes "0 < b" "u \<in> set (para_units b para)"
  shows "u \<noteq> [] \<and> length u \<le> b"
proof -
  have "v \<noteq> [] \<and> length v \<le> b" if "v \<in> set (spill (trim para) b)" for v
    using that spill_pieces_ok [OF assms(1)]
    by (intro flush_within [OF spill_fold_within [OF _ within_start]]) (auto simp: spill_eq)
  with assms(2) show ?thesis
    by (auto simp: para_units_def Let_def split: if_splits)
qed

lemma pack_text_within:
  assumes "0 < max_chars ck" "c \<in> set (pack_text ck content)"
  shows "c \<noteq> [] \<and> length c \<le> pack_budget ck"
  using assms para_units_ok [OF pack_budget_pos [OF assms(1)]]
  by (intro flush_within [OF pack_fold_within [OF _ within_start]])
    (auto simp: pack_text_def Let_def)

lemma trailing_loop_bound:
  assumes "len \<le> limit"
  shows "let t = trailing_loop limit tk len ws in
     tk \<le> t \<and> t \<le> tk + length ws \<and>
     len + sum_list (map length (take (t - tk) ws)) + (if tk = 0 then (t - tk) - 1 else t - tk) \<le> limit"
  using assms
proof (induction limit tk len ws rule: trailing_loop.induct)
  case (2 limit tk len word words)
  let ?add = "length word + (if tk > 0 then 1 else 0)"
  show ?case
  proof (cases "len + ?add > limit")
    case True
    with 2(2) show ?thesis by (auto simp: Let_def)
  next
    case False
    let ?t = "trailing_loop limit (tk + 1) (len + ?add) words"
    have IH: "tk + 1 \<le> ?t" "?t \<le> tk + 1 + length words"
      "len + ?add + sum_list (map length (take (?t - (tk + 1)) words)) + (?t - (tk + 1)) \<le> limit"
      using 2(1) [of ?add] False by (auto simp: Let_def)
    have "?t - tk = Suc (?t - (tk + 1))" using IH(1) by simp
    with IH False show ?thesis by (auto simp: Let_def)
  qed
qed simp

lemma trailing_words_length: "length (trailing_words s limit) \<le> limit"
proof (cases "limit = 0 \<or> trailing_loop limit 0 0 (rev (split_whitespace s)) = 0")
  case True
  then show ?thesis by (auto simp: trailing_words_def Let_def)
next
  case False
  let ?ws = "split_whitespace s"
  let ?t = "trailing_loop limit 0 0 (rev ?ws)"
  let ?tail = "drop (length ?ws - ?t) ?ws"
  have b: "?t \<le> length ?ws" "sum_list (map length (take ?t (rev ?ws))) + (?t - 1) \<le> limit"
    using trailing_loop_bound [of 0 limit 0 "rev ?ws"] by (auto simp: Let_def)
  have "take ?t (rev ?ws) = rev ?tail" using b(1) by (simp add: rev_drop)
  then have sum: "sum_list (map length (take ?t (rev ?ws))) = sum_list (map length ?tail)"
    by (metis rev_map sum_list_rev)
  have "length ?tail = ?t" using b(1) by simp
  moreover from this False have "?tail \<noteq> []" by fastforce
  ultimately have "length (join_str '' '' ?tail) = sum_list (map length ?tail) + ?t - 1"
    by (simp add: join_str_single_sep_length)
  with sum b(2) False show ?thesis by (simp add: trailing_words_def Let_def)
qed

lemma overlap_one_length:
  assumes "length c \<le> max_chars ck"
  shows "length (overlap_one ck prev c) \<le> max_chars ck"
proof -
  let ?room = "min (max_chars ck - (length c + 1)) (overlap_chars ck)"
  have "length (trailing_words prev ?room) \<le> ?room" by (rule trailing_words_length)
  moreover have "trailing_words prev ?room \<noteq> [] \<Longrightarrow> 0 < ?room"
    using trailing_words_length [of prev ?room] by (metis gr0I le_zero_eq length_0_conv)
  ultimately show ?thesis using assms by (auto simp: overlap_one_def Let_def)
qed

lemma overlap_loop_length:
  "\<forall>c \<in> set cs. length c \<le> max_chars ck \<Longrightarrow> \<forall>c \<in> set (overlap_loop ck prev cs). length c \<le> max_chars ck"
  by (induction ck prev cs rule: overlap_loop.induct) (auto simp: overlap_one_length)

section \<open>Content\<close>

definition nonws :: "string \<Rightarrow> string" where
  "nonws s = filter (\<lambda>c. \<not> is_whitespace c) s"

lemma nonws_simps [simp]:
  "nonws [] = []" "nonws (a @ b) = nonws a @ nonws b" "nonws (nonws s) = nonws s"
  by (simp_all add: nonws_def)

lemma nonws_concat: "nonws (concat ws) = concat (map nonws ws)"
  by (induction ws) auto

lemma nonws_ws: "\<forall>c \<in> set p. is_whitespace c \<Longrightarrow> nonws p = []"
  by (simp add: nonws_def filter_empty_conv)

lemma nonws_separators [simp]: "nonws newline = []" "nonws blank_line = []" "nonws (CHR '' '' # s) = nonws s"
  by (simp_all add: nonws_def newline_def blank_line_def is_whitespace_def)

lemma filter_dropWhile_not: "filter (\<lambda>c. \<not> p c) (dropWhile p s) = filter (\<lambda>c. \<not> p c) s"
  by (induction s) auto

lemma nonws_trim [simp]: "nonws (trim s) = nonws s"
  by (simp add: nonws_def trim_def trim_start_def trim_end_def filter_dropWhile_not rev_filter [symmetric])

lemma nonws_Nil_trim: "(nonws s = []) = (trim s = [])"
proof
  assume "nonws s = []"
  then have "nonws (trim s) = []" by simp
  then show "trim s = []" using trim_hd [of s] by (cases "trim s") (auto simp: nonws_def split: if_splits)
next
  assume "trim s = []"
  then show "nonws s = []" using nonws_trim [of s] by simp
qed

lemma nonws_split_str_acc:
  "nonws p = [] \<Longrightarrow> nonws (concat (split_str_acc p acc s)) = nonws (acc @ s)"
proof (induction p acc s rule: split_str_acc.induct)
  case (2 p acc c cs)
  show ?case
  proof (cases "p \<noteq> [] \<and> starts_with (c # cs) p")
    case True
    have "nonws (c # cs) = nonws (take (length p) (c # cs) @ drop (length p) (c # cs))" by simp
    also have "\<dots> = nonws (drop (length p) (c # cs))"
      using True 2(3) by (simp add: starts_with_def del: append_take_drop_id)
    finally show ?thesis using True 2 by simp
  next
    case False
    then show ?thesis using 2 by (auto simp: nonws_def)
  qed
qed simp

lemma nonws_split_str: "nonws p = [] \<Longrightarrow> nonws (concat (split_str p s)) = nonws s"
  by (simp add: split_str_def nonws_split_str_acc)

lemma nonws_join_str: "nonws t = [] \<Longrightarrow> nonws (join_str t ws) = nonws (concat ws)"
  by (induction t ws rule: join_str.induct) auto

lemma nonws_replace_str: "nonws p = [] \<Longrightarrow> nonws t = [] \<Longrightarrow> nonws (replace_str p t s) = nonws s"
  by (simp add: replace_str_def nonws_join_str nonws_split_str)

lemma nonws_spill_fold:
  "nonws (concat (flush (fold (spill_step b) ps (out, cur)))) = nonws (concat out @ cur @ concat ps)"
proof (induction ps arbitrary: out cur)
  case Nil
  show ?case by (simp add: flush_def)
next
  case (Cons p ps)
  obtain out' cur' where s: "spill_step b p (out, cur) = (out', cur')" by fastforce
  have "nonws (concat out' @ cur') = nonws (concat out @ cur @ p)"
    using s by (auto simp: spill_step_def split: if_splits)
  with Cons [of out' cur'] s show ?case by simp
qed

lemma concat_map_concat: "concat (concat (map f xs)) = concat (map (concat \<circ> f) xs)"
  by (induction xs) auto

lemma nonws_spill: "nonws (concat (spill para b)) = nonws para"
proof -
  have "concat (spill_pieces para b) = concat (map (concat \<circ> (\<lambda>w. split_oversized_word w b)) (split_whitespace para))"
    unfolding spill_pieces_def by (simp add: concat_map_concat)
  also have "\<dots> = concat (split_whitespace para)"
    by (simp add: comp_def split_oversized_word_concat)
  also have "\<dots> = nonws para" by (simp add: split_whitespace_concat nonws_def)
  finally show ?thesis by (simp add: spill_eq nonws_spill_fold)
qed

lemma nonws_para_units: "nonws (concat (para_units b para)) = nonws para"
  using nonws_Nil_trim [of para] nonws_spill [of "trim para" b]
  by (auto simp: para_units_def Let_def)

lemma nonws_pack_fold:
  "nonws (concat (flush (fold (pack_step b) us (out, cur)))) = nonws (concat out @ cur @ concat us)"
proof (induction us arbitrary: out cur)
  case Nil
  show ?case by (simp add: flush_def)
next
  case (Cons u us)
  obtain out' cur' where s: "pack_step b u (out, cur) = (out', cur')" by fastforce
  have "nonws (concat out' @ cur') = nonws (concat out @ cur @ u)"
    using s by (auto simp: pack_step_def split: if_splits)
  with Cons [of out' cur'] s show ?case by simp
qed

lemma nonws_crlf [simp]: "nonws [CHR 0x0D, CHR 0x0A] = []"
  by (simp add: nonws_def is_whitespace_def)

lemma nonws_pack_text: "nonws (concat (pack_text ck content)) = nonws content"
proof -
  let ?paras = "split_str blank_line (replace_str [CHR 0x0D, CHR 0x0A] newline content)"
  have "nonws (concat (concat (map (para_units b) ps))) = nonws (concat ps)" for b ps
    by (induction ps) (auto simp: nonws_para_units)
  then have "nonws (concat (pack_text ck content)) = nonws (concat ?paras)"
    by (simp add: pack_text_def Let_def nonws_pack_fold)
  also have "\<dots> = nonws content" by (simp add: nonws_split_str nonws_replace_str)
  finally show ?thesis .
qed

lemma overlap_one_suffix: "suffix c (overlap_one ck prev c)"
  by (auto simp: overlap_one_def Let_def suffix_def)

lemma overlap_loop_suffix: "list_all2 suffix cs (overlap_loop ck prev cs)"
  by (induction ck prev cs rule: overlap_loop.induct) (auto simp: overlap_one_suffix)

lemma apply_overlap_suffix: "list_all2 suffix cs (apply_overlap ck cs)"
proof (cases cs)
  case (Cons c cs')
  then show ?thesis
    using overlap_loop_suffix [of cs' ck c]
    by (auto simp: apply_overlap_def list_all2_refl)
qed (simp add: apply_overlap_def)

lemma split_text_Nil: "0 < max_chars ck \<Longrightarrow> (split_text ck content = []) = (trim content = [])"
proof -
  assume pos: "0 < max_chars ck"
  have "(split_text ck content = []) = (pack_text ck content = [])"
    using apply_overlap_suffix [of "pack_text ck content" ck] list_all2_lengthD
    by (fastforce simp: split_text_def)
  moreover have "(pack_text ck content = []) = (nonws content = [])"
  proof
    assume "pack_text ck content = []"
    then show "nonws content = []" using nonws_pack_text [of ck content] by simp
  next
    assume nw: "nonws content = []"
    have units: "para_units b para = []" if "nonws para = []" for b para
      using that nonws_Nil_trim by (simp add: para_units_def)
    let ?paras = "split_str blank_line (replace_str [CHR 0x0D, CHR 0x0A] newline content)"
    have "nonws (concat ?paras) = []"
      using nw by (simp add: nonws_split_str nonws_replace_str)
    then have "\<forall>p \<in> set ?paras. nonws p = []" by (simp add: nonws_concat)
    then have "concat (map (para_units (pack_budget ck)) ?paras) = []" using units by simp
    then show "pack_text ck content = []" by (simp add: pack_text_def Let_def flush_def del: concat_eq_Nil_conv)
  qed
  ultimately show ?thesis by (simp add: nonws_Nil_trim)
qed

section \<open>Properties\<close>

text \<open>C36. \<open>max_chars\<close> is a hard cap on every emitted chunk, overlap included, for every chunker
  and every document, and no emitted chunk is empty.\<close>

theorem chunk_hard_cap:
  "list_all (\<lambda>c. ch_text c \<noteq> [] \<and> length (ch_text c) \<le> max m 1) (chunk_document (chunker_new m ov) d)"
proof -
  let ?ck = "chunker_new m ov"
  have pos: "0 < max_chars ?ck" and cap: "max_chars ?ck = max m 1"
    by (simp_all add: chunker_new_def Let_def)
  have packed: "\<forall>c \<in> set (pack_text ?ck (rd_content d)). c \<noteq> [] \<and> length c \<le> max_chars ?ck"
    using pack_text_within [OF pos] pack_budget_le [OF pos] by fastforce
  then have len: "\<forall>c \<in> set (split_text ?ck (rd_content d)). length c \<le> max_chars ?ck"
    using overlap_loop_length [of "tl (pack_text ?ck (rd_content d))" ?ck "hd (pack_text ?ck (rd_content d))"]
    by (cases "pack_text ?ck (rd_content d)") (auto simp: split_text_def apply_overlap_def split: if_splits)
  have ne: "\<forall>c \<in> set (split_text ?ck (rd_content d)). c \<noteq> []"
    using apply_overlap_suffix [of "pack_text ?ck (rd_content d)" ?ck] packed
    by (fastforce simp: split_text_def list_all2_conv_all_nth in_set_conv_nth)
  from len ne cap show ?thesis
    by (auto simp: chunk_document_def list_all_iff in_set_enumerate_eq)
qed

text \<open>C37. Chunking loses nothing: each emitted chunk ends with its packed text, and the packed texts
  together hold exactly the document's non-blank characters, in order. A document yields no chunk
  exactly when it is blank.\<close>

theorem chunking_preserves_content:
  "(\<exists>packed. list_all2 suffix packed (map ch_text (chunk_document (chunker_new m ov) d)) \<and>
      nonws (concat packed) = nonws (rd_content d)) \<and>
   (chunk_document (chunker_new m ov) d = []) = (trim (rd_content d) = [])"
proof -
  let ?ck = "chunker_new m ov"
  have texts: "map ch_text (chunk_document ?ck d) = split_text ?ck (rd_content d)"
    by (simp add: chunk_document_def comp_def case_prod_beta' map_snd_enumerate [unfolded map_eq_conv])
  have pos: "0 < max_chars ?ck" by (simp add: chunker_new_def Let_def)
  have "list_all2 suffix (pack_text ?ck (rd_content d)) (map ch_text (chunk_document ?ck d))"
    unfolding texts split_text_def by (rule apply_overlap_suffix)
  moreover have "nonws (concat (pack_text ?ck (rd_content d))) = nonws (rd_content d)"
    by (rule nonws_pack_text)
  moreover have "(chunk_document ?ck d = []) = (trim (rd_content d) = [])"
    using split_text_Nil [OF pos, of "rd_content d"] by (metis texts map_is_Nil_conv)
  ultimately show ?thesis by blast
qed

text \<open>Chunk identity: the \<open>i\<close>-th chunk of a document has the id \<open>doc#i\<close> and index \<open>i\<close>, the ids of
  one document are distinct, and every chunk carries the document's access labels.\<close>

theorem chunk_ids_stable:
  "map ch_id (chunk_document ck d) = map (chunk_id (rd_id d)) [0..<length (chunk_document ck d)] \<and>
   map ch_index (chunk_document ck d) = [0..<length (chunk_document ck d)] \<and>
   distinct (map ch_id (chunk_document ck d)) \<and>
   list_all (\<lambda>c. ch_acl c = rd_acl d \<and> ch_document_id c = rd_id d) (chunk_document ck d)"
proof -
  let ?n = "length (chunk_document ck d)"
  have n: "?n = length (split_text ck (rd_content d))" by (simp add: chunk_document_def)
  have idx: "map ch_index (chunk_document ck d) = [0..<?n]"
    unfolding n by (simp add: chunk_document_def comp_def case_prod_beta' enumerate_eq_zip)
  have ids: "map ch_id (chunk_document ck d) = map (chunk_id (rd_id d)) [0..<?n]"
    unfolding n by (simp add: chunk_document_def comp_def case_prod_beta' enumerate_eq_zip)
      (rule nth_equalityI, simp_all)
  have "inj (chunk_id (rd_id d))" by (auto simp: inj_def chunk_id_def)
  then have "distinct (map ch_id (chunk_document ck d))"
    unfolding ids by (simp add: distinct_map inj_on_def inj_def)
  then show ?thesis using ids idx by (auto simp: chunk_document_def list_all_iff)
qed

end
