(* ===== verification/Access_Control.thy ===== *)
theory Access_Control
  imports Prelude
begin

text \<open>
  Document-level access control, \<open>rust/smooth-operator/src/access_control.rs\<close>: the
  allow-list of a document, the requester's entitlements, the side table filled at ingest, and
  the reader that filters a knowledge query by tenant and then by allow-list.

  The engine's \<open>KnowledgeBase\<close> and the JSON codec of \<open>DocAcl\<close> are not part of the
  repository. They are the arguments \<open>kb_ingest\<close>, \<open>kb_query\<close> (over an abstract backend
  state \<open>'kb\<close>) and \<open>acl_de\<close>, \<open>acl_ser\<close>.
\<close>

section \<open>Data\<close>

record doc_acl =
  acl_public :: bool
  acl_users :: "string list"
  acl_groups :: "string list"

definition acl_default :: doc_acl where
  "acl_default = \<lparr>acl_public = False, acl_users = [], acl_groups = []\<rparr>"

definition acl_public_doc :: doc_acl where
  "acl_public_doc = acl_default\<lparr>acl_public := True\<rparr>"

definition acl_for_users :: "string list \<Rightarrow> doc_acl" where
  "acl_for_users us = \<lparr>acl_public = False, acl_users = us, acl_groups = []\<rparr>"

definition acl_for_groups :: "string list \<Rightarrow> doc_acl" where
  "acl_for_groups gs = \<lparr>acl_public = False, acl_users = [], acl_groups = gs\<rparr>"

definition acl_with_users :: "doc_acl \<Rightarrow> string list \<Rightarrow> doc_acl" where
  "acl_with_users a us = a\<lparr>acl_users := acl_users a @ us\<rparr>"

definition acl_with_groups :: "doc_acl \<Rightarrow> string list \<Rightarrow> doc_acl" where
  "acl_with_groups a gs = a\<lparr>acl_groups := acl_groups a @ gs\<rparr>"

record document =
  doc_id :: string
  doc_content :: string
  doc_source :: string
  doc_metadata :: "string \<rightharpoonup> string"

text \<open>A retrieval hit. The score is an \<open>f32\<close>, kept as its bit pattern.\<close>

record knowledge_result =
  document_id :: string
  chunk :: string
  score :: "32 word"
  source :: string

definition ACL_METADATA_KEY :: string where
  "ACL_METADATA_KEY = ''acl_v2''"

definition ORG_METADATA_KEY :: string where
  "ORG_METADATA_KEY = ''org_id''"

definition attach_to ::
  "(document \<Rightarrow> string \<Rightarrow> string \<Rightarrow> document) \<Rightarrow> (doc_acl \<Rightarrow> string) \<Rightarrow> doc_acl \<Rightarrow> document \<Rightarrow> document" where
  "attach_to with_metadata acl_ser a d = with_metadata d ACL_METADATA_KEY (acl_ser a)"

definition acl_from_metadata :: "(string \<Rightarrow> doc_acl option) \<Rightarrow> (string \<rightharpoonup> string) \<Rightarrow> doc_acl option" where
  "acl_from_metadata acl_de m =
     (case m ACL_METADATA_KEY of None \<Rightarrow> None | Some raw \<Rightarrow> acl_de raw)"

section \<open>The requester\<close>

record access_context =
  user_id :: "string option"
  ctx_groups :: "string list"
  organization_id :: "string option"
  agent_id :: "string option"

definition access_new :: "string option \<Rightarrow> string list \<Rightarrow> access_context" where
  "access_new u gs = \<lparr>user_id = u, ctx_groups = gs, organization_id = None, agent_id = None\<rparr>"

definition access_for_user :: "string \<Rightarrow> access_context" where
  "access_for_user u = \<lparr>user_id = Some u, ctx_groups = [], organization_id = None, agent_id = None\<rparr>"

definition access_anonymous :: access_context where
  "access_anonymous = \<lparr>user_id = None, ctx_groups = [], organization_id = None, agent_id = None\<rparr>"

definition access_with_group :: "access_context \<Rightarrow> string \<Rightarrow> access_context" where
  "access_with_group c g = c\<lparr>ctx_groups := ctx_groups c @ [g]\<rparr>"

definition with_organization_id :: "access_context \<Rightarrow> string \<Rightarrow> access_context" where
  "with_organization_id c org = c\<lparr>organization_id := Some org\<rparr>"

definition with_agent_id :: "access_context \<Rightarrow> string option \<Rightarrow> access_context" where
  "with_agent_id c a = c\<lparr>agent_id := a\<rparr>"

definition can_access :: "access_context \<Rightarrow> doc_acl \<Rightarrow> bool" where
  "can_access c a =
     (if acl_public a then True
      else if (case user_id c of Some uid \<Rightarrow> list_ex (\<lambda>u. u = uid) (acl_users a) | None \<Rightarrow> False)
      then True
      else list_ex (\<lambda>g. g \<in> set (acl_groups a)) (ctx_groups c))"

section \<open>The store\<close>

record doc_entry =
  entry_org :: "string option"
  entry_acl :: "doc_acl option"

definition entry_default :: doc_entry where
  "entry_default = \<lparr>entry_org = None, entry_acl = None\<rparr>"

type_synonym acl_table = "string \<rightharpoonup> doc_entry"

text \<open>
  The side table sits behind a lock. A lock whose holder panicked is poisoned, and every later
  acquisition fails with an error.
\<close>

record 'kb acl_store =
  inner :: 'kb
  acls :: acl_table
  acls_poisoned :: bool

datatype kb_error = LockPoisoned | Inner string

definition acl_store_new :: "'kb \<Rightarrow> 'kb acl_store" where
  "acl_store_new kb = \<lparr>inner = kb, acls = Map.empty, acls_poisoned = False\<rparr>"

definition entry_or_default :: "acl_table \<Rightarrow> string \<Rightarrow> doc_entry" where
  "entry_or_default t k = (case t k of Some e \<Rightarrow> e | None \<Rightarrow> entry_default)"

definition record_acl :: "'kb acl_store \<Rightarrow> string \<Rightarrow> doc_acl \<Rightarrow> kb_error + 'kb acl_store" where
  "record_acl st d a =
     (if acls_poisoned st then Inl LockPoisoned
      else Inr (st\<lparr>acls := (acls st)(d \<mapsto> (entry_or_default (acls st) d)\<lparr>entry_acl := Some a\<rparr>)\<rparr>))"

definition record_document ::
  "(string \<Rightarrow> doc_acl option) \<Rightarrow> 'kb acl_store \<Rightarrow> document \<Rightarrow> string option \<Rightarrow> kb_error + 'kb acl_store" where
  "record_document acl_de st d bound_org =
     (let org = option_or (doc_metadata d ORG_METADATA_KEY) bound_org;
          acl = acl_from_metadata acl_de (doc_metadata d)
      in if org = None \<and> acl = None then Inr st
         else if acls_poisoned st then Inl LockPoisoned
         else
           let e0 = entry_or_default (acls st) (doc_id d);
               e1 = (if org \<noteq> None then e0\<lparr>entry_org := org\<rparr> else e0);
               e2 = (if acl \<noteq> None then e1\<lparr>entry_acl := acl\<rparr> else e1)
           in Inr (st\<lparr>acls := (acls st)(doc_id d \<mapsto> e2)\<rparr>))"

text \<open>
  \<open>record_document(..)?; self.inner.ingest(doc)\<close>: the side table is updated before the
  backend runs, and keeps the update when the backend fails.
\<close>

definition ingest_bound ::
  "(string \<Rightarrow> doc_acl option) \<Rightarrow> (document \<Rightarrow> 'kb \<Rightarrow> string + 'kb) \<Rightarrow> string option \<Rightarrow> document
    \<Rightarrow> 'kb acl_store \<Rightarrow> (kb_error + unit) \<times> 'kb acl_store" where
  "ingest_bound acl_de kb_ingest bound_org d st =
     (case record_document acl_de st d bound_org of
        Inl e \<Rightarrow> (Inl e, st)
      | Inr st' \<Rightarrow>
          (case kb_ingest d (inner st') of
             Inl msg \<Rightarrow> (Inl (Inner msg), st')
           | Inr kb' \<Rightarrow> (Inr (), st'\<lparr>inner := kb'\<rparr>)))"

definition ingest_handle_ingest ::
  "(string \<Rightarrow> doc_acl option) \<Rightarrow> (document \<Rightarrow> 'kb \<Rightarrow> string + 'kb) \<Rightarrow> document
    \<Rightarrow> 'kb acl_store \<Rightarrow> (kb_error + unit) \<times> 'kb acl_store" where
  "ingest_handle_ingest acl_de kb_ingest d st = ingest_bound acl_de kb_ingest None d st"

definition ingest_handle_query ::
  "('kb \<Rightarrow> string \<Rightarrow> nat \<Rightarrow> string + knowledge_result list) \<Rightarrow> 'kb acl_store \<Rightarrow> string \<Rightarrow> nat
    \<Rightarrow> kb_error + knowledge_result list" where
  "ingest_handle_query kb_query st q limit =
     (case kb_query (inner st) q limit of Inl msg \<Rightarrow> Inl (Inner msg) | Inr rs \<Rightarrow> Inr rs)"

definition reader_ingest ::
  "(string \<Rightarrow> doc_acl option) \<Rightarrow> (document \<Rightarrow> 'kb \<Rightarrow> string + 'kb) \<Rightarrow> access_context \<Rightarrow> document
    \<Rightarrow> 'kb acl_store \<Rightarrow> (kb_error + unit) \<times> 'kb acl_store" where
  "reader_ingest acl_de kb_ingest c d st = ingest_bound acl_de kb_ingest (organization_id c) d st"

definition OVERFETCH_FACTOR :: nat where "OVERFETCH_FACTOR = 5"
definition OVERFETCH_FLOOR :: nat where "OVERFETCH_FLOOR = 20"

definition candidate_n :: "nat \<Rightarrow> nat" where
  "candidate_n limit = max (saturating_mul limit OVERFETCH_FACTOR) OVERFETCH_FLOOR"

definition allowed :: "acl_table \<Rightarrow> access_context \<Rightarrow> knowledge_result \<Rightarrow> bool" where
  "allowed t c r =
     (let entry = t (document_id r);
          same_tenant =
            (case organization_id c of
               Some requester_org \<Rightarrow>
                 (case Option.bind entry entry_org of
                    Some doc_org \<Rightarrow> doc_org = requester_org
                  | None \<Rightarrow> False)
             | None \<Rightarrow> True)
      in same_tenant \<and>
         (case Option.bind entry entry_acl of Some a \<Rightarrow> can_access c a | None \<Rightarrow> True))"

text \<open>The loop over the candidates: push, then stop when the output has \<open>limit\<close> entries.\<close>

fun filter_loop ::
  "acl_table \<Rightarrow> access_context \<Rightarrow> nat \<Rightarrow> knowledge_result list \<Rightarrow> knowledge_result list
    \<Rightarrow> knowledge_result list" where
  "filter_loop t c limit out [] = out"
| "filter_loop t c limit out (r # rs) =
     (if allowed t c r
      then (let out' = out @ [r] in if length out' = limit then out' else filter_loop t c limit out' rs)
      else filter_loop t c limit out rs)"

definition reader_query ::
  "('kb \<Rightarrow> string \<Rightarrow> nat \<Rightarrow> string + knowledge_result list) \<Rightarrow> 'kb acl_store \<Rightarrow> access_context
    \<Rightarrow> string \<Rightarrow> nat \<Rightarrow> kb_error + knowledge_result list" where
  "reader_query kb_query st c q limit =
     (case kb_query (inner st) q (candidate_n limit) of
        Inl msg \<Rightarrow> Inl (Inner msg)
      | Inr candidates \<Rightarrow>
          if acls_poisoned st then Inl LockPoisoned
          else Inr (filter_loop (acls st) c limit [] candidates))"

section \<open>Entitlement\<close>

lemma can_access_iff:
  "can_access c a \<longleftrightarrow>
     acl_public a \<or> (\<exists>u. user_id c = Some u \<and> u \<in> set (acl_users a))
     \<or> set (ctx_groups c) \<inter> set (acl_groups a) \<noteq> {}"
  by (auto simp: can_access_def list_ex_iff split: option.splits)

text \<open>What a requester may be shown, as the module documentation puts it.\<close>

definition entitled :: "acl_table \<Rightarrow> access_context \<Rightarrow> string \<Rightarrow> bool" where
  "entitled t c d \<longleftrightarrow>
     (\<forall>org. organization_id c = Some org \<longrightarrow> (\<exists>e. t d = Some e \<and> entry_org e = Some org)) \<and>
     (\<forall>e a. t d = Some e \<longrightarrow> entry_acl e = Some a \<longrightarrow>
        acl_public a \<or> (\<exists>u. user_id c = Some u \<and> u \<in> set (acl_users a))
        \<or> (\<exists>g \<in> set (ctx_groups c). g \<in> set (acl_groups a)))"

lemma allowed_iff_entitled: "allowed t c r \<longleftrightarrow> entitled t c (document_id r)"
  by (cases "t (document_id r)")
    (auto simp: allowed_def entitled_def can_access_iff split: option.splits)

lemma allowed_eq_entitled: "allowed t c = (\<lambda>r. entitled t c (document_id r))"
  by (simp add: fun_eq_iff allowed_iff_entitled)

section \<open>The filter loop\<close>

lemma filter_loop_take:
  assumes "length out < limit"
  shows "filter_loop t c limit out rs =
           out @ take (limit - length out) (filter (allowed t c) rs)"
  using assms
proof (induction t c limit out rs rule: filter_loop.induct)
  case (2 t c limit out r rs)
  show ?case
  proof (cases "allowed t c r \<and> length out + 1 \<noteq> limit")
    case True
    with 2 have "filter_loop t c limit (out @ [r]) rs =
        (out @ [r]) @ take (limit - length (out @ [r])) (filter (allowed t c) rs)"
      by (simp add: Let_def)
    with True 2 show ?thesis
      by (simp add: Let_def take_Cons' Suc_diff_le [symmetric])
  next
    case False
    with 2 show ?thesis by (auto simp: Let_def take_Cons')
  qed
qed simp

lemma filter_loop_zero:
  "out \<noteq> [] \<or> limit = 0 \<Longrightarrow> limit = 0 \<Longrightarrow> filter_loop t c limit out rs = out @ filter (allowed t c) rs"
  by (induction t c limit out rs rule: filter_loop.induct) (auto simp: Let_def)

lemma filter_loop_allowed:
  "r \<in> set (filter_loop t c limit out rs) \<Longrightarrow> r \<in> set out \<or> (r \<in> set rs \<and> allowed t c r)"
  by (induction t c limit out rs rule: filter_loop.induct) (auto simp: Let_def split: if_splits)

section \<open>The contract of a requester-bound reader\<close>

text \<open>
  What the clients of a reader (the search tool, the turn's retrieval) rely on: a result that a
  query returns is visible to the requester, and a query for a positive number of results never
  returns more.
\<close>

locale bound_reader =
  fixes query :: "string \<Rightarrow> nat \<Rightarrow> 'e + knowledge_result list"
    and visible :: "string \<Rightarrow> bool"
  assumes query_sound: "query q n = Inr rs \<Longrightarrow> r \<in> set rs \<Longrightarrow> visible (document_id r)"
    and query_bounded: "0 < n \<Longrightarrow> query q n = Inr rs \<Longrightarrow> length rs \<le> n"
begin

lemma hidden_never_returned:
  "query q n = Inr rs \<Longrightarrow> \<not> visible d \<Longrightarrow> d \<notin> document_id ` set rs"
  using query_sound by blast

end

interpretation acl_reader: bound_reader "reader_query kb_query st c" "entitled (acls st) c"
  for kb_query :: "'kb \<Rightarrow> string \<Rightarrow> nat \<Rightarrow> string + knowledge_result list"
    and st :: "'kb acl_store" and c :: access_context
proof unfold_locales
  fix q n rs r
  assume "reader_query kb_query st c q n = Inr rs" "r \<in> set rs"
  then show "entitled (acls st) c (document_id r)"
    by (auto simp: reader_query_def allowed_iff_entitled [symmetric]
        split: sum.splits if_splits dest: filter_loop_allowed)
next
  fix q n rs
  assume "0 < (n::nat)" "reader_query kb_query st c q n = Inr rs"
  then show "length rs \<le> n"
    by (auto simp: reader_query_def filter_loop_take split: sum.splits if_splits)
qed

section \<open>The side table under ingest\<close>

lemma record_document_acls:
  assumes "record_document acl_de st d b = Inr st'"
  shows "acls st' x =
    (if x = doc_id d \<and>
        (option_or (doc_metadata d ORG_METADATA_KEY) b \<noteq> None \<or> acl_from_metadata acl_de (doc_metadata d) \<noteq> None)
     then Some \<lparr>entry_org = option_or (option_or (doc_metadata d ORG_METADATA_KEY) b) (entry_org (entry_or_default (acls st) x)),
                entry_acl = option_or (acl_from_metadata acl_de (doc_metadata d)) (entry_acl (entry_or_default (acls st) x))\<rparr>
     else acls st x)"
  using assms
  by (auto simp: record_document_def Let_def split: if_splits)

lemma record_document_frame:
  "record_document acl_de st d b = Inr st' \<Longrightarrow> inner st' = inner st \<and> acls_poisoned st' = acls_poisoned st"
  by (auto simp: record_document_def Let_def split: if_splits)

lemma ingest_bound_acls:
  assumes "ingest_bound acl_de kb_ingest b d st = (r, st')"
  shows "st' = st \<or> (\<exists>st1. record_document acl_de st d b = Inr st1 \<and> acls st' = acls st1 \<and>
           acls_poisoned st' = acls_poisoned st)"
  using assms record_document_frame
  by (fastforce simp: ingest_bound_def split: sum.splits)

text \<open>A run of ingests through the two kinds of handle.\<close>

datatype ingest_op = ViaHandle document | ViaReader access_context document

fun op_doc :: "ingest_op \<Rightarrow> document" where
  "op_doc (ViaHandle d) = d"
| "op_doc (ViaReader _ d) = d"

fun op_org :: "ingest_op \<Rightarrow> string option" where
  "op_org (ViaHandle d) = doc_metadata d ORG_METADATA_KEY"
| "op_org (ViaReader c d) = option_or (doc_metadata d ORG_METADATA_KEY) (organization_id c)"

fun ingest_step ::
  "(string \<Rightarrow> doc_acl option) \<Rightarrow> (document \<Rightarrow> 'kb \<Rightarrow> string + 'kb) \<Rightarrow> ingest_op
    \<Rightarrow> 'kb acl_store \<Rightarrow> 'kb acl_store" where
  "ingest_step acl_de kb_ingest (ViaHandle d) st = snd (ingest_handle_ingest acl_de kb_ingest d st)"
| "ingest_step acl_de kb_ingest (ViaReader c d) st = snd (reader_ingest acl_de kb_ingest c d st)"

definition ingest_run ::
  "(string \<Rightarrow> doc_acl option) \<Rightarrow> (document \<Rightarrow> 'kb \<Rightarrow> string + 'kb) \<Rightarrow> ingest_op list
    \<Rightarrow> 'kb acl_store \<Rightarrow> 'kb acl_store" where
  "ingest_run acl_de kb_ingest ops st = fold (ingest_step acl_de kb_ingest) ops st"

lemma ingest_step_bound:
  "\<exists>b. ingest_step acl_de kb_ingest op st = snd (ingest_bound acl_de kb_ingest b (op_doc op) st)
       \<and> op_org op = option_or (doc_metadata (op_doc op) ORG_METADATA_KEY) b"
proof (cases op)
  case (ViaHandle d)
  then show ?thesis
    by (intro exI [of _ None]) (cases "doc_metadata d ORG_METADATA_KEY"; simp add: ingest_handle_ingest_def)
next
  case (ViaReader c d)
  then show ?thesis
    by (intro exI [of _ "organization_id c"]) (simp add: reader_ingest_def)
qed

lemma ingest_step_acl_kept:
  assumes "\<exists>e. acls st x = Some e \<and> entry_acl e = Some a"
    and "doc_id (op_doc op) = x \<longrightarrow> acl_from_metadata acl_de (doc_metadata (op_doc op)) = None"
  shows "\<exists>e. acls (ingest_step acl_de kb_ingest op st) x = Some e \<and> entry_acl e = Some a"
proof -
  obtain b where b: "ingest_step acl_de kb_ingest op st = snd (ingest_bound acl_de kb_ingest b (op_doc op) st)"
    using ingest_step_bound by blast
  obtain r st' where st': "ingest_bound acl_de kb_ingest b (op_doc op) st = (r, st')" by fastforce
  from ingest_bound_acls [OF st'] show ?thesis
  proof
    assume "st' = st"
    with b st' assms(1) show ?thesis by simp
  next
    assume "\<exists>st1. record_document acl_de st (op_doc op) b = Inr st1 \<and> acls st' = acls st1 \<and>
           acls_poisoned st' = acls_poisoned st"
    then obtain st1 where st1: "record_document acl_de st (op_doc op) b = Inr st1" "acls st' = acls st1"
      by blast
    from record_document_acls [OF st1(1), of x] assms b st' st1(2) show ?thesis
      by (auto simp: entry_or_default_def)
  qed
qed

lemma ingest_run_acl_kept:
  assumes "\<exists>e. acls st x = Some e \<and> entry_acl e = Some a"
    and "\<forall>op \<in> set ops. doc_id (op_doc op) = x \<longrightarrow> acl_from_metadata acl_de (doc_metadata (op_doc op)) = None"
  shows "\<exists>e. acls (ingest_run acl_de kb_ingest ops st) x = Some e \<and> entry_acl e = Some a"
  using assms
proof (induction ops arbitrary: st)
  case (Cons op ops)
  then show ?case
    using ingest_step_acl_kept [of st x a op acl_de kb_ingest] by (simp add: ingest_run_def)
qed (simp add: ingest_run_def)

lemma ingest_step_org_changes:
  assumes "doc_id (op_doc op) = x \<longrightarrow> op_org op = None \<or> op_org op = Some org"
    and "\<exists>e. acls st x = Some e \<and> entry_org e = Some org"
  shows "\<exists>e. acls (ingest_step acl_de kb_ingest op st) x = Some e \<and> entry_org e = Some org"
proof -
  obtain b where b: "ingest_step acl_de kb_ingest op st = snd (ingest_bound acl_de kb_ingest b (op_doc op) st)"
    "op_org op = option_or (doc_metadata (op_doc op) ORG_METADATA_KEY) b"
    using ingest_step_bound by blast
  obtain r st' where st': "ingest_bound acl_de kb_ingest b (op_doc op) st = (r, st')" by fastforce
  from ingest_bound_acls [OF st'] show ?thesis
  proof
    assume "st' = st"
    with b st' assms(2) show ?thesis by simp
  next
    assume "\<exists>st1. record_document acl_de st (op_doc op) b = Inr st1 \<and> acls st' = acls st1 \<and>
           acls_poisoned st' = acls_poisoned st"
    then obtain st1 where st1: "record_document acl_de st (op_doc op) b = Inr st1" "acls st' = acls st1"
      by blast
    from record_document_acls [OF st1(1), of x] assms b st' st1(2) show ?thesis
      by (auto simp: entry_or_default_def)
  qed
qed

lemma ingest_run_org_kept:
  assumes "\<exists>e. acls st x = Some e \<and> entry_org e = Some org"
    and "\<forall>op \<in> set ops. doc_id (op_doc op) = x \<longrightarrow> op_org op = None \<or> op_org op = Some org"
  shows "\<exists>e. acls (ingest_run acl_de kb_ingest ops st) x = Some e \<and> entry_org e = Some org"
  using assms
proof (induction ops arbitrary: st)
  case (Cons op ops)
  then show ?case
    using ingest_step_org_changes [of op x org st acl_de kb_ingest] by (simp add: ingest_run_def)
qed (simp add: ingest_run_def)

lemma stamped_document_hidden:
  assumes acl: "acl_from_metadata acl_de (doc_metadata d) = Some a"
    and ok: "\<not> acls_poisoned st"
    and later: "\<forall>op \<in> set ops. doc_id (op_doc op) = doc_id d \<longrightarrow>
                  acl_from_metadata acl_de (doc_metadata (op_doc op)) = None"
    and denied: "\<not> can_access c a"
    and query: "reader_query kb_query
        (ingest_run acl_de kb_ingest ops (snd (ingest_handle_ingest acl_de kb_ingest d st))) c q limit = Inr rs"
  shows "doc_id d \<notin> document_id ` set rs"
proof -
  let ?st1 = "snd (ingest_handle_ingest acl_de kb_ingest d st)"
  obtain st1 where st1: "record_document acl_de st d None = Inr st1"
    using acl ok by (auto simp: record_document_def Let_def)
  then have "acls ?st1 = acls st1"
    by (auto simp: ingest_handle_ingest_def ingest_bound_def split: sum.splits)
  then have "\<exists>e. acls ?st1 (doc_id d) = Some e \<and> entry_acl e = Some a"
    using record_document_acls [OF st1, of "doc_id d"] acl by simp
  from ingest_run_acl_kept [OF this later, of kb_ingest] obtain e where
    "acls (ingest_run acl_de kb_ingest ops ?st1) (doc_id d) = Some e" "entry_acl e = Some a" by blast
  then have "\<not> entitled (acls (ingest_run acl_de kb_ingest ops ?st1)) c (doc_id d)"
    using denied by (auto simp: entitled_def can_access_iff)
  with query show ?thesis by (rule acl_reader.hidden_never_returned)
qed

section \<open>Properties\<close>

text \<open>C1. Whatever the knowledge backend answers, every result that a requester-bound reader
  returns is one the requester is entitled to: it belongs to the requester's organization when one
  is resolved, and its recorded allow-list, if any, admits the requester.\<close>

theorem reader_query_entitled:
  assumes "reader_query kb_query st c q limit = Inr rs" and "r \<in> set rs"
  shows "entitled (acls st) c (document_id r)"
  using assms by (rule acl_reader.query_sound)

text \<open>For a positive limit the reader returns exactly the first \<open>limit\<close> entitled candidates
  of the over-fetched pool, in the backend's order.\<close>

theorem reader_query_top_k:
  assumes "0 < limit"
    and "kb_query (inner st) q (candidate_n limit) = Inr cs"
    and "\<not> acls_poisoned st"
  shows "reader_query kb_query st c q limit =
           Inr (take limit (filter (\<lambda>r. entitled (acls st) c (document_id r)) cs))"
  using assms by (simp add: reader_query_def filter_loop_take allowed_eq_entitled)

text \<open>The early exit of the loop tests the length after the push, so a query for zero results
  is not cut at all: it returns every entitled candidate of the pool.\<close>

theorem reader_query_limit_zero:
  assumes "kb_query (inner st) q 20 = Inr cs" and "\<not> acls_poisoned st"
  shows "reader_query kb_query st c q 0 =
           Inr (filter (\<lambda>r. entitled (acls st) c (document_id r)) cs)"
  using assms
  by (simp add: reader_query_def filter_loop_zero allowed_eq_entitled candidate_n_def
      saturating_mul_def OVERFETCH_FLOOR_def)

text \<open>C2. A restriction sticks. Once a document stamped with an allow-list has gone through the
  ingest handle, a requester whom that list does not admit never sees it, after any later sequence
  of ingests through any handle, as long as none of them stamps a new allow-list on the same id,
  and whatever the backend does.\<close>

theorem restricted_document_stays_hidden:
  assumes codec: "acl_de (acl_ser a) = Some a"
    and meta: "doc_id (with_metadata d ACL_METADATA_KEY (acl_ser a)) = doc_id d"
      "doc_metadata (with_metadata d ACL_METADATA_KEY (acl_ser a)) = (doc_metadata d)(ACL_METADATA_KEY \<mapsto> acl_ser a)"
    and ok: "\<not> acls_poisoned st"
    and later: "\<forall>op \<in> set ops. doc_id (op_doc op) = doc_id d \<longrightarrow>
                  acl_from_metadata acl_de (doc_metadata (op_doc op)) = None"
    and denied: "\<not> can_access c a"
    and query: "reader_query kb_query
        (ingest_run acl_de kb_ingest ops
          (snd (ingest_handle_ingest acl_de kb_ingest (attach_to with_metadata acl_ser a d) st))) c q limit = Inr rs"
  shows "doc_id d \<notin> document_id ` set rs"
proof -
  let ?d = "attach_to with_metadata acl_ser a d"
  have acl: "acl_from_metadata acl_de (doc_metadata ?d) = Some a" and id: "doc_id ?d = doc_id d"
    using codec meta by (simp_all add: attach_to_def acl_from_metadata_def)
  from later have "\<forall>op \<in> set ops. doc_id (op_doc op) = doc_id ?d \<longrightarrow>
      acl_from_metadata acl_de (doc_metadata (op_doc op)) = None"
    by (simp only: id)
  from stamped_document_hidden [OF acl ok this denied query] show ?thesis by (simp add: id)
qed


section \<open>Witnesses\<close>

text \<open>A backend holding its documents in a list and answering with the first \<open>n\<close>.\<close>

definition hit :: "string \<Rightarrow> knowledge_result" where
  "hit d = \<lparr>document_id = d, chunk = [], score = 0, source = []\<rparr>"

definition list_kb_ingest :: "document \<Rightarrow> string list \<Rightarrow> string + string list" where
  "list_kb_ingest d kb = Inr (kb @ [doc_id d])"

definition list_kb_query :: "string list \<Rightarrow> string \<Rightarrow> nat \<Rightarrow> string + knowledge_result list" where
  "list_kb_query kb q n = Inr (map hit (take n kb))"

definition plain_doc :: "string \<Rightarrow> document" where
  "plain_doc d = \<lparr>doc_id = d, doc_content = [], doc_source = [], doc_metadata = Map.empty\<rparr>"

definition doc_with :: "document \<Rightarrow> string \<Rightarrow> string \<Rightarrow> document" where
  "doc_with d k v = d\<lparr>doc_metadata := (doc_metadata d)(k \<mapsto> v)\<rparr>"

lemmas list_kb_defs = list_kb_ingest_def list_kb_query_def plain_doc_def doc_with_def hit_def
  acl_store_new_def reader_query_def candidate_n_def saturating_mul_def usize_max_def
  OVERFETCH_FLOOR_def OVERFETCH_FACTOR_def ingest_run_def ingest_handle_ingest_def reader_ingest_def
  ingest_bound_def record_document_def entry_or_default_def entry_default_def acl_from_metadata_def
  attach_to_def ACL_METADATA_KEY_def ORG_METADATA_KEY_def allowed_def can_access_def
  access_for_user_def access_anonymous_def acl_for_users_def with_organization_id_def

theorem reader_query_entitled_witness:
  "reader_query list_kb_query (acl_store_new [''a'', ''b'']) access_anonymous ''q'' 1 = Inr [hit ''a''] \<and>
   entitled Map.empty access_anonymous ''a''"
proof -
  have q: "reader_query list_kb_query (acl_store_new [''a'', ''b'']) access_anonymous ''q'' 1 = Inr [hit ''a'']"
    by (simp add: list_kb_defs)
  have "entitled (acls (acl_store_new [''a'', ''b''])) access_anonymous (document_id (hit ''a''))"
    by (rule reader_query_entitled [OF q]) simp
  with q show ?thesis by (simp add: acl_store_new_def hit_def)
qed

theorem reader_query_top_k_witness:
  "reader_query list_kb_query (acl_store_new [''a'', ''b'', ''c'']) access_anonymous ''q'' 2
     = Inr [hit ''a'', hit ''b'']"
proof -
  let ?st = "acl_store_new [''a'', ''b'', ''c'']"
  have "list_kb_query (inner ?st) ''q'' (candidate_n 2) = Inr [hit ''a'', hit ''b'', hit ''c'']"
    by (simp add: list_kb_defs)
  then show ?thesis
    using reader_query_top_k [where limit = 2 and kb_query = list_kb_query and st = ?st and q = "''q''"
        and c = access_anonymous]
    by (simp add: acl_store_new_def entitled_def access_anonymous_def numeral_2_eq_2)
qed

theorem reader_query_limit_zero_witness:
  "reader_query list_kb_query (acl_store_new [''a'', ''b'']) access_anonymous ''q'' 0
     = Inr [hit ''a'', hit ''b'']"
proof -
  let ?st = "acl_store_new [''a'', ''b'']"
  have "list_kb_query (inner ?st) ''q'' 20 = Inr [hit ''a'', hit ''b'']"
    by (simp add: list_kb_defs)
  then show ?thesis
    using reader_query_limit_zero [where kb_query = list_kb_query and st = ?st and q = "''q''"
        and c = access_anonymous]
    by (simp add: acl_store_new_def entitled_def access_anonymous_def)
qed

text \<open>Document \<open>d\<close> is stamped for one user, then ingested again without a stamp, beside an
  unrestricted document \<open>e\<close>.\<close>

definition stamped_run :: "string list acl_store" where
  "stamped_run =
     ingest_run (\<lambda>_. Some (acl_for_users [''alice''])) list_kb_ingest
       [ViaHandle (plain_doc ''e''), ViaHandle (plain_doc ''d'')]
       (snd (ingest_handle_ingest (\<lambda>_. Some (acl_for_users [''alice''])) list_kb_ingest
          (attach_to doc_with (\<lambda>_. ''acl'') (acl_for_users [''alice'']) (plain_doc ''d''))
          (acl_store_new [])))"

theorem restricted_document_stays_hidden_witness:
  "inner stamped_run = [''d'', ''e'', ''d''] \<and>
   reader_query list_kb_query stamped_run (access_for_user ''bob'') ''q'' 3 = Inr [hit ''e''] \<and>
   ''d'' \<notin> document_id ` set [hit ''e'']"
proof -
  have i: "inner stamped_run = [''d'', ''e'', ''d'']"
    by (simp add: stamped_run_def list_kb_defs Let_def)
  have q: "reader_query list_kb_query stamped_run (access_for_user ''bob'') ''q'' 3 = Inr [hit ''e'']"
    by (simp add: stamped_run_def list_kb_defs Let_def)
  have "doc_id (plain_doc ''d'') \<notin> document_id ` set [hit ''e'']"
    by (rule restricted_document_stays_hidden
          [where with_metadata = doc_with and acl_ser = "\<lambda>_. ''acl''" and a = "acl_for_users [''alice'']",
           OF _ _ _ _ _ _ q [unfolded stamped_run_def]])
      (simp_all add: list_kb_defs)
  with i q show ?thesis by (simp add: plain_doc_def)
qed

definition org_run :: "string list acl_store" where
  "org_run =
     ingest_run (\<lambda>_. None) list_kb_ingest
       [ViaReader (with_organization_id access_anonymous ''org2'') (plain_doc ''e'')]
       (snd (reader_ingest (\<lambda>_. None) list_kb_ingest (with_organization_id access_anonymous ''org1'')
          (plain_doc ''d'') (acl_store_new [])))"


end
