(* ===== verification/Curation.thy ===== *)
theory Curation
  imports Access_Control "HOL-Library.Multiset"
begin

text \<open>
  Document sets, boosts and metadata filters, \<open>rust/smooth-operator/src/curation.rs\<close>: the
  curation metadata recorded at ingest, the retrieval filter, and the reader that filters by
  allow-list, filters by curation, boosts, re-sorts and truncates.

  An \<open>f32\<close> is its bit pattern. Multiplication, parsing and printing of floats are the arguments
  \<open>f32_mul\<close>, \<open>f32_parse\<close> and \<open>f32_show\<close>; finiteness, the sign and the total order are
  computed on the bits.
\<close>

section \<open>Floats by their bits\<close>

definition f32_one :: "32 word" where
  "f32_one = 0x3F800000"

definition f32_is_finite :: "32 word \<Rightarrow> bool" where
  "f32_is_finite b = ((unat b div 2 ^ 23) mod 256 \<noteq> 255)"

definition f32_sign :: "32 word \<Rightarrow> bool" where
  "f32_sign b = (2 ^ 31 \<le> unat b)"

text \<open>\<open>b.max(0.0)\<close> for a \<open>b\<close> that is not a NaN. Of the two zeros the language leaves open which
  one comes back for \<open>-0.0\<close>; the model takes the positive one, and \<open>f32_nonneg\<close> admits both.\<close>

definition f32_max_zero :: "32 word \<Rightarrow> 32 word" where
  "f32_max_zero b = (if f32_sign b then 0 else b)"

definition f32_nonneg :: "32 word \<Rightarrow> bool" where
  "f32_nonneg b = (unat b \<le> 2 ^ 31)"

text \<open>The order of \<open>f32::total_cmp\<close>, as an order-preserving key.\<close>

definition f32_total_key :: "32 word \<Rightarrow> int" where
  "f32_total_key b = (if f32_sign b then - 1 - (int (unat b) - 2 ^ 31) else int (unat b))"

section \<open>Document metadata\<close>

record doc_meta =
  document_sets :: "string list"
  boost :: "32 word"
  meta_map :: "string \<rightharpoonup> string"

definition DOCUMENT_SET_KEY :: string where "DOCUMENT_SET_KEY = ''document_set''"
definition BOOST_KEY :: string where "BOOST_KEY = ''boost''"
definition DEFAULT_BOOST :: "32 word" where "DEFAULT_BOOST = f32_one"

definition split_comma :: "string \<Rightarrow> string list" where
  "split_comma s = split_by (\<lambda>c. c = CHR '','') s"

definition parse_sets :: "(string \<rightharpoonup> string) \<Rightarrow> string list" where
  "parse_sets m =
     (case m DOCUMENT_SET_KEY of
        None \<Rightarrow> []
      | Some raw \<Rightarrow> filter (\<lambda>s. s \<noteq> []) (map trim (split_comma raw)))"

definition parse_boost :: "(string \<Rightarrow> 32 word option) \<Rightarrow> (string \<rightharpoonup> string) \<Rightarrow> 32 word" where
  "parse_boost f32_parse m =
     unwrap_or
       (map_option f32_max_zero
          (option_filter f32_is_finite (Option.bind (m BOOST_KEY) (\<lambda>raw. f32_parse (trim raw)))))
       DEFAULT_BOOST"

definition meta_from_metadata :: "(string \<Rightarrow> 32 word option) \<Rightarrow> (string \<rightharpoonup> string) \<Rightarrow> doc_meta" where
  "meta_from_metadata f32_parse m =
     \<lparr>document_sets = parse_sets m, boost = parse_boost f32_parse m, meta_map = m\<rparr>"

definition meta_from_document :: "(string \<Rightarrow> 32 word option) \<Rightarrow> document \<Rightarrow> doc_meta" where
  "meta_from_document f32_parse d = meta_from_metadata f32_parse (doc_metadata d)"

definition in_set :: "doc_meta \<Rightarrow> string \<Rightarrow> bool" where
  "in_set m s = list_ex (\<lambda>t. t = s) (document_sets m)"

definition with_document_set ::
  "(document \<Rightarrow> string \<Rightarrow> string \<Rightarrow> document) \<Rightarrow> document \<Rightarrow> string list \<Rightarrow> document" where
  "with_document_set with_metadata d sets =
     (let joined = join_str '','' (filter (\<lambda>s. trim s \<noteq> []) sets) in
      if joined = [] then d else with_metadata d DOCUMENT_SET_KEY joined)"

definition with_boost ::
  "(document \<Rightarrow> string \<Rightarrow> string \<Rightarrow> document) \<Rightarrow> (32 word \<Rightarrow> string) \<Rightarrow> document \<Rightarrow> 32 word \<Rightarrow> document" where
  "with_boost with_metadata f32_show d b =
     with_metadata d BOOST_KEY (f32_show (if f32_is_finite b then f32_max_zero b else DEFAULT_BOOST))"

section \<open>The retrieval filter\<close>

record retrieval_filter =
  filter_sets :: "string list option"
  metadata_eq :: "(string \<times> string) list"

definition filter_none :: retrieval_filter where
  "filter_none = \<lparr>filter_sets = None, metadata_eq = []\<rparr>"

definition filter_in_sets :: "string list \<Rightarrow> retrieval_filter" where
  "filter_in_sets sets = \<lparr>filter_sets = Some sets, metadata_eq = []\<rparr>"

fun alist_insert :: "string \<Rightarrow> string \<Rightarrow> (string \<times> string) list \<Rightarrow> (string \<times> string) list" where
  "alist_insert k v [] = [(k, v)]"
| "alist_insert k v ((k', v') # m) = (if k' = k then (k, v) # m else (k', v') # alist_insert k v m)"

definition with_metadata_eq :: "retrieval_filter \<Rightarrow> string \<Rightarrow> string \<Rightarrow> retrieval_filter" where
  "with_metadata_eq f k v = f\<lparr>metadata_eq := alist_insert k v (metadata_eq f)\<rparr>"

definition is_unconstrained :: "retrieval_filter \<Rightarrow> bool" where
  "is_unconstrained f = (filter_sets f = None \<and> metadata_eq f = [])"

definition filter_matches :: "retrieval_filter \<Rightarrow> doc_meta \<Rightarrow> bool" where
  "filter_matches f m =
     (if (case filter_sets f of Some sets \<Rightarrow> \<not> list_ex (in_set m) sets | None \<Rightarrow> False) then False
      else list_all (\<lambda>(k, v). case meta_map m k of Some mv \<Rightarrow> mv = v | None \<Rightarrow> False) (metadata_eq f))"

section \<open>The curated store\<close>

record 'kb curated_store =
  cs_inner :: 'kb
  cs_meta :: "string \<rightharpoonup> doc_meta"
  cs_acls :: "string \<rightharpoonup> doc_acl"
  cs_meta_poisoned :: bool
  cs_acls_poisoned :: bool

datatype curated_error = MetaLockPoisoned | AclLockPoisoned | CuratedInner string

definition curated_store_new :: "'kb \<Rightarrow> 'kb curated_store" where
  "curated_store_new kb =
     \<lparr>cs_inner = kb, cs_meta = Map.empty, cs_acls = Map.empty, cs_meta_poisoned = False, cs_acls_poisoned = False\<rparr>"

definition record_meta :: "'kb curated_store \<Rightarrow> string \<Rightarrow> doc_meta \<Rightarrow> curated_error + 'kb curated_store" where
  "record_meta st d m =
     (if cs_meta_poisoned st then Inl MetaLockPoisoned else Inr (st\<lparr>cs_meta := (cs_meta st)(d \<mapsto> m)\<rparr>))"

text \<open>On an error after the metadata table was written, that write stays: the state is returned
  beside the result.\<close>

definition record_ingest_metadata ::
  "(string \<Rightarrow> doc_acl option) \<Rightarrow> (string \<Rightarrow> 32 word option) \<Rightarrow> document \<Rightarrow> 'kb curated_store
    \<Rightarrow> (curated_error + unit) \<times> 'kb curated_store" where
  "record_ingest_metadata acl_de f32_parse d st =
     (if cs_meta_poisoned st then (Inl MetaLockPoisoned, st)
      else
        let st1 = st\<lparr>cs_meta := (cs_meta st)(doc_id d \<mapsto> meta_from_document f32_parse d)\<rparr> in
        case acl_from_metadata acl_de (doc_metadata d) of
          None \<Rightarrow> (Inr (), st1)
        | Some a \<Rightarrow>
            if cs_acls_poisoned st1 then (Inl AclLockPoisoned, st1)
            else (Inr (), st1\<lparr>cs_acls := (cs_acls st1)(doc_id d \<mapsto> a)\<rparr>))"

text \<open>Both handles ingest alike.\<close>

definition curated_ingest ::
  "(string \<Rightarrow> doc_acl option) \<Rightarrow> (string \<Rightarrow> 32 word option) \<Rightarrow> (document \<Rightarrow> 'kb \<Rightarrow> string + 'kb)
    \<Rightarrow> document \<Rightarrow> 'kb curated_store \<Rightarrow> (curated_error + unit) \<times> 'kb curated_store" where
  "curated_ingest acl_de f32_parse kb_ingest d st =
     (case record_ingest_metadata acl_de f32_parse d st of
        (Inl e, st1) \<Rightarrow> (Inl e, st1)
      | (Inr _, st1) \<Rightarrow>
          (case kb_ingest d (cs_inner st1) of
             Inl msg \<Rightarrow> (Inl (CuratedInner msg), st1)
           | Inr kb' \<Rightarrow> (Inr (), st1\<lparr>cs_inner := kb'\<rparr>)))"

definition curated_handle_query ::
  "('kb \<Rightarrow> string \<Rightarrow> nat \<Rightarrow> string + knowledge_result list) \<Rightarrow> 'kb curated_store \<Rightarrow> string \<Rightarrow> nat
    \<Rightarrow> curated_error + knowledge_result list" where
  "curated_handle_query kb_query st q limit =
     (case kb_query (cs_inner st) q limit of Inl msg \<Rightarrow> Inl (CuratedInner msg) | Inr rs \<Rightarrow> Inr rs)"

definition empty_meta :: doc_meta where
  "empty_meta = \<lparr>document_sets = [], boost = DEFAULT_BOOST, meta_map = Map.empty\<rparr>"

definition meta_for_match :: "'kb curated_store \<Rightarrow> string \<Rightarrow> doc_meta" where
  "meta_for_match st d = unwrap_or (cs_meta st d) empty_meta"

definition curated_keep ::
  "(32 word \<Rightarrow> 32 word \<Rightarrow> 32 word) \<Rightarrow> 'kb curated_store \<Rightarrow> retrieval_filter \<Rightarrow> access_context
    \<Rightarrow> knowledge_result \<Rightarrow> knowledge_result option" where
  "curated_keep f32_mul st f c r =
     (if \<not> (case cs_acls st (document_id r) of Some a \<Rightarrow> can_access c a | None \<Rightarrow> True) then None
      else
        let m = meta_for_match st (document_id r) in
        if \<not> filter_matches f m then None
        else Some (r\<lparr>score := f32_mul (score r) (boost m)\<rparr>))"

text \<open>\<open>sort_by(|a, b| b.score.total_cmp(&a.score))\<close> is a stable sort.\<close>

definition sort_by_score :: "knowledge_result list \<Rightarrow> knowledge_result list" where
  "sort_by_score rs = sort_key (\<lambda>r. - f32_total_key (score r)) rs"

definition curated_query ::
  "(32 word \<Rightarrow> 32 word \<Rightarrow> 32 word) \<Rightarrow> ('kb \<Rightarrow> string \<Rightarrow> nat \<Rightarrow> string + knowledge_result list)
    \<Rightarrow> 'kb curated_store \<Rightarrow> retrieval_filter \<Rightarrow> access_context \<Rightarrow> string \<Rightarrow> nat
    \<Rightarrow> curated_error + knowledge_result list" where
  "curated_query f32_mul kb_query st f c q limit =
     (if limit = 0 then Inr []
      else case kb_query (cs_inner st) q (candidate_n limit) of
             Inl msg \<Rightarrow> Inl (CuratedInner msg)
           | Inr candidates \<Rightarrow>
               if cs_meta_poisoned st then Inl MetaLockPoisoned
               else if cs_acls_poisoned st then Inl AclLockPoisoned
               else Inr (take limit (sort_by_score (filter_map (curated_keep f32_mul st f c) candidates))))"

section \<open>Lemmas\<close>

definition curated_visible :: "'kb curated_store \<Rightarrow> retrieval_filter \<Rightarrow> access_context \<Rightarrow> string \<Rightarrow> bool" where
  "curated_visible st f c d \<longleftrightarrow>
     (case cs_acls st d of Some a \<Rightarrow> can_access c a | None \<Rightarrow> True) \<and> filter_matches f (meta_for_match st d)"

lemma curated_keep_Some:
  "curated_keep f32_mul st f c r = Some r' \<Longrightarrow>
     document_id r' = document_id r \<and> curated_visible st f c (document_id r) \<and>
     r' = r\<lparr>score := f32_mul (score r) (boost (meta_for_match st (document_id r)))\<rparr>"
  by (auto simp: curated_keep_def curated_visible_def Let_def split: if_splits)

lemma sorted_sort_by_score: "sorted (map (\<lambda>r. - f32_total_key (score r)) (sort_by_score rs))"
  by (simp add: sort_by_score_def)

lemma set_sort_by_score [simp]: "set (sort_by_score rs) = set rs"
  by (simp add: sort_by_score_def)

interpretation curated_reader: bound_reader "curated_query f32_mul kb_query st f c" "curated_visible st f c"
  for f32_mul and kb_query :: "'kb \<Rightarrow> string \<Rightarrow> nat \<Rightarrow> string + knowledge_result list"
    and st :: "'kb curated_store" and f c
proof unfold_locales
  fix q n rs r
  assume "curated_query f32_mul kb_query st f c q n = Inr rs" "r \<in> set rs"
  then obtain r0 where "curated_keep f32_mul st f c r0 = Some r"
    by (auto simp: curated_query_def set_filter_map split: if_splits sum.splits dest!: in_set_takeD)
  then show "curated_visible st f c (document_id r)" by (auto dest: curated_keep_Some)
next
  fix q n rs
  assume "0 < (n::nat)" "curated_query f32_mul kb_query st f c q n = Inr rs"
  then show "length rs \<le> n"
    by (auto simp: curated_query_def split: if_splits sum.splits)
qed

lemma sorted_take_drop:
  assumes "sorted (map f xs)" "x \<in> set (take n xs)" "y \<in> set (drop n xs)"
  shows "f x \<le> (f y :: 'k::linorder)"
proof -
  have "map f xs = map f (take n xs) @ map f (drop n xs)"
    by (metis append_take_drop_id map_append)
  with assms(1) have "\<forall>a \<in> set (map f (take n xs)). \<forall>b \<in> set (map f (drop n xs)). a \<le> b"
    by (metis sorted_append)
  with assms(2,3) show ?thesis by auto
qed

lemma split_by_join:
  assumes "\<forall>w \<in> set ws. c \<notin> set w" "ws \<noteq> []"
  shows "split_by (\<lambda>x. x = c) (join_str [c] ws) = ws"
proof -
  have app: "split_by (\<lambda>x. x = c) (w @ c # s) = w # split_by (\<lambda>x. x = c) s" if "c \<notin> set w" for w s
    using that by (induction w) auto
  have single: "split_by (\<lambda>x. x = c) w = [w]" if "c \<notin> set w" for w
    using that by (induction w) auto
  from assms show ?thesis
    by (induction "[c]" ws rule: join_str.induct) (auto simp: app single)
qed

section \<open>Properties\<close>

text \<open>Curation never widens access: every result of a curated query is admitted by its recorded
  allow-list and matches the requested document sets and metadata.\<close>

theorem curated_query_sound:
  assumes "curated_query f32_mul kb_query st f c q limit = Inr rs" and "r \<in> set rs"
  shows "(case cs_acls st (document_id r) of Some a \<Rightarrow> can_access c a | None \<Rightarrow> True) \<and>
         filter_matches f (meta_for_match st (document_id r))"
  using curated_reader.query_sound [OF assms] by (simp add: curated_visible_def)

text \<open>A curated query returns a true top \<open>k\<close>: results come in descending boosted score, and every
  surviving candidate that was left out scores no higher than every result.\<close>

theorem curated_query_ranked:
  assumes "curated_query f32_mul kb_query st f c q limit = Inr rs"
    and "kb_query (cs_inner st) q (candidate_n limit) = Inr cs" and "0 < limit"
  shows "sorted (map (\<lambda>r. - f32_total_key (score r)) rs) \<and>
    mset rs \<subseteq># mset (filter_map (curated_keep f32_mul st f c) cs) \<and>
    (\<forall>x \<in># mset (filter_map (curated_keep f32_mul st f c) cs) - mset rs.
       \<forall>r \<in> set rs. f32_total_key (score x) \<le> f32_total_key (score r))"
proof -
  let ?k = "\<lambda>r. - f32_total_key (score r)"
  let ?all = "sort_by_score (filter_map (curated_keep f32_mul st f c) cs)"
  have rs: "rs = take limit ?all"
    using assms by (auto simp: curated_query_def split: if_splits)
  have m: "mset ?all = mset (filter_map (curated_keep f32_mul st f c) cs)"
    by (simp add: sort_by_score_def)
  have split: "mset ?all = mset rs + mset (drop limit ?all)"
    unfolding rs by (metis append_take_drop_id mset_append)
  then have rest: "mset (filter_map (curated_keep f32_mul st f c) cs) - mset rs = mset (drop limit ?all)"
    using m by simp
  have "sorted (map ?k rs)"
    unfolding rs take_map [symmetric] using sorted_sort_by_score by (rule sorted_wrt_take)
  moreover have "mset rs \<subseteq># mset (filter_map (curated_keep f32_mul st f c) cs)"
    using split m by (metis mset_subset_eq_add_left)
  moreover have "f32_total_key (score x) \<le> f32_total_key (score r)"
    if "x \<in> set (drop limit ?all)" "r \<in> set rs" for x r
    using sorted_take_drop [OF sorted_sort_by_score that(2) [unfolded rs] that(1)] by simp
  ultimately show ?thesis using rest by auto
qed

text \<open>The curated reader has no tenant boundary: the organization of the requester does not
  influence any answer.\<close>

theorem curated_query_ignores_organization:
  "curated_query f32_mul kb_query st f (c\<lparr>organization_id := org\<rparr>) q limit =
   curated_query f32_mul kb_query st f c q limit"
proof -
  have "can_access (c\<lparr>organization_id := org\<rparr>) a = can_access c a" for a
    by (simp add: can_access_def)
  then have "curated_keep f32_mul st f (c\<lparr>organization_id := org\<rparr>) = curated_keep f32_mul st f c"
    by (intro ext) (simp add: curated_keep_def split: option.split)
  then show ?thesis by (simp add: curated_query_def split: sum.split)
qed

text \<open>Set names survive the trip through the comma-separated stamp: names without commas, at least
  one not blank, are read back trimmed, blank ones dropped, in order.\<close>

theorem document_set_roundtrip:
  assumes "list_all (\<lambda>s. CHR '','' \<notin> set s) sets" and "list_ex (\<lambda>s. trim s \<noteq> []) sets"
    and "\<And>k v. doc_metadata (with_metadata d k v) = (doc_metadata d)(k \<mapsto> v)"
  shows "parse_sets (doc_metadata (with_document_set with_metadata d sets)) =
           map trim (filter (\<lambda>s. trim s \<noteq> []) sets)"
proof -
  let ?ws = "filter (\<lambda>s. trim s \<noteq> []) sets"
  have ne: "?ws \<noteq> []" using assms(2) by (auto simp: list_ex_iff filter_empty_conv)
  have split: "split_comma (join_str '','' ?ws) = ?ws"
    unfolding split_comma_def using assms(1) by (intro split_by_join ne) (auto simp: list_all_iff)
  have "join_str '','' ?ws \<noteq> []"
  proof
    assume "join_str '','' ?ws = []"
    with split have "?ws = [[]]" by (simp add: split_comma_def)
    then have "[] \<in> set ?ws" by simp
    then show False by simp
  qed
  then show ?thesis
    using split assms(3)
    by (simp add: with_document_set_def parse_sets_def Let_def filter_map comp_def)
qed

text \<open>A boost stamp can bury or promote a document but never corrupts the ranking: whatever the
  stamp says, the parsed boost is finite and not negative.\<close>

theorem parse_boost_sane:
  "f32_is_finite (parse_boost f32_parse m) \<and> f32_nonneg (parse_boost f32_parse m)"
proof (cases "option_filter f32_is_finite (Option.bind (m BOOST_KEY) (\<lambda>raw. f32_parse (trim raw)))")
  case None
  then show ?thesis
    by (simp add: parse_boost_def DEFAULT_BOOST_def f32_one_def f32_is_finite_def f32_nonneg_def)
next
  case (Some b)
  then have "f32_is_finite b" by (simp add: option_filter_Some)
  with Some show ?thesis
    by (auto simp: parse_boost_def f32_max_zero_def f32_is_finite_def f32_sign_def f32_nonneg_def)
qed

section \<open>Witnesses\<close>

text \<open>A store with one document in the set \<open>alpha\<close>, one in no set, and one restricted to another user.\<close>

definition demo_store :: "string list curated_store" where
  "demo_store =
     (curated_store_new [''a'', ''b'', ''c''])
       \<lparr>cs_meta := [''a'' \<mapsto> meta_from_metadata (\<lambda>_. None) [DOCUMENT_SET_KEY \<mapsto> ''alpha''],
                    ''c'' \<mapsto> meta_from_metadata (\<lambda>_. None) [DOCUMENT_SET_KEY \<mapsto> ''alpha'']],
        cs_acls := [''c'' \<mapsto> acl_for_users [''alice'']]\<rparr>"

lemmas curated_demo_defs = demo_store_def curated_store_new_def curated_query_def curated_keep_def
  meta_for_match_def meta_from_metadata_def parse_sets_def parse_boost_def split_comma_def
  DOCUMENT_SET_KEY_def BOOST_KEY_def filter_matches_def filter_in_sets_def in_set_def empty_meta_def
  sort_by_score_def trim_def trim_start_def trim_end_def is_whitespace_def

lemma demo_query:
  "curated_query (\<lambda>x y. x) list_kb_query demo_store (filter_in_sets [''alpha'']) (access_for_user ''bob'') ''q'' 2
     = Inr [hit ''a'']"
  by (simp add: curated_demo_defs list_kb_defs)

theorem curated_query_sound_witness:
  "curated_query (\<lambda>x y. x) list_kb_query demo_store (filter_in_sets [''alpha'']) (access_for_user ''bob'') ''q'' 2
     = Inr [hit ''a''] \<and>
   filter_matches (filter_in_sets [''alpha'']) (meta_for_match demo_store ''a'')"
proof -
  have "filter_matches (filter_in_sets [''alpha'']) (meta_for_match demo_store (document_id (hit ''a'')))"
    by (rule curated_query_sound [OF demo_query, THEN conjunct2]) simp
  with demo_query show ?thesis by (simp add: hit_def)
qed

theorem curated_query_ranked_witness:
  "mset [hit ''a''] \<subseteq># mset (filter_map (curated_keep (\<lambda>x y. x) demo_store (filter_in_sets [''alpha''])
       (access_for_user ''bob'')) [hit ''a'', hit ''b'', hit ''c''])"
proof -
  have "list_kb_query (cs_inner demo_store) ''q'' (candidate_n 2) = Inr [hit ''a'', hit ''b'', hit ''c'']"
    by (simp add: demo_store_def curated_store_new_def list_kb_defs)
  from curated_query_ranked [OF demo_query this] show ?thesis by simp
qed

theorem document_set_roundtrip_witness:
  "parse_sets (doc_metadata (with_document_set doc_with (plain_doc ''d'') ['' alpha'', '' '', ''beta'']))
     = [''alpha'', ''beta'']"
  by (subst document_set_roundtrip)
    (simp_all add: doc_with_def trim_def trim_start_def trim_end_def is_whitespace_def)

end
