(* ===== verification/Ingestion.thy ===== *)
theory Ingestion
  imports Chunker Curation "HOL-Library.Option_ord"
begin

text \<open>
  The ingestion pipeline and the incremental indexing service,
  \<open>rust/ingestion/src/pipeline.rs\<close> and \<open>rust/ingestion/src/indexing.rs\<close>.

  Parameters: the document constructor of the engine (\<open>doc_new\<close>, whose first argument counts the
  calls, because every call draws a new id), its metadata builder (\<open>with_metadata\<close>), the knowledge
  base (\<open>kb_ingest\<close>, a state transformer that may fail and may have changed its state when it does),
  the embedder (\<open>embedder\<close> and \<open>dim\<close>), the JSON codec of an allow-list, the printer of an \<open>f32\<close>, and
  the time-stamp parser. A time stamp is an integer; the clock readings and the run id are arguments
  of \<open>run_once\<close>. The debug assertion on the number of vectors is not compiled into a release build.
\<close>

unbundle bit_operations_syntax

section \<open>Building raw documents\<close>

definition raw_with_title :: "raw_document \<Rightarrow> string \<Rightarrow> raw_document" where
  "raw_with_title d t = d\<lparr>rd_title := Some t\<rparr>"

definition raw_with_metadata :: "raw_document \<Rightarrow> string \<Rightarrow> string \<Rightarrow> raw_document" where
  "raw_with_metadata d k v = d\<lparr>rd_metadata := alist_insert k v (rd_metadata d)\<rparr>"

definition raw_with_acl :: "raw_document \<Rightarrow> string list \<Rightarrow> raw_document" where
  "raw_with_acl d labels = d\<lparr>rd_acl := Some labels\<rparr>"

section \<open>The ledger\<close>

record ingest_ledger =
  seen :: "string set"
  ledger_poisoned :: bool

definition ledger_new :: ingest_ledger where
  "ledger_new = \<lparr>seen = {}, ledger_poisoned = False\<rparr>"

definition ledger_len :: "ingest_ledger \<Rightarrow> nat" where
  "ledger_len l = (if ledger_poisoned l then 0 else card (seen l))"

definition ledger_is_empty :: "ingest_ledger \<Rightarrow> bool" where
  "ledger_is_empty l = (ledger_len l = 0)"

definition ledger_record :: "string \<Rightarrow> ingest_ledger \<Rightarrow> bool \<times> ingest_ledger" where
  "ledger_record key l =
     (if ledger_poisoned l then (True, l)
      else (key \<notin> seen l, l\<lparr>seen := insert key (seen l)\<rparr>))"

definition ledger_contains :: "ingest_ledger \<Rightarrow> string \<Rightarrow> bool" where
  "ledger_contains l key = (if ledger_poisoned l then False else key \<in> seen l)"

section \<open>Content hashes\<close>

definition fnv1a :: "nat list \<Rightarrow> 64 word" where
  "fnv1a bytes = fold (\<lambda>b h. (h XOR of_nat b) * 0x00000100000001b3) bytes 0xcbf29ce484222325"

definition hex_digit :: "nat \<Rightarrow> char" where
  "hex_digit n = (if n < 10 then char_of (48 + n) else char_of (87 + n))"

text \<open>\<open>format!("{hash:016x}")\<close>\<close>

fun hex_digits :: "nat \<Rightarrow> nat \<Rightarrow> string" where
  "hex_digits 0 n = []"
| "hex_digits (Suc k) n = hex_digits k (n div 16) @ [hex_digit (n mod 16)]"

definition content_hash :: "string \<Rightarrow> string" where
  "content_hash text = hex_digits 16 (unat (fnv1a (utf8_bytes text)))"

section \<open>Options and report\<close>

record 'dt ingest_options =
  opt_org_id :: string
  opt_since :: "int option"
  opt_ledger :: ingest_ledger
  opt_doc_type :: 'dt
  opt_document_sets :: "string list"
  opt_boost :: "32 word option"

definition options_for_org :: "'dt \<Rightarrow> string \<Rightarrow> 'dt ingest_options" where
  "options_for_org documentation org =
     \<lparr>opt_org_id = org, opt_since = None, opt_ledger = ledger_new, opt_doc_type = documentation,
      opt_document_sets = [], opt_boost = None\<rparr>"

definition in_document_sets :: "'dt ingest_options \<Rightarrow> string list \<Rightarrow> 'dt ingest_options" where
  "in_document_sets o' sets = o'\<lparr>opt_document_sets := sets\<rparr>"

definition options_with_boost :: "'dt ingest_options \<Rightarrow> 32 word \<Rightarrow> 'dt ingest_options" where
  "options_with_boost o' b = o'\<lparr>opt_boost := Some b\<rparr>"

definition options_with_ledger :: "'dt ingest_options \<Rightarrow> ingest_ledger \<Rightarrow> 'dt ingest_options" where
  "options_with_ledger o' l = o'\<lparr>opt_ledger := l\<rparr>"

definition options_since :: "'dt ingest_options \<Rightarrow> int \<Rightarrow> 'dt ingest_options" where
  "options_since o' s = o'\<lparr>opt_since := Some s\<rparr>"

definition options_doc_type :: "'dt ingest_options \<Rightarrow> 'dt \<Rightarrow> 'dt ingest_options" where
  "options_doc_type o' t = o'\<lparr>opt_doc_type := t\<rparr>"

record ingest_report =
  documents_pulled :: nat
  documents_skipped :: nat
  chunks_stored :: nat
  embedding_dim :: nat

text \<open>The errors of a run, each by the values its message carries.\<close>

datatype 'e ingest_error =
    PullFailed string string
  | EmbedFailed string string
  | DimMismatch nat nat
  | StoreFailed string 'e

section \<open>Storing a chunk\<close>

text \<open>What the run uses of the engine and of the codecs.\<close>

record 'dt engine =
  doc_new :: "nat \<Rightarrow> string \<Rightarrow> string \<Rightarrow> 'dt \<Rightarrow> document"
  with_meta :: "document \<Rightarrow> string \<Rightarrow> string \<Rightarrow> document"
  acl_ser :: "doc_acl \<Rightarrow> string"
  f32_show :: "32 word \<Rightarrow> string"

definition chunk_base_document :: "'dt engine \<Rightarrow> nat \<Rightarrow> string \<Rightarrow> string \<Rightarrow> 'dt \<Rightarrow> chunk \<Rightarrow> document" where
  "chunk_base_document eng call doc org dt c =
     (let src = unwrap_or (map_of (ch_metadata c) ''source'') ''ingestion'';
          d0 = doc_new eng call (ch_text c) src dt;
          d1 = with_meta eng d0 ''org_id'' org;
          d2 = with_meta eng d1 ''document_id'' doc;
          d3 = with_meta eng d2 ''chunk_id'' (ch_id c);
          d4 = with_meta eng d3 ''chunk_index'' (show_nat (ch_index c))
      in fold (\<lambda>(k, v) d. with_meta eng d k v) (ch_metadata c) d4)"

definition curate_document ::
  "'dt engine \<Rightarrow> string list \<Rightarrow> 32 word option \<Rightarrow> document \<Rightarrow> document" where
  "curate_document eng sets b d =
     (let d1 = (if sets \<noteq> [] \<and> doc_metadata d DOCUMENT_SET_KEY = None
                then with_document_set (with_meta eng) d sets else d)
      in case b of
           Some v \<Rightarrow> if doc_metadata d1 BOOST_KEY = None then with_boost (with_meta eng) (f32_show eng) d1 v else d1
         | None \<Rightarrow> d1)"

definition label_document :: "'dt engine \<Rightarrow> string list option \<Rightarrow> document \<Rightarrow> document" where
  "label_document eng acl d =
     (case acl of
        Some a \<Rightarrow>
          if a \<noteq> [] then attach_to (with_meta eng) (acl_ser eng) (acl_for_groups a) (with_meta eng d ''acl'' (join_str '','' a))
          else d
      | None \<Rightarrow> d)"

definition chunk_to_document ::
  "'dt engine \<Rightarrow> nat \<Rightarrow> string \<Rightarrow> 'dt ingest_options \<Rightarrow> chunk \<Rightarrow> document" where
  "chunk_to_document eng call doc opts c =
     label_document eng (ch_acl c)
       (curate_document eng (opt_document_sets opts) (opt_boost opts)
          (chunk_base_document eng call doc (opt_org_id opts) (opt_doc_type opts) c))"

definition store_chunk ::
  "'dt engine \<Rightarrow> (document \<Rightarrow> 'kb \<Rightarrow> ('e + unit) \<times> 'kb) \<Rightarrow> nat \<Rightarrow> string \<Rightarrow> 'dt ingest_options \<Rightarrow> chunk
    \<Rightarrow> 'kb \<Rightarrow> ('e ingest_error + unit) \<times> 'kb" where
  "store_chunk eng kb_ingest call doc opts c kb =
     (case kb_ingest (chunk_to_document eng call doc opts c) kb of
        (Inl e, kb') \<Rightarrow> (Inl (StoreFailed (ch_id c) e), kb')
      | (Inr _, kb') \<Rightarrow> (Inr (), kb'))"

section \<open>A run\<close>

text \<open>The state of a run: the knowledge base, the ledger, and how many documents were constructed.\<close>

record 'kb ingest_state =
  st_kb :: 'kb
  st_ledger :: ingest_ledger
  st_calls :: nat

definition ledger_key :: "string \<Rightarrow> string \<Rightarrow> string \<Rightarrow> string" where
  "ledger_key org doc text = org @ ''::'' @ doc @ ''::'' @ content_hash text"

fun store_loop ::
  "'dt engine \<Rightarrow> (document \<Rightarrow> 'kb \<Rightarrow> ('e + unit) \<times> 'kb) \<Rightarrow> 'dt ingest_options \<Rightarrow> string
    \<Rightarrow> (chunk \<times> string) list \<Rightarrow> ingest_report \<Rightarrow> 'kb ingest_state
    \<Rightarrow> ('e ingest_error + ingest_report) \<times> 'kb ingest_state" where
  "store_loop eng kb_ingest opts doc [] rep st = (Inr rep, st)"
| "store_loop eng kb_ingest opts doc ((c, key) # cks) rep st =
     (case ledger_record key (st_ledger st) of
        (False, l) \<Rightarrow> store_loop eng kb_ingest opts doc cks rep (st\<lparr>st_ledger := l\<rparr>)
      | (True, l) \<Rightarrow>
          (case store_chunk eng kb_ingest (st_calls st) doc opts c (st_kb st) of
             (Inl e, kb) \<Rightarrow> (Inl e, st\<lparr>st_ledger := l, st_kb := kb, st_calls := Suc (st_calls st)\<rparr>)
           | (Inr _, kb) \<Rightarrow>
               store_loop eng kb_ingest opts doc cks (rep\<lparr>chunks_stored := Suc (chunks_stored rep)\<rparr>)
                 (st\<lparr>st_ledger := l, st_kb := kb, st_calls := Suc (st_calls st)\<rparr>)))"

definition first_bad_dim :: "nat \<Rightarrow> 32 word list list \<Rightarrow> nat option" where
  "first_bad_dim dim vs = map_option length (find (\<lambda>v. length v \<noteq> dim) vs)"

definition ingest_document ::
  "'dt engine \<Rightarrow> (document \<Rightarrow> 'kb \<Rightarrow> ('e + unit) \<times> 'kb) \<Rightarrow> (string list \<Rightarrow> string + 32 word list list) \<Rightarrow> nat
    \<Rightarrow> chunker \<Rightarrow> 'dt ingest_options \<Rightarrow> raw_document \<Rightarrow> ingest_report \<Rightarrow> 'kb ingest_state
    \<Rightarrow> ('e ingest_error + ingest_report) \<times> 'kb ingest_state" where
  "ingest_document eng kb_ingest embedder dim ck opts raw rep st =
     (let chunks = chunk_document ck raw;
          skip = (Inr (rep\<lparr>documents_skipped := Suc (documents_skipped rep)\<rparr>), st)
      in if chunks = [] then skip
         else
           let keys = map (\<lambda>c. ledger_key (opt_org_id opts) (rd_id raw) (ch_text c)) chunks;
               any_new = list_ex (\<lambda>k. \<not> ledger_contains (st_ledger st) k) keys
           in if \<not> any_new then skip
              else case embedder (map ch_text chunks) of
                     Inl e \<Rightarrow> (Inl (EmbedFailed (rd_id raw) e), st)
                   | Inr vectors \<Rightarrow>
                       (case first_bad_dim dim vectors of
                          Some n \<Rightarrow> (Inl (DimMismatch n dim), st)
                        | None \<Rightarrow> store_loop eng kb_ingest opts (rd_id raw) (zip chunks keys) rep st))"

fun ingest_loop ::
  "'dt engine \<Rightarrow> (document \<Rightarrow> 'kb \<Rightarrow> ('e + unit) \<times> 'kb) \<Rightarrow> (string list \<Rightarrow> string + 32 word list list) \<Rightarrow> nat
    \<Rightarrow> chunker \<Rightarrow> 'dt ingest_options \<Rightarrow> raw_document list \<Rightarrow> ingest_report \<Rightarrow> 'kb ingest_state
    \<Rightarrow> ('e ingest_error + ingest_report) \<times> 'kb ingest_state" where
  "ingest_loop eng kb_ingest embedder dim ck opts [] rep st = (Inr rep, st)"
| "ingest_loop eng kb_ingest embedder dim ck opts (raw # raws) rep st =
     (case ingest_document eng kb_ingest embedder dim ck opts raw rep st of
        (Inl e, st') \<Rightarrow> (Inl e, st')
      | (Inr rep', st') \<Rightarrow> ingest_loop eng kb_ingest embedder dim ck opts raws rep' st')"

text \<open>A connector is its name and its \<open>pull\<close>. The ledger of the options is an \<open>Arc\<close> handle: its
  contents are the run's state and outlive the run.\<close>

definition ingest ::
  "'dt engine \<Rightarrow> (document \<Rightarrow> 'kb \<Rightarrow> ('e + unit) \<times> 'kb) \<Rightarrow> (string list \<Rightarrow> string + 32 word list list) \<Rightarrow> nat
    \<Rightarrow> string \<Rightarrow> (int option \<Rightarrow> string + raw_document list) \<Rightarrow> chunker \<Rightarrow> 'dt ingest_options \<Rightarrow> nat \<Rightarrow> 'kb
    \<Rightarrow> ('e ingest_error + ingest_report) \<times> 'kb ingest_state" where
  "ingest eng kb_ingest embedder dim name pull ck opts calls kb =
     (let st = \<lparr>st_kb = kb, st_ledger = opt_ledger opts, st_calls = calls\<rparr> in
      case pull (opt_since opts) of
        Inl e \<Rightarrow> (Inl (PullFailed name e), st)
      | Inr docs \<Rightarrow>
          ingest_loop eng kb_ingest embedder dim ck opts docs
            \<lparr>documents_pulled = length docs, documents_skipped = 0, chunks_stored = 0, embedding_dim = dim\<rparr> st)"

section \<open>Indexing runs\<close>

datatype indexing_run_status = Running | Succeeded | Failed

record 'e indexing_run =
  run_id :: string
  connector_name :: string
  run_status :: indexing_run_status
  started_at :: int
  finished_at :: "int option"
  documents_seen :: nat
  chunks_indexed :: nat
  run_documents_skipped :: nat
  cursor :: "int option"
  run_error :: "'e ingest_error option"

definition run_succeeded :: "'e indexing_run \<Rightarrow> bool" where
  "run_succeeded r = (run_status r = Succeeded)"

text \<open>The in-memory store; its lock is recovered when poisoned.\<close>

type_synonym 'e run_store = "'e indexing_run list"

fun record_run :: "'e indexing_run \<Rightarrow> 'e run_store \<Rightarrow> 'e run_store" where
  "record_run r [] = [r]"
| "record_run r (x # xs) = (if run_id x = run_id r then r # xs else x # record_run r xs)"

text \<open>\<open>Iterator::max\<close>\<close>

definition iter_max :: "int list \<Rightarrow> int option" where
  "iter_max xs = (if xs = [] then None else Some (fold max (tl xs) (hd xs)))"

definition latest_cursor :: "'e run_store \<Rightarrow> string \<Rightarrow> int option" where
  "latest_cursor runs name =
     iter_max (filter_map cursor (filter (\<lambda>r. connector_name r = name \<and> run_status r = Succeeded) runs))"

definition list_runs :: "'e run_store \<Rightarrow> string \<Rightarrow> 'e indexing_run list" where
  "list_runs runs name = filter (\<lambda>r. connector_name r = name) runs"

datatype 'e indexing_event = Started string nat | Finished "'e indexing_run"

text \<open>The service. The progress callback is the log of the events it was given.\<close>

record ('dt, 'e) indexing_service =
  sv_org_id :: string
  sv_doc_type :: 'dt
  sv_ledger :: "ingest_ledger option"
  sv_progress :: "'e indexing_event list option"

definition service_new :: "'dt \<Rightarrow> string \<Rightarrow> ('dt, 'e) indexing_service" where
  "service_new documentation org =
     \<lparr>sv_org_id = org, sv_doc_type = documentation, sv_ledger = None, sv_progress = None\<rparr>"

definition service_doc_type :: "('dt, 'e) indexing_service \<Rightarrow> 'dt \<Rightarrow> ('dt, 'e) indexing_service" where
  "service_doc_type sv t = sv\<lparr>sv_doc_type := t\<rparr>"

definition service_with_ledger :: "('dt, 'e) indexing_service \<Rightarrow> ingest_ledger \<Rightarrow> ('dt, 'e) indexing_service" where
  "service_with_ledger sv l = sv\<lparr>sv_ledger := Some l\<rparr>"

text \<open>Installing a callback starts its log.\<close>

definition service_with_progress :: "('dt, 'e) indexing_service \<Rightarrow> ('dt, 'e) indexing_service" where
  "service_with_progress sv = sv\<lparr>sv_progress := Some []\<rparr>"

definition emit :: "'e indexing_event \<Rightarrow> ('dt, 'e) indexing_service \<Rightarrow> ('dt, 'e) indexing_service" where
  "emit ev sv = sv\<lparr>sv_progress := map_option (\<lambda>log. log @ [ev]) (sv_progress sv)\<rparr>"

definition max_updated_at :: "(string \<Rightarrow> int option) \<Rightarrow> raw_document list \<Rightarrow> int option" where
  "max_updated_at parse_rfc3339 docs =
     iter_max (filter_map parse_rfc3339 (filter_map (\<lambda>d. map_of (rd_metadata d) ''updated_at'') docs))"

text \<open>The replay connector answers every pull with the documents it holds.\<close>

definition ingest_pulled ::
  "'dt engine \<Rightarrow> (document \<Rightarrow> 'kb \<Rightarrow> ('e + unit) \<times> 'kb) \<Rightarrow> (string list \<Rightarrow> string + 32 word list list) \<Rightarrow> nat
    \<Rightarrow> string \<Rightarrow> raw_document list \<Rightarrow> chunker \<Rightarrow> 'dt ingest_options \<Rightarrow> nat \<Rightarrow> 'kb
    \<Rightarrow> ('e ingest_error + ingest_report) \<times> 'kb ingest_state" where
  "ingest_pulled eng kb_ingest embedder dim name docs ck opts calls kb =
     ingest eng kb_ingest embedder dim name (\<lambda>_. Inr docs) ck opts calls kb"

definition failed_run :: "string \<Rightarrow> string \<Rightarrow> int \<Rightarrow> int \<Rightarrow> 'e ingest_error \<Rightarrow> 'e indexing_run" where
  "failed_run rid name started finished err =
     \<lparr>run_id = rid, connector_name = name, run_status = Failed, started_at = started,
      finished_at = Some finished, documents_seen = 0, chunks_indexed = 0, run_documents_skipped = 0,
      cursor = None, run_error = Some err\<rparr>"

definition record_failed ::
  "('e indexing_run \<Rightarrow> 's \<Rightarrow> 's) \<Rightarrow> string \<Rightarrow> string \<Rightarrow> int \<Rightarrow> int \<Rightarrow> 'e ingest_error
    \<Rightarrow> ('dt, 'e) indexing_service \<Rightarrow> 's \<Rightarrow> 'e indexing_run \<times> ('dt, 'e) indexing_service \<times> 's" where
  "record_failed rec rid name started finished err sv s =
     (let run = failed_run rid name started finished err in (run, emit (Finished run) sv, rec run s))"

text \<open>What a tick leaves behind: the run, the service (shared ledger and events), the run store, and the
  knowledge base with its call counter.\<close>

record ('dt, 'e, 's, 'kb) tick =
  tk_run :: "'e indexing_run"
  tk_service :: "('dt, 'e) indexing_service"
  tk_store :: 's
  tk_kb :: 'kb
  tk_calls :: nat

definition run_once ::
  "('e indexing_run \<Rightarrow> 's \<Rightarrow> 's) \<Rightarrow> ('s \<Rightarrow> string \<Rightarrow> int option)
    \<Rightarrow> 'dt engine \<Rightarrow> (document \<Rightarrow> 'kb \<Rightarrow> ('e + unit) \<times> 'kb) \<Rightarrow> (string list \<Rightarrow> string + 32 word list list) \<Rightarrow> nat
    \<Rightarrow> (string \<Rightarrow> int option) \<Rightarrow> string \<Rightarrow> (int option \<Rightarrow> string + raw_document list) \<Rightarrow> chunker
    \<Rightarrow> string \<Rightarrow> int \<Rightarrow> int \<Rightarrow> ('dt, 'e) indexing_service \<Rightarrow> 's \<Rightarrow> nat \<Rightarrow> 'kb \<Rightarrow> ('dt, 'e, 's, 'kb) tick" where
  "run_once rec latest eng kb_ingest embedder dim parse_rfc3339 name pull ck rid started finished sv s calls kb =
     (let since = latest s name;
          ledger = unwrap_or (sv_ledger sv) ledger_new;
          o1 = options_doc_type (options_with_ledger (options_for_org (sv_doc_type sv) (sv_org_id sv)) ledger) (sv_doc_type sv);
          opts = (case since of Some t \<Rightarrow> options_since o1 t | None \<Rightarrow> o1)
      in case pull since of
           Inl e \<Rightarrow>
             (case record_failed rec rid name started finished (PullFailed name e) sv s of
                (run, sv', s') \<Rightarrow> \<lparr>tk_run = run, tk_service = sv', tk_store = s', tk_kb = kb, tk_calls = calls\<rparr>)
         | Inr pulled \<Rightarrow>
             (let seen = length pulled;
                  sv1 = emit (Started name seen) sv;
                  max_seen = max_updated_at parse_rfc3339 pulled
              in case ingest_pulled eng kb_ingest embedder dim name pulled ck opts calls kb of
                   (res, st) \<Rightarrow>
                     let sv2 = sv1\<lparr>sv_ledger := map_option (\<lambda>_. st_ledger st) (sv_ledger sv1)\<rparr>
                     in case res of
                          Inl err \<Rightarrow>
                            (case record_failed rec rid name started finished err sv2 s of
                               (run, sv', s') \<Rightarrow>
                                 \<lparr>tk_run = run, tk_service = sv', tk_store = s', tk_kb = st_kb st, tk_calls = st_calls st\<rparr>)
                        | Inr report \<Rightarrow>
                            let run = \<lparr>run_id = rid, connector_name = name, run_status = Succeeded,
                                       started_at = started, finished_at = Some finished, documents_seen = seen,
                                       chunks_indexed = chunks_stored report,
                                       run_documents_skipped = documents_skipped report,
                                       cursor = (if seen = 0 then since else Some (unwrap_or max_seen started)),
                                       run_error = None\<rparr>
                            in \<lparr>tk_run = run, tk_service = emit (Finished run) sv2, tk_store = rec run s,
                                tk_kb = st_kb st, tk_calls = st_calls st\<rparr>))"

section \<open>Idempotence\<close>

definition doc_keys :: "string \<Rightarrow> chunker \<Rightarrow> raw_document \<Rightarrow> string set" where
  "doc_keys org ck raw = (\<lambda>c. ledger_key org (rd_id raw) (ch_text c)) ` set (chunk_document ck raw)"

text \<open>A ledger only grows, and stays usable.\<close>

definition ledger_le :: "ingest_ledger \<Rightarrow> ingest_ledger \<Rightarrow> bool" where
  "ledger_le l l' = (seen l \<subseteq> seen l' \<and> ledger_poisoned l' = ledger_poisoned l)"

lemma ledger_le_refl [simp]: "ledger_le l l"
  by (simp add: ledger_le_def)

lemma ledger_le_trans: "ledger_le a b \<Longrightarrow> ledger_le b c \<Longrightarrow> ledger_le a c"
  by (auto simp: ledger_le_def)

lemma ledger_record_le: "ledger_record k l = (b, l') \<Longrightarrow> ledger_le l l'"
  by (auto simp: ledger_record_def ledger_le_def split: if_splits)

lemma ledger_record_in: "ledger_record k l = (b, l') \<Longrightarrow> \<not> ledger_poisoned l \<Longrightarrow> k \<in> seen l'"
  by (auto simp: ledger_record_def split: if_splits)

lemma store_loop_ledger:
  assumes "store_loop eng kb_ingest opts doc cks rep st = (res, st')"
  shows "ledger_le (st_ledger st) (st_ledger st') \<and>
         (\<not> ledger_poisoned (st_ledger st) \<longrightarrow> result_ok res \<longrightarrow> snd ` set cks \<subseteq> seen (st_ledger st'))"
  using assms
proof (induction cks arbitrary: rep st)
  case (Cons ck cks)
  obtain c key where ck: "ck = (c, key)" by (cases ck)
  obtain b l where bl: "ledger_record key (st_ledger st) = (b, l)" by (cases "ledger_record key (st_ledger st)")
  note le = ledger_record_le [OF bl] and isin = ledger_record_in [OF bl]
  obtain r kb where rk: "store_chunk eng kb_ingest (st_calls st) doc opts c (st_kb st) = (r, kb)"
    by (cases "store_chunk eng kb_ingest (st_calls st) doc opts c (st_kb st)")
  consider (skip) "\<not> b" | (fail) e where "b" "r = Inl e" | (ok) "b" "r = Inr ()"
    by (cases r) auto
  then show ?case
  proof cases
    case skip
    with Cons.prems bl ck have "store_loop eng kb_ingest opts doc cks rep (st\<lparr>st_ledger := l\<rparr>) = (res, st')"
      by simp
    from Cons.IH [OF this] le isin ck show ?thesis by (auto simp: ledger_le_def)
  next
    case fail
    with Cons.prems bl rk le ck show ?thesis by auto
  next
    case ok
    with Cons.prems bl rk ck have
      "store_loop eng kb_ingest opts doc cks (rep\<lparr>chunks_stored := Suc (chunks_stored rep)\<rparr>)
         (st\<lparr>st_ledger := l, st_kb := kb, st_calls := Suc (st_calls st)\<rparr>) = (res, st')" by simp
    from Cons.IH [OF this] le isin ck show ?thesis by (auto simp: ledger_le_def)
  qed
qed simp

lemma ingest_document_ledger:
  assumes "ingest_document eng kb_ingest embedder dim ck opts raw rep st = (res, st')"
  shows "ledger_le (st_ledger st) (st_ledger st') \<and>
         (\<not> ledger_poisoned (st_ledger st) \<longrightarrow> result_ok res \<longrightarrow> doc_keys (opt_org_id opts) ck raw \<subseteq> seen (st_ledger st'))"
proof -
  let ?chunks = "chunk_document ck raw"
  let ?keys = "map (\<lambda>c. ledger_key (opt_org_id opts) (rd_id raw) (ch_text c)) ?chunks"
  have keys: "snd ` set (zip ?chunks ?keys) = doc_keys (opt_org_id opts) ck raw"
    by (metis doc_keys_def length_map map_snd_zip set_map)
  show ?thesis
  proof (cases "?chunks = [] \<or> \<not> list_ex (\<lambda>k. \<not> ledger_contains (st_ledger st) k) ?keys")
    case True
    with assms have "st' = st" by (auto simp: ingest_document_def Let_def split: if_splits)
    with True show ?thesis by (auto simp: doc_keys_def list_ex_iff ledger_contains_def)
  next
    case False
    then have "(st' = st \<and> \<not> result_ok res) \<or>
        store_loop eng kb_ingest opts (rd_id raw) (zip ?chunks ?keys) rep st = (res, st')"
      using assms unfolding ingest_document_def Let_def
      by (auto split: sum.splits option.splits)
    then show ?thesis
      using store_loop_ledger [of eng kb_ingest opts "rd_id raw" "zip ?chunks ?keys" rep st res st'] keys
      by auto
  qed
qed

lemma ingest_loop_ledger:
  assumes "ingest_loop eng kb_ingest embedder dim ck opts raws rep st = (res, st')"
  shows "ledger_le (st_ledger st) (st_ledger st') \<and>
         (\<not> ledger_poisoned (st_ledger st) \<longrightarrow> result_ok res \<longrightarrow>
           (\<forall>raw \<in> set raws. doc_keys (opt_org_id opts) ck raw \<subseteq> seen (st_ledger st')))"
  using assms
proof (induction raws arbitrary: rep st)
  case (Cons raw raws)
  obtain r st1 where r: "ingest_document eng kb_ingest embedder dim ck opts raw rep st = (r, st1)"
    by (cases "ingest_document eng kb_ingest embedder dim ck opts raw rep st")
  note doc = ingest_document_ledger [OF r]
  show ?case
  proof (cases r)
    case (Inl e)
    with Cons.prems r doc show ?thesis by auto
  next
    case (Inr rep1)
    with Cons.prems r have "ingest_loop eng kb_ingest embedder dim ck opts raws rep1 st1 = (res, st')" by simp
    from Cons.IH [OF this] doc Inr show ?thesis
      by (auto simp: ledger_le_def)
  qed
qed simp

lemma ingest_document_known:
  assumes "doc_keys (opt_org_id opts) ck raw \<subseteq> seen (st_ledger st)" and "\<not> ledger_poisoned (st_ledger st)"
  shows "ingest_document eng kb_ingest embedder dim ck opts raw rep st =
           (Inr (rep\<lparr>documents_skipped := Suc (documents_skipped rep)\<rparr>), st)"
  using assms by (auto simp: ingest_document_def Let_def doc_keys_def list_ex_iff ledger_contains_def)

lemma ingest_loop_known:
  assumes "\<forall>raw \<in> set raws. doc_keys (opt_org_id opts) ck raw \<subseteq> seen (st_ledger st)"
    and "\<not> ledger_poisoned (st_ledger st)"
  shows "ingest_loop eng kb_ingest embedder dim ck opts raws rep st =
           (Inr (rep\<lparr>documents_skipped := documents_skipped rep + length raws\<rparr>), st)"
  using assms by (induction raws arbitrary: rep) (simp_all add: ingest_document_known)

lemma ingest_known:
  assumes "pull (opt_since opts) = Inr docs" and "\<not> ledger_poisoned (opt_ledger opts)"
    and "\<forall>raw \<in> set docs. doc_keys (opt_org_id opts) ck raw \<subseteq> seen (opt_ledger opts)"
  shows "ingest eng kb_ingest embedder dim name pull ck opts calls kb =
    (Inr \<lparr>documents_pulled = length docs, documents_skipped = length docs, chunks_stored = 0, embedding_dim = dim\<rparr>,
     \<lparr>st_kb = kb, st_ledger = opt_ledger opts, st_calls = calls\<rparr>)"
  using assms by (simp add: ingest_def Let_def ingest_loop_known)

section \<open>Stamps\<close>

text \<open>What the engine documents of its builder: the id is kept, the key is set. A new document carries no
  metadata.\<close>

definition builder_ok :: "'dt engine \<Rightarrow> bool" where
  "builder_ok eng \<longleftrightarrow>
     (\<forall>d k v. doc_id (with_meta eng d k v) = doc_id d \<and>
              doc_metadata (with_meta eng d k v) = (doc_metadata d)(k \<mapsto> v)) \<and>
     (\<forall>n t s dt. doc_metadata (doc_new eng n t s dt) = Map.empty)"

lemma fold_with_meta:
  assumes "builder_ok eng"
  shows "doc_id (fold (\<lambda>(k, v) d. with_meta eng d k v) kvs d) = doc_id d \<and>
         (distinct (map fst kvs) \<longrightarrow>
           doc_metadata (fold (\<lambda>(k, v) d. with_meta eng d k v) kvs d) = doc_metadata d ++ map_of kvs)"
proof (induction kvs arbitrary: d)
  case (Cons kv kvs)
  obtain k v where kv: "kv = (k, v)" by (cases kv)
  have "(doc_metadata d)(k \<mapsto> v) ++ map_of kvs = doc_metadata d ++ (map_of kvs)(k \<mapsto> v)" if "k \<notin> fst ` set kvs"
  proof -
    from that have "map_of kvs k = None" by (simp add: map_of_eq_None_iff)
    then show ?thesis by (auto simp: map_add_def fun_eq_iff split: option.splits)
  qed
  with Cons.IH [of "with_meta eng d k v"] assms kv show ?case
    by (simp add: builder_ok_def del: fun_upd_apply map_add_upd)
qed simp

lemma base_document_stamps:
  assumes "builder_ok eng" "distinct (map fst (ch_metadata c))"
  shows "doc_metadata (chunk_base_document eng n doc org dt c) =
           [''org_id'' \<mapsto> org, ''document_id'' \<mapsto> doc, ''chunk_id'' \<mapsto> ch_id c,
            ''chunk_index'' \<mapsto> show_nat (ch_index c)] ++ map_of (ch_metadata c)"
  using fold_with_meta [OF assms(1), of "ch_metadata c"] assms
  by (simp add: chunk_base_document_def Let_def builder_ok_def)

lemma curate_document_frame:
  assumes "builder_ok eng"
  shows "doc_id (curate_document eng sets b d) = doc_id d"
    and "k \<noteq> DOCUMENT_SET_KEY \<Longrightarrow> k \<noteq> BOOST_KEY \<Longrightarrow>
      doc_metadata (curate_document eng sets b d) k = doc_metadata d k"
  using assms
  by (simp_all add: curate_document_def with_document_set_def with_boost_def builder_ok_def Let_def
      split: option.split)

lemma label_document_acl:
  assumes "builder_ok eng"
  shows "doc_metadata (label_document eng acl d) ACL_METADATA_KEY =
           (case acl of Some (g # gs) \<Rightarrow> Some (acl_ser eng (acl_for_groups (g # gs)))
                      | _ \<Rightarrow> doc_metadata d ACL_METADATA_KEY)"
    and "k \<noteq> ''acl'' \<Longrightarrow> k \<noteq> ACL_METADATA_KEY \<Longrightarrow> doc_metadata (label_document eng acl d) k = doc_metadata d k"
  using assms
  by (auto simp: label_document_def attach_to_def builder_ok_def split: option.split list.split)

section \<open>Cursors\<close>

text \<open>The contract of a run store, as its trait documents it: recording a run under a new id raises its
  own connector's cursor to the run's, if the run succeeded, and touches nothing else.\<close>

locale indexing_store =
  fixes rec :: "'e indexing_run \<Rightarrow> 's \<Rightarrow> 's"
    and latest :: "'s \<Rightarrow> string \<Rightarrow> int option"
    and known :: "'s \<Rightarrow> string set"
  assumes latest_rec: "run_id r \<notin> known s \<Longrightarrow>
    latest (rec r s) name =
      (if connector_name r = name \<and> run_status r = Succeeded then max (latest s name) (cursor r) else latest s name)"
begin

lemma latest_mono: "run_id r \<notin> known s \<Longrightarrow> latest s name \<le> latest (rec r s) name"
  by (simp add: latest_rec)

end

lemma iter_max_Nil [simp]: "iter_max [] = None"
  by (simp add: iter_max_def)

lemma max_None [simp]: "max None x = x" "max x None = (x :: int option)"
  by (simp_all add: max_def) (cases x, simp_all)

lemma iter_max_Cons: "iter_max (x # xs) = max (Some x) (iter_max xs)"
proof -
  have "fold max xs x = (if xs = [] then x else max x (fold max (tl xs) (hd xs)))" for x :: int
  proof (induction xs arbitrary: x)
    case (Cons y ys)
    have "fold max ys (max y x) = max x (fold max ys y)"
      by (induction ys arbitrary: y x) (simp_all add: max.assoc max.left_commute)
    then show ?case by simp
  qed simp
  then show ?thesis by (simp add: iter_max_def less_eq_option_None max_def)
qed

lemma iter_max_append: "iter_max (xs @ ys) = max (iter_max xs) (iter_max ys)"
  by (induction xs) (simp_all add: iter_max_Cons max.assoc)

lemma record_run_new: "run_id r \<notin> run_id ` set rs \<Longrightarrow> record_run r rs = rs @ [r]"
  by (induction rs) auto

interpretation memory_runs: indexing_store record_run latest_cursor "\<lambda>rs :: 'e run_store. run_id ` set rs"
proof unfold_locales
  fix r :: "'e indexing_run" and s :: "'e run_store" and name
  assume "run_id r \<notin> run_id ` set s"
  then have "latest_cursor (record_run r s) name =
      max (latest_cursor s name) (iter_max (filter_map cursor (filter (\<lambda>r. connector_name r = name \<and> run_status r = Succeeded) [r])))"
    by (simp add: record_run_new latest_cursor_def iter_max_append [symmetric] List.map_filter_def)
  then show "latest_cursor (record_run r s) name =
      (if connector_name r = name \<and> run_status r = Succeeded then max (latest_cursor s name) (cursor r)
       else latest_cursor s name)"
    by (simp add: iter_max_Cons split: option.split)
qed

lemma run_once_facts:
  assumes "t = run_once rec latest eng kb_ingest embedder dim parse name pull ck rid started finished sv s calls kb"
  shows "tk_store t = rec (tk_run t) s \<and> run_id (tk_run t) = rid \<and> connector_name (tk_run t) = name \<and>
    (run_status (tk_run t) = Failed \<or>
     run_status (tk_run t) = Succeeded \<and>
     (\<exists>docs. pull (latest s name) = Inr docs \<and>
        cursor (tk_run t) = (if docs = [] then latest s name else Some (unwrap_or (max_updated_at parse docs) started))))"
proof (cases "pull (latest s name)")
  case (Inl e)
  then show ?thesis unfolding assms by (simp add: run_once_def record_failed_def failed_run_def Let_def)
next
  case (Inr docs)
  obtain opts where t: "t = (case ingest_pulled eng kb_ingest embedder dim name docs ck opts calls kb of
      (res, st) \<Rightarrow>
        let sv2 = (emit (Started name (length docs)) sv)
                    \<lparr>sv_ledger := map_option (\<lambda>_. st_ledger st) (sv_ledger (emit (Started name (length docs)) sv))\<rparr>
        in case res of
             Inl err \<Rightarrow>
               (case record_failed rec rid name started finished err sv2 s of
                  (run, sv', s') \<Rightarrow> \<lparr>tk_run = run, tk_service = sv', tk_store = s', tk_kb = st_kb st, tk_calls = st_calls st\<rparr>)
           | Inr report \<Rightarrow>
               let run = \<lparr>run_id = rid, connector_name = name, run_status = Succeeded,
                          started_at = started, finished_at = Some finished, documents_seen = length docs,
                          chunks_indexed = chunks_stored report,
                          run_documents_skipped = documents_skipped report,
                          cursor = (if length docs = 0 then latest s name
                                    else Some (unwrap_or (max_updated_at parse docs) started)),
                          run_error = None\<rparr>
               in \<lparr>tk_run = run, tk_service = emit (Finished run) sv2, tk_store = rec run s,
                   tk_kb = st_kb st, tk_calls = st_calls st\<rparr>)"
    using assms Inr unfolding run_once_def Let_def by (simp only: sum.case)
  obtain res st where r: "ingest_pulled eng kb_ingest embedder dim name docs ck opts calls kb = (res, st)"
    by (cases "ingest_pulled eng kb_ingest embedder dim name docs ck opts calls kb")
  show ?thesis
    unfolding t r using Inr by (cases res) (simp_all add: record_failed_def failed_run_def Let_def)
qed

section \<open>Properties\<close>

text \<open>C35. Ingestion is idempotent: after a successful run, ingesting any selection of the same documents
  for the same organization and chunker with the ledger the run left stores nothing, reports every
  document as skipped, and leaves the knowledge base alone, whatever embedder and backend it runs with.\<close>

theorem reingest_stores_nothing:
  assumes "ingest eng kb_ingest embedder dim name pull ck opts calls kb = (Inr rep, st)"
    and "pull (opt_since opts) = Inr docs" and "\<not> ledger_poisoned (opt_ledger opts)"
    and "opt_ledger opts' = st_ledger st" and "opt_org_id opts' = opt_org_id opts"
    and "pull' (opt_since opts') = Inr docs'" and "set docs' \<subseteq> set docs"
  shows "ingest eng' kb_ingest' embedder' dim' name' pull' ck opts' calls' kb' =
    (Inr \<lparr>documents_pulled = length docs', documents_skipped = length docs', chunks_stored = 0, embedding_dim = dim'\<rparr>,
     \<lparr>st_kb = kb', st_ledger = st_ledger st, st_calls = calls'\<rparr>)"
proof -
  from assms(1,2) have "ingest_loop eng kb_ingest embedder dim ck opts docs
      \<lparr>documents_pulled = length docs, documents_skipped = 0, chunks_stored = 0, embedding_dim = dim\<rparr>
      \<lparr>st_kb = kb, st_ledger = opt_ledger opts, st_calls = calls\<rparr> = (Inr rep, st)"
    by (simp add: ingest_def Let_def)
  from ingest_loop_ledger [OF this] assms(3)
  have "\<forall>raw \<in> set docs. doc_keys (opt_org_id opts) ck raw \<subseteq> seen (st_ledger st)" "\<not> ledger_poisoned (st_ledger st)"
    by (auto simp: ledger_le_def)
  then show ?thesis
    using assms(4-7) by (subst ingest_known [where docs = docs']) auto
qed

text \<open>The ledger entry is made before the store: when storing a one-chunk document fails, the next
  run with the same ledger reports the document as skipped and succeeds without storing it.\<close>

theorem failed_store_never_retried:
  assumes "ingest eng kb_ingest embedder dim name pull ck opts calls kb = (Inl (StoreFailed i e), st)"
    and "pull (opt_since opts) = Inr [raw]" and "length (chunk_document ck raw) = 1"
    and "\<not> ledger_poisoned (opt_ledger opts)"
    and "opt_ledger opts' = st_ledger st" and "opt_org_id opts' = opt_org_id opts"
    and "pull' (opt_since opts') = Inr [raw]"
  shows "ingest eng' kb_ingest' embedder' dim' name' pull' ck opts' calls' kb' =
    (Inr \<lparr>documents_pulled = 1, documents_skipped = 1, chunks_stored = 0, embedding_dim = dim'\<rparr>,
     \<lparr>st_kb = kb', st_ledger = st_ledger st, st_calls = calls'\<rparr>)"
proof -
  obtain c where c: "chunk_document ck raw = [c]" using assms(3) by (auto simp: length_Suc_conv)
  let ?key = "ledger_key (opt_org_id opts) (rd_id raw) (ch_text c)"
  have "doc_keys (opt_org_id opts) ck raw = {?key}" by (simp add: doc_keys_def c)
  moreover have "?key \<in> seen (st_ledger st) \<and> \<not> ledger_poisoned (st_ledger st)"
    using assms(1,2,4)
    by (auto simp: ingest_def ingest_document_def Let_def c ledger_record_def ledger_contains_def
        split: sum.splits option.splits prod.splits if_splits)
  ultimately show ?thesis
    using assms(5-7) by (subst ingest_known [where docs = "[raw]"]) auto
qed

text \<open>What a stored chunk is stamped with. The organization of the run is stamped first, so an
  \<open>org_id\<close> in the source's own metadata replaces it; access labels are stamped last, so nothing in the
  metadata can replace them.\<close>

theorem chunk_stamps:
  assumes "builder_ok eng" and "distinct (map fst (ch_metadata c))"
  shows "doc_metadata (chunk_to_document eng n doc opts c) ORG_METADATA_KEY =
           Some (unwrap_or (map_of (ch_metadata c) ORG_METADATA_KEY) (opt_org_id opts)) \<and>
         doc_metadata (chunk_to_document eng n doc opts c) ACL_METADATA_KEY =
           (case ch_acl c of Some (g # gs) \<Rightarrow> Some (acl_ser eng (acl_for_groups (g # gs)))
                           | _ \<Rightarrow> map_of (ch_metadata c) ACL_METADATA_KEY)"
proof -
  let ?b = "chunk_base_document eng n doc (opt_org_id opts) (opt_doc_type opts) c"
  have base: "doc_metadata ?b = [''org_id'' \<mapsto> opt_org_id opts, ''document_id'' \<mapsto> doc, ''chunk_id'' \<mapsto> ch_id c,
            ''chunk_index'' \<mapsto> show_nat (ch_index c)] ++ map_of (ch_metadata c)"
    by (rule base_document_stamps [OF assms])
  have "doc_metadata ?b ORG_METADATA_KEY = Some (unwrap_or (map_of (ch_metadata c) ORG_METADATA_KEY) (opt_org_id opts))"
    and "doc_metadata ?b ACL_METADATA_KEY = map_of (ch_metadata c) ACL_METADATA_KEY"
    by (simp_all add: base map_add_def ORG_METADATA_KEY_def ACL_METADATA_KEY_def split: option.split)
  then show ?thesis
    using label_document_acl [OF assms(1)] curate_document_frame [OF assms(1)]
    by (simp add: chunk_to_document_def ORG_METADATA_KEY_def ACL_METADATA_KEY_def DOCUMENT_SET_KEY_def BOOST_KEY_def
        split: option.split list.split)
qed

text \<open>Cursors only move forward. A tick records exactly one run; a successful one raises its
  connector's cursor to at least every time stamp it saw, a failed one moves no cursor, and no tick
  moves another connector's cursor.\<close>

theorem cursor_monotone:
  assumes "rid \<notin> run_id ` set runs"
    and "t = run_once record_run latest_cursor eng kb_ingest embedder dim parse name pull ck rid started finished sv runs calls kb"
  shows "tk_store t = runs @ [tk_run t] \<and>
    latest_cursor runs name \<le> latest_cursor (tk_store t) name \<and>
    (if run_status (tk_run t) = Succeeded
     then (case pull (latest_cursor runs name) of
             Inr docs \<Rightarrow> max_updated_at parse docs \<le> latest_cursor (tk_store t) name | Inl _ \<Rightarrow> False)
     else latest_cursor (tk_store t) name = latest_cursor runs name) \<and>
    (if other = name then True else latest_cursor (tk_store t) other = latest_cursor runs other)"
proof -
  note facts = run_once_facts [OF assms(2)]
  then have new: "run_id (tk_run t) \<notin> run_id ` set runs" using assms(1) by simp
  note latest = memory_runs.latest_rec [OF new]
  have mono: "latest_cursor runs name \<le> latest_cursor (tk_store t) name"
    using memory_runs.latest_mono [OF new] facts by simp
  have "max_updated_at parse docs \<le> latest_cursor (tk_store t) name"
    if "run_status (tk_run t) = Succeeded" "pull (latest_cursor runs name) = Inr docs" for docs
  proof (cases "max_updated_at parse docs")
    case (Some m)
    then have "docs \<noteq> []" by (auto simp: max_updated_at_def)
    with that facts Some have "cursor (tk_run t) = Some m" by auto
    with latest facts that Some show ?thesis by simp
  qed simp
  then show ?thesis
    using facts new latest mono by (auto simp: record_run_new split: sum.split)
qed

text \<open>C4. Access labels are enforced end to end: a chunk that carries labels, stored by the pipeline
  through an access-controlled store, is never returned to a requester who is in none of the labelled
  groups, after any later ingests that do not stamp an allow-list on the same id.\<close>

theorem ingested_labels_enforced:
  assumes engine: "builder_ok eng" and codec: "acl_de (acl_ser eng (acl_for_groups groups)) = Some (acl_for_groups groups)"
    and labels: "ch_acl c = Some groups" "groups \<noteq> []"
    and ok: "\<not> acls_poisoned st"
    and outsider: "set (ctx_groups who) \<inter> set groups = {}"
    and later: "\<forall>op \<in> set ops. doc_id (op_doc op) = doc_id (chunk_to_document eng n doc opts c) \<longrightarrow>
                  acl_from_metadata acl_de (doc_metadata (op_doc op)) = None"
    and query: "reader_query kb_query (ingest_run acl_de kb_ingest ops
        (snd (store_chunk eng (ingest_handle_ingest acl_de kb_ingest) n doc opts c st))) who q limit = Inr rs"
  shows "doc_id (chunk_to_document eng n doc opts c) \<notin> document_id ` set rs"
proof -
  let ?d = "chunk_to_document eng n doc opts c"
  have "acl_from_metadata acl_de (doc_metadata ?d) = Some (acl_for_groups groups)"
    using label_document_acl(1) [OF engine] labels codec
    by (cases groups) (simp_all add: chunk_to_document_def acl_from_metadata_def)
  moreover have "\<not> can_access who (acl_for_groups groups)"
    using outsider by (auto simp: can_access_iff acl_for_groups_def)
  moreover have "snd (store_chunk eng (ingest_handle_ingest acl_de kb_ingest) n doc opts c st) =
      snd (ingest_handle_ingest acl_de kb_ingest ?d st)"
    by (auto simp: store_chunk_def split: prod.split sum.split)
  ultimately show ?thesis
    using stamped_document_hidden [OF _ ok later] query by metis
qed

section \<open>Witnesses\<close>

definition demo_engine :: "unit engine" where
  "demo_engine =
     \<lparr>doc_new = (\<lambda>n t s dt. \<lparr>doc_id = show_nat n, doc_content = t, doc_source = s, doc_metadata = Map.empty\<rparr>),
      with_meta = doc_with, acl_ser = (\<lambda>_. ''acl''), f32_show = (\<lambda>_. [])\<rparr>"

lemma demo_engine_ok: "builder_ok demo_engine"
  by (simp add: builder_ok_def demo_engine_def doc_with_def)

definition demo_raw :: raw_document where
  "demo_raw = raw_document_new ''d'' ''file'' ''hi''"

definition demo_options :: "unit ingest_options" where
  "demo_options = options_for_org () ''org''"

definition keep_kb :: "document \<Rightarrow> string list \<Rightarrow> (string + unit) \<times> string list" where
  "keep_kb d kb = (Inr (), kb @ [doc_id d])"

definition down_kb :: "document \<Rightarrow> string list \<Rightarrow> (string + unit) \<times> string list" where
  "down_kb d kb = (Inl ''down'', kb)"

definition demo_ingest ::
  "(document \<Rightarrow> string list \<Rightarrow> (string + unit) \<times> string list) \<Rightarrow> ingest_ledger
    \<Rightarrow> (string ingest_error + ingest_report) \<times> string list ingest_state" where
  "demo_ingest kb l =
     ingest demo_engine kb (\<lambda>ts. Inr (map (\<lambda>_. []) ts)) 0 ''mock'' (\<lambda>_. Inr [demo_raw]) (chunker_new 10 0)
       (options_with_ledger demo_options l) 0 []"

lemma show_zero: "show_nat 0 = ''0''"
  by code_simp

lemma demo_texts: "split_text (chunker_new 10 0) ''hi'' = [''hi'']"
  by code_simp

definition demo_chunks :: "(string \<times> string) list \<Rightarrow> chunk list" where
  "demo_chunks md =
     [\<lparr>ch_id = ''d#0'', ch_document_id = ''d'', ch_index = 0, ch_text = ''hi'', ch_metadata = md, ch_acl = None\<rparr>]"

lemma demo_chunk_document:
  "chunk_document (chunker_new 10 0) demo_raw = demo_chunks [(''source'', ''file'')]"
  by (simp add: chunk_document_def demo_raw_def raw_document_new_def demo_texts base_metadata_def or_insert_def
      chunk_id_def show_zero demo_chunks_def)

lemmas demo_ingest_defs = demo_ingest_def ingest_def ingest_document_def demo_chunk_document demo_chunks_def
  options_with_ledger_def demo_options_def options_for_org_def ledger_new_def ledger_contains_def
  ledger_record_def first_bad_dim_def store_chunk_def keep_kb_def down_kb_def Let_def

lemma demo_ingest_ok:
  "fst (demo_ingest keep_kb ledger_new) =
     Inr \<lparr>documents_pulled = 1, documents_skipped = 0, chunks_stored = 1, embedding_dim = 0\<rparr>"
  by (simp add: demo_ingest_defs)

lemma demo_ingest_down: "fst (demo_ingest down_kb ledger_new) = Inl (StoreFailed ''d#0'' ''down'')"
  by (simp add: demo_ingest_defs)

theorem reingest_stores_nothing_witness:
  "demo_ingest keep_kb (st_ledger (snd (demo_ingest keep_kb ledger_new))) =
    (Inr \<lparr>documents_pulled = 1, documents_skipped = 1, chunks_stored = 0, embedding_dim = 0\<rparr>,
     \<lparr>st_kb = [], st_ledger = st_ledger (snd (demo_ingest keep_kb ledger_new)), st_calls = 0\<rparr>)"
proof -
  obtain r st where run: "demo_ingest keep_kb ledger_new = (Inr r, st)"
    using demo_ingest_ok by (cases "demo_ingest keep_kb ledger_new") auto
  show ?thesis
    unfolding run snd_conv unfolding demo_ingest_def
    by (subst reingest_stores_nothing [OF run [unfolded demo_ingest_def], where docs = "[demo_raw]" and docs' = "[demo_raw]"])
      (simp_all add: options_with_ledger_def demo_options_def options_for_org_def ledger_new_def)
qed

theorem failed_store_never_retried_witness:
  "demo_ingest keep_kb (st_ledger (snd (demo_ingest down_kb ledger_new))) =
    (Inr \<lparr>documents_pulled = 1, documents_skipped = 1, chunks_stored = 0, embedding_dim = 0\<rparr>,
     \<lparr>st_kb = [], st_ledger = st_ledger (snd (demo_ingest down_kb ledger_new)), st_calls = 0\<rparr>)"
proof -
  obtain st where run: "demo_ingest down_kb ledger_new = (Inl (StoreFailed ''d#0'' ''down''), st)"
    using demo_ingest_down by (cases "demo_ingest down_kb ledger_new") auto
  show ?thesis
    unfolding run snd_conv unfolding demo_ingest_def
    by (subst failed_store_never_retried [OF run [unfolded demo_ingest_def], where raw = demo_raw])
      (simp_all add: demo_chunk_document demo_chunks_def options_with_ledger_def demo_options_def options_for_org_def ledger_new_def)
qed

definition demo_chunk :: "string list option \<Rightarrow> chunk" where
  "demo_chunk labels =
     \<lparr>ch_id = ''d#0'', ch_document_id = ''d'', ch_index = 0, ch_text = ''hi'',
      ch_metadata = [(''org_id'', ''evil'')], ch_acl = labels\<rparr>"

theorem chunk_stamps_witness:
  "doc_metadata (chunk_to_document demo_engine 0 ''d'' demo_options (demo_chunk None)) ORG_METADATA_KEY = Some ''evil'' \<and>
   opt_org_id demo_options = ''org''"
  using chunk_stamps [OF demo_engine_ok, of "demo_chunk None" 0 "''d''" demo_options]
  by (simp add: demo_chunk_def ORG_METADATA_KEY_def demo_options_def options_for_org_def)

definition demo_tick :: "(unit, string, string run_store, string list) tick" where
  "demo_tick =
     run_once record_run latest_cursor demo_engine keep_kb (\<lambda>ts. Inr (map (\<lambda>_. []) ts)) 0 (\<lambda>_. Some 7) ''mock''
       (\<lambda>_. Inr [demo_raw\<lparr>rd_metadata := [(''updated_at'', ''t'')]\<rparr>]) (chunker_new 10 0) ''r1'' 3 4
       (service_new () ''org'') [] 0 []"

theorem cursor_monotone_witness:
  "run_status (tk_run demo_tick) = Succeeded \<and> Some 7 \<le> latest_cursor (tk_store demo_tick) ''mock''"
proof -
  have "chunk_document (chunker_new 10 0) (demo_raw\<lparr>rd_metadata := [(''updated_at'', ''t'')]\<rparr>) =
      demo_chunks [(''updated_at'', ''t''), (''source'', ''file'')]"
    by (simp add: chunk_document_def demo_raw_def raw_document_new_def demo_texts base_metadata_def or_insert_def
        chunk_id_def show_zero demo_chunks_def)
  then have ok: "run_status (tk_run demo_tick) = Succeeded"
    by (simp add: demo_tick_def run_once_def ingest_pulled_def demo_ingest_defs service_new_def latest_cursor_def
        options_doc_type_def emit_def)
  then have "max_updated_at (\<lambda>_. Some 7) [demo_raw\<lparr>rd_metadata := [(''updated_at'', ''t'')]\<rparr>]
      \<le> latest_cursor (tk_store demo_tick) ''mock''"
    using cursor_monotone [OF _ demo_tick_def, where other = "''mock''"] by auto
  then show ?thesis using ok by (simp add: max_updated_at_def iter_max_Cons)
qed

definition labelled_store :: "string list acl_store" where
  "labelled_store =
     snd (store_chunk demo_engine (ingest_handle_ingest (\<lambda>_. Some (acl_for_groups [''hr''])) list_kb_ingest)
            0 ''d'' demo_options (demo_chunk (Some [''hr''])) (acl_store_new [''e'']))"

lemmas labelled_defs = labelled_store_def store_chunk_def chunk_to_document_def label_document_def
  curate_document_def chunk_base_document_def demo_engine_def demo_options_def options_for_org_def demo_chunk_def
  doc_with_def attach_to_def show_zero acl_for_groups_def

theorem ingested_labels_enforced_witness:
  "inner labelled_store = [''e'', ''0''] \<and>
   reader_query list_kb_query labelled_store access_anonymous ''q'' 3 = Inr [hit ''e''] \<and>
   ''0'' \<notin> document_id ` set [hit ''e'']"
proof -
  have id: "doc_id (chunk_to_document demo_engine 0 ''d'' demo_options (demo_chunk (Some [''hr'']))) = ''0''"
    by (simp add: labelled_defs)
  have i: "inner labelled_store = [''e'', ''0'']"
    by (simp add: labelled_defs list_kb_defs Let_def)
  have q: "reader_query list_kb_query labelled_store access_anonymous ''q'' 3 = Inr [hit ''e'']"
    by (simp add: labelled_defs list_kb_defs Let_def)
  have "doc_id (chunk_to_document demo_engine 0 ''d'' demo_options (demo_chunk (Some [''hr'']))) \<notin> document_id ` set [hit ''e'']"
    by (rule ingested_labels_enforced [where eng = demo_engine and acl_de = "\<lambda>_. Some (acl_for_groups [''hr''])"
          and groups = "[''hr'']" and st = "acl_store_new [''e'']" and ops = "[]" and kb_query = list_kb_query
          and kb_ingest = list_kb_ingest and who = access_anonymous and q = "''q''" and limit = 3])
      (use demo_engine_ok q in \<open>simp_all add: demo_chunk_def acl_store_new_def access_anonymous_def ingest_run_def
         labelled_store_def\<close>)
  with i q id show ?thesis by simp
qed

end
