(* ===== verification/Storage.thy ===== *)
theory Storage
  imports Access_Control "HOL-Library.AList" "HOL-Library.Char_ord" "HOL-Library.List_Lexorder"
    "HOL-Library.Multiset" "HOL-Library.Product_Lexorder"
begin

text \<open>
  The storage seam: the domain types of \<open>rust/smooth-operator/src/domain.rs\<close>, the queries and the
  default methods of the \<open>StorageAdapter\<close> trait in \<open>rust/smooth-operator/src/adapter.rs\<close>, and the
  in-memory adapter of \<open>rust/adapters/in-memory/src/lib.rs\<close>, the conformance baseline.

  A \<open>HashMap\<close> is an association list with distinct keys; its values are iterated in the order of an
  arbitrary bucket function, an argument of the operations that iterate. A time stamp is an integer, the
  clock an argument. Identifiers compare as strings, character by character.
\<close>

section \<open>Domain types\<close>

datatype platform = Web | Messenger | Instagram | Email | Discord | Phone | Sms | Slack | Whatsapp | Tiktok

record conversation =
  conv_id :: string
  conv_platform :: platform
  conv_name :: string
  conv_organization_id :: string
  conv_idempotency_key :: string
  conv_metadata_json :: "json option"
  conv_analytics_json :: "json option"
  conv_created_at :: int
  conv_updated_at :: int

datatype participant_type = User | AiAgent | HumanAgent

record participant =
  pt_id :: string
  pt_conversation_id :: string
  pt_organization_id :: string
  pt_type :: participant_type
  pt_external_id :: "string option"
  pt_internal_id :: "string option"
  pt_browser_fingerprint :: "string option"
  pt_browser_info :: "json option"
  pt_name :: string
  pt_email :: "string option"
  pt_phone :: "string option"
  pt_crm_contact_id :: "string option"
  pt_metadata_json :: "json option"
  pt_created_at :: int
  pt_updated_at :: int

datatype direction = Inbound | Outbound

record content_item =
  item_type :: string
  item_text :: "string option"
  item_url :: "string option"

definition content_text :: "string \<Rightarrow> content_item" where
  "content_text t = \<lparr>item_type = ''text'', item_text = Some t, item_url = None\<rparr>"

definition content_image :: "string \<Rightarrow> content_item" where
  "content_image u = \<lparr>item_type = ''image'', item_text = None, item_url = Some u\<rparr>"

record message_content =
  items :: "content_item list"
  content_flat :: "string option"
  structured_response :: "json option"

fun find_map :: "('a \<Rightarrow> 'b option) \<Rightarrow> 'a list \<Rightarrow> 'b option" where
  "find_map f [] = None"
| "find_map f (x # xs) = option_or (f x) (find_map f xs)"

definition flat_text :: "message_content \<Rightarrow> string option" where
  "flat_text c =
     option_filter (\<lambda>s. s \<noteq> []) (map_option trim (option_or (content_flat c) (find_map item_text (items c))))"

definition content_from_text :: "string \<Rightarrow> message_content" where
  "content_from_text t = \<lparr>items = [content_text t], content_flat = Some t, structured_response = None\<rparr>"

definition content_from_text_and_images :: "string \<Rightarrow> string list \<Rightarrow> message_content" where
  "content_from_text_and_images t urls =
     \<lparr>items = content_text t # map content_image urls, content_flat = Some t, structured_response = None\<rparr>"

record participant_ref =
  ref_id :: string
  ref_type :: string
  ref_name :: "string option"

record message =
  msg_id :: string
  msg_external_id :: "string option"
  msg_organization_id :: "string option"
  msg_conversation_id :: "string option"
  msg_direction :: direction
  msg_content :: message_content
  msg_from :: "participant_ref option"
  msg_to :: "participant_ref option"
  msg_metadata_json :: "json option"
  msg_analytics_json :: "json option"
  msg_created_at :: int
  msg_updated_at :: "int option"

datatype session_status = Active | Idle | Ended

record session =
  session_id :: string
  ss_conversation_id :: string
  ss_organization_id :: string
  ss_agent_id :: "string option"
  ss_agent_name :: string
  ss_user_participant_id :: string
  ss_agent_participant_id :: string
  ss_thread_id :: string
  ss_status :: "session_status option"
  ss_token_count :: "64 word option"
  ss_message_count :: "64 word option"
  ss_metadata :: "(string \<times> json) list option"
  ss_created_at :: "int option"
  ss_updated_at :: "int option"
  ss_ended_at :: "int option"
  ss_last_activity_at :: "int option"

record citation =
  cite_id :: string
  cite_title :: string
  cite_url :: "string option"
  cite_snippet :: string
  cite_score :: "32 word"

definition CITATION_SNIPPET_MAX_CHARS :: nat where "CITATION_SNIPPET_MAX_CHARS = 280"

definition web_url :: "string \<Rightarrow> string option" where
  "web_url src = (if starts_with src ''http://'' \<or> starts_with src ''https://'' then Some src else None)"

text \<open>The ellipsis, U+2026, lies outside the modelled range and is an argument.\<close>

definition truncate_snippet :: "string \<Rightarrow> string \<Rightarrow> nat \<Rightarrow> string" where
  "truncate_snippet ellipsis text m = (if length text \<le> m then text else take m text @ ellipsis)"

definition from_knowledge_result :: "string \<Rightarrow> knowledge_result \<Rightarrow> citation" where
  "from_knowledge_result ellipsis r =
     \<lparr>cite_id = document_id r, cite_title = source r, cite_url = web_url (source r),
      cite_snippet = truncate_snippet ellipsis (chunk r) CITATION_SNIPPET_MAX_CHARS, cite_score = score r\<rparr>"

section \<open>Queries\<close>

record conversation_update =
  cu_name :: "string option"
  cu_metadata_json :: "json option"
  cu_analytics_json :: "json option"

record session_update =
  su_status :: "session_status option"
  su_token_count :: "64 word option"
  su_message_count :: "64 word option"
  su_last_activity_at :: "int option"
  su_ended_at :: "int option"
  su_metadata :: "(string \<times> json) list option"

record message_page =
  page_messages :: "message list"
  next_cursor :: "string option"

record message_query =
  mq_conversation_id :: string
  mq_limit :: nat
  mq_cursor :: "string option"
  mq_descending :: bool

definition message_query_new :: "string \<Rightarrow> nat \<Rightarrow> message_query" where
  "message_query_new c n = \<lparr>mq_conversation_id = c, mq_limit = n, mq_cursor = None, mq_descending = False\<rparr>"

record conversation_summary =
  sum_conversation :: conversation
  first_inbound_text :: "string option"
  sum_message_count :: nat

definition SUMMARY_MESSAGE_CAP :: nat where "SUMMARY_MESSAGE_CAP = 200"

definition DEFAULT_CONVERSATION_NAME_PREFIX :: string where
  "DEFAULT_CONVERSATION_NAME_PREFIX = ''Session ''"

record conversation_key =
  key_updated_at :: int
  key_id :: string

definition key_of :: "conversation \<Rightarrow> conversation_key" where
  "key_of c = \<lparr>key_updated_at = conv_updated_at c, key_id = conv_id c\<rparr>"

definition precedes :: "conversation_key \<Rightarrow> int \<Rightarrow> string \<Rightarrow> bool" where
  "precedes k updated_at i = (updated_at < key_updated_at k \<or> (updated_at = key_updated_at k \<and> i < key_id k))"

text \<open>The wire form of a key, over the base64 and the time-stamp codec.\<close>

definition key_encode :: "(string \<Rightarrow> string) \<Rightarrow> (int \<Rightarrow> string) \<Rightarrow> conversation_key \<Rightarrow> string" where
  "key_encode b64_encode to_rfc3339 k = b64_encode (to_rfc3339 (key_updated_at k) @ ''|'' @ key_id k)"

definition key_decode ::
  "(string \<Rightarrow> string option) \<Rightarrow> (string \<Rightarrow> int option) \<Rightarrow> string \<Rightarrow> conversation_key option" where
  "key_decode b64_decode parse_rfc3339 cursor =
     Option.bind (b64_decode (trim cursor)) (\<lambda>raw.
       Option.bind (split_once (CHR ''|'') raw) (\<lambda>(ts, i).
         if i = [] then None
         else Option.bind (parse_rfc3339 ts) (\<lambda>t. Some \<lparr>key_updated_at = t, key_id = i\<rparr>)))"

record summary_query =
  sq_limit :: nat
  sq_after :: "conversation_key option"
  sq_search :: "string option"

definition summary_query_new :: "nat \<Rightarrow> summary_query" where
  "summary_query_new n = \<lparr>sq_limit = n, sq_after = None, sq_search = None\<rparr>"

definition query_after :: "summary_query \<Rightarrow> conversation_key option \<Rightarrow> summary_query" where
  "query_after q k = q\<lparr>sq_after := k\<rparr>"

definition with_search :: "summary_query \<Rightarrow> string option \<Rightarrow> summary_query" where
  "with_search q s = q\<lparr>sq_search := option_filter (\<lambda>t. t \<noteq> []) (map_option trim s)\<rparr>"

definition admits_position :: "summary_query \<Rightarrow> conversation \<Rightarrow> bool" where
  "admits_position q c =
     (case sq_after q of None \<Rightarrow> True | Some k \<Rightarrow> precedes k (conv_updated_at c) (conv_id c))"

definition matches_search :: "summary_query \<Rightarrow> string \<Rightarrow> string option \<Rightarrow> bool" where
  "matches_search q name inbound =
     (case sq_search q of
        None \<Rightarrow> True
      | Some needle \<Rightarrow>
          let n = to_lowercase needle;
              meaningful = (if starts_with name DEFAULT_CONVERSATION_NAME_PREFIX then None else Some name)
          in list_ex (\<lambda>h. contains_str (to_lowercase h) n) (filter_map (\<lambda>x. x) [meaningful, inbound]))"

text \<open>The stable sort by newest update, then by id, both descending, as an insertion sort on the key order.\<close>

definition newer :: "conversation \<Rightarrow> conversation \<Rightarrow> bool" where
  "newer a b = (conv_updated_at b < conv_updated_at a \<or> (conv_updated_at b = conv_updated_at a \<and> conv_id b < conv_id a))"

fun insert_newest :: "conversation \<Rightarrow> conversation list \<Rightarrow> conversation list" where
  "insert_newest c [] = [c]"
| "insert_newest c (d # ds) = (if newer d c then d # insert_newest c ds else c # d # ds)"

definition sort_conversations_newest_first :: "conversation list \<Rightarrow> conversation list" where
  "sort_conversations_newest_first cs = foldr insert_newest cs []"

definition eq_ignore_ascii_case :: "string \<Rightarrow> string \<Rightarrow> bool" where
  "eq_ignore_ascii_case a b = (to_ascii_lowercase a = to_ascii_lowercase b)"

definition is_owner :: "participant \<Rightarrow> string \<Rightarrow> bool" where
  "is_owner p user_email =
     (if trim user_email = [] then False
      else pt_type p = User \<and>
           (case pt_email p of None \<Rightarrow> False | Some e \<Rightarrow> eq_ignore_ascii_case (trim e) (trim user_email)))"

section \<open>Default methods of the trait\<close>

text \<open>They are written over the reads that every adapter provides.\<close>

record 'e adapter_reads =
  conversations_by_org :: "string \<Rightarrow> 'e + conversation list"
  participants_of :: "string \<Rightarrow> 'e + participant list"
  messages_of :: "message_query \<Rightarrow> 'e + message_page"

fun owned_loop :: "'e adapter_reads \<Rightarrow> string \<Rightarrow> conversation list \<Rightarrow> 'e + conversation list" where
  "owned_loop ad email [] = Inr []"
| "owned_loop ad email (c # cs) =
     bind_result (participants_of ad (conv_id c)) (\<lambda>ps.
       bind_result (owned_loop ad email cs) (\<lambda>rest.
         Inr (if list_ex (\<lambda>p. is_owner p email) ps then c # rest else rest)))"

definition list_conversations_by_org_and_user ::
  "'e adapter_reads \<Rightarrow> string \<Rightarrow> string \<Rightarrow> 'e + conversation list" where
  "list_conversations_by_org_and_user ad org email =
     bind_result (conversations_by_org ad org) (owned_loop ad email)"

definition summary_row :: "summary_query \<Rightarrow> conversation \<Rightarrow> message list \<Rightarrow> conversation_summary option" where
  "summary_row q c msgs =
     (if msgs = [] then None
      else
        let inbound = Option.bind (find (\<lambda>m. msg_direction m = Inbound) msgs) (\<lambda>m. flat_text (msg_content m)) in
        if \<not> matches_search q (conv_name c) inbound then None
        else Some \<lparr>sum_conversation = c, first_inbound_text = inbound, sum_message_count = length msgs\<rparr>)"

fun summary_loop ::
  "'e adapter_reads \<Rightarrow> summary_query \<Rightarrow> conversation_summary list \<Rightarrow> conversation list \<Rightarrow> 'e + conversation_summary list" where
  "summary_loop ad q rows [] = Inr rows"
| "summary_loop ad q rows (c # cs) =
     (if length rows \<ge> sq_limit q then Inr rows
      else if \<not> admits_position q c then summary_loop ad q rows cs
      else bind_result (messages_of ad (message_query_new (conv_id c) SUMMARY_MESSAGE_CAP)) (\<lambda>page.
             (case summary_row q c (page_messages page) of
                None \<Rightarrow> summary_loop ad q rows cs
              | Some row \<Rightarrow> summary_loop ad q (rows @ [row]) cs)))"

definition list_owned_conversation_summaries_page ::
  "'e adapter_reads \<Rightarrow> string \<Rightarrow> string \<Rightarrow> summary_query \<Rightarrow> 'e + conversation_summary list" where
  "list_owned_conversation_summaries_page ad org email q =
     bind_result (list_conversations_by_org_and_user ad org email) (\<lambda>owned.
       summary_loop ad q [] (sort_conversations_newest_first owned))"

definition list_owned_conversation_summaries ::
  "'e adapter_reads \<Rightarrow> string \<Rightarrow> string \<Rightarrow> nat \<Rightarrow> 'e + conversation_summary list" where
  "list_owned_conversation_summaries ad org email limit =
     list_owned_conversation_summaries_page ad org email (summary_query_new limit)"

text \<open>The default access-bound handle: a fresh store around the adapter's knowledge, with no recorded
  document.\<close>

definition default_knowledge_for_access ::
  "('kb \<Rightarrow> string \<Rightarrow> nat \<Rightarrow> string + knowledge_result list) \<Rightarrow> 'kb \<Rightarrow> access_context \<Rightarrow> string \<Rightarrow> nat
    \<Rightarrow> kb_error + knowledge_result list" where
  "default_knowledge_for_access kb_query kb c = reader_query kb_query (acl_store_new kb) c"

section \<open>The in-memory adapter\<close>

record tables =
  conversations :: "(string \<times> conversation) list"
  participants :: "(string \<times> participant) list"
  messages :: "(string \<times> message) list"
  message_order :: "(string \<times> string list) list"
  sessions :: "(string \<times> session) list"
  tables_poisoned :: bool

datatype storage_error = TablesPoisoned | ConversationNotFound string | SessionNotFound string

definition tables_default :: tables where
  "tables_default =
     \<lparr>conversations = [], participants = [], messages = [], message_order = [], sessions = [], tables_poisoned = False\<rparr>"

text \<open>Taking the lock: every operation fails on a poisoned one.\<close>

definition locked :: "tables \<Rightarrow> (tables \<Rightarrow> storage_error + 'a) \<Rightarrow> storage_error + 'a" where
  "locked t f = (if tables_poisoned t then Inl TablesPoisoned else f t)"

definition same_idempotency :: "conversation \<Rightarrow> conversation \<Rightarrow> bool" where
  "same_idempotency a b =
     (conv_organization_id a = conv_organization_id b \<and> conv_idempotency_key a = conv_idempotency_key b)"

definition entry_or_insert :: "string \<Rightarrow> 'v \<Rightarrow> (string \<times> 'v) list \<Rightarrow> (string \<times> 'v) list" where
  "entry_or_insert k v m = (if map_of m k = None then AList.update k v m else m)"

definition create_conversation ::
  "(conversation \<Rightarrow> nat) \<Rightarrow> conversation \<Rightarrow> tables \<Rightarrow> storage_error + conversation \<times> tables" where
  "create_conversation bucket c t0 = locked t0 (\<lambda>t.
     (case find (\<lambda>e. same_idempotency e c) (hash_order bucket (map snd (conversations t))) of
        Some existing \<Rightarrow> Inr (existing, t)
      | None \<Rightarrow>
          Inr (c, t\<lparr>conversations := AList.update (conv_id c) c (conversations t),
                     message_order := entry_or_insert (conv_id c) [] (message_order t)\<rparr>)))"

definition get_conversation :: "string \<Rightarrow> tables \<Rightarrow> storage_error + conversation option" where
  "get_conversation i t0 = locked t0 (\<lambda>t. Inr (map_of (conversations t) i))"

definition list_conversations_by_org ::
  "(conversation \<Rightarrow> nat) \<Rightarrow> tables \<Rightarrow> string \<Rightarrow> storage_error + conversation list" where
  "list_conversations_by_org bucket t0 org = locked t0 (\<lambda>t.
     Inr (sort_key (\<lambda>c. - conv_created_at c)
            (filter (\<lambda>c. conv_organization_id c = org) (hash_order bucket (map snd (conversations t))))))"

definition update_conversation ::
  "int \<Rightarrow> string \<Rightarrow> conversation_update \<Rightarrow> tables \<Rightarrow> storage_error + conversation \<times> tables" where
  "update_conversation now i u t0 = locked t0 (\<lambda>t.
     (case map_of (conversations t) i of
        None \<Rightarrow> Inl (ConversationNotFound i)
      | Some c \<Rightarrow>
          let c1 = (case cu_name u of Some n \<Rightarrow> c\<lparr>conv_name := n\<rparr> | None \<Rightarrow> c);
              c2 = (if cu_metadata_json u \<noteq> None then c1\<lparr>conv_metadata_json := cu_metadata_json u\<rparr> else c1);
              c3 = (if cu_analytics_json u \<noteq> None then c2\<lparr>conv_analytics_json := cu_analytics_json u\<rparr> else c2);
              c4 = c3\<lparr>conv_updated_at := now\<rparr>
          in Inr (c4, t\<lparr>conversations := AList.update i c4 (conversations t)\<rparr>)))"

definition add_participant :: "participant \<Rightarrow> tables \<Rightarrow> storage_error + participant \<times> tables" where
  "add_participant p t0 = locked t0 (\<lambda>t.
     Inr (p, t\<lparr>participants := AList.update (pt_id p) p (participants t)\<rparr>))"

definition get_participant :: "string \<Rightarrow> tables \<Rightarrow> storage_error + participant option" where
  "get_participant i t0 = locked t0 (\<lambda>t. Inr (map_of (participants t) i))"

definition list_participants_by_conversation ::
  "(participant \<Rightarrow> nat) \<Rightarrow> tables \<Rightarrow> string \<Rightarrow> storage_error + participant list" where
  "list_participants_by_conversation bucket t0 c = locked t0 (\<lambda>t.
     Inr (sort_key pt_created_at
            (filter (\<lambda>p. pt_conversation_id p = c) (hash_order bucket (map snd (participants t))))))"

definition resolve_participant_by_external_id ::
  "(participant \<Rightarrow> nat) \<Rightarrow> tables \<Rightarrow> string \<Rightarrow> string \<Rightarrow> storage_error + participant option" where
  "resolve_participant_by_external_id bucket t0 c ext = locked t0 (\<lambda>t.
     Inr (find (\<lambda>p. pt_conversation_id p = c \<and> pt_external_id p = Some ext) (hash_order bucket (map snd (participants t)))))"

definition append_message :: "message \<Rightarrow> tables \<Rightarrow> storage_error + message \<times> tables" where
  "append_message m t0 = locked t0 (\<lambda>t.
     let t1 = (case msg_conversation_id m of
                 Some c \<Rightarrow>
                   t\<lparr>message_order := AList.update c (unwrap_or (map_of (message_order t) c) [] @ [msg_id m]) (message_order t)\<rparr>
               | None \<Rightarrow> t)
     in Inr (m, t1\<lparr>messages := AList.update (msg_id m) m (messages t1)\<rparr>))"

definition get_message :: "string \<Rightarrow> tables \<Rightarrow> storage_error + message option" where
  "get_message i t0 = locked t0 (\<lambda>t. Inr (map_of (messages t) i))"

definition page_start :: "string option \<Rightarrow> string list \<Rightarrow> nat" where
  "page_start c ids =
     (case c of Some cursor \<Rightarrow> unwrap_or (map_option (\<lambda>i. i + 1) (position (\<lambda>i. i = cursor) ids)) 0 | None \<Rightarrow> 0)"

definition list_messages_by_conversation :: "tables \<Rightarrow> message_query \<Rightarrow> storage_error + message_page" where
  "list_messages_by_conversation t0 q = locked t0 (\<lambda>t.
     let order = unwrap_or (map_of (message_order t) (mq_conversation_id q)) [];
         ids = (if mq_descending q then rev order else order);
         start = page_start (mq_cursor q) ids;
         slice = take (mq_limit q) (drop start ids);
         next = (if start + length slice < length ids then (if slice = [] then None else Some (last slice)) else None)
     in Inr \<lparr>page_messages = filter_map (map_of (messages t)) slice, next_cursor = next\<rparr>)"

definition create_session :: "session \<Rightarrow> tables \<Rightarrow> storage_error + session \<times> tables" where
  "create_session s t0 = locked t0 (\<lambda>t.
     Inr (s, t\<lparr>sessions := AList.update (session_id s) s (sessions t)\<rparr>))"

definition get_session :: "string \<Rightarrow> tables \<Rightarrow> storage_error + session option" where
  "get_session i t0 = locked t0 (\<lambda>t. Inr (map_of (sessions t) i))"

definition update_session :: "int \<Rightarrow> string \<Rightarrow> session_update \<Rightarrow> tables \<Rightarrow> storage_error + session \<times> tables" where
  "update_session now i u t0 = locked t0 (\<lambda>t.
     (case map_of (sessions t) i of
        None \<Rightarrow> Inl (SessionNotFound i)
      | Some s \<Rightarrow>
          let s1 = (case su_status u of Some x \<Rightarrow> s\<lparr>ss_status := Some x\<rparr> | None \<Rightarrow> s);
              s2 = (case su_token_count u of Some x \<Rightarrow> s1\<lparr>ss_token_count := Some x\<rparr> | None \<Rightarrow> s1);
              s3 = (case su_message_count u of Some x \<Rightarrow> s2\<lparr>ss_message_count := Some x\<rparr> | None \<Rightarrow> s2);
              s4 = (if su_last_activity_at u \<noteq> None then s3\<lparr>ss_last_activity_at := su_last_activity_at u\<rparr> else s3);
              s5 = (case su_metadata u of Some x \<Rightarrow> s4\<lparr>ss_metadata := Some x\<rparr> | None \<Rightarrow> s4);
              s6 = (if su_ended_at u \<noteq> None then s5\<lparr>ss_ended_at := su_ended_at u\<rparr> else s5);
              s7 = s6\<lparr>ss_updated_at := Some now\<rparr>
          in Inr (s7, t\<lparr>sessions := AList.update i s7 (sessions t)\<rparr>)))"

text \<open>\<open>Option<DateTime>\<close> orders the missing time stamp first.\<close>

definition list_sessions_by_conversation ::
  "(session \<Rightarrow> nat) \<Rightarrow> tables \<Rightarrow> string \<Rightarrow> storage_error + session list" where
  "list_sessions_by_conversation bucket t0 c = locked t0 (\<lambda>t.
     Inr (sort_key (\<lambda>s. case ss_created_at s of None \<Rightarrow> (0 :: int, 0 :: int) | Some x \<Rightarrow> (1, x))
            (filter (\<lambda>s. ss_conversation_id s = c) (hash_order bucket (map snd (sessions t))))))"

text \<open>The adapter as the trait's default methods see it.\<close>

definition memory_reads ::
  "(conversation \<Rightarrow> nat) \<Rightarrow> (participant \<Rightarrow> nat) \<Rightarrow> tables
    \<Rightarrow> storage_error adapter_reads" where
  "memory_reads conv_bucket part_bucket t =
     \<lparr>conversations_by_org = list_conversations_by_org conv_bucket t,
      participants_of = list_participants_by_conversation part_bucket t,
      messages_of = list_messages_by_conversation t\<rparr>"

text \<open>The operations that write, as one step.\<close>

datatype storage_op =
    CreateConversation conversation
  | UpdateConversation int string conversation_update
  | AddParticipant participant
  | AppendMessage message
  | CreateSession session
  | UpdateSession int string session_update

definition after_op :: "tables \<Rightarrow> storage_error + 'a \<times> tables \<Rightarrow> tables" where
  "after_op t r = (case r of Inl _ \<Rightarrow> t | Inr (_, t') \<Rightarrow> t')"

fun storage_step :: "(conversation \<Rightarrow> nat) \<Rightarrow> storage_op \<Rightarrow> tables \<Rightarrow> tables" where
  "storage_step it (CreateConversation c) t = after_op t (create_conversation it c t)"
| "storage_step it (UpdateConversation now i u) t = after_op t (update_conversation now i u t)"
| "storage_step it (AddParticipant p) t = after_op t (add_participant p t)"
| "storage_step it (AppendMessage m) t = after_op t (append_message m t)"
| "storage_step it (CreateSession s) t = after_op t (create_session s t)"
| "storage_step it (UpdateSession now i u) t = after_op t (update_session now i u t)"

definition storage_run :: "(conversation \<Rightarrow> nat) \<Rightarrow> storage_op list \<Rightarrow> tables \<Rightarrow> tables" where
  "storage_run it ops t = fold (storage_step it) ops t"

section \<open>The sidebar order\<close>

lemma newer_trans: "newer a b \<Longrightarrow> newer b c \<Longrightarrow> newer a c"
  by (auto simp: newer_def)

lemma newer_irrefl: "\<not> newer a a"
  by (simp add: newer_def)

lemma newer_total: "conv_id a \<noteq> conv_id b \<Longrightarrow> newer a b \<or> newer b a"
  by (auto simp: newer_def)

lemma set_insert_newest [simp]: "set (insert_newest c cs) = insert c (set cs)"
  by (induction cs) auto

lemma set_sort_newest [simp]: "set (sort_conversations_newest_first cs) = set cs"
  by (induction cs) (auto simp: sort_conversations_newest_first_def)

lemma sorted_insert_newest:
  "sorted_wrt newer cs \<Longrightarrow> conv_id c \<notin> conv_id ` set cs \<Longrightarrow> sorted_wrt newer (insert_newest c cs)"
proof (induction cs)
  case (Cons d ds)
  show ?case
  proof (cases "newer d c")
    case True
    with Cons show ?thesis by auto
  next
    case False
    with Cons.prems have cd: "newer c d" using newer_total [of c d] by auto
    then have "newer c x" if "x \<in> set ds" for x using that Cons.prems newer_trans by auto
    with cd False Cons.prems show ?thesis by auto
  qed
qed simp

lemma sorted_sort_newest:
  "distinct (map conv_id cs) \<Longrightarrow> sorted_wrt newer (sort_conversations_newest_first cs)"
proof (induction cs)
  case (Cons c cs)
  then have "sorted_wrt newer (sort_conversations_newest_first cs)"
    and "conv_id c \<notin> conv_id ` set (sort_conversations_newest_first cs)" by auto
  from sorted_insert_newest [OF this] show ?case by (simp add: sort_conversations_newest_first_def)
qed (simp add: sort_conversations_newest_first_def)

lemma filter_after_nth:
  assumes "sorted_wrt r xs" "i < length xs" "\<And>a b. r a b \<Longrightarrow> \<not> r b a" "\<And>a. \<not> r a a"
  shows "filter (r (xs ! i)) xs = drop (Suc i) xs"
proof -
  have split: "xs = take (Suc i) xs @ drop (Suc i) xs" by simp
  have "\<not> r (xs ! i) x" if "x \<in> set (take (Suc i) xs)" for x
  proof -
    from that obtain j where j: "j \<le> i" "x = xs ! j" using assms(2) by (auto simp: in_set_conv_nth less_Suc_eq_le)
    show ?thesis
    proof (cases "j = i")
      case False
      with j assms(1,2) have "r x (xs ! i)" by (auto simp: sorted_wrt_iff_nth_less)
      with assms(3) show ?thesis by blast
    qed (use j assms(4) in simp)
  qed
  then have "filter (r (xs ! i)) (take (Suc i) xs) = []" by (simp add: filter_empty_conv)
  moreover have "r (xs ! i) x" if "x \<in> set (drop (Suc i) xs)" for x
  proof -
    from that obtain j where "x = xs ! j" "i < j" "j < length xs"
      by (auto simp: in_set_conv_nth)
    with assms(1) show ?thesis by (auto simp: sorted_wrt_iff_nth_less)
  qed
  then have "filter (r (xs ! i)) (drop (Suc i) xs) = drop (Suc i) xs" by (simp add: filter_id_conv)
  ultimately show ?thesis by (subst (2) split) (simp only: filter_append append_Nil)
qed

lemma matches_search_frame [simp]:
  "matches_search (q\<lparr>sq_limit := m, sq_after := a\<rparr>) = matches_search q"
  "matches_search (q\<lparr>sq_limit := m\<rparr>) = matches_search q"
  by (simp_all add: fun_eq_iff matches_search_def)

lemma summary_row_frame [simp]:
  "summary_row (q\<lparr>sq_limit := m, sq_after := a\<rparr>) = summary_row q"
  "summary_row (q\<lparr>sq_limit := m\<rparr>) = summary_row q"
  by (simp_all add: fun_eq_iff summary_row_def)

lemma admits_position_frame [simp]: "admits_position (q\<lparr>sq_limit := m\<rparr>) = admits_position q"
  by (simp add: fun_eq_iff admits_position_def)

lemma summary_row_conv: "summary_row q c ms = Some r \<Longrightarrow> sum_conversation r = c"
  by (auto simp: summary_row_def Let_def split: if_splits)

lemma filter_map_filter:
  "(\<And>c r. row c = Some r \<Longrightarrow> f r = c) \<Longrightarrow> filter_map row (filter P cs) = filter (\<lambda>r. P (f r)) (filter_map row cs)"
  by (induction cs) (auto split: option.splits)

lemma sorted_filter_map:
  assumes "\<And>c r. row c = Some r \<Longrightarrow> f r = c" "sorted_wrt P cs"
  shows "sorted_wrt (\<lambda>a b. P (f a) (f b)) (filter_map row cs)"
  using assms(2)
proof (induction cs)
  case (Cons c cs)
  then show ?case by (auto simp: set_filter_map split: option.splits dest!: assms(1))
qed simp

text \<open>The page after the \<open>i\<close>-th row of a listing starts with the next row.\<close>

lemma keyset_rest:
  assumes sorted: "sorted_wrt newer L" and row: "\<And>c r. row c = Some r \<Longrightarrow> sum_conversation r = c"
    and R: "R = filter_map row (filter (admits_position q) L)" and i: "i < length R"
  shows "filter_map row (filter (admits_position (q\<lparr>sq_limit := n, sq_after := Some (key_of (sum_conversation (R ! i)))\<rparr>)) L)
      = drop (Suc i) R"
proof -
  let ?last = "sum_conversation (R ! i)"
  have "R ! i \<in> set R" using i by simp
  then have "admits_position q ?last" using row by (auto simp: R set_filter_map)
  then have "admits_position (q\<lparr>sq_limit := n, sq_after := Some (key_of ?last)\<rparr>) c \<longleftrightarrow> admits_position q c \<and> newer ?last c" for c
    by (auto simp: admits_position_def precedes_def key_of_def newer_def split: option.splits)
  then have "filter (admits_position (q\<lparr>sq_limit := n, sq_after := Some (key_of ?last)\<rparr>)) L =
      filter (newer ?last) (filter (admits_position q) L)"
    unfolding filter_filter by (rule filter_cong [OF refl])
  also have "filter_map row \<dots> = filter (\<lambda>r. newer ?last (sum_conversation r)) R"
    unfolding R by (rule filter_map_filter [OF row])
  also have "\<dots> = drop (Suc i) R"
  proof (rule filter_after_nth [OF _ i])
    show "sorted_wrt (\<lambda>a b. newer (sum_conversation a) (sum_conversation b)) R"
      unfolding R by (rule sorted_filter_map [OF row sorted_wrt_filter [OF sorted]])
  qed (use newer_irrefl newer_trans in blast)+
  finally show ?thesis .
qed

section \<open>Clients of an adapter\<close>

text \<open>What the default methods rely on while the backend is up: reads answer, a listing by organization
  stays within the organization and lists no conversation twice.\<close>

locale available_adapter =
  fixes ad :: "'e adapter_reads"
    and convs :: "string \<Rightarrow> conversation list"
    and parts :: "string \<Rightarrow> participant list"
    and page :: "message_query \<Rightarrow> message_page"
  assumes convs_read: "conversations_by_org ad org = Inr (convs org)"
    and parts_read: "participants_of ad i = Inr (parts i)"
    and page_read: "messages_of ad q = Inr (page q)"
    and convs_scoped: "c \<in> set (convs org) \<Longrightarrow> conv_organization_id c = org"
    and convs_distinct: "distinct (map conv_id (convs org))"
begin

lemma owned_spec:
  "list_conversations_by_org_and_user ad org email =
     Inr (filter (\<lambda>c. list_ex (\<lambda>p. is_owner p email) (parts (conv_id c))) (convs org))"
proof -
  have "owned_loop ad email cs = Inr (filter (\<lambda>c. list_ex (\<lambda>p. is_owner p email) (parts (conv_id c))) cs)" for cs
    by (induction cs) (auto simp: parts_read)
  then show ?thesis by (simp add: list_conversations_by_org_and_user_def convs_read)
qed

lemma summary_loop_spec:
  "length rows \<le> sq_limit q \<Longrightarrow>
   summary_loop ad q rows cs =
     Inr (rows @ take (sq_limit q - length rows)
       (filter_map (\<lambda>c. summary_row q c (page_messages (page (message_query_new (conv_id c) SUMMARY_MESSAGE_CAP))))
          (filter (admits_position q) cs)))"
  by (induction cs arbitrary: rows) (auto simp: page_read take_Cons' split: option.splits)

lemma page_spec:
  "list_owned_conversation_summaries_page ad org email q =
     Inr (take (sq_limit q)
       (filter_map (\<lambda>c. summary_row q c (page_messages (page (message_query_new (conv_id c) SUMMARY_MESSAGE_CAP))))
          (filter (admits_position q) (sort_conversations_newest_first
            (filter (\<lambda>c. list_ex (\<lambda>p. is_owner p email) (parts (conv_id c))) (convs org))))))"
  by (simp add: list_owned_conversation_summaries_page_def owned_spec summary_loop_spec)

lemma page_compose:
  assumes rows: "list_owned_conversation_summaries_page ad org email q = Inr rows" and "rows \<noteq> []"
  shows "\<exists>more. list_owned_conversation_summaries_page ad org email
             (q\<lparr>sq_limit := n, sq_after := Some (key_of (sum_conversation (last rows)))\<rparr>) = Inr more \<and>
           list_owned_conversation_summaries_page ad org email (q\<lparr>sq_limit := sq_limit q + n\<rparr>) = Inr (rows @ more)"
proof -
  define L where "L = sort_conversations_newest_first
    (filter (\<lambda>c. list_ex (\<lambda>p. is_owner p email) (parts (conv_id c))) (convs org))"
  define row where "row = (\<lambda>c. summary_row q c (page_messages (page (message_query_new (conv_id c) SUMMARY_MESSAGE_CAP))))"
  define R where "R = filter_map row (filter (admits_position q) L)"
  have "distinct (map conv_id (filter (\<lambda>c. list_ex (\<lambda>p. is_owner p email) (parts (conv_id c))) (convs org)))"
    using convs_distinct [of org] by (simp add: distinct_map_filter)
  then have sorted: "sorted_wrt newer L" unfolding L_def by (rule sorted_sort_newest)
  have first: "rows = take (sq_limit q) R"
    using rows by (simp add: page_spec R_def row_def L_def)
  let ?j = "length rows"
  have j: "0 < ?j" "?j \<le> length R" using assms(2) first by auto
  then have j': "?j - 1 < length R" "Suc (?j - 1) = ?j" by linarith+
  have "?j \<le> sq_limit q" using first by simp
  with j have "?j - 1 < sq_limit q" by linarith
  then have "rows ! (?j - 1) = R ! (?j - 1)" using first by (metis nth_take)
  then have last: "last rows = R ! (?j - 1)" using assms(2) by (simp add: last_conv_nth)
  have rest: "filter_map row (filter (admits_position (q\<lparr>sq_limit := n, sq_after := Some (key_of (sum_conversation (last rows)))\<rparr>)) L)
      = drop ?j R"
    using keyset_rest [OF sorted, of row R q "?j - 1" n] summary_row_conv j'
    unfolding last row_def R_def by simp
  have "rows @ take n (drop ?j R) = take (sq_limit q + n) R"
  proof (cases "length R \<le> sq_limit q")
    case False
    then have "?j = sq_limit q" using first by simp
    with first show ?thesis by (simp add: take_add)
  qed (use first in simp)
  then show ?thesis
    using rest by (simp add: page_spec L_def [symmetric] row_def [symmetric] R_def)
qed

lemma page_scoped:
  assumes "list_owned_conversation_summaries_page ad org email q = Inr rows" and "r \<in> set rows"
  shows "conv_organization_id (sum_conversation r) = org \<and>
         (\<exists>p \<in> set (parts (conv_id (sum_conversation r))). is_owner p email) \<and> 0 < sum_message_count r"
proof -
  from assms obtain c where "c \<in> set (convs org)" "list_ex (\<lambda>p. is_owner p email) (parts (conv_id c))"
    "summary_row q c (page_messages (page (message_query_new (conv_id c) SUMMARY_MESSAGE_CAP))) = Some r"
    by (auto simp: page_spec set_filter_map dest!: in_set_takeD)
  with convs_scoped show ?thesis
    by (auto simp: summary_row_def Let_def list_ex_iff split: if_splits)
qed

end

section \<open>Invariant of the tables\<close>

definition keyed :: "('v \<Rightarrow> string) \<Rightarrow> (string \<times> 'v) list \<Rightarrow> bool" where
  "keyed f m \<longleftrightarrow> distinct (map fst m) \<and> (\<forall>(k, v) \<in> set m. f v = k)"

definition idem_key :: "conversation \<Rightarrow> string \<times> string" where
  "idem_key c = (conv_organization_id c, conv_idempotency_key c)"

definition tables_ok :: "tables \<Rightarrow> bool" where
  "tables_ok t \<longleftrightarrow>
     \<not> tables_poisoned t \<and> keyed conv_id (conversations t) \<and> keyed pt_id (participants t) \<and>
     keyed msg_id (messages t) \<and> keyed session_id (sessions t) \<and> distinct (map fst (message_order t)) \<and>
     distinct (map idem_key (map snd (conversations t)))"

lemma alist_update_set: "distinct (map fst m) \<Longrightarrow> set (AList.update k v m) = insert (k, v) {(k', v'). (k', v') \<in> set m \<and> k' \<noteq> k}"
  by (induction m) (auto simp: image_iff)

lemma keyed_update: "keyed f m \<Longrightarrow> f v = k \<Longrightarrow> keyed f (AList.update k v m)"
  by (auto simp: keyed_def distinct_update alist_update_set)

lemma keyed_distinct: "keyed f m \<Longrightarrow> distinct (map f (map snd m))"
proof -
  assume "keyed f m"
  then have eq: "map f (map snd m) = map fst m" by (auto simp: keyed_def)
  show ?thesis unfolding eq using \<open>keyed f m\<close> by (simp add: keyed_def)
qed

lemma distinct_map_update:
  assumes "distinct (map g (map snd m))" "distinct (map fst m)"
    and "\<forall>(k', v') \<in> set m. k' \<noteq> k \<longrightarrow> g v' \<noteq> g v"
  shows "distinct (map g (map snd (AList.update k v m)))"
  using assms
proof (induction m)
  case (Cons p m)
  obtain a b where p: "p = (a, b)" by (cases p)
  show ?case
  proof (cases "a = k")
    case True
    have "g v \<notin> g ` snd ` set m"
    proof
      assume "g v \<in> g ` snd ` set m"
      then obtain x y where xy: "(x, y) \<in> set m" "g y = g v" by auto
      with Cons.prems(2) p True have "x \<noteq> k" by (auto simp: image_iff)
      with xy Cons.prems(3) show False by auto
    qed
    with Cons.prems(1) p True show ?thesis by (simp add: image_image)
  next
    case False
    with Cons p have "distinct (map g (map snd (AList.update k v m)))" by auto
    moreover have "g b \<notin> g ` snd ` set (AList.update k v m)"
      using Cons.prems p False by (auto simp: alist_update_set)
    ultimately show ?thesis using False p by (simp add: image_image)
  qed
qed simp

lemma create_conversation_ok:
  assumes "tables_ok t" "create_conversation b c t = Inr (r, t')"
  shows "tables_ok t'"
proof (cases "find (\<lambda>e. same_idempotency e c) (hash_order b (map snd (conversations t)))")
  case None
  then have new: "\<forall>(k', v') \<in> set (conversations t). idem_key v' \<noteq> idem_key c"
    by (auto simp: find_None_iff same_idempotency_def idem_key_def)
  have t': "t' = t\<lparr>conversations := AList.update (conv_id c) c (conversations t),
      message_order := entry_or_insert (conv_id c) [] (message_order t)\<rparr>"
    using assms None by (auto simp: create_conversation_def locked_def tables_ok_def)
  have "distinct (map idem_key (map snd (AList.update (conv_id c) c (conversations t))))"
    using assms(1) new by (intro distinct_map_update) (auto simp: tables_ok_def keyed_def)
  then show ?thesis
    using assms(1) unfolding t' by (simp add: tables_ok_def keyed_update entry_or_insert_def distinct_update)
next
  case (Some e)
  with assms show ?thesis by (auto simp: create_conversation_def locked_def tables_ok_def)
qed

lemma update_conversation_ok:
  assumes "tables_ok t" "update_conversation now i u t = Inr (r, t')"
  shows "tables_ok t'"
proof -
  from assms obtain c where c: "map_of (conversations t) i = Some c"
    by (auto simp: update_conversation_def locked_def split: option.splits if_splits)
  have "conv_id r = i \<and> idem_key r = idem_key c \<and> t' = t\<lparr>conversations := AList.update i r (conversations t)\<rparr>"
  proof -
    have "conv_id c = i" using assms(1) c by (auto simp: tables_ok_def keyed_def dest!: map_of_SomeD)
    then show ?thesis using assms c
      by (auto simp: update_conversation_def locked_def tables_ok_def idem_key_def Let_def split: option.splits)
  qed
  moreover have "\<forall>(k', v') \<in> set (conversations t). k' \<noteq> i \<longrightarrow> idem_key v' \<noteq> idem_key c"
  proof -
    have "distinct (map (\<lambda>p. idem_key (snd p)) (conversations t))" using assms(1) by (simp add: tables_ok_def comp_def)
    then have "inj_on (\<lambda>p. idem_key (snd p)) (set (conversations t))" by (simp add: distinct_map)
    note inj = inj_onD [OF this _ _ map_of_SomeD [OF c]]
    show ?thesis
    proof clarify
      fix a b
      assume "(a, b) \<in> set (conversations t)" "a \<noteq> i" "idem_key b = idem_key c"
      with inj [of "(a, b)"] show False by simp
    qed
  qed
  moreover have "keyed conv_id (AList.update i r (conversations t))"
    using assms(1) calculation(1) by (auto simp: tables_ok_def intro: keyed_update)
  moreover have "distinct (map idem_key (map snd (AList.update i r (conversations t))))"
    using assms(1) calculation(1,2) by (intro distinct_map_update) (auto simp: tables_ok_def keyed_def)
  ultimately show ?thesis
    using assms(1) by (simp add: tables_ok_def)
qed

lemma storage_step_ok: "tables_ok t \<Longrightarrow> tables_ok (storage_step b op t)"
proof (cases op)
  case (CreateConversation c)
  assume "tables_ok t"
  then show ?thesis using CreateConversation create_conversation_ok [of t b c]
    by (cases "create_conversation b c t") (auto simp: after_op_def)
next
  case (UpdateConversation now i u)
  assume "tables_ok t"
  then show ?thesis using UpdateConversation update_conversation_ok [of t now i u]
    by (cases "update_conversation now i u t") (auto simp: after_op_def)
next
  case (UpdateSession now i u)
  assume ok: "tables_ok t"
  show ?thesis
  proof (cases "map_of (sessions t) i")
    case None
    with ok UpdateSession show ?thesis by (simp add: after_op_def update_session_def locked_def)
  next
    case (Some s)
    with ok have "session_id s = i" by (auto simp: tables_ok_def keyed_def dest!: map_of_SomeD)
    with ok Some UpdateSession show ?thesis
      by (auto simp: after_op_def update_session_def locked_def tables_ok_def Let_def intro!: keyed_update split: option.split)
  qed
qed (auto simp: after_op_def add_participant_def append_message_def create_session_def locked_def tables_ok_def Let_def
    keyed_update distinct_update split: option.split)

lemma storage_run_ok: "tables_ok t \<Longrightarrow> tables_ok (storage_run b ops t)"
  unfolding storage_run_def by (induction ops arbitrary: t) (simp_all add: storage_step_ok)

lemma tables_default_ok: "tables_ok tables_default"
  by (simp add: tables_ok_def tables_default_def keyed_def)

definition memory_convs :: "(conversation \<Rightarrow> nat) \<Rightarrow> tables \<Rightarrow> string \<Rightarrow> conversation list" where
  "memory_convs b t org = sort_key (\<lambda>c. - conv_created_at c)
     (filter (\<lambda>c. conv_organization_id c = org) (hash_order b (map snd (conversations t))))"

definition memory_parts :: "(participant \<Rightarrow> nat) \<Rightarrow> tables \<Rightarrow> string \<Rightarrow> participant list" where
  "memory_parts b t c = sort_key pt_created_at
     (filter (\<lambda>p. pt_conversation_id p = c) (hash_order b (map snd (participants t))))"

definition memory_page :: "tables \<Rightarrow> message_query \<Rightarrow> message_page" where
  "memory_page t q = (case list_messages_by_conversation t q of Inr p \<Rightarrow> p | Inl _ \<Rightarrow> \<lparr>page_messages = [], next_cursor = None\<rparr>)"

interpretation memory: available_adapter
  "memory_reads cb pb (storage_run sb ops tables_default)"
  "memory_convs cb (storage_run sb ops tables_default)"
  "memory_parts pb (storage_run sb ops tables_default)"
  "memory_page (storage_run sb ops tables_default)"
  for cb pb sb ops
proof unfold_locales
  let ?t = "storage_run sb ops tables_default"
  have ok: "tables_ok ?t" by (rule storage_run_ok [OF tables_default_ok])
  then have up: "\<not> tables_poisoned ?t" by (simp add: tables_ok_def)
  show "conversations_by_org (memory_reads cb pb ?t) org = Inr (memory_convs cb ?t org)" for org
    using up by (simp add: memory_reads_def list_conversations_by_org_def locked_def memory_convs_def)
  show "participants_of (memory_reads cb pb ?t) i = Inr (memory_parts pb ?t i)" for i
    using up by (simp add: memory_reads_def list_participants_by_conversation_def locked_def memory_parts_def)
  show "messages_of (memory_reads cb pb ?t) q = Inr (memory_page ?t q)" for q
    using up by (simp add: memory_reads_def list_messages_by_conversation_def locked_def memory_page_def Let_def)
  show "conv_organization_id c = org" if "c \<in> set (memory_convs cb ?t org)" for c org
    using that by (simp add: memory_convs_def)
  have "distinct (map conv_id (map snd (conversations ?t)))"
    using ok by (intro keyed_distinct) (simp add: tables_ok_def)
  then have "distinct (map conv_id (hash_order cb (map snd (conversations ?t))))"
    by (simp only: distinct_map_hash_order)
  then have "distinct (map conv_id (filter (\<lambda>c. conv_organization_id c = org) (hash_order cb (map snd (conversations ?t)))))" for org
    by (rule distinct_map_filter)
  then show "distinct (map conv_id (memory_convs cb ?t org))" for org
    unfolding memory_convs_def by (simp add: distinct_map distinct_sort)
qed

section \<open>Paging through messages\<close>

text \<open>A client that follows the cursors, at most \<open>fuel\<close> pages.\<close>

fun walk_messages :: "nat \<Rightarrow> tables \<Rightarrow> message_query \<Rightarrow> message list" where
  "walk_messages 0 t q = []"
| "walk_messages (Suc fuel) t q =
     (case list_messages_by_conversation t q of
        Inl _ \<Rightarrow> []
      | Inr p \<Rightarrow>
          page_messages p @
          (case next_cursor p of None \<Rightarrow> [] | Some k \<Rightarrow> walk_messages fuel t (q\<lparr>mq_cursor := Some k\<rparr>)))"

definition query_ids :: "tables \<Rightarrow> message_query \<Rightarrow> string list" where
  "query_ids t q =
     (let order = unwrap_or (map_of (message_order t) (mq_conversation_id q)) [] in
      if mq_descending q then rev order else order)"

lemma list_messages_ids:
  "list_messages_by_conversation t q =
     (if tables_poisoned t then Inl TablesPoisoned
      else
        let start = page_start (mq_cursor q) (query_ids t q);
            slice = take (mq_limit q) (drop start (query_ids t q));
            next = (if start + length slice < length (query_ids t q)
                    then (if slice = [] then None else Some (last slice)) else None)
        in Inr \<lparr>page_messages = filter_map (map_of (messages t)) slice, next_cursor = next\<rparr>)"
  by (simp only: list_messages_by_conversation_def locked_def query_ids_def Let_def)

lemma page_start_next:
  assumes "distinct ids" "start < length ids" "0 < n"
  shows "page_start (Some (last (take n (drop start ids)))) ids = start + length (take n (drop start ids))"
proof -
  let ?s = "take n (drop start ids)"
  have ne: "?s \<noteq> []" using assms by simp
  define i where "i = start + (length ?s - 1)"
  have len: "length ?s = min n (length ids - start)" by (auto simp: min_def)
  have "last ?s = ids ! i"
    using ne assms len by (simp add: last_conv_nth i_def)
  moreover have "i < length ids" using len assms by (auto simp: i_def)
  ultimately have "position (\<lambda>x. x = last ?s) ids = Some i" using position_distinct [OF assms(1)] by simp
  moreover have "i + 1 = start + length ?s" using ne by (simp add: i_def Suc_le_eq)
  ultimately show ?thesis by (simp add: page_start_def)
qed

lemma walk_messages_from:
  assumes "\<not> tables_poisoned t" "distinct (query_ids t q)" "0 < mq_limit q"
    and "page_start (mq_cursor q) (query_ids t q) \<le> length (query_ids t q)"
    and "length (query_ids t q) - page_start (mq_cursor q) (query_ids t q) < fuel"
  shows "walk_messages fuel t q =
           filter_map (map_of (messages t)) (drop (page_start (mq_cursor q) (query_ids t q)) (query_ids t q))"
  using assms
proof (induction fuel arbitrary: q)
  case (Suc fuel)
  let ?ids = "query_ids t q" and ?start = "page_start (mq_cursor q) (query_ids t q)"
  let ?s = "take (mq_limit q) (drop ?start ?ids)"
  let ?next = "if ?start + length ?s < length ?ids then (if ?s = [] then None else Some (last ?s)) else None"
  have page: "list_messages_by_conversation t q =
      Inr \<lparr>page_messages = filter_map (map_of (messages t)) ?s, next_cursor = ?next\<rparr>"
    by (simp only: list_messages_ids Let_def Suc.prems(1) if_False)
  have split: "drop ?start ?ids = ?s @ drop (?start + length ?s) ?ids"
    by (metis append_take_drop_id drop_drop add.commute length_take min.commute take_all_iff drop_all
        drop_eq_Nil length_drop nle_le min_def)
  show ?case
  proof (cases "?start + length ?s < length ?ids")
    case False
    then have "drop (?start + length ?s) ?ids = []" by simp
    with page split False show ?thesis by simp
  next
    case True
    then have ne: "?s \<noteq> []" and lt: "?start < length ?ids" using Suc.prems(3) by auto
    let ?q = "q\<lparr>mq_cursor := Some (last ?s)\<rparr>"
    have ids: "query_ids t ?q = ?ids" by (simp add: query_ids_def)
    have start: "page_start (mq_cursor ?q) ?ids = ?start + length ?s"
      using page_start_next [OF Suc.prems(2) lt Suc.prems(3)] by simp
    have "0 < length ?s" using ne by simp
    have "walk_messages fuel t ?q = filter_map (map_of (messages t))
        (drop (page_start (mq_cursor ?q) (query_ids t ?q)) (query_ids t ?q))"
    proof (rule Suc.IH)
      show "\<not> tables_poisoned t" by (rule Suc.prems(1))
      show "distinct (query_ids t ?q)" unfolding ids by (rule Suc.prems(2))
      show "0 < mq_limit ?q" using Suc.prems(3) by simp
      show "page_start (mq_cursor ?q) (query_ids t ?q) \<le> length (query_ids t ?q)"
        unfolding ids start using True by linarith
      show "length (query_ids t ?q) - page_start (mq_cursor ?q) (query_ids t ?q) < fuel"
        unfolding ids start using True Suc.prems(5) \<open>0 < length ?s\<close> by linarith
    qed
    then have "walk_messages fuel t ?q = filter_map (map_of (messages t)) (drop (?start + length ?s) ?ids)"
      unfolding ids start .
    then show ?thesis
      using page True ne by (subst split) (simp add: List.map_filter_def)
  qed
qed simp

text \<open>The ids a conversation's log holds are those appended to it, in order.\<close>

fun appended :: "string \<Rightarrow> storage_op \<Rightarrow> message option" where
  "appended c (AppendMessage m) = (if msg_conversation_id m = Some c then Some m else None)"
| "appended c _ = None"

fun message_op :: "storage_op \<Rightarrow> message option" where
  "message_op (AppendMessage m) = Some m"
| "message_op _ = None"

definition order_of :: "tables \<Rightarrow> string \<Rightarrow> string list" where
  "order_of t c = unwrap_or (map_of (message_order t) c) []"

lemma appended_filter:
  "filter_map (appended c) ops = filter (\<lambda>m. msg_conversation_id m = Some c) (filter_map message_op ops)"
proof (induction ops)
  case (Cons op ops)
  then show ?case by (cases op) auto
qed simp

lemma order_step:
  assumes "tables_ok t"
  shows "order_of (storage_step b op t) c = order_of t c @ (case appended c op of None \<Rightarrow> [] | Some m \<Rightarrow> [msg_id m]) \<and>
         map_of (messages (storage_step b op t)) i =
           (case message_op op of Some m \<Rightarrow> if msg_id m = i then Some m else map_of (messages t) i | None \<Rightarrow> map_of (messages t) i)"
proof (cases op)
  case (CreateConversation d)
  then show ?thesis using assms
    by (auto simp: after_op_def create_conversation_def locked_def tables_ok_def order_of_def entry_or_insert_def update_conv'
        split: option.split)
next
  case (AppendMessage m)
  then show ?thesis using assms
    by (auto simp: after_op_def append_message_def locked_def tables_ok_def order_of_def update_conv' Let_def split: option.split)
qed (use assms in \<open>auto simp: after_op_def update_conversation_def add_participant_def create_session_def update_session_def
       locked_def tables_ok_def order_of_def Let_def split: option.split\<close>)

lemma order_run:
  assumes "tables_ok t"
  shows "order_of (storage_run b ops t) c = order_of t c @ map msg_id (filter_map (appended c) ops)"
  using assms
proof (induction ops arbitrary: t)
  case (Cons op ops)
  have "order_of (storage_run b (op # ops) t) c = order_of (storage_run b ops (storage_step b op t)) c"
    by (simp add: storage_run_def)
  with Cons.IH [OF storage_step_ok [OF Cons.prems]] order_step [OF Cons.prems] show ?case
    by (simp split: option.split)
qed (simp add: storage_run_def)

lemma messages_run:
  assumes "tables_ok t" "m \<in> set (filter_map message_op ops)" "distinct (map msg_id (filter_map message_op ops))"
  shows "map_of (messages (storage_run b ops t)) (msg_id m) = Some m"
  using assms
proof (induction ops arbitrary: t)
  case (Cons op ops)
  have ok: "tables_ok (storage_step b op t)" by (rule storage_step_ok [OF Cons.prems(1)])
  have run: "storage_run b (op # ops) t = storage_run b ops (storage_step b op t)" by (simp add: storage_run_def)
  have keep: "map_of (messages (storage_run b ops s)) i = map_of (messages s) i"
    if "tables_ok s" "i \<notin> msg_id ` set (filter_map message_op ops)" for s i
    using that
  proof (induction ops arbitrary: s)
    case (Cons op ops)
    have "storage_run b (op # ops) s = storage_run b ops (storage_step b op s)" by (simp add: storage_run_def)
    with Cons order_step [of s b op c i] storage_step_ok [of s b op] show ?case
      by (auto split: option.splits)
  qed (simp add: storage_run_def)
  show ?case
  proof (cases "message_op op = Some m")
    case True
    with Cons.prems have "msg_id m \<notin> msg_id ` set (filter_map message_op ops)" by auto
    from keep [OF ok this] order_step [OF Cons.prems(1), of b op c "msg_id m"] True run show ?thesis by simp
  next
    case False
    with Cons.prems have "m \<in> set (filter_map message_op ops)" "distinct (map msg_id (filter_map message_op ops))"
      by (auto split: option.splits)
    from Cons.IH [OF ok this] run show ?thesis by simp
  qed
qed simp

text \<open>The logged messages are all there, and the first page of a conversation is its oldest messages.\<close>

lemma logged_messages:
  assumes "distinct (map msg_id (filter_map message_op ops))" and "set ms \<subseteq> set (filter_map (appended c) ops)"
  shows "filter_map (map_of (messages (storage_run b ops tables_default))) (map msg_id ms) = ms"
proof -
  have "map_of (messages (storage_run b ops tables_default)) (msg_id m) = Some m" if "m \<in> set ms" for m
    using that assms messages_run [OF tables_default_ok] by (auto simp: appended_filter)
  then show ?thesis by (induction ms) auto
qed

lemma logged_ids:
  "query_ids (storage_run b ops tables_default) q =
     map msg_id (if mq_descending q then rev (filter_map (appended (mq_conversation_id q)) ops)
                 else filter_map (appended (mq_conversation_id q)) ops)"
  using order_run [OF tables_default_ok, of b ops "mq_conversation_id q"]
  by (simp add: query_ids_def order_of_def tables_default_def rev_map Let_def)

lemma first_page:
  assumes "distinct (map msg_id (filter_map message_op ops))"
  shows "\<exists>p. list_messages_by_conversation (storage_run b ops tables_default) (message_query_new c n) = Inr p \<and>
             page_messages p = take n (filter_map (appended c) ops)"
proof -
  let ?t = "storage_run b ops tables_default" and ?ms = "filter_map (appended c) ops"
  have "\<not> tables_poisoned ?t" using storage_run_ok [OF tables_default_ok] by (simp add: tables_ok_def)
  moreover have "filter_map (map_of (messages ?t)) (take n (map msg_id ?ms)) = take n ?ms"
    unfolding take_map by (rule logged_messages [OF assms]) (rule set_take_subset)
  ultimately show ?thesis
    by (simp add: list_messages_ids logged_ids message_query_new_def page_start_def Let_def)
qed

section \<open>Properties\<close>

text \<open>C38. Paging through a conversation loses and repeats nothing: if the appended messages carry distinct
  ids, a client that follows the cursors, with any positive page size, reads exactly the messages
  appended to the conversation, in append order or, descending, in reverse.\<close>

theorem message_paging_complete:
  assumes ids: "distinct (map msg_id (filter_map message_op ops))" and limit: "0 < n"
    and fuel: "length (filter_map (appended c) ops) < fuel"
  shows "walk_messages fuel (storage_run b ops tables_default)
           \<lparr>mq_conversation_id = c, mq_limit = n, mq_cursor = None, mq_descending = d\<rparr> =
         (if d then rev (filter_map (appended c) ops) else filter_map (appended c) ops)"
proof -
  let ?t = "storage_run b ops tables_default"
  let ?q = "\<lparr>mq_conversation_id = c, mq_limit = n, mq_cursor = None, mq_descending = d\<rparr>"
  let ?ms = "filter_map (appended c) ops"
  have qids: "query_ids ?t ?q = map msg_id (if d then rev ?ms else ?ms)" by (simp add: logged_ids)
  have "distinct (map msg_id ?ms)"
    unfolding appended_filter using ids by (rule distinct_map_filter)
  then have dist: "distinct (map msg_id (if d then rev ?ms else ?ms))" by (simp add: rev_map [symmetric])
  have "filter_map (map_of (messages ?t)) (map msg_id (if d then rev ?ms else ?ms)) = (if d then rev ?ms else ?ms)"
    by (rule logged_messages [OF ids]) auto
  moreover have "\<not> tables_poisoned ?t" using storage_run_ok [OF tables_default_ok] by (simp add: tables_ok_def)
  ultimately show ?thesis
    using walk_messages_from [of ?t ?q fuel] dist limit fuel unfolding qids
    by (cases d) (simp_all add: page_start_def)
qed

text \<open>Keyset paging of the sidebar is seamless: the rows of a non-empty page followed by the page
  after its last row are the rows of one page with the summed limit, for every search, every starting
  key and every state of the store.\<close>

theorem sidebar_paging_seamless:
  assumes "list_owned_conversation_summaries_page (memory_reads cb pb (storage_run sb ops tables_default)) org email q = Inr rows"
    and "rows \<noteq> []"
  shows "\<exists>more. list_owned_conversation_summaries_page (memory_reads cb pb (storage_run sb ops tables_default)) org email
             (q\<lparr>sq_limit := n, sq_after := Some (key_of (sum_conversation (last rows)))\<rparr>) = Inr more \<and>
           list_owned_conversation_summaries_page (memory_reads cb pb (storage_run sb ops tables_default)) org email
             (q\<lparr>sq_limit := sq_limit q + n\<rparr>) = Inr (rows @ more)"
  by (rule memory.page_compose [OF assms])

text \<open>The sidebar shows a user only their own conversations: every row is a conversation of the
  requested organization that has messages and a user participant with the requester's address; a
  requester without an address sees nothing.\<close>

theorem sidebar_owner_scoped:
  assumes "list_owned_conversation_summaries_page (memory_reads cb pb (storage_run sb ops tables_default)) org email q = Inr rows"
    and "r \<in> set rows"
  shows "conv_organization_id (sum_conversation r) = org \<and> 0 < sum_message_count r \<and> trim email \<noteq> [] \<and>
         (\<exists>p \<in> set (map snd (participants (storage_run sb ops tables_default))).
            pt_conversation_id p = conv_id (sum_conversation r) \<and> pt_type p = User \<and>
            map_option (\<lambda>e. to_ascii_lowercase (trim e)) (pt_email p) = Some (to_ascii_lowercase (trim email)))"
proof -
  note row = memory.page_scoped [OF assms]
  then obtain p where p: "p \<in> set (memory_parts pb (storage_run sb ops tables_default) (conv_id (sum_conversation r)))"
    "is_owner p email" by blast
  then have "p \<in> set (map snd (participants (storage_run sb ops tables_default)))"
    "pt_conversation_id p = conv_id (sum_conversation r)" by (auto simp: memory_parts_def)
  with row p(2) show ?thesis
    by (auto simp: is_owner_def eq_ignore_ascii_case_def split: if_splits option.splits)
qed

text \<open>Creating a conversation is idempotent: in every state the store reaches, no two conversations
  share an organization and an idempotency key, and a second creation with the same pair returns the
  row of the first and changes nothing.\<close>

theorem create_conversation_idempotent:
  assumes "create_conversation b c (storage_run sb ops tables_default) = Inr (r, t')"
    and "same_idempotency c c'"
  shows "create_conversation b' c' t' = Inr (r, t') \<and> distinct (map idem_key (map snd (conversations t'))) \<and>
         same_idempotency r c"
proof -
  let ?t = "storage_run sb ops tables_default"
  have ok: "tables_ok ?t" by (rule storage_run_ok [OF tables_default_ok])
  note ok' = create_conversation_ok [OF ok assms(1)]
  have r: "r \<in> set (map snd (conversations t')) \<and> same_idempotency r c"
    using assms(1) ok
    by (auto simp: create_conversation_def locked_def tables_ok_def same_idempotency_def keyed_def alist_update_set
        split: option.splits dest!: find_SomeD)
  obtain e where e: "find (\<lambda>e. same_idempotency e c') (hash_order b' (map snd (conversations t'))) = Some e"
    using r assms(2) by (cases "find (\<lambda>e. same_idempotency e c') (hash_order b' (map snd (conversations t')))")
      (auto simp: find_None_iff same_idempotency_def)
  then have "e \<in> set (map snd (conversations t'))" "same_idempotency e c'" using find_SomeD by fastforce+
  moreover have "inj_on idem_key (set (map snd (conversations t')))"
    using ok' by (metis tables_ok_def distinct_map)
  ultimately have "e = r"
    using r assms(2) by (auto simp: same_idempotency_def idem_key_def inj_on_def)
  with e ok' r show ?thesis
    by (simp add: create_conversation_def locked_def tables_ok_def)
qed

section \<open>Observations\<close>

text \<open>A page size of zero ends the walk at once: no cursor comes back although messages remain.\<close>

lemma zero_limit_no_cursor:
  "\<not> tables_poisoned t \<Longrightarrow>
   list_messages_by_conversation t \<lparr>mq_conversation_id = c, mq_limit = 0, mq_cursor = cur, mq_descending = d\<rparr> =
     Inr \<lparr>page_messages = [], next_cursor = None\<rparr>"
  by (simp add: list_messages_by_conversation_def locked_def Let_def)

text \<open>A cursor that names no message of the conversation restarts the listing.\<close>

lemma unknown_cursor_restarts:
  "cursor \<notin> set (query_ids t q) \<Longrightarrow>
   list_messages_by_conversation t (q\<lparr>mq_cursor := Some cursor\<rparr>) = list_messages_by_conversation t (q\<lparr>mq_cursor := None\<rparr>)"
proof -
  assume new: "cursor \<notin> set (query_ids t q)"
  have ids: "query_ids t (q\<lparr>mq_cursor := x\<rparr>) = query_ids t q" for x by (simp add: query_ids_def)
  have "position (\<lambda>i. i = cursor) (query_ids t q) = None" using new by (auto simp: position_None)
  then have "page_start (Some cursor) (query_ids t q) = page_start None (query_ids t q)"
    by (simp add: page_start_def)
  then show ?thesis by (simp add: list_messages_ids ids)
qed

section \<open>Witnesses\<close>

definition demo_message :: "string \<Rightarrow> string \<Rightarrow> message" where
  "demo_message c i =
     \<lparr>msg_id = i, msg_external_id = None, msg_organization_id = None, msg_conversation_id = Some c,
      msg_direction = Inbound, msg_content = content_from_text i, msg_from = None, msg_to = None,
      msg_metadata_json = None, msg_analytics_json = None, msg_created_at = 0, msg_updated_at = None\<rparr>"

definition demo_conversation :: "string \<Rightarrow> int \<Rightarrow> conversation" where
  "demo_conversation i t =
     \<lparr>conv_id = i, conv_platform = Web, conv_name = i, conv_organization_id = ''org'', conv_idempotency_key = i,
      conv_metadata_json = None, conv_analytics_json = None, conv_created_at = t, conv_updated_at = t\<rparr>"

definition demo_participant :: "string \<Rightarrow> string \<Rightarrow> participant" where
  "demo_participant c i =
     \<lparr>pt_id = i, pt_conversation_id = c, pt_organization_id = ''org'', pt_type = User, pt_external_id = None,
      pt_internal_id = None, pt_browser_fingerprint = None, pt_browser_info = None, pt_name = i,
      pt_email = Some ''a@x.io'', pt_phone = None, pt_crm_contact_id = None, pt_metadata_json = None,
      pt_created_at = 0, pt_updated_at = 0\<rparr>"

definition demo_ops :: "storage_op list" where
  "demo_ops =
     [CreateConversation (demo_conversation ''c1'' 1), CreateConversation (demo_conversation ''c2'' 2),
      AddParticipant (demo_participant ''c1'' ''p1''), AddParticipant (demo_participant ''c2'' ''p2''),
      AppendMessage (demo_message ''c1'' ''m1''), AppendMessage (demo_message ''c2'' ''m2''),
      AppendMessage (demo_message ''c1'' ''m3'')]"

theorem message_paging_complete_witness:
  "walk_messages 3 (storage_run (\<lambda>_. 0) demo_ops tables_default)
     \<lparr>mq_conversation_id = ''c1'', mq_limit = 1, mq_cursor = None, mq_descending = True\<rparr> =
   [demo_message ''c1'' ''m3'', demo_message ''c1'' ''m1'']"
  by (subst message_paging_complete) (simp_all add: demo_ops_def demo_message_def)

definition demo_rows :: "nat \<Rightarrow> storage_error + conversation_summary list" where
  "demo_rows n =
     list_owned_conversation_summaries_page (memory_reads (\<lambda>_. 0) (\<lambda>_. 0) (storage_run (\<lambda>_. 0) demo_ops tables_default))
       ''org'' ''A@x.io'' (summary_query_new n)"

definition demo_row :: "conversation_summary" where
  "demo_row = \<lparr>sum_conversation = demo_conversation ''c2'' 2, first_inbound_text = Some ''m2'', sum_message_count = 1\<rparr>"

lemma demo_first_page: "demo_rows 1 = Inr [demo_row]"
  by code_simp

theorem sidebar_paging_seamless_witness:
  "\<exists>more. demo_rows 2 = Inr (demo_row # more)"
  using sidebar_paging_seamless [OF demo_first_page [unfolded demo_rows_def], of 1]
  by (auto simp: demo_rows_def summary_query_new_def numeral_2_eq_2)

theorem sidebar_owner_scoped_witness:
  "demo_rows 1 = Inr [demo_row] \<and> conv_organization_id (sum_conversation demo_row) = ''org''"
  using demo_first_page sidebar_owner_scoped [OF demo_first_page [unfolded demo_rows_def], of demo_row] by simp

theorem create_conversation_idempotent_witness:
  "\<exists>t'. create_conversation (\<lambda>_. 0) (demo_conversation ''c3'' 3) (storage_run (\<lambda>_. 0) demo_ops tables_default)
          = Inr (demo_conversation ''c3'' 3, t') \<and>
        create_conversation (\<lambda>_. 0) ((demo_conversation ''c3'' 9)\<lparr>conv_id := ''c4''\<rparr>) t' = Inr (demo_conversation ''c3'' 3, t')"
proof -
  let ?t = "storage_run (\<lambda>_. 0) demo_ops tables_default"
  have "map_option (\<lambda>_. ()) (case create_conversation (\<lambda>_. 0) (demo_conversation ''c3'' 3) ?t of
      Inr (r, _) \<Rightarrow> if r = demo_conversation ''c3'' 3 then Some () else None | Inl _ \<Rightarrow> None) = Some ()"
    by code_simp
  then obtain t' where c: "create_conversation (\<lambda>_. 0) (demo_conversation ''c3'' 3) ?t = Inr (demo_conversation ''c3'' 3, t')"
    by (auto split: sum.splits prod.splits if_splits)
  with create_conversation_idempotent [OF c, of "(demo_conversation ''c3'' 9)\<lparr>conv_id := ''c4''\<rparr>" "\<lambda>_. 0"]
  show ?thesis by (auto simp: same_idempotency_def demo_conversation_def)
qed

end
