(* ===== verification/Interactions.thy ===== *)
theory Interactions
  imports Prelude
begin

text \<open>
  Rich interactions: \<open>rust/smooth-operator/src/interaction.rs\<close> (the kind interface and the
  registry), \<open>choices.rs\<close> and \<open>identity_intake.rs\<close> (the two kinds), and
  \<open>tools/interaction.rs\<close> (the raise tool, which parks the turn or degrades to a conversation, and the
  submit tool).

  The derived serialisers are arguments: \<open>de\<close> functions read a JSON value, \<open>ser\<close> functions write one.
  The long prose of a directive is reduced to the values it interpolates, and a tool's JSON text to
  its status and payload. Error texts that carry values are constructors of \<open>raise_error\<close>.
\<close>

section \<open>The kind interface\<close>

record field_error =
  fe_field :: string
  fe_message :: string

record interaction_request =
  req_kind :: string
  req_spec :: json
  req_reason :: string

record interaction_raise =
  raise_id :: string
  raise_request :: interaction_request

datatype interaction_outcome = Submitted json | Declined

record interaction_resolution =
  interaction_id :: string
  outcome :: interaction_outcome

datatype raise_error =
    QuestionsNotArray | QuestionCount | QuestionNotObject | QuestionMissing | HeaderMissing
  | HeaderTooLong string | DuplicateHeader string | OptionsMissing string | OptionCount string
  | InvalidOption string json | EmptyLabel string
  | FieldsNotArray | FieldsEmpty | UnknownField string | KeyMissing | InvalidField json
  | ChannelClosed

text \<open>A trait object: its identity, its raise parser, its validator and the parts of its fallback text.\<close>

record interaction_kind =
  ik_kind :: string
  ik_capability :: string
  ik_parse_request :: "json \<Rightarrow> raise_error + interaction_request"
  ik_validate :: "json \<Rightarrow> json \<Rightarrow> field_error list + json"
  ik_fallback :: "json \<Rightarrow> string \<Rightarrow> string list"

type_synonym interaction_registry = "interaction_kind list"

definition registry_empty :: interaction_registry where
  "registry_empty = []"

definition registry_with :: "interaction_registry \<Rightarrow> interaction_kind \<Rightarrow> interaction_registry" where
  "registry_with r k = r @ [k]"

definition registry_get :: "interaction_registry \<Rightarrow> string \<Rightarrow> interaction_kind option" where
  "registry_get r kind = find (\<lambda>k. ik_kind k = kind) r"

text \<open>The reason both kinds read from the raise arguments.\<close>

definition nonblank :: "string option \<Rightarrow> string option" where
  "nonblank s = option_filter (\<lambda>t. t \<noteq> []) (map_option trim s)"

definition request_reason :: "json \<Rightarrow> string" where
  "request_reason args = unwrap_or (nonblank (get_str args ''reason'')) ''to help you better''"

section \<open>Choices\<close>

definition HEADER_MAX_CHARS :: nat where "HEADER_MAX_CHARS = 12"

record choice_option =
  co_label :: string
  co_description :: string

record choice_question =
  cq_question :: string
  cq_header :: string
  cq_options :: "choice_option list"
  cq_multi_select :: bool

record choice_answer =
  ca_header :: string
  ca_options :: "string list"
  ca_other :: "string option"

record choice_values =
  answers :: "choice_answer list"

definition selection_count :: "choice_answer \<Rightarrow> nat" where
  "selection_count a = length (ca_options a) + (if ca_other a = None then 0 else 1)"

definition normalize_answer :: "choice_answer \<Rightarrow> choice_answer" where
  "normalize_answer a =
     \<lparr>ca_header = trim (ca_header a), ca_options = filter (\<lambda>o'. o' \<noteq> []) (map trim (ca_options a)),
      ca_other = nonblank (ca_other a)\<rparr>"

definition no_pick :: "string \<Rightarrow> field_error" where
  "no_pick h = \<lparr>fe_field = h, fe_message = ''select an option or provide an 'other' answer''\<rparr>"

definition offered :: "choice_question \<Rightarrow> string \<Rightarrow> bool" where
  "offered q l = list_ex (\<lambda>o'. co_label o' = l) (cq_options q)"

definition question_errors :: "choice_question \<Rightarrow> choice_answer \<Rightarrow> field_error list" where
  "question_errors q a =
     map (\<lambda>l. \<lparr>fe_field = cq_header q, fe_message = [CHR 0x27] @ l @ [CHR 0x27] @ '' is not one of the offered options''\<rparr>)
         (filter (\<lambda>l. \<not> offered q l) (ca_options a)) @
     (if selection_count a = 0 then [no_pick (cq_header q)]
      else if \<not> cq_multi_select q \<and> selection_count a > 1
      then [\<lparr>fe_field = cq_header q, fe_message = ''this question takes a single answer''\<rparr>]
      else [])"

text \<open>One pass over the questions with the accumulated errors and answers.\<close>

definition question_step ::
  "choice_answer list \<Rightarrow> choice_question \<Rightarrow> field_error list \<times> choice_answer list
    \<Rightarrow> field_error list \<times> choice_answer list" where
  "question_step normalized q st =
     (case st of (errors, out) \<Rightarrow>
        (case find (\<lambda>a. ca_header a = cq_header q) normalized of
           None \<Rightarrow> (errors @ [\<lparr>fe_field = cq_header q, fe_message = ''this question must be answered''\<rparr>], out)
         | Some a \<Rightarrow>
             (errors @ question_errors q a,
              if list_ex (\<lambda>l. \<not> offered q l) (ca_options a) then out else out @ [a])))"

definition validate_choices ::
  "choice_question list \<Rightarrow> choice_values \<Rightarrow> field_error list + choice_values" where
  "validate_choices questions vs =
     (let normalized = map normalize_answer (answers vs) in
      if questions = [] then
        let errors = map (\<lambda>a. no_pick (ca_header a)) (filter (\<lambda>a. selection_count a = 0) normalized) @
              (if normalized = []
               then [\<lparr>fe_field = ''answers'', fe_message = ''provide an answer for each question, or declined=true''\<rparr>]
               else [])
        in if errors = [] then Inr \<lparr>answers = normalized\<rparr> else Inl errors
      else
        (case fold (question_step normalized) questions ([], []) of
           (errors, out) \<Rightarrow> if errors = [] then Inr \<lparr>answers = out\<rparr> else Inl errors))"

fun parse_option :: "string \<Rightarrow> json \<Rightarrow> raise_error + choice_option" where
  "parse_option h (JStr s) = Inr \<lparr>co_label = trim s, co_description = []\<rparr>"
| "parse_option h (JObj kvs) =
     Inr \<lparr>co_label = unwrap_or (map_option trim (get_str (JObj kvs) ''label'')) [],
          co_description = trim (unwrap_or (get_str (JObj kvs) ''description'') [])\<rparr>"
| "parse_option h v = Inl (InvalidOption h v)"

definition parse_labelled_option :: "string \<Rightarrow> json \<Rightarrow> raise_error + choice_option" where
  "parse_labelled_option h v =
     bind_result (parse_option h v) (\<lambda>o'. if co_label o' = [] then Inl (EmptyLabel h) else Inr o')"

definition parse_question :: "string list \<Rightarrow> json \<Rightarrow> raise_error + choice_question" where
  "parse_question seen item =
     (case as_object item of
        None \<Rightarrow> Inl QuestionNotObject
      | Some _ \<Rightarrow>
          (case nonblank (get_str item ''question'') of
             None \<Rightarrow> Inl QuestionMissing
           | Some question \<Rightarrow>
               (case nonblank (get_str item ''header'') of
                  None \<Rightarrow> Inl HeaderMissing
                | Some header \<Rightarrow>
                    if length header > HEADER_MAX_CHARS then Inl (HeaderTooLong header)
                    else if header \<in> set seen then Inl (DuplicateHeader header)
                    else
                      (case get_array item ''options'' of
                         None \<Rightarrow> Inl (OptionsMissing header)
                       | Some raw_options \<Rightarrow>
                           if \<not> (2 \<le> length raw_options \<and> length raw_options \<le> 4) then Inl (OptionCount header)
                           else bind_result (map_result (parse_labelled_option header) raw_options) (\<lambda>options.
                             Inr \<lparr>cq_question = question, cq_header = header, cq_options = options,
                                  cq_multi_select = unwrap_or (get_bool item ''multiSelect'') False\<rparr>)))))"

fun parse_question_items :: "string list \<Rightarrow> json list \<Rightarrow> raise_error + choice_question list" where
  "parse_question_items seen [] = Inr []"
| "parse_question_items seen (item # items) =
     bind_result (parse_question seen item) (\<lambda>q.
       bind_result (parse_question_items (seen @ [cq_header q]) items) (\<lambda>qs. Inr (q # qs)))"

definition parse_questions :: "json \<Rightarrow> raise_error + choice_question list" where
  "parse_questions raw =
     (case as_array raw of
        None \<Rightarrow> Inl QuestionsNotArray
      | Some items \<Rightarrow>
          if \<not> (1 \<le> length items \<and> length items \<le> 4) then Inl QuestionCount
          else parse_question_items [] items)"

definition choices_parse_request ::
  "(choice_question list \<Rightarrow> json) \<Rightarrow> json \<Rightarrow> raise_error + interaction_request" where
  "choices_parse_request questions_ser args =
     bind_result (parse_questions (unwrap_or (jget args ''questions'') JNull)) (\<lambda>questions.
       Inr \<lparr>req_kind = ''choices'', req_spec = JObj [(''questions'', questions_ser questions)],
            req_reason = request_reason args\<rparr>)"

definition invalid_shape :: "string \<Rightarrow> field_error list" where
  "invalid_shape e = [\<lparr>fe_field = ''values'', fe_message = ''invalid values shape: '' @ e\<rparr>]"

definition choices_validate ::
  "(json \<Rightarrow> choice_question list option) \<Rightarrow> (json \<Rightarrow> string + choice_values) \<Rightarrow> (choice_values \<Rightarrow> json)
    \<Rightarrow> json \<Rightarrow> json \<Rightarrow> field_error list + json" where
  "choices_validate questions_de values_de values_ser spec v =
     (let questions = unwrap_or (Option.bind (jget spec ''questions'') questions_de) [] in
      case values_de v of
        Inl e \<Rightarrow> Inl (invalid_shape e)
      | Inr vs \<Rightarrow>
          (case validate_choices questions vs of
             Inl errors \<Rightarrow> Inl errors
           | Inr validated \<Rightarrow> Inr (values_ser validated)))"

definition enumerate_question :: "json \<Rightarrow> string option" where
  "enumerate_question q =
     (case get_str q ''question'' of
        None \<Rightarrow> None
      | Some question \<Rightarrow>
          let header = unwrap_or (get_str q ''header'') question;
              multi = unwrap_or (get_bool q ''multiSelect'') False;
              opts = (case get_array q ''options'' of
                        None \<Rightarrow> []
                      | Some os \<Rightarrow> join_str '', '' (filter_map (\<lambda>o'. get_str o' ''label'') os))
          in Some (''- ['' @ header @ ''] '' @ question @ '' Options: '' @ opts @
                   (if multi then '' (choose one or more)'' else []) @ ''.''))"

definition choices_fallback :: "json \<Rightarrow> string \<Rightarrow> string list" where
  "choices_fallback spec reason =
     [reason, (case get_array spec ''questions'' of
                 None \<Rightarrow> [] | Some qs \<Rightarrow> join_str newline (filter_map enumerate_question qs))]"

definition choices_kind ::
  "(choice_question list \<Rightarrow> json) \<Rightarrow> (json \<Rightarrow> choice_question list option) \<Rightarrow> (json \<Rightarrow> string + choice_values)
    \<Rightarrow> (choice_values \<Rightarrow> json) \<Rightarrow> interaction_kind" where
  "choices_kind questions_ser questions_de values_de values_ser =
     \<lparr>ik_kind = ''choices'', ik_capability = ''choice_chips'',
      ik_parse_request = choices_parse_request questions_ser,
      ik_validate = choices_validate questions_de values_de values_ser, ik_fallback = choices_fallback\<rparr>"

section \<open>Identity intake\<close>

datatype intake_field_key = Name | Email | Phone

fun key_as_str :: "intake_field_key \<Rightarrow> string" where
  "key_as_str Name = ''name''"
| "key_as_str Email = ''email''"
| "key_as_str Phone = ''phone''"

record intake_field =
  if_key :: intake_field_key
  if_required :: bool
  if_label :: "string option"

record intake_values =
  iv_name :: "string option"
  iv_email :: "string option"
  iv_phone :: "string option"

definition intake_is_empty :: "intake_values \<Rightarrow> bool" where
  "intake_is_empty v = (iv_name v = None \<and> iv_email v = None \<and> iv_phone v = None)"

record intake_field_error =
  ie_field :: intake_field_key
  ie_message :: string

definition normalize_email :: "string \<Rightarrow> string option" where
  "normalize_email raw =
     (let s = trim raw in
      if list_ex is_whitespace s then None
      else case split_once (CHR ''@'') s of
             None \<Rightarrow> None
           | Some (local, domain) \<Rightarrow>
               if local = [] \<or> CHR ''@'' \<in> set domain then None
               else
                 let domain_lc = to_ascii_lowercase domain;
                     parts = split_by (\<lambda>c. c = CHR ''.'') domain_lc
                 in if length parts < 2 \<or> list_ex (\<lambda>p. p = []) parts then None
                    else Some (local @ ''@'' @ domain_lc))"

definition is_separator :: "char \<Rightarrow> bool" where
  "is_separator c = (c \<in> set '' -.()'')"

definition normalize_phone_e164 :: "string \<Rightarrow> string option" where
  "normalize_phone_e164 raw =
     (let s = filter (\<lambda>c. \<not> is_separator c) (trim raw);
          (plus, digits) = (case strip_prefix s ''+'' of Some rest \<Rightarrow> (True, rest) | None \<Rightarrow> (False, s))
      in if digits = [] \<or> \<not> list_all is_ascii_digit digits then None
         else if plus then
           (if 8 \<le> length digits \<and> length digits \<le> 15 \<and> \<not> starts_with digits ''0'' then Some (''+'' @ digits) else None)
         else if length digits = 10 then Some (''+1'' @ digits)
         else if length digits = 11 \<and> starts_with digits ''1'' then Some (''+'' @ digits)
         else None)"

fun intake_get :: "intake_values \<Rightarrow> intake_field_key \<Rightarrow> string option" where
  "intake_get v Name = iv_name v"
| "intake_get v Email = iv_email v"
| "intake_get v Phone = iv_phone v"

definition missing_errors :: "intake_field list \<Rightarrow> intake_values \<Rightarrow> intake_field_error list" where
  "missing_errors flds v =
     map (\<lambda>f. \<lparr>ie_field = if_key f, ie_message = ''this field is required''\<rparr>)
       (filter (\<lambda>f. if_required f \<and> (case intake_get v (if_key f) of None \<Rightarrow> True | Some s \<Rightarrow> trim s = [])) flds)"

text \<open>A provided, non-blank value goes through its normaliser; a blank one is dropped.\<close>

definition format_field ::
  "(string \<Rightarrow> string option) \<Rightarrow> intake_field_key \<Rightarrow> string \<Rightarrow> string option \<Rightarrow> intake_field_error list \<times> string option" where
  "format_field norm key msg v =
     (case nonblank v of
        None \<Rightarrow> ([], None)
      | Some trimmed \<Rightarrow>
          (case norm trimmed of
             Some n \<Rightarrow> ([], Some n)
           | None \<Rightarrow> ([\<lparr>ie_field = key, ie_message = msg\<rparr>], None)))"

definition validate_intake ::
  "intake_field list \<Rightarrow> intake_values \<Rightarrow> intake_field_error list + intake_values" where
  "validate_intake flds v =
     (let (e_email, email) = format_field normalize_email Email ''must be a valid email address'' (iv_email v);
          (e_phone, phone) = format_field normalize_phone_e164 Phone
             ''must be a valid phone number (include your country code, e.g. +1 555 123 4567)'' (iv_phone v);
          errors = missing_errors flds v @ e_email @ e_phone
      in if errors = [] then Inr \<lparr>iv_name = nonblank (iv_name v), iv_email = email, iv_phone = phone\<rparr>
         else Inl errors)"

definition parse_key :: "string \<Rightarrow> raise_error + intake_field_key" where
  "parse_key s =
     (if s = ''name'' then Inr Name else if s = ''email'' then Inr Email else if s = ''phone'' then Inr Phone
      else Inl (UnknownField s))"

fun parse_field :: "json \<Rightarrow> raise_error + intake_field" where
  "parse_field (JStr s) = bind_result (parse_key s) (\<lambda>k. Inr \<lparr>if_key = k, if_required = True, if_label = None\<rparr>)"
| "parse_field (JObj kvs) =
     (case get_str (JObj kvs) ''key'' of
        None \<Rightarrow> Inl KeyMissing
      | Some key \<Rightarrow> bind_result (parse_key key) (\<lambda>k.
          Inr \<lparr>if_key = k, if_required = unwrap_or (get_bool (JObj kvs) ''required'') True,
               if_label = get_str (JObj kvs) ''label''\<rparr>))"
| "parse_field v = Inl (InvalidField v)"

definition parse_fields :: "json \<Rightarrow> raise_error + intake_field list" where
  "parse_fields raw =
     (case as_array raw of
        None \<Rightarrow> Inl FieldsNotArray
      | Some items \<Rightarrow> if items = [] then Inl FieldsEmpty else map_result parse_field items)"

definition intake_parse_request ::
  "(intake_field list \<Rightarrow> json) \<Rightarrow> json \<Rightarrow> raise_error + interaction_request" where
  "intake_parse_request fields_ser args =
     bind_result (parse_fields (unwrap_or (jget args ''fields'') JNull)) (\<lambda>flds.
       Inr \<lparr>req_kind = ''identity_intake'', req_spec = JObj [(''fields'', fields_ser flds)],
            req_reason = request_reason args\<rparr>)"

definition intake_validate ::
  "(json \<Rightarrow> intake_field list option) \<Rightarrow> (json \<Rightarrow> string + intake_values) \<Rightarrow> (intake_values \<Rightarrow> json)
    \<Rightarrow> json \<Rightarrow> json \<Rightarrow> field_error list + json" where
  "intake_validate fields_de values_de values_ser spec v =
     (let flds = unwrap_or (Option.bind (jget spec ''fields'') fields_de) [] in
      case values_de v of
        Inl e \<Rightarrow> Inl (invalid_shape e)
      | Inr vs \<Rightarrow>
          if intake_is_empty vs
          then Inl [\<lparr>fe_field = ''values'', fe_message = ''provide at least one of name/email/phone, or declined=true''\<rparr>]
          else (case validate_intake flds vs of
                  Inl errors \<Rightarrow> Inl (map (\<lambda>e. \<lparr>fe_field = key_as_str (ie_field e), fe_message = ie_message e\<rparr>) errors)
                | Inr validated \<Rightarrow> Inr (values_ser validated)))"

definition intake_fallback :: "json \<Rightarrow> string \<Rightarrow> string list" where
  "intake_fallback spec reason =
     [(case get_array spec ''fields'' of
         None \<Rightarrow> [] | Some fs \<Rightarrow> join_str '', '' (filter_map (\<lambda>f. get_str f ''key'') fs)), reason]"

definition intake_kind ::
  "(intake_field list \<Rightarrow> json) \<Rightarrow> (json \<Rightarrow> intake_field list option) \<Rightarrow> (json \<Rightarrow> string + intake_values)
    \<Rightarrow> (intake_values \<Rightarrow> json) \<Rightarrow> interaction_kind" where
  "intake_kind fields_ser fields_de values_de values_ser =
     \<lparr>ik_kind = ''identity_intake'', ik_capability = ''identity_form'',
      ik_parse_request = intake_parse_request fields_ser,
      ik_validate = intake_validate fields_de values_de values_ser, ik_fallback = intake_fallback\<rparr>"

definition registry_default :: "interaction_kind \<Rightarrow> interaction_kind \<Rightarrow> interaction_registry" where
  "registry_default intake choices = registry_with (registry_with registry_empty intake) choices"

section \<open>The tools\<close>

text \<open>
  The turn's shared interaction state: the raises the host bridge has been sent, whether it still
  listens, the resolutions that will arrive on the outcome channel before the current deadline, and
  the specs raised conversationally (with the poison flag of their lock).
\<close>

record turn_channels =
  sent_raises :: "interaction_raise list"
  bridge_open :: bool
  outcomes :: "interaction_resolution list"
  raised_specs :: "string \<rightharpoonup> json"
  raised_poisoned :: bool

datatype raise_output =
    Conversational string json string "string list"
  | NoResponse
  | SubmittedOut json
  | DeclinedOut

text \<open>The wait of a parked raise. The channel running dry stands for the deadline passing or the sender
  going away; both end the wait alike.\<close>

fun park_loop :: "string \<Rightarrow> interaction_resolution list \<Rightarrow> raise_output \<times> interaction_resolution list" where
  "park_loop rid [] = (NoResponse, [])"
| "park_loop rid (r # rs) =
     (if interaction_id r \<noteq> rid then park_loop rid rs
      else (case outcome r of Submitted vs \<Rightarrow> (SubmittedOut vs, rs) | Declined \<Rightarrow> (DeclinedOut, rs)))"

definition request_execute ::
  "interaction_kind \<Rightarrow> bool \<Rightarrow> string \<Rightarrow> json \<Rightarrow> turn_channels \<Rightarrow> (raise_error + raise_output) \<times> turn_channels" where
  "request_execute k rich rid arguments st =
     (case ik_parse_request k arguments of
        Inl e \<Rightarrow> (Inl e, st)
      | Inr request \<Rightarrow>
          if \<not> rich then
            (Inr (Conversational (req_kind request) (req_spec request) (req_reason request)
                    (ik_fallback k (req_spec request) (req_reason request))),
             if raised_poisoned st then st
             else st\<lparr>raised_specs := (raised_specs st)(req_kind request \<mapsto> req_spec request)\<rparr>)
          else if \<not> bridge_open st then (Inl ChannelClosed, st)
          else
            let st1 = st\<lparr>sent_raises := sent_raises st @ [\<lparr>raise_id = rid, raise_request = request\<rparr>]\<rparr>
            in case park_loop rid (outcomes st1) of
                 (out, rest) \<Rightarrow> (Inr out, st1\<lparr>outcomes := rest\<rparr>))"

datatype submit_error = KindRequired | UnknownKind string | ValidationFailed "field_error list"

datatype submit_output = SubmitDeclined | SubmitAccepted json

text \<open>The submit tool returns its answer and the calls it makes to the attach callback, if one is set.\<close>

definition submit_execute ::
  "interaction_registry \<Rightarrow> bool \<Rightarrow> turn_channels \<Rightarrow> json \<Rightarrow> (submit_error + submit_output) \<times> (string \<times> json) list" where
  "submit_execute kinds has_attach st arguments =
     (case get_str arguments ''kind'' of
        None \<Rightarrow> (Inl KindRequired, [])
      | Some kind_id \<Rightarrow>
          (case registry_get kinds kind_id of
             None \<Rightarrow> (Inl (UnknownKind kind_id), [])
           | Some k \<Rightarrow>
               if unwrap_or (get_bool arguments ''declined'') False then (Inr SubmitDeclined, [])
               else
                 let vs = unwrap_or (jget arguments ''values'') JNull;
                     spec = unwrap_or (if raised_poisoned st then None else raised_specs st kind_id) JNull
                 in case ik_validate k spec vs of
                      Inr canonical \<Rightarrow>
                        (Inr (SubmitAccepted canonical), if has_attach then [(kind_id, canonical)] else [])
                    | Inl errors \<Rightarrow> (Inl (ValidationFailed errors), [])))"

section \<open>Lemmas on choices\<close>

definition answer_ok :: "choice_question \<Rightarrow> choice_answer \<Rightarrow> bool" where
  "answer_ok q a \<longleftrightarrow>
     (\<forall>l \<in> set (ca_options a). \<exists>o' \<in> set (cq_options q). co_label o' = l) \<and>
     0 < selection_count a \<and> (cq_multi_select q \<or> selection_count a = 1)"

lemma question_errors_Nil: "(question_errors q a = []) = answer_ok q a"
  by (auto simp: question_errors_def answer_ok_def offered_def list_ex_iff filter_empty_conv)

definition step_errors :: "choice_answer list \<Rightarrow> choice_question \<Rightarrow> field_error list" where
  "step_errors normalized q = fst (question_step normalized q ([], []))"

definition step_answers :: "choice_answer list \<Rightarrow> choice_question \<Rightarrow> choice_answer list" where
  "step_answers normalized q = snd (question_step normalized q ([], []))"

lemma question_step_eq:
  "question_step normalized q (es, out) = (es @ step_errors normalized q, out @ step_answers normalized q)"
  by (simp add: question_step_def step_errors_def step_answers_def split: option.split)

lemma fold_question_step:
  "fold (question_step normalized) qs (es, out) =
     (es @ concat (map (step_errors normalized) qs), out @ concat (map (step_answers normalized) qs))"
  by (induction qs arbitrary: es out) (simp_all add: question_step_eq)

definition answered :: "choice_answer list \<Rightarrow> choice_question \<Rightarrow> choice_answer \<Rightarrow> bool" where
  "answered normalized q a \<longleftrightarrow> find (\<lambda>a. ca_header a = cq_header q) normalized = Some a \<and> answer_ok q a"

lemma step_ok:
  "step_errors normalized q = [] \<longleftrightarrow> (\<exists>a. answered normalized q a)"
  "answered normalized q a \<Longrightarrow> step_answers normalized q = [a]"
proof -
  show "step_errors normalized q = [] \<longleftrightarrow> (\<exists>a. answered normalized q a)"
    by (simp add: step_errors_def question_step_def answered_def question_errors_Nil split: option.split)
  assume "answered normalized q a"
  moreover from this have "\<not> list_ex (\<lambda>l. \<not> offered q l) (ca_options a)"
    by (auto simp: answered_def answer_ok_def offered_def list_ex_iff)
  ultimately show "step_answers normalized q = [a]"
    by (simp add: step_answers_def question_step_def answered_def)
qed

lemma answered_fun: "answered n q a \<Longrightarrow> answered n q b \<Longrightarrow> a = b"
  by (simp add: answered_def)

lemma steps_list_all2:
  "(concat (map (step_errors n) qs) = [] \<and> concat (map (step_answers n) qs) = out) = list_all2 (answered n) qs out"
proof (induction qs arbitrary: out)
  case (Cons q qs)
  show ?case
  proof (cases "\<exists>a. answered n q a")
    case True
    then obtain a where a: "answered n q a" by blast
    have e: "step_errors n q = []" and s: "step_answers n q = [a]" using step_ok a by blast+
    have only: "answered n q b \<longleftrightarrow> b = a" for b using a answered_fun by blast
    have "list_all2 (answered n) (q # qs) out \<longleftrightarrow> (\<exists>out'. out = a # out' \<and> list_all2 (answered n) qs out')"
      by (simp add: list_all2_Cons1 only)
    also have "\<dots> \<longleftrightarrow> concat (map (step_errors n) qs) = [] \<and> out = a # concat (map (step_answers n) qs)"
      unfolding Cons.IH [symmetric] by blast
    finally show ?thesis by (simp add: e s eq_commute [of _ out] del: concat_eq_Nil_conv)
  next
    case False
    then have "step_errors n q \<noteq> []" using step_ok(1) by blast
    with False show ?thesis by (auto simp: list_all2_Cons1)
  qed
qed auto

lemma validate_choices_answered:
  assumes "qs \<noteq> []"
  shows "(validate_choices qs vs = Inr out) = list_all2 (answered (map normalize_answer (answers vs))) qs (answers out)"
proof -
  let ?n = "map normalize_answer (answers vs)"
  have "(validate_choices qs vs = Inr out) =
      (concat (map (step_errors ?n) qs) = [] \<and> concat (map (step_answers ?n) qs) = answers out)"
    using assms by (cases out) (auto simp: validate_choices_def Let_def fold_question_step)
  then show ?thesis by (simp only: steps_list_all2)
qed

lemma nonblank_idem [simp]: "nonblank (nonblank v) = nonblank v"
  by (cases v) (auto simp: nonblank_def)

lemma nonblank_None: "nonblank v = None \<longleftrightarrow> (case v of None \<Rightarrow> True | Some s \<Rightarrow> trim s = [])"
  by (cases v) (auto simp: nonblank_def)

lemma nonblank_Some: "nonblank v = Some t \<Longrightarrow> t \<noteq> [] \<and> trim t = t"
  by (auto simp: nonblank_def option_filter_Some)

lemma normalize_answer_idem [simp]: "normalize_answer (normalize_answer a) = normalize_answer a"
proof -
  have "filter (\<lambda>x. x \<noteq> []) (map trim (filter (\<lambda>x. x \<noteq> []) (map trim xs))) = filter (\<lambda>x. x \<noteq> []) (map trim xs)" for xs
    by (induction xs) auto
  then show ?thesis by (simp add: normalize_answer_def)
qed

text \<open>What the raise parser guarantees of the questions on a card.\<close>

definition question_ok :: "choice_question \<Rightarrow> bool" where
  "question_ok q \<longleftrightarrow>
     cq_question q \<noteq> [] \<and> cq_header q \<noteq> [] \<and> length (cq_header q) \<le> 12 \<and>
     2 \<le> length (cq_options q) \<and> length (cq_options q) \<le> 4 \<and>
     (\<forall>o' \<in> set (cq_options q). co_label o' \<noteq> [] \<and> trim (co_label o') = co_label o')"

lemma parse_option_trimmed: "parse_option h v = Inr o' \<Longrightarrow> trim (co_label o') = co_label o'"
proof (cases v)
  case (JObj kvs)
  assume "parse_option h v = Inr o'"
  with JObj show ?thesis by (cases "get_str (JObj kvs) ''label''") auto
qed auto

lemma parse_question_ok:
  assumes "parse_question seen item = Inr q"
  shows "question_ok q \<and> cq_header q \<notin> set seen"
proof -
  from assms obtain question header raws opts where
    h: "nonblank (get_str item ''question'') = Some question" "nonblank (get_str item ''header'') = Some header"
      "length header \<le> 12" "header \<notin> set seen" "2 \<le> length raws" "length raws \<le> 4"
      "map_result (parse_labelled_option header) raws = Inr opts"
    and q: "cq_question q = question" "cq_header q = header" "cq_options q = opts"
    by (auto simp: parse_question_def HEADER_MAX_CHARS_def split: option.splits if_splits)
  have "\<forall>o' \<in> set opts. co_label o' \<noteq> [] \<and> trim (co_label o') = co_label o'"
    by (rule map_result_all [OF h(7)])
      (auto simp: parse_labelled_option_def split: if_splits dest: parse_option_trimmed)
  with h q nonblank_Some map_result_length [OF h(7)] show ?thesis
    by (auto simp: question_ok_def)
qed

lemma parse_question_items_ok:
  "parse_question_items seen items = Inr qs \<Longrightarrow>
     list_all question_ok qs \<and> distinct (map cq_header qs) \<and> set (map cq_header qs) \<inter> set seen = {} \<and>
     length qs = length items"
proof (induction items arbitrary: seen qs)
  case (Cons item items)
  then obtain q qs' where q: "parse_question seen item = Inr q"
    "parse_question_items (seen @ [cq_header q]) items = Inr qs'" "qs = q # qs'" by auto
  from Cons.IH [OF q(2)] parse_question_ok [OF q(1)] q(3) show ?case by auto
qed auto

lemma find_distinct_list_all2:
  assumes "list_all2 (\<lambda>q a. f a = g q) qs as" "distinct (map g qs)" "list_all2 R qs as"
  shows "list_all2 (\<lambda>q a. find (\<lambda>a. f a = g q) as = Some a) qs as"
proof -
  have len: "length qs = length as" using assms(1) by (rule list_all2_lengthD)
  have fg: "map f as = map g qs"
    using assms(1) by (auto simp: list_all2_conv_all_nth intro!: nth_equalityI)
  have "find (\<lambda>a. f a = g (qs ! i)) as = Some (as ! i)" if "i < length qs" for i
  proof -
    have "f (as ! j) \<noteq> g (qs ! i)" if "j < i" for j
      using that \<open>i < length qs\<close> assms(1,2) len
      by (metis (no_types, lifting) distinct_conv_nth fg length_map less_imp_neq less_trans nth_map)
    moreover have "f (as ! i) = g (qs ! i)"
      using \<open>i < length qs\<close> assms(1) by (simp add: list_all2_conv_all_nth)
    ultimately show ?thesis
      using \<open>i < length qs\<close> len by (auto simp: find_Some_iff intro!: exI [of _ i])
  qed
  then show ?thesis using len by (simp add: list_all2_conv_all_nth)
qed

section \<open>Lemmas on intake\<close>

lemma of_char_lower:
  "(of_char (char_to_ascii_lowercase c) :: nat) =
     (if 65 \<le> (of_char c :: nat) \<and> (of_char c :: nat) \<le> 90 then of_char c + 32 else of_char c)"
  by (simp add: char_to_ascii_lowercase_def Let_def)

lemma char_eq_of_char: "c = d \<longleftrightarrow> (of_char c :: nat) = of_char d"
  by simp

lemma ascii_lower_whitespace: "is_whitespace (char_to_ascii_lowercase c) = is_whitespace c"
  by (auto simp: is_whitespace_def Let_def of_char_lower)

lemma ascii_lower_at: "char_to_ascii_lowercase c = CHR ''@'' \<longleftrightarrow> c = CHR ''@''"
  unfolding char_eq_of_char of_char_lower by auto

lemma ascii_lower_idem: "char_to_ascii_lowercase (char_to_ascii_lowercase c) = char_to_ascii_lowercase c"
  unfolding char_eq_of_char of_char_lower by auto

lemma split_once_app: "d \<notin> set a \<Longrightarrow> split_once d (a @ d # b) = Some (a, b)"
  by (induction a) auto

text \<open>The shape of a normalised address.\<close>

definition email_ok :: "string \<Rightarrow> bool" where
  "email_ok e \<longleftrightarrow>
     (\<exists>l d. e = l @ ''@'' @ d \<and> l \<noteq> [] \<and> CHR ''@'' \<notin> set l \<and> CHR ''@'' \<notin> set d \<and>
        (\<forall>c \<in> set l \<union> set d. \<not> is_whitespace c) \<and> to_ascii_lowercase d = d \<and>
        2 \<le> length (split_by (\<lambda>c. c = CHR ''.'') d) \<and> [] \<notin> set (split_by (\<lambda>c. c = CHR ''.'') d))"

lemma normalize_email_ok:
  assumes "normalize_email raw = Some e"
  shows "email_ok e"
proof -
  from assms obtain l d where
    s: "split_once (CHR ''@'') (trim raw) = Some (l, d)" and ws: "\<not> list_ex is_whitespace (trim raw)"
    and l: "l \<noteq> []" and at: "CHR ''@'' \<notin> set d" and e: "e = l @ ''@'' @ to_ascii_lowercase d"
    and parts: "2 \<le> length (split_by (\<lambda>c. c = CHR ''.'') (to_ascii_lowercase d))"
      "[] \<notin> set (split_by (\<lambda>c. c = CHR ''.'') (to_ascii_lowercase d))"
    by (auto simp: normalize_email_def Let_def list_ex_iff split: if_splits option.splits)
  from split_once_Some [OF s] ws have "\<forall>c \<in> set l \<union> set d. \<not> is_whitespace c" "CHR ''@'' \<notin> set l"
    by (auto simp: list_ex_iff)
  moreover have "to_ascii_lowercase (to_ascii_lowercase d) = to_ascii_lowercase d"
    by (simp add: to_ascii_lowercase_def ascii_lower_idem)
  moreover have "CHR ''@'' \<notin> set (to_ascii_lowercase d)"
  proof
    assume "CHR ''@'' \<in> set (to_ascii_lowercase d)"
    then obtain c where "c \<in> set d" "char_to_ascii_lowercase c = CHR ''@''"
      unfolding to_ascii_lowercase_def set_map by (metis imageE)
    with at show False by (simp only: ascii_lower_at)
  qed
  moreover have "\<forall>c \<in> set (to_ascii_lowercase d). \<not> is_whitespace c"
    using calculation(1) by (auto simp: to_ascii_lowercase_def ascii_lower_whitespace)
  ultimately show ?thesis
    unfolding email_ok_def using e l parts
    by (intro exI [of _ l] exI [of _ "to_ascii_lowercase d"]) auto
qed

lemma email_ok_fixed:
  assumes "email_ok e"
  shows "normalize_email e = Some e"
proof -
  from assms obtain l d where e: "e = l @ ''@'' @ d" "l \<noteq> []" "CHR ''@'' \<notin> set l" "CHR ''@'' \<notin> set d"
    and ws: "\<forall>c \<in> set l \<union> set d. \<not> is_whitespace c" and lc: "to_ascii_lowercase d = d"
    and parts: "2 \<le> length (split_by (\<lambda>c. c = CHR ''.'') d)" "[] \<notin> set (split_by (\<lambda>c. c = CHR ''.'') d)"
    unfolding email_ok_def by blast
  have "\<not> is_whitespace (CHR ''@'')" by (simp add: is_whitespace_def)
  with e ws have nows: "\<forall>c \<in> set e. \<not> is_whitespace c" by auto
  then have "trim e = e" by (rule trim_no_ws)
  moreover have "\<not> list_ex is_whitespace e" using nows by (auto simp: list_ex_iff)
  moreover have "split_once (CHR ''@'') e = Some (l, d)" using split_once_app [OF e(3), of d] e(1) by simp
  ultimately show ?thesis
    using e lc parts by (auto simp: normalize_email_def Let_def list_ex_iff)
qed

text \<open>E.164: a plus sign and eight to fifteen digits, the first not a zero.\<close>

definition e164 :: "string \<Rightarrow> bool" where
  "e164 p \<longleftrightarrow>
     (\<exists>ds. p = ''+'' @ ds \<and> 8 \<le> length ds \<and> length ds \<le> 15 \<and> list_all is_ascii_digit ds \<and> hd ds \<noteq> CHR ''0'')"

lemma starts_with_single: "starts_with ds [c] \<longleftrightarrow> ds \<noteq> [] \<and> hd ds = c"
  by (cases ds) (auto simp: starts_with_def)

lemma digit_one: "is_ascii_digit (CHR ''1'')"
  by (simp add: is_ascii_digit_def)

lemma normalize_phone_e164_ok:
  assumes "normalize_phone_e164 raw = Some p"
  shows "e164 p"
proof -
  obtain plus digits where pd: "(case strip_prefix (filter (\<lambda>c. \<not> is_separator c) (trim raw)) ''+'' of
      Some rest \<Rightarrow> (True, rest) | None \<Rightarrow> (False, filter (\<lambda>c. \<not> is_separator c) (trim raw))) = (plus, digits)"
    by (metis surj_pair)
  from assms have d: "digits \<noteq> []" "list_all is_ascii_digit digits"
    by (auto simp: normalize_phone_e164_def Let_def pd split: if_splits)
  from assms d consider
      "p = ''+'' @ digits" "8 \<le> length digits" "length digits \<le> 15" "\<not> starts_with digits ''0''"
    | "p = ''+'' @ ''1'' @ digits" "length digits = 10"
    | "p = ''+'' @ digits" "length digits = 11" "starts_with digits ''1''"
    by (auto simp: normalize_phone_e164_def Let_def pd split: if_splits)
  then show ?thesis
  proof cases
    case 1
    with d show ?thesis by (auto simp: e164_def starts_with_single)
  next
    case 2
    with d digit_one show ?thesis unfolding e164_def by (intro exI [of _ "''1'' @ digits"]) auto
  next
    case 3
    with d show ?thesis by (auto simp: e164_def starts_with_single)
  qed
qed

lemma digit_plain: "is_ascii_digit c \<Longrightarrow> \<not> is_whitespace c \<and> \<not> is_separator c"
  by (auto simp: is_ascii_digit_def is_whitespace_def is_separator_def Let_def)

lemma e164_fixed:
  assumes "e164 p"
  shows "normalize_phone_e164 p = Some p"
proof -
  from assms obtain ds where p: "p = ''+'' @ ds" "8 \<le> length ds" "length ds \<le> 15" "list_all is_ascii_digit ds"
    "hd ds \<noteq> CHR ''0''" unfolding e164_def by blast
  have "\<not> is_whitespace (CHR ''+'')" "\<not> is_separator (CHR ''+'')"
    by (simp_all add: is_whitespace_def is_separator_def)
  with p digit_plain have "\<forall>c \<in> set p. \<not> is_whitespace c \<and> \<not> is_separator c"
    by (auto simp: list_all_iff)
  then have "filter (\<lambda>c. \<not> is_separator c) (trim p) = p"
    by (simp add: trim_no_ws)
  moreover have "strip_prefix p ''+'' = Some ds" using p(1) by (simp add: strip_prefix_def starts_with_def)
  moreover have "ds \<noteq> []" using p(2) by auto
  ultimately show ?thesis
    using p by (simp add: normalize_phone_e164_def Let_def starts_with_single)
qed

lemma norm_trim:
  "email_ok e \<Longrightarrow> trim e = e \<and> e \<noteq> []"
  "e164 p \<Longrightarrow> trim p = p \<and> p \<noteq> []"
proof -
  assume "email_ok e"
  then show "trim e = e \<and> e \<noteq> []"
    unfolding email_ok_def by (auto intro!: trim_no_ws simp: is_whitespace_def)
next
  assume "e164 p"
  then show "trim p = p \<and> p \<noteq> []"
    unfolding e164_def by (auto intro!: trim_no_ws simp: list_all_iff is_whitespace_def dest: digit_plain)
qed

text \<open>The two normalisers as one contract: what they return is well-shaped, and a well-shaped value is left
  alone.\<close>

locale normaliser =
  fixes norm :: "string \<Rightarrow> string option" and shape :: "string \<Rightarrow> bool"
  assumes norm_shape: "norm s = Some t \<Longrightarrow> shape t"
    and shape_fixed: "shape t \<Longrightarrow> norm t = Some t"
    and shape_trim: "shape t \<Longrightarrow> trim t = t \<and> t \<noteq> []"
begin

lemma format_field_ok:
  assumes "format_field norm key msg v = ([], w)"
  shows "format_field norm key msg w = ([], w) \<and> (case w of None \<Rightarrow> nonblank v = None | Some t \<Rightarrow> shape t)"
proof (cases "nonblank v")
  case None
  with assms show ?thesis by (auto simp: format_field_def nonblank_def)
next
  case (Some t)
  with assms obtain n where n: "norm t = Some n" "w = Some n"
    by (auto simp: format_field_def split: option.splits)
  with norm_shape have "shape n" by blast
  with n shape_fixed shape_trim show ?thesis by (simp add: format_field_def nonblank_def)
qed

lemma format_field_kept:
  "format_field norm key msg v = ([], w) \<Longrightarrow> nonblank v \<noteq> None \<Longrightarrow> nonblank w \<noteq> None"
  using format_field_ok [of key msg v w] shape_trim by (cases w) (auto simp: nonblank_None)

lemma format_field_errors:
  "fst (format_field norm key msg v) =
     (if (case nonblank v of None \<Rightarrow> False | Some t \<Rightarrow> norm t = None) then [\<lparr>ie_field = key, ie_message = msg\<rparr>] else [])"
  by (auto simp: format_field_def split: option.splits)

end

interpretation email: normaliser normalize_email email_ok
  by unfold_locales (auto simp: normalize_email_ok email_ok_fixed norm_trim)

interpretation phone: normaliser normalize_phone_e164 e164
  by unfold_locales (auto simp: normalize_phone_e164_ok e164_fixed norm_trim)

lemma missing_errors_Nil:
  "missing_errors fs v = [] \<longleftrightarrow>
     (\<forall>f \<in> set fs. if_required f \<longrightarrow> nonblank (intake_get v (if_key f)) \<noteq> None)"
  by (auto simp: missing_errors_def nonblank_def filter_empty_conv split: option.splits)

lemma validate_intake_Inr:
  assumes "validate_intake fs v = Inr out"
  obtains email phone where
    "format_field normalize_email Email ''must be a valid email address'' (iv_email v) = ([], email)"
    "format_field normalize_phone_e164 Phone
       ''must be a valid phone number (include your country code, e.g. +1 555 123 4567)'' (iv_phone v) = ([], phone)"
    "missing_errors fs v = []"
    "out = \<lparr>iv_name = nonblank (iv_name v), iv_email = email, iv_phone = phone\<rparr>"
  using assms unfolding validate_intake_def Let_def by (auto split: prod.splits if_splits)

section \<open>The contract of a kind\<close>

text \<open>What the tools rely on: a parsed raise carries the kind's own id, and a refusal names at least one
  error.\<close>

locale hosted_kind =
  fixes k :: interaction_kind
  assumes parse_kind: "ik_parse_request k a = Inr r \<Longrightarrow> req_kind r = ik_kind k"
    and validate_errors: "ik_validate k spec v = Inl es \<Longrightarrow> es \<noteq> []"
begin

lemma fallback_then_submit:
  assumes "request_execute k False rid a st = (Inr out, st')" and "\<not> raised_poisoned st"
    and "ik_parse_request k a = Inr req"
    and "registry_get kinds (ik_kind k) = Some k"
    and "get_str b ''kind'' = Some (ik_kind k)" and "get_bool b ''declined'' \<noteq> Some True"
  shows "submit_execute kinds has_attach st' b =
    (case ik_validate k (req_spec req) (unwrap_or (jget b ''values'') JNull) of
       Inr canonical \<Rightarrow> (Inr (SubmitAccepted canonical), if has_attach then [(ik_kind k, canonical)] else [])
     | Inl errors \<Rightarrow> (Inl (ValidationFailed errors), []))"
proof -
  have "raised_specs st' (ik_kind k) = Some (req_spec req)" "\<not> raised_poisoned st'"
    using assms(1-3) parse_kind [OF assms(3)] by (auto simp: request_execute_def)
  moreover have "\<not> unwrap_or (get_bool b ''declined'') False"
    using assms(6) by (cases "get_bool b ''declined''") auto
  ultimately show ?thesis using assms(4,5) by (simp add: submit_execute_def)
qed

end

lemma validate_choices_errors: "validate_choices qs vs = Inl es \<Longrightarrow> es \<noteq> []"
  by (auto simp: validate_choices_def Let_def split: if_splits prod.splits)

lemma validate_intake_errors: "validate_intake fs v = Inl es \<Longrightarrow> es \<noteq> []"
  by (auto simp: validate_intake_def Let_def split: if_splits prod.splits)

interpretation choices: hosted_kind "choices_kind questions_ser questions_de values_de values_ser"
  for questions_ser questions_de values_de values_ser
  by unfold_locales
    (auto simp: choices_kind_def choices_parse_request_def choices_validate_def invalid_shape_def Let_def
      split: sum.splits dest: validate_choices_errors)

interpretation intake: hosted_kind "intake_kind fields_ser fields_de values_de values_ser"
  for fields_ser fields_de values_de values_ser
  by unfold_locales
    (auto simp: intake_kind_def intake_parse_request_def intake_validate_def invalid_shape_def Let_def
      split: sum.splits if_splits dest: validate_intake_errors)

section \<open>Properties\<close>

text \<open>Validation of choices accepts exactly the right submissions: it succeeds with a list of answers
  if and only if these answer the questions one by one, each the first submitted answer under the
  question's header, with only offered labels, at least one pick, and a single pick unless the
  question allows more.\<close>

theorem validate_choices_exact:
  "(validate_choices (q # qs) vs = Inr out) =
   list_all2 (\<lambda>q a. find (\<lambda>a. ca_header a = cq_header q) (map normalize_answer (answers vs)) = Some a \<and> answer_ok q a)
     (q # qs) (answers out)"
proof -
  have "answered (map normalize_answer (answers vs)) =
      (\<lambda>q a. find (\<lambda>a. ca_header a = cq_header q) (map normalize_answer (answers vs)) = Some a \<and> answer_ok q a)"
    by (simp add: fun_eq_iff answered_def)
  then show ?thesis using validate_choices_answered [of "q # qs" vs out] by simp
qed

text \<open>Canonical choices are canonical: for any questions that a raise could carry, submitting the
  canonical answers again gives them back unchanged, so the card path and the conversational path
  resume a turn with the same payload. The parser lets through one to four well-formed questions with
  distinct headers.\<close>

theorem choices_canonical:
  assumes parsed: "parse_questions raw = Inr qs" and valid: "validate_choices qs vs = Inr out"
  shows "validate_choices qs out = Inr out \<and> list_all question_ok qs \<and> distinct (map cq_header qs) \<and>
         1 \<le> length qs \<and> length qs \<le> 4"
proof -
  from parsed obtain items where items: "parse_question_items [] items = Inr qs" "1 \<le> length items" "length items \<le> 4"
    by (auto simp: parse_questions_def split: option.splits if_splits)
  note wf = parse_question_items_ok [OF items(1)]
  with items have ne: "qs \<noteq> []" by auto
  let ?n = "map normalize_answer (answers vs)"
  have all: "list_all2 (answered ?n) qs (answers out)"
    using valid by (simp only: validate_choices_answered [OF ne])
  have found: "a \<in> set ?n \<and> ca_header a = cq_header q \<and> answer_ok q a" if "answered ?n q a" for q a
    using that find_SomeD by (fastforce simp: answered_def)
  have hdr: "list_all2 (\<lambda>q a. ca_header a = cq_header q) qs (answers out)"
    using all by (rule list_all2_mono) (use found in blast)
  have fixed: "map normalize_answer (answers out) = answers out"
  proof (rule map_idI)
    fix a assume "a \<in> set (answers out)"
    then obtain q where "answered ?n q a" using all by (metis in_set_conv_nth list_all2_conv_all_nth)
    then have "a \<in> set ?n" using found by blast
    then show "normalize_answer a = a" by auto
  qed
  have "list_all2 (\<lambda>q a. find (\<lambda>a. ca_header a = cq_header q) (answers out) = Some a) qs (answers out)"
    using find_distinct_list_all2 [OF hdr _ hdr] wf by blast
  with all have "list_all2 (\<lambda>q a. answered ?n q a \<and> find (\<lambda>a. ca_header a = cq_header q) (answers out) = Some a)
      qs (answers out)"
    by (simp add: list_all2_conv_all_nth)
  then have "list_all2 (answered (answers out)) qs (answers out)"
    by (rule list_all2_mono) (simp add: answered_def)
  then show ?thesis
    using wf items fixed by (simp add: validate_choices_answered [OF ne])
qed

text \<open>What intake accepts is canonical and complete: an accepted phone number is in E.164 form, an
  accepted address has its shape with a lower-case domain, every required field has a value, and
  submitting the accepted values again gives them back unchanged.\<close>

theorem validate_intake_canonical:
  assumes "validate_intake fs v = Inr out"
  shows "validate_intake fs out = Inr out \<and>
         (case iv_email out of None \<Rightarrow> True | Some e \<Rightarrow> email_ok e) \<and>
         (case iv_phone out of None \<Rightarrow> True | Some p \<Rightarrow> e164 p) \<and>
         list_all (\<lambda>f. if if_required f then intake_get out (if_key f) \<noteq> None else True) fs"
proof -
  from assms obtain em ph where
    em: "format_field normalize_email Email ''must be a valid email address'' (iv_email v) = ([], em)" and
    ph: "format_field normalize_phone_e164 Phone
       ''must be a valid phone number (include your country code, e.g. +1 555 123 4567)'' (iv_phone v) = ([], ph)" and
    miss: "missing_errors fs v = []" and
    out: "out = \<lparr>iv_name = nonblank (iv_name v), iv_email = em, iv_phone = ph\<rparr>"
    by (rule validate_intake_Inr)
  note e = email.format_field_ok [OF em] and p = phone.format_field_ok [OF ph]
  have req: "nonblank (intake_get out key) \<noteq> None" if "nonblank (intake_get v key) \<noteq> None" for key
    using that email.format_field_kept [OF em] phone.format_field_kept [OF ph] out by (cases key) auto
  then have "missing_errors fs out = []" using miss by (auto simp: missing_errors_Nil)
  moreover have "list_all (\<lambda>f. if if_required f then intake_get out (if_key f) \<noteq> None else True) fs"
  proof -
    have "intake_get out (if_key f) \<noteq> None" if "f \<in> set fs" "if_required f" for f
      using req [of "if_key f"] miss that
      by (cases "intake_get out (if_key f)") (auto simp: missing_errors_Nil nonblank_None)
    then show ?thesis by (simp add: list_all_iff)
  qed
  ultimately show ?thesis
    using e p out by (auto simp: validate_intake_def Let_def split: option.splits)
qed

text \<open>C40. Intake reports every faulty field, and only those: a field is named among the errors exactly
  when it is required but blank, or given but malformed; without such a field the values are
  accepted.\<close>

theorem intake_errors_exact:
  "(k \<in> (case validate_intake fs v of Inl es \<Rightarrow> ie_field ` set es | Inr _ \<Rightarrow> {})) =
   (list_ex (\<lambda>f. if_key f = k \<and> if_required f \<and> nonblank (intake_get v k) = None) fs \<or>
    (case nonblank (intake_get v k) of
       None \<Rightarrow> False
     | Some t \<Rightarrow> (k = Email \<and> normalize_email t = None) \<or> (k = Phone \<and> normalize_phone_e164 t = None)))"
proof -
  let ?em = "format_field normalize_email Email ''must be a valid email address'' (iv_email v)"
  let ?ph = "format_field normalize_phone_e164 Phone
       ''must be a valid phone number (include your country code, e.g. +1 555 123 4567)'' (iv_phone v)"
  have "(case validate_intake fs v of Inl es \<Rightarrow> ie_field ` set es | Inr _ \<Rightarrow> {}) =
      ie_field ` set (missing_errors fs v @ fst ?em @ fst ?ph)"
    by (auto simp: validate_intake_def Let_def split: prod.splits)
  moreover have "k \<in> ie_field ` set (missing_errors fs v) \<longleftrightarrow>
      list_ex (\<lambda>f. if_key f = k \<and> if_required f \<and> nonblank (intake_get v k) = None) fs"
    by (auto simp: missing_errors_def list_ex_iff nonblank_None image_iff)
  ultimately show ?thesis
    by (cases k) (auto simp: email.format_field_errors phone.format_field_errors split: option.splits)
qed

text \<open>C39. A parked raise is answered by its own card only: resolutions that carry another id are
  dropped, the first one that carries its id is returned, later ones stay queued, and without one the
  turn goes on with no response.\<close>

theorem parked_raise_own_answer:
  assumes "ik_parse_request k a = Inr req" and "bridge_open st"
    and "list_all (\<lambda>r. interaction_id r \<noteq> rid) stale" and "interaction_id mine = rid"
  shows "(request_execute k True rid a (st\<lparr>outcomes := stale @ mine # later\<rparr>) =
           (Inr (case outcome mine of Submitted v \<Rightarrow> SubmittedOut v | Declined \<Rightarrow> DeclinedOut),
            st\<lparr>sent_raises := sent_raises st @ [\<lparr>raise_id = rid, raise_request = req\<rparr>], outcomes := later\<rparr>)) \<and>
         (request_execute k True rid a (st\<lparr>outcomes := stale\<rparr>) =
           (Inr NoResponse,
            st\<lparr>sent_raises := sent_raises st @ [\<lparr>raise_id = rid, raise_request = req\<rparr>], outcomes := []\<rparr>))"
proof -
  have "park_loop rid (stale @ rs) = park_loop rid rs" for rs
    using assms(3) by (induction stale) auto
  from this [of "mine # later"] this [of "[]"] show ?thesis
    using assms by (simp add: request_execute_def Let_def split: interaction_outcome.split)
qed

text \<open>The text-only path validates like the card path: after a conversational raise, a submission in
  the same turn is accepted exactly when the raised questions accept it, with the canonical answers as
  payload, and the attach callback sees exactly the accepted payload.\<close>

theorem conversational_submit_validated:
  assumes raised: "request_execute (choices_kind q_ser q_de v_de v_ser) False rid a st = (Inr out, st')"
    and "\<not> raised_poisoned st"
    and parsed: "parse_questions (unwrap_or (jget a ''questions'') JNull) = Inr qs"
    and codec: "q_de (q_ser qs) = Some qs"
    and submit: "get_str b ''kind'' = Some ''choices''" "get_bool b ''declined'' \<noteq> Some True"
      "v_de (unwrap_or (jget b ''values'') JNull) = Inr vs"
  shows "submit_execute (registry_default (intake_kind f_ser f_de w_de w_ser) (choices_kind q_ser q_de v_de v_ser)) True st' b =
    (case validate_choices qs vs of
       Inr c \<Rightarrow> (Inr (SubmitAccepted (v_ser c)), [(''choices'', v_ser c)])
     | Inl es \<Rightarrow> (Inl (ValidationFailed es), []))"
proof -
  let ?k = "choices_kind q_ser q_de v_de v_ser"
  let ?req = "\<lparr>req_kind = ''choices'', req_spec = JObj [(''questions'', q_ser qs)], req_reason = request_reason a\<rparr>"
  let ?kinds = "registry_default (intake_kind f_ser f_de w_de w_ser) ?k"
  have k: "ik_kind ?k = ''choices''" by (simp add: choices_kind_def)
  have req: "ik_parse_request ?k a = Inr ?req"
    using parsed by (simp add: choices_kind_def choices_parse_request_def)
  have get: "registry_get ?kinds (ik_kind ?k) = Some ?k"
    by (simp add: registry_default_def registry_with_def registry_empty_def registry_get_def choices_kind_def intake_kind_def)
  have "ik_validate ?k (req_spec ?req) (unwrap_or (jget b ''values'') JNull) =
      (case validate_choices qs vs of Inl es \<Rightarrow> Inl es | Inr c \<Rightarrow> Inr (v_ser c))"
    using submit codec by (simp add: choices_kind_def choices_validate_def split: sum.split)
  with choices.fallback_then_submit [OF raised assms(2) req get, of b True] submit k show ?thesis
    by (simp split: sum.splits)
qed

section \<open>Observations\<close>

text \<open>A second registration of a kind is never looked up: the first one wins.\<close>

lemma registry_first_wins:
  "registry_get r kind = Some k \<Longrightarrow> registry_get (registry_with r k') kind = Some k"
  by (induction r) (auto simp: registry_get_def registry_with_def split: if_splits)

text \<open>A submission with only a blank name passes the check for at least one value, and, when no field is
  required, is accepted with no value at all.\<close>

lemma blank_intake_accepted:
  assumes "v_de v = Inr \<lparr>iv_name = Some '' '', iv_email = None, iv_phone = None\<rparr>"
  shows "intake_validate f_de v_de v_ser JNull v = Inr (v_ser \<lparr>iv_name = None, iv_email = None, iv_phone = None\<rparr>)"
  using assms
  by (simp add: intake_validate_def intake_is_empty_def validate_intake_def format_field_def nonblank_def missing_errors_def
      trim_def trim_start_def trim_end_def is_whitespace_def)

section \<open>Witnesses\<close>

definition demo_question :: json where
  "demo_question =
     JArr [JObj [(''question'', JStr ''Which?''), (''header'', JStr ''team''),
                 (''options'', JArr [JStr ''a'', JStr ''b''])]]"

definition demo_questions :: "choice_question list" where
  "demo_questions =
     [\<lparr>cq_question = ''Which?'', cq_header = ''team'',
       cq_options = [\<lparr>co_label = ''a'', co_description = []\<rparr>, \<lparr>co_label = ''b'', co_description = []\<rparr>],
       cq_multi_select = False\<rparr>]"

definition demo_values :: "string \<Rightarrow> choice_values" where
  "demo_values l = \<lparr>answers = [\<lparr>ca_header = ''team'', ca_options = [l], ca_other = None\<rparr>]\<rparr>"

lemma demo_parse: "parse_questions demo_question = Inr demo_questions"
  by code_simp

lemma demo_valid: "validate_choices demo_questions (demo_values '' a'') = Inr (demo_values ''a'')"
  by code_simp

theorem choices_canonical_witness:
  "validate_choices demo_questions (demo_values ''a'') = Inr (demo_values ''a'')"
  using choices_canonical [OF demo_parse demo_valid] by blast

definition demo_intake :: intake_values where
  "demo_intake = \<lparr>iv_name = None, iv_email = Some ''Bob@X.io'', iv_phone = Some ''(555) 123-4567''\<rparr>"

definition demo_intake_out :: intake_values where
  "demo_intake_out = \<lparr>iv_name = None, iv_email = Some ''Bob@x.io'', iv_phone = Some ''+15551234567''\<rparr>"

definition demo_intake_fields :: "intake_field list" where
  "demo_intake_fields = [\<lparr>if_key = Phone, if_required = True, if_label = None\<rparr>]"

lemma demo_intake_valid: "validate_intake demo_intake_fields demo_intake = Inr demo_intake_out"
  by code_simp

theorem validate_intake_canonical_witness:
  "validate_intake demo_intake_fields demo_intake_out = Inr demo_intake_out \<and> e164 ''+15551234567''"
  using validate_intake_canonical [OF demo_intake_valid] by (simp add: demo_intake_out_def)

definition demo_kind :: interaction_kind where
  "demo_kind = choices_kind (\<lambda>_. JNull) (\<lambda>_. Some demo_questions) (\<lambda>_. Inr (demo_values ''a'')) (\<lambda>_. JStr ''ok'')"

definition demo_turn :: turn_channels where
  "demo_turn = \<lparr>sent_raises = [], bridge_open = True, outcomes = [], raised_specs = Map.empty, raised_poisoned = False\<rparr>"

definition demo_raise :: json where
  "demo_raise = JObj [(''questions'', demo_question)]"

definition demo_request :: interaction_request where
  "demo_request =
     \<lparr>req_kind = ''choices'', req_spec = JObj [(''questions'', JNull)], req_reason = ''to help you better''\<rparr>"

lemma demo_raise_parse: "ik_parse_request demo_kind demo_raise = Inr demo_request"
  by (simp add: demo_kind_def choices_kind_def choices_parse_request_def demo_raise_def demo_parse demo_request_def
      request_reason_def nonblank_def json_simps)

theorem parked_raise_own_answer_witness:
  "fst (request_execute demo_kind True ''r2'' demo_raise (demo_turn\<lparr>outcomes :=
      [\<lparr>interaction_id = ''r1'', outcome = Declined\<rparr>, \<lparr>interaction_id = ''r2'', outcome = Submitted JNull\<rparr>]\<rparr>)) =
   Inr (SubmittedOut JNull)"
  using parked_raise_own_answer [OF demo_raise_parse, where st = demo_turn and rid = "''r2''"
      and stale = "[\<lparr>interaction_id = ''r1'', outcome = Declined\<rparr>]"
      and mine = "\<lparr>interaction_id = ''r2'', outcome = Submitted JNull\<rparr>" and later = "[]"]
  by (simp add: demo_turn_def)

definition demo_submit :: json where
  "demo_submit = JObj [(''kind'', JStr ''choices'')]"

theorem conversational_submit_validated_witness:
  "submit_execute (registry_default (intake_kind (\<lambda>_. JNull) (\<lambda>_. None) (\<lambda>_. Inl []) (\<lambda>_. JNull)) demo_kind) True
     (snd (request_execute demo_kind False ''r1'' demo_raise demo_turn)) demo_submit =
   (Inr (SubmitAccepted (JStr ''ok'')), [(''choices'', JStr ''ok'')])"
proof -
  obtain out st' where run: "request_execute demo_kind False ''r1'' demo_raise demo_turn = (Inr out, st')"
    by (simp add: request_execute_def demo_raise_parse)
  have "validate_choices demo_questions (demo_values ''a'') = Inr (demo_values ''a'')" by code_simp
  then show ?thesis
    unfolding run snd_conv
    using conversational_submit_validated [OF run [unfolded demo_kind_def], of demo_questions demo_submit "demo_values ''a''"
        "\<lambda>_. JNull" "\<lambda>_. None" "\<lambda>_. Inl []" "\<lambda>_. JNull"]
    by (simp add: demo_kind_def demo_turn_def demo_raise_def demo_parse demo_submit_def json_simps)
qed

end
