(* ===== verification/Protocol.thy ===== *)
theory Protocol
  imports Storage Interactions
begin

text \<open>
  The wire protocol of the service, \<open>rust/smooth-operator-server/src/protocol.rs\<close>: one constructor per
  event that the server sends. The clock (\<open>now_ms\<close>) is an argument, as are the derived serialisers of a
  citation and of a field error. The log line of an error frame is not modelled.
\<close>

section \<open>JSON numbers\<close>

definition json_i64 :: "int \<Rightarrow> json" where
  "json_i64 i = JNum (if 0 \<le> i then PosInt (word_of_int i) else NegInt (word_of_int i))"

definition json_u64 :: "nat \<Rightarrow> json" where
  "json_u64 n = JNum (PosInt (word_of_nat n))"

text \<open>A 64-bit float by its pattern: not finite when the exponent bits are all set.\<close>

definition f64_finite :: "64 word \<Rightarrow> bool" where
  "f64_finite w = ((unat w div 2 ^ 52) mod 2 ^ 11 \<noteq> 2 ^ 11 - 1)"

definition json_f64 :: "64 word \<Rightarrow> json" where
  "json_f64 w = (if f64_finite w then JNum (JFloat w) else JNull)"

text \<open>\<open>ev["requestId"] = json!(rid)\<close> when there is one.\<close>

definition set_request_id :: "(string \<times> json) list \<Rightarrow> string option \<Rightarrow> (string \<times> json) list" where
  "set_request_id ev rid = (case rid of Some r \<Rightarrow> obj_insert ''requestId'' (JStr r) ev | None \<Rightarrow> ev)"

section \<open>Events\<close>

definition pong :: "int \<Rightarrow> string option \<Rightarrow> json" where
  "pong now rid =
     JObj (set_request_id
       [(''type'', JStr ''pong''), (''timestamp'', json_i64 now), (''data'', JObj [(''timestamp'', json_i64 now)])] rid)"

definition immediate_response :: "int \<Rightarrow> string option \<Rightarrow> int \<Rightarrow> string \<Rightarrow> json \<Rightarrow> json" where
  "immediate_response now rid st msg data =
     JObj (set_request_id
       [(''type'', JStr ''immediate_response''), (''status'', json_i64 st), (''message'', JStr msg), (''data'', data),
        (''timestamp'', json_i64 now)] rid)"

definition stream_token :: "int \<Rightarrow> string \<Rightarrow> string \<Rightarrow> json" where
  "stream_token now rid token =
     JObj [(''type'', JStr ''stream_token''), (''requestId'', JStr rid), (''token'', JStr token),
           (''data'', JObj [(''requestId'', JStr rid), (''token'', JStr token)]), (''timestamp'', json_i64 now)]"

definition stream_reasoning :: "int \<Rightarrow> string \<Rightarrow> string \<Rightarrow> json" where
  "stream_reasoning now rid token =
     JObj [(''type'', JStr ''stream_reasoning''), (''requestId'', JStr rid), (''token'', JStr token),
           (''data'', JObj [(''requestId'', JStr rid), (''token'', JStr token)]), (''timestamp'', json_i64 now)]"

definition stream_preamble :: "int \<Rightarrow> string \<Rightarrow> string \<Rightarrow> json" where
  "stream_preamble now rid token =
     JObj [(''type'', JStr ''stream_preamble''), (''requestId'', JStr rid), (''token'', JStr token),
           (''data'', JObj [(''requestId'', JStr rid), (''token'', JStr token)]), (''timestamp'', json_i64 now)]"

definition stream_chunk :: "int \<Rightarrow> string \<Rightarrow> string \<Rightarrow> json \<Rightarrow> json" where
  "stream_chunk now rid node st =
     JObj [(''type'', JStr ''stream_chunk''), (''requestId'', JStr rid), (''node'', JStr node),
           (''data'', JObj [(''requestId'', JStr rid), (''node'', JStr node), (''state'', st)]),
           (''timestamp'', json_i64 now)]"

record turn_usage =
  cost_usd :: "64 word"
  prompt_tokens :: nat
  completion_tokens :: nat
  usage_estimated :: bool
  cost_estimated :: bool
  response_id :: "string option"

definition usage_json :: "turn_usage \<Rightarrow> json" where
  "usage_json u =
     JObj [(''costUsd'', json_f64 (cost_usd u)), (''promptTokens'', json_u64 (prompt_tokens u)),
           (''completionTokens'', json_u64 (completion_tokens u))]"

definition eventual_inner ::
  "(citation \<Rightarrow> json) \<Rightarrow> string \<Rightarrow> json \<Rightarrow> bool \<Rightarrow> citation list \<Rightarrow> turn_usage option \<Rightarrow> json option \<Rightarrow> (string \<times> json) list" where
  "eventual_inner cite_ser message_id response needs_escalation cites usage directive =
     (let i0 = [(''messageId'', JStr message_id), (''response'', response), (''needsEscalation'', JBool needs_escalation)];
          i1 = (if cites \<noteq> [] then obj_insert ''citations'' (JArr (map cite_ser cites)) i0 else i0);
          i2 = (case usage of Some u \<Rightarrow> obj_insert ''usage'' (usage_json u) i1 | None \<Rightarrow> i1)
      in case directive of Some d \<Rightarrow> obj_insert ''directive'' d i2 | None \<Rightarrow> i2)"

definition eventual_response ::
  "(citation \<Rightarrow> json) \<Rightarrow> int \<Rightarrow> string \<Rightarrow> int \<Rightarrow> string \<Rightarrow> json \<Rightarrow> bool \<Rightarrow> citation list \<Rightarrow> turn_usage option \<Rightarrow> json option \<Rightarrow> json" where
  "eventual_response cite_ser now rid st message_id response needs_escalation cites usage directive =
     JObj [(''type'', JStr ''eventual_response''), (''requestId'', JStr rid), (''status'', json_i64 st),
           (''data'', JObj [(''requestId'', JStr rid), (''status'', json_i64 st),
              (''data'', JObj (eventual_inner cite_ser message_id response needs_escalation cites usage directive))]),
           (''timestamp'', json_i64 now)]"

text \<open>The nested envelope the remaining events share: \<open>data.data\<close> holds the payload.\<close>

definition nested_event :: "string \<Rightarrow> int \<Rightarrow> string \<Rightarrow> (string \<times> json) list \<Rightarrow> json" where
  "nested_event ty now rid body =
     JObj [(''type'', JStr ty), (''requestId'', JStr rid),
           (''data'', JObj [(''requestId'', JStr rid), (''data'', JObj body)]), (''timestamp'', json_i64 now)]"

definition write_confirmation_required :: "int \<Rightarrow> string \<Rightarrow> string \<Rightarrow> string \<Rightarrow> json" where
  "write_confirmation_required now rid tool_id action_description =
     nested_event ''write_confirmation_required'' now rid
       [(''toolId'', JStr tool_id), (''actionDescription'', JStr action_description)]"

definition otp_verification_required :: "int \<Rightarrow> string \<Rightarrow> string \<Rightarrow> string \<Rightarrow> string list \<Rightarrow> string \<Rightarrow> json" where
  "otp_verification_required now rid tool_id action_description channels level =
     nested_event ''otp_verification_required'' now rid
       [(''toolId'', JStr tool_id), (''actionDescription'', JStr action_description),
        (''availableChannels'', JArr (map JStr channels)), (''authLevel'', JStr level)]"

definition interaction_required :: "int \<Rightarrow> string \<Rightarrow> string \<Rightarrow> string \<Rightarrow> json \<Rightarrow> string \<Rightarrow> json" where
  "interaction_required now rid iid kind spec reason =
     nested_event ''interaction_required'' now rid
       [(''interactionId'', JStr iid), (''kind'', JStr kind), (''spec'', spec), (''reason'', JStr reason)]"

definition interaction_invalid ::
  "(field_error \<Rightarrow> json) \<Rightarrow> int \<Rightarrow> string \<Rightarrow> string \<Rightarrow> string \<Rightarrow> field_error list \<Rightarrow> string \<Rightarrow> json" where
  "interaction_invalid err_ser now rid iid kind errors msg =
     nested_event ''interaction_invalid'' now rid
       [(''interactionId'', JStr iid), (''kind'', JStr kind), (''errors'', JArr (map err_ser errors)),
        (''message'', JStr msg)]"

definition otp_sent :: "int \<Rightarrow> string \<Rightarrow> string \<Rightarrow> string \<Rightarrow> json" where
  "otp_sent now rid channel masked =
     nested_event ''otp_sent'' now rid [(''channel'', JStr channel), (''maskedDestination'', JStr masked)]"

definition otp_verified :: "int \<Rightarrow> string \<Rightarrow> string \<Rightarrow> json" where
  "otp_verified now rid msg = nested_event ''otp_verified'' now rid [(''message'', JStr msg)]"

definition otp_invalid :: "int \<Rightarrow> string \<Rightarrow> string option \<Rightarrow> nat \<Rightarrow> string \<Rightarrow> json" where
  "otp_invalid now rid err attempts_remaining msg =
     (let i0 = [(''attemptsRemaining'', json_u64 attempts_remaining), (''message'', JStr msg)] in
      nested_event ''otp_invalid'' now rid
        (case err of Some e \<Rightarrow> obj_insert ''error'' (JStr e) i0 | None \<Rightarrow> i0))"

definition error_event :: "int \<Rightarrow> string option \<Rightarrow> string \<Rightarrow> string \<Rightarrow> json" where
  "error_event now rid code msg =
     (let err = JObj [(''code'', JStr code), (''message'', JStr msg)] in
      JObj (set_request_id
        [(''type'', JStr ''error''), (''error'', err), (''data'', JObj (set_request_id [(''error'', err)] rid)),
         (''timestamp'', json_i64 now)] rid))"

definition cancelled_event :: "int \<Rightarrow> string option \<Rightarrow> json" where
  "cancelled_event now rid =
     JObj (set_request_id
       [(''type'', JStr ''cancelled''), (''status'', json_i64 499),
        (''data'', JObj (set_request_id [(''status'', json_i64 499)] rid)), (''timestamp'', json_i64 now)] rid)"

section \<open>Envelopes\<close>

text \<open>The event names of the schemas.\<close>

definition event_types :: "string list" where
  "event_types =
     [''pong'', ''immediate_response'', ''stream_token'', ''stream_reasoning'', ''stream_preamble'', ''stream_chunk'',
      ''eventual_response'', ''write_confirmation_required'', ''otp_verification_required'', ''interaction_required'',
      ''interaction_invalid'', ''otp_sent'', ''otp_verified'', ''otp_invalid'', ''error'', ''cancelled'']"

definition frame_type :: "json \<Rightarrow> string" where
  "frame_type f = unwrap_or (get_str f ''type'') []"

text \<open>An envelope: an object with distinct keys, a known type, a time stamp, a \<open>data\<close> member and the
  request id, when there is one, at the top level.\<close>

fun json_distinct :: "json \<Rightarrow> bool" where
  "json_distinct (JObj kvs) = distinct (map fst kvs)"
| "json_distinct _ = True"

definition envelope_ok :: "string option \<Rightarrow> json \<Rightarrow> bool" where
  "envelope_ok rid f \<longleftrightarrow>
     json_distinct f \<and> frame_type f \<in> set event_types \<and> jget f ''timestamp'' \<noteq> None \<and>
     get_str f ''requestId'' = rid \<and> jget f ''data'' \<noteq> None"

lemmas event_defs =
  pong_def immediate_response_def stream_token_def stream_reasoning_def stream_preamble_def stream_chunk_def
  eventual_response_def write_confirmation_required_def otp_verification_required_def interaction_required_def
  interaction_invalid_def otp_sent_def otp_verified_def otp_invalid_def error_event_def cancelled_event_def nested_event_def

lemma map_of_set_request_id:
  "map_of (set_request_id ev rid) k =
     (if k = ''requestId'' then (case rid of Some r \<Rightarrow> Some (JStr r) | None \<Rightarrow> map_of ev k) else map_of ev k)"
  by (simp add: set_request_id_def split: option.split)

lemma distinct_set_request_id:
  "distinct (map fst ev) \<Longrightarrow> distinct (map fst (set_request_id ev rid))"
  by (simp add: set_request_id_def obj_insert_distinct split: option.split)

lemma optional_request_events_ok:
  "envelope_ok rid (pong now rid)"
  "envelope_ok rid (immediate_response now rid st msg data)"
  "envelope_ok rid (error_event now rid code msg)"
  "envelope_ok rid (cancelled_event now rid)"
  by (simp_all add: envelope_ok_def event_defs frame_type_def get_str_def map_of_set_request_id
      distinct_set_request_id event_types_def Let_def split: option.split)

lemma request_events_ok:
  "envelope_ok (Some r) (stream_token now r token)"
  "envelope_ok (Some r) (stream_reasoning now r token)"
  "envelope_ok (Some r) (stream_preamble now r token)"
  "envelope_ok (Some r) (stream_chunk now r node st)"
  "envelope_ok (Some r) (eventual_response cs now r stc mid resp esc cites usage dir)"
  "envelope_ok (Some r) (write_confirmation_required now r tool desc)"
  "envelope_ok (Some r) (otp_verification_required now r tool desc chans lvl)"
  "envelope_ok (Some r) (interaction_required now r iid kind spec reason)"
  "envelope_ok (Some r) (interaction_invalid es now r iid kind errs msg)"
  "envelope_ok (Some r) (otp_sent now r chan masked)"
  "envelope_ok (Some r) (otp_verified now r msg)"
  "envelope_ok (Some r) (otp_invalid now r err n msg)"
  by (simp_all add: envelope_ok_def event_defs frame_type_def get_str_def event_types_def Let_def)

lemmas envelopes_ok = optional_request_events_ok request_events_ok

lemma frame_types [simp]:
  "frame_type (pong now rid) = ''pong''"
  "frame_type (immediate_response now rid st msg data) = ''immediate_response''"
  "frame_type (error_event now rid code msg) = ''error''"
  "frame_type (cancelled_event now rid) = ''cancelled''"
  "frame_type (otp_sent now r chan masked) = ''otp_sent''"
  "frame_type (otp_verified now r msg) = ''otp_verified''"
  "frame_type (otp_invalid now r err n msg) = ''otp_invalid''"
  "frame_type (interaction_invalid es now r iid kind errs msg) = ''interaction_invalid''"
  "frame_type (eventual_response cs now r stc mid resp esc cites usage dir) = ''eventual_response''"
  by (simp_all add: event_defs frame_type_def get_str_def map_of_set_request_id Let_def)

text \<open>What a client reads back: the code of an error, the status of an acknowledgement.\<close>

definition error_code :: "json \<Rightarrow> string option" where
  "error_code f = Option.bind (jget f ''error'') (\<lambda>e. get_str e ''code'')"

lemma error_code_event [simp]: "error_code (error_event now rid code msg) = Some code"
  by (simp add: error_code_def error_event_def get_str_def map_of_set_request_id Let_def)

lemma as_i64_json_i64:
  assumes "- (2 ^ 63) \<le> i" "i < 2 ^ 63"
  shows "as_i64 (json_i64 i) = Some i"
proof (cases "0 \<le> i")
  case True
  with assms have "uint (word_of_int i :: 64 word) = i" by (simp add: uint_word_of_int)
  with True assms show ?thesis by (simp add: json_i64_def)
next
  case False
  have "sint (word_of_int i :: 64 word) = (i + 2 ^ 63) mod 2 ^ 64 - 2 ^ 63" by (simp add: int_word_sint)
  also have "(i + 2 ^ 63) mod 2 ^ 64 = i + 2 ^ 63" using assms False by (simp add: mod_pos_pos_trivial)
  finally show ?thesis using False by (simp add: json_i64_def)
qed

end
