(* ===== verification/Running_Turns.thy ===== *)
theory Running_Turns
  imports Prelude
begin

text \<open>
  The process-wide registry of running agent turns,
  \<open>rust/smooth-operator-server/src/running_turns.rs\<close>: at most one turn per conversation,
  claimed by a reservation, released by token, cancelled from any connection.

  Each method locks the table for its whole body, so a method is one atomic step. The effects a
  method has outside the table are state components too: the set of raised cancel flags (the shared
  \<open>AtomicBool\<close>s) and the set of aborted tasks (the \<open>AbortHandle\<close>s). A sink, a flag and a
  task are named by numbers.
\<close>

section \<open>State\<close>

record running_turn =
  token :: "64 word"
  request_id :: string
  conn_id :: string
  sink :: nat
  cancelled :: nat
  abort :: "nat option"

record cancelled_turn =
  ct_request_id :: string
  ct_conn_id :: string
  ct_sink :: nat

record running_turns =
  turns :: "string \<rightharpoonup> running_turn"
  next_token :: "64 word"
  flags :: "nat set"
  aborted :: "nat set"

text \<open>A \<open>TurnReservation\<close> and the \<open>TurnReleaser\<close> it hands out carry the same claim.\<close>

record turn_reservation =
  res_conversation_id :: string
  res_token :: "64 word"

definition running_turns_default :: running_turns where
  "running_turns_default = \<lparr>turns = Map.empty, next_token = 0, flags = {}, aborted = {}\<rparr>"

section \<open>Operations\<close>

definition is_running :: "running_turns \<Rightarrow> string \<Rightarrow> bool" where
  "is_running s conversation_id = (turns s conversation_id \<noteq> None)"

definition try_reserve ::
  "string \<Rightarrow> string \<Rightarrow> string \<Rightarrow> nat \<Rightarrow> nat \<Rightarrow> running_turns \<Rightarrow> turn_reservation option \<times> running_turns" where
  "try_reserve conversation_id req conn snk flag s =
     (if turns s conversation_id \<noteq> None then (None, s)
      else
        let tok = next_token s in
        (Some \<lparr>res_conversation_id = conversation_id, res_token = tok\<rparr>,
         s\<lparr>next_token := tok + 1,
           turns := (turns s)(conversation_id \<mapsto>
             \<lparr>token = tok, request_id = req, conn_id = conn, sink = snk, cancelled = flag, abort = None\<rparr>)\<rparr>))"

definition cancel :: "string \<Rightarrow> running_turns \<Rightarrow> cancelled_turn option \<times> running_turns" where
  "cancel conversation_id s =
     (case turns s conversation_id of
        None \<Rightarrow> (None, s)
      | Some t \<Rightarrow>
          (Some \<lparr>ct_request_id = request_id t, ct_conn_id = conn_id t, ct_sink = sink t\<rparr>,
           s\<lparr>turns := (turns s)(conversation_id := None),
             flags := insert (cancelled t) (flags s),
             aborted := (case abort t of Some h \<Rightarrow> insert h (aborted s) | None \<Rightarrow> aborted s)\<rparr>))"

definition registry_set_abort :: "string \<Rightarrow> 64 word \<Rightarrow> nat \<Rightarrow> running_turns \<Rightarrow> running_turns" where
  "registry_set_abort conversation_id tok h s =
     (case turns s conversation_id of
        Some t \<Rightarrow> if token t = tok then s\<lparr>turns := (turns s)(conversation_id \<mapsto> t\<lparr>abort := Some h\<rparr>)\<rparr> else s
      | None \<Rightarrow> s)"

definition registry_release :: "string \<Rightarrow> 64 word \<Rightarrow> running_turns \<Rightarrow> running_turns" where
  "registry_release conversation_id tok s =
     (if (case turns s conversation_id of Some t \<Rightarrow> token t = tok | None \<Rightarrow> False)
      then s\<lparr>turns := (turns s)(conversation_id := None)\<rparr> else s)"

text \<open>\<open>TurnReservation::release\<close>, its \<open>drop\<close>, and \<open>TurnReleaser::release\<close>.\<close>

definition reservation_release :: "turn_reservation \<Rightarrow> running_turns \<Rightarrow> running_turns" where
  "reservation_release r s = registry_release (res_conversation_id r) (res_token r) s"

definition releaser :: "turn_reservation \<Rightarrow> turn_reservation" where
  "releaser r = \<lparr>res_conversation_id = res_conversation_id r, res_token = res_token r\<rparr>"

definition releaser_set_abort :: "turn_reservation \<Rightarrow> nat \<Rightarrow> running_turns \<Rightarrow> running_turns" where
  "releaser_set_abort r h s = registry_set_abort (res_conversation_id r) (res_token r) h s"

definition reservation_drop :: "turn_reservation \<Rightarrow> running_turns \<Rightarrow> running_turns" where
  "reservation_drop r s = reservation_release r s"

definition releaser_release :: "turn_reservation \<Rightarrow> running_turns \<Rightarrow> running_turns" where
  "releaser_release r s = registry_release (res_conversation_id r) (res_token r) s"

lemmas release_defs = reservation_release_def reservation_drop_def releaser_release_def registry_release_def

text \<open>The reservation whose turn is registered on its conversation.\<close>

definition holds :: "running_turns \<Rightarrow> turn_reservation \<Rightarrow> bool" where
  "holds s r \<longleftrightarrow> (\<exists>t. turns s (res_conversation_id r) = Some t \<and> token t = res_token r)"

section \<open>Runs of the registry\<close>

text \<open>
  Any interleaving of the methods by any number of connections and turn tasks. The second
  component lists the reservations issued so far, latest first: only those can be released or
  given an abort handle.
\<close>

inductive registry_step ::
  "running_turns \<times> turn_reservation list \<Rightarrow> running_turns \<times> turn_reservation list \<Rightarrow> bool" where
  reserve: "try_reserve c req conn snk flag s = (Some r, s') \<Longrightarrow> registry_step (s, rs) (s', r # rs)"
| refuse: "try_reserve c req conn snk flag s = (None, s') \<Longrightarrow> registry_step (s, rs) (s', rs)"
| cancel_turn: "cancel c s = (ct, s') \<Longrightarrow> registry_step (s, rs) (s', rs)"
| spawned: "r \<in> set rs \<Longrightarrow> registry_step (s, rs) (releaser_set_abort (releaser r) h s, rs)"
| release: "r \<in> set rs \<Longrightarrow> registry_step (s, rs) (reservation_release r s, rs)"
| drop: "r \<in> set rs \<Longrightarrow> registry_step (s, rs) (reservation_drop r s, rs)"
| release_elsewhere: "r \<in> set rs \<Longrightarrow> registry_step (s, rs) (releaser_release (releaser r) s, rs)"

inductive registry_reachable :: "running_turns \<times> turn_reservation list \<Rightarrow> bool" where
  start: "registry_reachable (running_turns_default, [])"
| step: "registry_reachable x \<Longrightarrow> registry_step x y \<Longrightarrow> registry_reachable y"

text \<open>
  The invariant: the \<open>i\<close>-th reservation ever issued carries token \<open>i\<close> (modulo the width of
  the counter), the counter is the number of reservations, and every registered turn belongs to
  an issued reservation.
\<close>

definition registry_inv :: "running_turns \<times> turn_reservation list \<Rightarrow> bool" where
  "registry_inv x = (case x of (s, rs) \<Rightarrow>
     next_token s = of_nat (length rs) \<and>
     map res_token (rev rs) = map of_nat [0..<length rs] \<and>
     (\<forall>c t. turns s c = Some t \<longrightarrow> \<lparr>res_conversation_id = c, res_token = token t\<rparr> \<in> set rs))"

lemma reservation_eta [simp]:
  "\<lparr>res_conversation_id = res_conversation_id r, res_token = res_token r\<rparr> = r"
  by simp

lemma registry_step_inv: "registry_step x y \<Longrightarrow> registry_inv x \<Longrightarrow> registry_inv y"
  by (induction rule: registry_step.induct)
    (auto simp: registry_inv_def try_reserve_def cancel_def releaser_set_abort_def registry_set_abort_def
      release_defs releaser_def Let_def split: if_splits option.splits)

lemma registry_reachable_inv: "registry_reachable x \<Longrightarrow> registry_inv x"
proof (induction rule: registry_reachable.induct)
  case start
  show ?case by (simp add: registry_inv_def running_turns_default_def)
next
  case (step x y)
  then show ?case by (blast intro: registry_step_inv)
qed

lemma registry_tokens_distinct:
  assumes "registry_inv (s, rs)" and "length rs \<le> 2 ^ 64"
  shows "distinct (map res_token rs)"
proof -
  have "inj_on (of_nat :: nat \<Rightarrow> 64 word) {0..<length rs}"
  proof (rule inj_onI)
    fix i j assume ij: "i \<in> {0..<length rs}" "j \<in> {0..<length rs}" and eq: "(of_nat i :: 64 word) = of_nat j"
    from eq have "i mod 2 ^ 64 = j mod 2 ^ 64" by (simp add: word_of_nat_eq_iff take_bit_eq_mod)
    with ij assms(2) show "i = j" by simp
  qed
  then have "distinct (map (of_nat :: nat \<Rightarrow> 64 word) [0..<length rs])"
    by (simp add: distinct_map)
  with assms(1) have "distinct (map res_token (rev rs))" by (simp add: registry_inv_def)
  then show ?thesis by (metis distinct_rev rev_map)
qed

lemma distinct_map_eq: "distinct (map f xs) \<Longrightarrow> x \<in> set xs \<Longrightarrow> y \<in> set xs \<Longrightarrow> f x = f y \<Longrightarrow> x = y"
  by (metis distinct_map inj_onD)

section \<open>The contract the message handler relies on\<close>

text \<open>
  The handler that starts a turn needs only this of the registry: a claim is granted exactly when
  the conversation is free, a granted claim makes it busy, cancelling frees it, and the operations
  leave the other conversations alone.
\<close>

fun run_claims :: "('a \<Rightarrow> 's \<Rightarrow> 'r option \<times> 's) \<Rightarrow> 'a list \<Rightarrow> 's \<Rightarrow> 'r option list" where
  "run_claims f [] s = []"
| "run_claims f (a # as) s = fst (f a s) # run_claims f as (snd (f a s))"

locale turn_registry =
  fixes busy :: "'s \<Rightarrow> string \<Rightarrow> bool"
    and claim :: "string \<Rightarrow> 'a \<Rightarrow> 's \<Rightarrow> 'r option \<times> 's"
    and stop :: "string \<Rightarrow> 's \<Rightarrow> 's"
  assumes claim_granted: "(fst (claim c a s) \<noteq> None) = (\<not> busy s c)"
    and claim_busy: "busy (snd (claim c a s)) c"
    and claim_refused: "fst (claim c a s) = None \<Longrightarrow> snd (claim c a s) = s"
    and claim_frame: "c' \<noteq> c \<Longrightarrow> busy (snd (claim c a s)) c' = busy s c'"
    and stop_frees: "\<not> busy (stop c s) c"
    and stop_frame: "c' \<noteq> c \<Longrightarrow> busy (stop c s) c' = busy s c'"
begin

lemma second_claim_refused: "fst (claim c a' (snd (claim c a s))) = None"
  using claim_granted claim_busy by fastforce

lemma claim_after_stop: "fst (claim c a (stop c s)) \<noteq> None"
  using claim_granted stop_frees by blast

text \<open>However many claims arrive on one conversation, at most the first is granted.\<close>

lemma claims_busy: "busy s c \<Longrightarrow> x \<in> set (run_claims (claim c) as s) \<Longrightarrow> x = None"
proof (induction as arbitrary: s)
  case (Cons a as)
  moreover have "busy (snd (claim c a s)) c" by (rule claim_busy)
  moreover have "fst (claim c a s) = None" using claim_granted [of c a s] Cons.prems(1) by simp
  ultimately show ?case by auto
qed simp

lemma one_claim_granted: "length (filter (\<lambda>x. x \<noteq> None) (run_claims (claim c) as s)) \<le> 1"
proof (cases as)
  case (Cons a as')
  have "filter (\<lambda>x. x \<noteq> None) (run_claims (claim c) as' (snd (claim c a s))) = []"
    using claims_busy [OF claim_busy] by (fastforce simp: filter_empty_conv)
  with Cons show ?thesis by simp
qed simp

end

definition reserve_args ::
  "string \<Rightarrow> string \<times> string \<times> nat \<times> nat \<Rightarrow> running_turns \<Rightarrow> turn_reservation option \<times> running_turns" where
  "reserve_args c a s = (case a of (req, conn, snk, flag) \<Rightarrow> try_reserve c req conn snk flag s)"

interpretation reg: turn_registry is_running reserve_args "\<lambda>c s. snd (cancel c s)"
  by unfold_locales
    (auto simp: is_running_def reserve_args_def try_reserve_def cancel_def Let_def
      split: prod.splits option.splits if_splits)

section \<open>Properties\<close>

text \<open>A claim on a conversation is granted exactly when no turn is registered on it, the
  granted turn is then registered under the issued token with no abort handle and its flag down,
  and a refusal changes nothing.\<close>

theorem try_reserve_spec:
  "(case try_reserve c req conn snk flag s of
      (Some r, s') \<Rightarrow> \<not> is_running s c \<and> is_running s' c \<and> holds s' r \<and> res_conversation_id r = c \<and>
         turns s' = (turns s)(c \<mapsto> \<lparr>token = res_token r, request_id = req, conn_id = conn, sink = snk,
                                   cancelled = flag, abort = None\<rparr>) \<and>
         flags s' = flags s \<and> aborted s' = aborted s
    | (None, s') \<Rightarrow> is_running s c \<and> s' = s)"
  by (simp add: try_reserve_def is_running_def holds_def Let_def)

text \<open>Of any sequence of concurrent claims on one conversation, with no cancel or release in
  between, at most one is granted.\<close>

theorem at_most_one_claim_granted:
  "length (filter (\<lambda>x. x \<noteq> None) (run_claims (reserve_args c) as s)) \<le> 1"
  by (rule reg.one_claim_granted)

text \<open>A late release never removes a successor. In every reachable state of the registry with
  at most 2^64 reservations issued, releasing or dropping a reservation while the turn registered on
  its conversation belongs to another reservation leaves the registry unchanged.\<close>

theorem stale_release_keeps_successor:
  assumes "registry_reachable (s, rs)" and "length rs \<le> 2 ^ 64"
    and "r \<in> set rs" and "r' \<in> set rs" and "r \<noteq> r'"
    and "res_conversation_id r = res_conversation_id r'" and "holds s r'"
  shows "reservation_release r s = s \<and> reservation_drop r s = s \<and> releaser_release (releaser r) s = s"
proof -
  have "distinct (map res_token rs)"
    using registry_reachable_inv [OF assms(1)] assms(2) by (rule registry_tokens_distinct)
  then have "res_token r \<noteq> res_token r'" using assms(3-5) distinct_map_eq by metis
  with assms(6,7) show ?thesis by (auto simp: release_defs releaser_def holds_def)
qed

text \<open>Mutual exclusion of turns: in every reachable state with at most 2^64 reservations
  issued, two reservations whose turns are both registered on one conversation are the same.\<close>

theorem one_running_turn_per_conversation:
  assumes "registry_reachable (s, rs)" and "length rs \<le> 2 ^ 64"
    and "r \<in> set rs" and "r' \<in> set rs" and "holds s r" and "holds s r'"
    and "res_conversation_id r = res_conversation_id r'"
  shows "r = r'"
proof -
  have "distinct (map res_token rs)"
    using registry_reachable_inv [OF assms(1)] assms(2) by (rule registry_tokens_distinct)
  moreover have "res_token r = res_token r'" using assms(5-7) by (auto simp: holds_def)
  ultimately show ?thesis using assms(3,4) distinct_map_eq by metis
qed

text \<open>Cancelling a running conversation reports the turn's own request and connection, raises
  its flag, aborts its task if one was recorded, and frees the conversation for a new claim at
  once.\<close>

theorem cancel_running_turn:
  assumes "turns s c = Some t"
  shows "fst (cancel c s) = Some \<lparr>ct_request_id = request_id t, ct_conn_id = conn_id t, ct_sink = sink t\<rparr> \<and>
    cancelled t \<in> flags (snd (cancel c s)) \<and>
    (case abort t of Some h \<Rightarrow> h \<in> aborted (snd (cancel c s)) | None \<Rightarrow> aborted (snd (cancel c s)) = aborted s) \<and>
    fst (try_reserve c req conn snk flag (snd (cancel c s))) \<noteq> None"
  using assms reg.claim_after_stop [of c "(req, conn, snk, flag)" s]
  by (simp add: cancel_def reserve_args_def split: option.splits)

section \<open>Witnesses\<close>

text \<open>A turn is started on conversation \<open>c\<close>, cancelled from elsewhere, and a second one is
  started before the first task has dropped its reservation.\<close>

definition reg1 :: running_turns where
  "reg1 = snd (try_reserve ''c'' ''r1'' ''k1'' 1 1 running_turns_default)"

definition reg2 :: running_turns where
  "reg2 = snd (cancel ''c'' reg1)"

definition reg3 :: running_turns where
  "reg3 = snd (try_reserve ''c'' ''r2'' ''k2'' 2 2 reg2)"

definition res_c :: "64 word \<Rightarrow> turn_reservation" where
  "res_c n = \<lparr>res_conversation_id = ''c'', res_token = n\<rparr>"

lemmas reg_defs = reg1_def reg2_def reg3_def res_c_def try_reserve_def cancel_def running_turns_default_def Let_def

lemma reg3_reachable: "registry_reachable (reg3, [res_c 1, res_c 0])"
proof -
  have "registry_reachable (reg1, [res_c 0])"
    by (rule registry_reachable.step [OF registry_reachable.start],
        rule registry_step.reserve [of "''c''" "''r1''" "''k1''" 1 1])
      (simp add: reg_defs)
  then have "registry_reachable (reg2, [res_c 0])"
    by (rule registry_reachable.step, intro registry_step.cancel_turn [of "''c''" _ "fst (cancel ''c'' reg1)"])
      (simp add: reg2_def)
  then show ?thesis
    by (rule registry_reachable.step, intro registry_step.reserve [of "''c''" "''r2''" "''k2''" 2 2])
      (simp add: reg_defs)
qed

theorem stale_release_keeps_successor_witness:
  "reservation_release (res_c 0) reg3 = reg3 \<and> reservation_drop (res_c 0) reg3 = reg3 \<and>
   releaser_release (releaser (res_c 0)) reg3 = reg3 \<and> is_running reg3 ''c''"
  using stale_release_keeps_successor [OF reg3_reachable, of "res_c 0" "res_c 1"]
  by (simp add: holds_def is_running_def reg_defs)

theorem one_running_turn_per_conversation_witness:
  "holds reg3 (res_c 1) \<and> \<not> holds reg3 (res_c 0)"
proof -
  have h: "holds reg3 (res_c 1)" by (simp add: holds_def reg_defs)
  have "\<not> holds reg3 (res_c 0)"
  proof
    assume "holds reg3 (res_c 0)"
    then have "res_c 0 = res_c 1"
      using one_running_turn_per_conversation [OF reg3_reachable, of "res_c 0" "res_c 1"] h by (simp add: res_c_def)
    then show False by (simp add: res_c_def)
  qed
  with h show ?thesis by simp
qed

theorem cancel_running_turn_witness:
  "fst (cancel ''c'' reg1) = Some \<lparr>ct_request_id = ''r1'', ct_conn_id = ''k1'', ct_sink = 1\<rparr> \<and>
   1 \<in> flags (snd (cancel ''c'' reg1))"
  using cancel_running_turn [of reg1 "''c''" "\<lparr>token = 0, request_id = ''r1'', conn_id = ''k1'', sink = 1,
      cancelled = 1, abort = None\<rparr>"]
  by (simp add: reg_defs)

end
