(* ===== verification/Backplane.thy ===== *)
theory Backplane
  imports Prelude "HOL-Library.Multiset"
begin

text \<open>
  The connection backplane: the in-memory registry of \<open>rust/smooth-operator/src/backplane.rs\<close> and the two
  adapters that fan an event out over a bus, \<open>rust/adapters/backplane-redis/src/lib.rs\<close> and
  \<open>rust/adapters/backplane-nats/src/lib.rs\<close>.

  A sink is named by a number; a delivery is a pair of a sink and an event. A hash set is a list without
  repetition, iterated in the order of an arbitrary bucket function. The registry's lock is taken for the
  whole of each method. The bus itself is a parameter: which pods receive a message.
\<close>

section \<open>The registry\<close>

datatype target = ToConnection string | ToSession string | ToUser string | ToOrg string | ToAgent string

record registry =
  sinks :: "string \<rightharpoonup> nat"
  conn_targets :: "string \<rightharpoonup> target list"
  target_conns :: "target \<rightharpoonup> string list"

definition registry_new :: registry where
  "registry_new = \<lparr>sinks = Map.empty, conn_targets = Map.empty, target_conns = Map.empty\<rparr>"

text \<open>\<open>entry(k).or_default().insert(v)\<close>\<close>

definition entry_insert :: "'k \<Rightarrow> 'v \<Rightarrow> ('k \<rightharpoonup> 'v list) \<Rightarrow> ('k \<rightharpoonup> 'v list)" where
  "entry_insert k v m = m(k \<mapsto> List.insert v (unwrap_or (m k) []))"

definition associate :: "string \<Rightarrow> target \<Rightarrow> registry \<Rightarrow> registry" where
  "associate c t r =
     r\<lparr>conn_targets := entry_insert c t (conn_targets r), target_conns := entry_insert t c (target_conns r)\<rparr>"

definition attach :: "string \<Rightarrow> nat \<Rightarrow> registry \<Rightarrow> registry" where
  "attach c s r =
     (let r1 = r\<lparr>sinks := (sinks r)(c \<mapsto> s)\<rparr>; self_target = ToConnection c in
      r1\<lparr>conn_targets := entry_insert c self_target (conn_targets r1),
         target_conns := entry_insert self_target c (target_conns r1)\<rparr>)"

definition drop_target :: "string \<Rightarrow> target \<Rightarrow> registry \<Rightarrow> registry" where
  "drop_target c t r =
     (case target_conns r t of
        None \<Rightarrow> r
      | Some cs \<Rightarrow>
          let cs' = removeAll c cs in
          if cs' = [] then r\<lparr>target_conns := (target_conns r)(t := None)\<rparr>
          else r\<lparr>target_conns := (target_conns r)(t \<mapsto> cs')\<rparr>)"

definition detach :: "string \<Rightarrow> registry \<Rightarrow> registry" where
  "detach c r =
     (let r1 = r\<lparr>sinks := (sinks r)(c := None)\<rparr> in
      case conn_targets r1 c of
        None \<Rightarrow> r1
      | Some ts \<Rightarrow> fold (drop_target c) ts (r1\<lparr>conn_targets := (conn_targets r1)(c := None)\<rparr>))"

text \<open>The deliveries of a publication; the count it returns is their number.\<close>

definition publish :: "(string \<Rightarrow> nat) \<Rightarrow> target \<Rightarrow> 'ev \<Rightarrow> registry \<Rightarrow> (nat \<times> 'ev) list" where
  "publish bucket t ev r =
     (case target_conns r t of
        None \<Rightarrow> []
      | Some cs \<Rightarrow> filter_map (\<lambda>c. map_option (\<lambda>s. (s, ev)) (sinks r c)) (hash_order bucket cs))"

section \<open>The bus adapters\<close>

record 'ev envelope =
  origin :: string
  env_target :: target
  env_event :: 'ev

record bus_pod =
  pod_id :: string
  local_registry :: registry

text \<open>Redis: deliver here, then hand the envelope to the channel.\<close>

definition redis_publish ::
  "(string \<Rightarrow> nat) \<Rightarrow> target \<Rightarrow> 'ev \<Rightarrow> bus_pod \<Rightarrow> (nat \<times> 'ev) list \<times> 'ev envelope" where
  "redis_publish bucket t ev pod =
     (publish bucket t ev (local_registry pod), \<lparr>origin = pod_id pod, env_target = t, env_event = ev\<rparr>)"

definition redis_receive :: "(string \<Rightarrow> nat) \<Rightarrow> 'ev envelope option \<Rightarrow> bus_pod \<Rightarrow> (nat \<times> 'ev) list" where
  "redis_receive bucket env pod =
     (case env of
        None \<Rightarrow> []
      | Some e \<Rightarrow> if origin e = pod_id pod then [] else publish bucket (env_target e) (env_event e) (local_registry pod))"

definition redis_attach :: "string \<Rightarrow> nat \<Rightarrow> bus_pod \<Rightarrow> bus_pod" where
  "redis_attach c s pod = pod\<lparr>local_registry := attach c s (local_registry pod)\<rparr>"

definition redis_detach :: "string \<Rightarrow> bus_pod \<Rightarrow> bus_pod" where
  "redis_detach c pod = pod\<lparr>local_registry := detach c (local_registry pod)\<rparr>"

definition redis_associate :: "string \<Rightarrow> target \<Rightarrow> bus_pod \<Rightarrow> bus_pod" where
  "redis_associate c t pod = pod\<lparr>local_registry := associate c t (local_registry pod)\<rparr>"

text \<open>NATS: the same over a subject.\<close>

definition nats_publish ::
  "(string \<Rightarrow> nat) \<Rightarrow> target \<Rightarrow> 'ev \<Rightarrow> bus_pod \<Rightarrow> (nat \<times> 'ev) list \<times> 'ev envelope" where
  "nats_publish bucket t ev pod =
     (let n = publish bucket t ev (local_registry pod) in
      (n, \<lparr>origin = pod_id pod, env_target = t, env_event = ev\<rparr>))"

definition nats_receive :: "(string \<Rightarrow> nat) \<Rightarrow> 'ev envelope option \<Rightarrow> bus_pod \<Rightarrow> (nat \<times> 'ev) list" where
  "nats_receive bucket env pod =
     (case env of
        None \<Rightarrow> []
      | Some e \<Rightarrow> if origin e = pod_id pod then [] else publish bucket (env_target e) (env_event e) (local_registry pod))"

section \<open>What a registry promises\<close>

text \<open>The abstract registry: who is attached, and which connection is associated with which target.\<close>

record roster =
  live :: "string \<rightharpoonup> nat"
  assoc :: "(string \<times> target) set"

datatype backplane_op = Attach string nat | Detach string | Associate string target

fun roster_step :: "backplane_op \<Rightarrow> roster \<Rightarrow> roster" where
  "roster_step (Attach c s) a = \<lparr>live = (live a)(c \<mapsto> s), assoc = insert (c, ToConnection c) (assoc a)\<rparr>"
| "roster_step (Detach c) a = \<lparr>live = (live a)(c := None), assoc = {(d, t) \<in> assoc a. d \<noteq> c}\<rparr>"
| "roster_step (Associate c t) a = a\<lparr>assoc := insert (c, t) (assoc a)\<rparr>"

fun registry_step :: "backplane_op \<Rightarrow> registry \<Rightarrow> registry" where
  "registry_step (Attach c s) r = attach c s r"
| "registry_step (Detach c) r = detach c r"
| "registry_step (Associate c t) r = associate c t r"

definition registry_run :: "backplane_op list \<Rightarrow> registry" where
  "registry_run ops = fold registry_step ops registry_new"

definition roster_run :: "backplane_op list \<Rightarrow> roster" where
  "roster_run ops = fold roster_step ops \<lparr>live = Map.empty, assoc = {}\<rparr>"

definition mem :: "('k \<rightharpoonup> 'v list) \<Rightarrow> 'k \<Rightarrow> 'v \<Rightarrow> bool" where
  "mem m k v = (v \<in> set (unwrap_or (m k) []))"

definition abs_registry :: "registry \<Rightarrow> roster" where
  "abs_registry r = \<lparr>live = sinks r, assoc = {(c, t). mem (target_conns r) t c}\<rparr>"

text \<open>The two indexes are inverse to each other and hold no repetition and no empty entry.\<close>

definition registry_ok :: "registry \<Rightarrow> bool" where
  "registry_ok r \<longleftrightarrow>
     (\<forall>c t. mem (conn_targets r) c t = mem (target_conns r) t c) \<and>
     (\<forall>t cs. target_conns r t = Some cs \<longrightarrow> cs \<noteq> [] \<and> distinct cs)"

lemma entry_insert_mem [simp]: "mem (entry_insert k v m) k' x = ((k' = k \<and> x = v) \<or> mem m k' x)"
  by (auto simp: entry_insert_def mem_def)

lemma entry_insert_ok:
  "(\<forall>k vs. m k = Some vs \<longrightarrow> vs \<noteq> [] \<and> distinct vs) \<Longrightarrow> entry_insert k v m k' = Some vs \<Longrightarrow> vs \<noteq> [] \<and> distinct vs"
  by (cases "m k") (auto simp: entry_insert_def List.insert_def split: if_splits)

lemma associate_ok:
  assumes "registry_ok r"
  shows "registry_ok (associate c t r)"
proof -
  have "vs \<noteq> [] \<and> distinct vs" if "entry_insert t c (target_conns r) k = Some vs" for k vs
    by (rule entry_insert_ok [OF _ that]) (use assms in \<open>simp add: registry_ok_def\<close>)
  then show ?thesis using assms by (auto simp: registry_ok_def associate_def)
qed

lemma attach_eq: "attach c s r = associate c (ToConnection c) (r\<lparr>sinks := (sinks r)(c \<mapsto> s)\<rparr>)"
  by (simp add: attach_def associate_def Let_def)

lemma registry_ok_sinks [simp]: "registry_ok (r\<lparr>sinks := f\<rparr>) = registry_ok r"
  by (simp add: registry_ok_def)

text \<open>Dropping a connection from a list of targets.\<close>

lemma drop_target_conns:
  "target_conns (drop_target c t r) t' =
     (if t' = t then (case target_conns r t of None \<Rightarrow> None
        | Some cs \<Rightarrow> if removeAll c cs = [] then None else Some (removeAll c cs))
      else target_conns r t')"
  by (auto simp: drop_target_def Let_def split: option.split)

lemma drop_target_frame [simp]:
  "sinks (drop_target c t r) = sinks r" "conn_targets (drop_target c t r) = conn_targets r"
  by (auto simp: drop_target_def Let_def split: option.split)

lemma drop_targets_frame [simp]:
  "sinks (fold (drop_target c) ts r) = sinks r" "conn_targets (fold (drop_target c) ts r) = conn_targets r"
  by (induction ts arbitrary: r) auto

lemma drop_target_mem:
  "mem (target_conns (drop_target c u r)) t d = (mem (target_conns r) t d \<and> \<not> (d = c \<and> t = u))"
proof (cases "target_conns r u")
  case (Some cs)
  have "unwrap_or (if removeAll c cs = [] then None else Some (removeAll c cs)) [] = removeAll c cs" by simp
  with Some show ?thesis by (auto simp: mem_def drop_target_conns simp del: removeAll.simps)
qed (auto simp: mem_def drop_target_conns)

lemma drop_targets_mem:
  "mem (target_conns (fold (drop_target c) ts r)) t d = (mem (target_conns r) t d \<and> \<not> (d = c \<and> t \<in> set ts))"
  by (induction ts arbitrary: r) (auto simp: drop_target_mem)

lemma drop_targets_ok:
  "(\<forall>t cs. target_conns r t = Some cs \<longrightarrow> cs \<noteq> [] \<and> distinct cs) \<Longrightarrow>
   target_conns (fold (drop_target c) ts r) t = Some cs \<Longrightarrow> cs \<noteq> [] \<and> distinct cs"
proof (induction ts arbitrary: r)
  case (Cons u ts)
  have "\<forall>t cs. target_conns (drop_target c u r) t = Some cs \<longrightarrow> cs \<noteq> [] \<and> distinct cs"
    using Cons.prems(1) by (auto simp: drop_target_conns distinct_removeAll split: option.splits if_splits)
  from Cons.IH [OF this] Cons.prems(2) show ?case by simp
qed simp

lemma detach_targets: "conn_targets (detach c r) = (conn_targets r)(c := None)"
  by (auto simp: detach_def Let_def split: option.split)

lemma detach_sinks: "sinks (detach c r) = (sinks r)(c := None)"
  by (auto simp: detach_def Let_def split: option.split)

lemma detach_mem:
  assumes "registry_ok r"
  shows "mem (target_conns (detach c r)) t d = (mem (target_conns r) t d \<and> d \<noteq> c)"
proof -
  have inv: "mem (target_conns r) t c = mem (conn_targets r) c t" using assms by (simp add: registry_ok_def)
  show ?thesis
  proof (cases "conn_targets r c")
    case None
    with inv have "\<not> mem (target_conns r) t c" by (simp add: mem_def)
    with None show ?thesis by (auto simp: detach_def Let_def)
  next
    case (Some ts)
    with inv have "mem (target_conns r) t c = (t \<in> set ts)" by (simp add: mem_def)
    with Some show ?thesis by (auto simp: detach_def Let_def drop_targets_mem)
  qed
qed

lemma detach_ok:
  assumes "registry_ok r"
  shows "registry_ok (detach c r)"
proof -
  have "cs \<noteq> [] \<and> distinct cs" if "target_conns (detach c r) t = Some cs" for t cs
  proof (cases "conn_targets r c")
    case None
    with that assms show ?thesis by (auto simp: detach_def registry_ok_def Let_def)
  next
    case (Some ts)
    let ?r = "r\<lparr>sinks := (sinks r)(c := None), conn_targets := (conn_targets r)(c := None)\<rparr>"
    from Some that have "target_conns (fold (drop_target c) ts ?r) t = Some cs" by (simp add: detach_def Let_def)
    from drop_targets_ok [OF _ this] assms show ?thesis by (simp add: registry_ok_def)
  qed
  moreover have "mem (conn_targets (detach c r)) d t = mem (target_conns (detach c r)) t d" for d t
    using assms unfolding detach_mem [OF assms] detach_targets by (auto simp: registry_ok_def mem_def)
  ultimately show ?thesis unfolding registry_ok_def by blast
qed

lemma registry_step_ok: "registry_ok r \<Longrightarrow> registry_ok (registry_step op r)"
  by (cases op) (simp_all add: attach_eq associate_ok detach_ok)

lemma abs_step:
  assumes "registry_ok r"
  shows "abs_registry (registry_step op r) = roster_step op (abs_registry r)"
proof (cases op)
  case (Detach c)
  then show ?thesis by (auto simp: abs_registry_def detach_sinks detach_mem [OF assms])
qed (auto simp: abs_registry_def attach_eq associate_def entry_insert_mem)

lemma registry_run_ok: "registry_ok (registry_run ops)"
proof -
  have "registry_ok r \<Longrightarrow> registry_ok (fold registry_step ops r)" for r
    by (induction ops arbitrary: r) (simp_all add: registry_step_ok)
  moreover have "registry_ok registry_new" by (simp add: registry_ok_def registry_new_def mem_def)
  ultimately show ?thesis by (simp add: registry_run_def)
qed

lemma abs_run: "abs_registry (registry_run ops) = roster_run ops"
proof -
  have "registry_ok r \<Longrightarrow> abs_registry (fold registry_step ops r) = fold roster_step ops (abs_registry r)" for r
    by (induction ops arbitrary: r) (simp_all add: registry_step_ok abs_step)
  moreover have "registry_ok registry_new" by (simp add: registry_ok_def registry_new_def mem_def)
  ultimately show ?thesis by (simp add: registry_run_def roster_run_def abs_registry_def registry_new_def mem_def)
qed

text \<open>The connections an event reaches on one pod.\<close>

definition reached :: "roster \<Rightarrow> target \<Rightarrow> string set" where
  "reached a t = {c. (c, t) \<in> assoc a \<and> live a c \<noteq> None}"

lemma publish_deliveries:
  assumes "registry_ok r"
  shows "\<exists>cs. distinct cs \<and> set cs = reached (abs_registry r) t \<and>
              publish b t ev r = map (\<lambda>c. (the (sinks r c), ev)) cs"
proof (cases "target_conns r t")
  case None
  then show ?thesis by (auto simp: publish_def reached_def abs_registry_def mem_def)
next
  case (Some ds)
  let ?cs = "filter (\<lambda>c. sinks r c \<noteq> None) (hash_order b ds)"
  have "distinct (hash_order b ds)" using assms Some by (auto simp: registry_ok_def hash_order_def)
  then have "distinct ?cs" by simp
  moreover have "filter_map (\<lambda>c. map_option (\<lambda>s. (s, ev)) (sinks r c)) xs =
      map (\<lambda>c. (the (sinks r c), ev)) (filter (\<lambda>c. sinks r c \<noteq> None) xs)" for xs
    by (induction xs) (auto split: option.splits)
  ultimately show ?thesis using Some
    by (intro exI [of _ ?cs]) (auto simp: publish_def reached_def abs_registry_def mem_def)
qed

section \<open>Fan-out over a bus\<close>

text \<open>All deliveries of one publication: at the origin, then at every pod the bus reaches.\<close>

definition fleet_publish ::
  "('ev envelope option \<Rightarrow> bus_pod \<Rightarrow> (nat \<times> 'ev) list) \<Rightarrow> (string \<Rightarrow> bool) \<Rightarrow> (nat \<times> 'ev) list \<times> 'ev envelope
    \<Rightarrow> bus_pod list \<Rightarrow> (nat \<times> 'ev) list" where
  "fleet_publish receive up sent pods =
     fst sent @ concat (map (\<lambda>q. if up (pod_id q) then receive (Some (snd sent)) q else []) pods)"

text \<open>What both adapters promise of a publication: it delivers on the pod that publishes, and the envelope
  it hands to the bus delivers once more on every other pod that receives it, never on the first.\<close>

locale bus_adapter =
  fixes bus_publish :: "(string \<Rightarrow> nat) \<Rightarrow> target \<Rightarrow> 'ev \<Rightarrow> bus_pod \<Rightarrow> (nat \<times> 'ev) list \<times> 'ev envelope"
    and bus_receive :: "(string \<Rightarrow> nat) \<Rightarrow> 'ev envelope option \<Rightarrow> bus_pod \<Rightarrow> (nat \<times> 'ev) list"
  assumes delivers_here: "fst (bus_publish b t ev p) = publish b t ev (local_registry p)"
    and own_echo: "pod_id q = pod_id p \<Longrightarrow> bus_receive b (Some (snd (bus_publish b t ev p))) q = []"
    and elsewhere: "pod_id q \<noteq> pod_id p \<Longrightarrow>
      bus_receive b (Some (snd (bus_publish b' t ev p))) q = publish b t ev (local_registry q)"
    and undecodable: "bus_receive b None q = []"
begin

lemma fleet_publish_eq:
  assumes "distinct (map pod_id pods)" and "p \<in> set pods"
  shows "mset (fleet_publish (bus_receive b) up (bus_publish b t ev p) pods) =
         (\<Sum>q \<leftarrow> pods. mset (if q = p \<or> up (pod_id q) then publish b t ev (local_registry q) else []))"
proof -
  let ?d = "\<lambda>q. if up (pod_id q) then bus_receive b (Some (snd (bus_publish b t ev p))) q else []"
  let ?e = "\<lambda>q. if q = p \<or> up (pod_id q) then publish b t ev (local_registry q) else []"
  obtain xs ys where pods: "pods = xs @ p # ys" using assms(2) by (meson split_list)
  have other: "?d q = ?e q" if "q \<in> set xs \<union> set ys" for q
  proof -
    have "pod_id p \<notin> pod_id ` (set xs \<union> set ys)" using assms(1) pods by auto
    with that have "pod_id q \<noteq> pod_id p" by (metis imageI)
    then show ?thesis using elsewhere by auto
  qed
  have "mset (concat (map ?d zs)) = (\<Sum>q \<leftarrow> zs. mset (?e q))" if "set zs \<subseteq> set xs \<union> set ys" for zs
    using that by (induction zs) (auto simp: other)
  then have "mset (concat (map ?d xs)) = (\<Sum>q \<leftarrow> xs. mset (?e q))" "mset (concat (map ?d ys)) = (\<Sum>q \<leftarrow> ys. mset (?e q))"
    by auto
  moreover have "?d p = []" using own_echo by simp
  ultimately show ?thesis unfolding fleet_publish_def pods by (simp add: delivers_here)
qed

end

interpretation redis: bus_adapter redis_publish redis_receive
  by unfold_locales (auto simp: redis_publish_def redis_receive_def)

interpretation nats: bus_adapter nats_publish nats_receive
  by unfold_locales (auto simp: nats_publish_def nats_receive_def Let_def)

section \<open>Properties\<close>

text \<open>C24. The registry refines the roster of live connections: after any sequence of connects,
  disconnects and associations, a publication reaches each connection that is attached and associated
  with the target since its last disconnect exactly once, through its latest sink, and nobody else.\<close>

theorem registry_refines_roster:
  "\<exists>cs. distinct cs \<and> set cs = reached (roster_run ops) t \<and>
        publish b t ev (registry_run ops) = map (\<lambda>c. (the (live (roster_run ops) c), ev)) cs"
proof -
  have "live (roster_run ops) = sinks (registry_run ops)"
    unfolding abs_run [symmetric] by (simp add: abs_registry_def)
  then show ?thesis
    using publish_deliveries [OF registry_run_ok, of ops t b ev] unfolding abs_run by simp
qed

text \<open>Over either bus, one publication delivers on the publishing pod and on every other pod the bus
  reaches, once each, as that pod's own registry would: nothing is delivered twice on the origin, and a
  bus that is down costs only the other pods.\<close>

theorem fleet_delivers_once:
  assumes "distinct (map pod_id pods)" and "p \<in> set pods"
  shows "mset (fleet_publish (redis_receive b) up (redis_publish b t ev p) pods) =
           (\<Sum>q \<leftarrow> pods. mset (if q = p \<or> up (pod_id q) then publish b t ev (local_registry q) else [])) \<and>
         mset (fleet_publish (nats_receive b) up (nats_publish b t ev p) pods) =
           (\<Sum>q \<leftarrow> pods. mset (if q = p \<or> up (pod_id q) then publish b t ev (local_registry q) else []))"
  by (rule conjI, rule redis.fleet_publish_eq [OF assms], rule nats.fleet_publish_eq [OF assms])

definition demo_pod :: "string \<Rightarrow> string \<Rightarrow> nat \<Rightarrow> bus_pod" where
  "demo_pod p c s = redis_associate c (ToSession ''s'') (redis_attach c s \<lparr>pod_id = p, local_registry = registry_new\<rparr>)"

theorem fleet_delivers_once_witness:
  "mset (fleet_publish (redis_receive (\<lambda>_. 0)) (\<lambda>_. True) (redis_publish (\<lambda>_. 0) (ToSession ''s'') ''ev'' (demo_pod ''a'' ''c1'' 1))
     [demo_pod ''a'' ''c1'' 1, demo_pod ''b'' ''c2'' 2]) = {#(1, ''ev''), (2, ''ev'')#}"
proof -
  have reg: "local_registry (demo_pod p c n) = associate c (ToSession ''s'') (attach c n registry_new)" for p c n
    by (simp add: demo_pod_def redis_associate_def redis_attach_def)
  have one: "publish (\<lambda>_. 0) (ToSession ''s'') ''ev'' (local_registry (demo_pod p c n)) = [(n, ''ev'')]" for p c n
    unfolding reg by (simp add: publish_def attach_def associate_def registry_new_def entry_insert_def hash_order_def
        List.insert_def Let_def)
  have ids: "pod_id (demo_pod p c n) = p" for p c n
    by (simp add: demo_pod_def redis_associate_def redis_attach_def)
  let ?p = "demo_pod ''a'' ''c1'' 1" and ?q = "demo_pod ''b'' ''c2'' 2"
  have "distinct (map pod_id [?p, ?q])" "?p \<in> set [?p, ?q]" by (simp_all add: ids)
  note all = conjunct1 [OF fleet_delivers_once [OF this, of "\<lambda>_. 0" "\<lambda>_. True" "ToSession ''s''" "''ev''"]]
  show ?thesis unfolding all by (simp add: one)
qed

end
