(* ===== verification/App_State.thy ===== *)
theory App_State
  imports Protocol Running_Turns Backplane
begin

text \<open>
  The shared state of the service, \<open>rust/smooth-operator-server/src/state.rs\<close>, with the value types of
  \<open>rust/smooth-operator/src/otp.rs\<close> and the key resolution of \<open>rust/smooth-operator/src/gateway_key.rs\<close>.

  The storage seam is a record of operations over an abstract store; \<open>memory_adapter\<close> is the in-memory one.
  A write that fails leaves the store unchanged. A channel sender is a number, what it sends is appended
  to a log, and sending fails once the receiver is gone. A lock may be poisoned, one flag for each.
  The host seams that only hold a value (builders such as \<open>with_auth\<close>) are not operations here: the
  definitions that use a seam take it as an argument.
\<close>

section \<open>One-time codes and gateway keys\<close>

datatype otp_channel = OtpEmail | OtpSms

fun channel_as_str :: "otp_channel \<Rightarrow> string" where
  "channel_as_str OtpEmail = ''email''"
| "channel_as_str OtpSms = ''sms''"

record otp_contact =
  contact_email :: "string option"
  contact_phone :: "string option"

definition contact_is_empty :: "otp_contact \<Rightarrow> bool" where
  "contact_is_empty c = (contact_email c = None \<and> contact_phone c = None)"

definition available_channels :: "otp_contact \<Rightarrow> otp_channel list" where
  "available_channels c =
     (if contact_email c \<noteq> None then [OtpEmail] else []) @ (if contact_phone c \<noteq> None then [OtpSms] else [])"

record otp_delivery =
  delivery_channel :: otp_channel
  masked_destination :: string

datatype otp_error = InvalidCode | MaxAttempts | OtpNotFound | OtpExpired

fun otp_error_as_str :: "otp_error \<Rightarrow> string" where
  "otp_error_as_str InvalidCode = ''INVALID_CODE''"
| "otp_error_as_str MaxAttempts = ''MAX_ATTEMPTS''"
| "otp_error_as_str OtpNotFound = ''NOT_FOUND''"
| "otp_error_as_str OtpExpired = ''EXPIRED''"

datatype otp_verify_outcome = OtpVerified | OtpInvalid nat "otp_error option" string

text \<open>The host's service: it delivers a code and judges one. It is a parameter.\<close>

record otp_service =
  send_otp :: "string \<Rightarrow> otp_contact \<Rightarrow> string + otp_delivery"
  verify_otp :: "string \<Rightarrow> string \<Rightarrow> otp_verify_outcome"

definition env_gateway_key :: "string option \<Rightarrow> string \<Rightarrow> string option" where
  "env_gateway_key env_key org = env_key"

definition resolve_gateway_key :: "(string \<Rightarrow> string option) \<Rightarrow> string \<Rightarrow> string option \<Rightarrow> string option" where
  "resolve_gateway_key resolver org env_key =
     (case resolver org of Some key \<Rightarrow> Some key | None \<Rightarrow> env_key)"

section \<open>The storage seam\<close>

record 'st adapter =
  ad_create_conversation :: "conversation \<Rightarrow> 'st \<Rightarrow> string + conversation \<times> 'st"
  ad_get_conversation :: "string \<Rightarrow> 'st \<Rightarrow> string + conversation option"
  ad_list_conversations :: "'st \<Rightarrow> string \<Rightarrow> string + conversation list"
  ad_update_conversation :: "int \<Rightarrow> string \<Rightarrow> conversation_update \<Rightarrow> 'st \<Rightarrow> string + conversation \<times> 'st"
  ad_add_participant :: "participant \<Rightarrow> 'st \<Rightarrow> string + participant \<times> 'st"
  ad_list_participants :: "'st \<Rightarrow> string \<Rightarrow> string + participant list"
  ad_append_message :: "message \<Rightarrow> 'st \<Rightarrow> string + message \<times> 'st"
  ad_list_messages :: "'st \<Rightarrow> message_query \<Rightarrow> string + message_page"
  ad_create_session :: "session \<Rightarrow> 'st \<Rightarrow> string + session \<times> 'st"
  ad_get_session :: "string \<Rightarrow> 'st \<Rightarrow> string + session option"
  ad_update_session :: "int \<Rightarrow> string \<Rightarrow> session_update \<Rightarrow> 'st \<Rightarrow> string + session \<times> 'st"
  ad_owned_page :: "'st \<Rightarrow> string \<Rightarrow> string \<Rightarrow> summary_query \<Rightarrow> string + conversation_summary list"

fun storage_error_text :: "storage_error \<Rightarrow> string" where
  "storage_error_text TablesPoisoned = ''lock poisoned: poisoned lock: another task failed inside''"
| "storage_error_text (ConversationNotFound i) = ''conversation '' @ [CHR 0x27] @ i @ [CHR 0x27] @ '' not found''"
| "storage_error_text (SessionNotFound i) = ''session '' @ [CHR 0x27] @ i @ [CHR 0x27] @ '' not found''"

definition text_error :: "storage_error + 'a \<Rightarrow> string + 'a" where
  "text_error r = map_sum storage_error_text (\<lambda>x. x) r"

definition memory_text_reads ::
  "(conversation \<Rightarrow> nat) \<Rightarrow> (participant \<Rightarrow> nat) \<Rightarrow> tables \<Rightarrow> string adapter_reads" where
  "memory_text_reads cb pb t =
     \<lparr>conversations_by_org = (\<lambda>org. text_error (list_conversations_by_org cb t org)),
      participants_of = (\<lambda>c. text_error (list_participants_by_conversation pb t c)),
      messages_of = (\<lambda>q. text_error (list_messages_by_conversation t q))\<rparr>"

text \<open>The in-memory adapter, with the iteration orders of its tables.\<close>

definition memory_adapter :: "(conversation \<Rightarrow> nat) \<Rightarrow> (participant \<Rightarrow> nat) \<Rightarrow> tables adapter" where
  "memory_adapter cb pb =
     \<lparr>ad_create_conversation = (\<lambda>c t. text_error (create_conversation cb c t)),
      ad_get_conversation = (\<lambda>i t. text_error (get_conversation i t)),
      ad_list_conversations = (\<lambda>t org. text_error (list_conversations_by_org cb t org)),
      ad_update_conversation = (\<lambda>now i u t. text_error (update_conversation now i u t)),
      ad_add_participant = (\<lambda>p t. text_error (add_participant p t)),
      ad_list_participants = (\<lambda>t c. text_error (list_participants_by_conversation pb t c)),
      ad_append_message = (\<lambda>m t. text_error (append_message m t)),
      ad_list_messages = (\<lambda>t q. text_error (list_messages_by_conversation t q)),
      ad_create_session = (\<lambda>s t. text_error (create_session s t)),
      ad_get_session = (\<lambda>i t. text_error (get_session i t)),
      ad_update_session = (\<lambda>now i u t. text_error (update_session now i u t)),
      ad_owned_page = (\<lambda>t org email q. list_owned_conversation_summaries_page (memory_text_reads cb pb t) org email q)\<rparr>"

lemma text_error_Inr [simp]: "(text_error r = Inr x) = (r = Inr x)"
  by (cases r) (auto simp: text_error_def)

lemma text_error_simps [simp]: "text_error (Inr x) = Inr x" "text_error (Inl e) = Inl (storage_error_text e)"
  by (simp_all add: text_error_def)

interpretation memory_text: available_adapter
  "memory_text_reads cb pb (storage_run sb ops tables_default)"
  "memory_convs cb (storage_run sb ops tables_default)"
  "memory_parts pb (storage_run sb ops tables_default)"
  "memory_page (storage_run sb ops tables_default)"
  for cb pb sb ops
proof unfold_locales
  let ?t = "storage_run sb ops tables_default"
  show "conversations_by_org (memory_text_reads cb pb ?t) org = Inr (memory_convs cb ?t org)" for org
    using memory.convs_read [of cb pb sb ops org] by (simp add: memory_text_reads_def memory_reads_def)
  show "participants_of (memory_text_reads cb pb ?t) i = Inr (memory_parts pb ?t i)" for i
    using memory.parts_read [of cb pb sb ops i] by (simp add: memory_text_reads_def memory_reads_def)
  show "messages_of (memory_text_reads cb pb ?t) q = Inr (memory_page ?t q)" for q
    using memory.page_read [of cb pb sb ops q] by (simp add: memory_text_reads_def memory_reads_def)
qed (fact memory.convs_scoped memory.convs_distinct)+

section \<open>The state\<close>

text \<open>A create whose writes are held back.\<close>

record pending_session =
  ps_session_id :: string
  ps_conn_id :: string
  ps_conversation :: "conversation option"
  ps_user :: "participant option"
  ps_agent :: "participant option"
  ps_session :: "session option"

datatype human_response = Approved | DeniedBecause string

record pending_interaction =
  pi_interaction_id :: string
  pi_kind :: string
  pi_spec :: json
  pi_responder :: nat

datatype lock =
    SessionsLock | PendingSessionsLock | DocSetsLock | ConnectorsLock | ConfirmationsLock | PreApprovedLock
  | InteractionsLock

record 'st app_state =
  storage :: 'st
  reg_sessions :: "string \<rightharpoonup> session"
  pending_sessions :: "(string \<times> pending_session) list"
  doc_sets :: "(string \<times> (string \<times> nat) list) list"
  connectors_reg :: "(string \<times> string list) list"
  pending_confirmations :: "string \<rightharpoonup> nat"
  pre_approved_confirmations :: "string \<rightharpoonup> string"
  pending_interactions :: "string \<rightharpoonup> pending_interaction"
  running :: running_turns
  backplane :: registry
  poisoned :: "lock \<Rightarrow> bool"
  sent_verdicts :: "(nat \<times> human_response) list"
  sent_resolutions :: "(nat \<times> interaction_resolution) list"
  receiver_gone :: "nat \<Rightarrow> bool"

definition app_state_new :: "'st \<Rightarrow> 'st app_state" where
  "app_state_new st =
     \<lparr>storage = st, reg_sessions = Map.empty, pending_sessions = [], doc_sets = [], connectors_reg = [],
      pending_confirmations = Map.empty, pre_approved_confirmations = Map.empty, pending_interactions = Map.empty,
      running = running_turns_default, backplane = registry_new, poisoned = (\<lambda>_. False), sent_verdicts = [],
      sent_resolutions = [], receiver_gone = (\<lambda>_. False)\<rparr>"

definition scoped_connector_key :: "string \<Rightarrow> string \<Rightarrow> string" where
  "scoped_connector_key org name = ''IXCONN#'' @ org @ [CHR 0x01] @ name"

section \<open>Sessions\<close>

definition insert_session :: "session \<Rightarrow> 'st app_state \<Rightarrow> 'st app_state" where
  "insert_session s w =
     (if poisoned w SessionsLock then w else w\<lparr>reg_sessions := (reg_sessions w)(session_id s \<mapsto> s)\<rparr>)"

definition defer_session :: "pending_session \<Rightarrow> 'st app_state \<Rightarrow> 'st app_state" where
  "defer_session p w =
     (if poisoned w PendingSessionsLock then w
      else w\<lparr>pending_sessions := AList.update (ps_session_id p) p (pending_sessions w)\<rparr>)"

definition is_session_deferred :: "'st app_state \<Rightarrow> string \<Rightarrow> bool" where
  "is_session_deferred w sid = (\<not> poisoned w PendingSessionsLock \<and> map_of (pending_sessions w) sid \<noteq> None)"

text \<open>One parked write: skipped when it has landed before, cleared once it lands.\<close>

definition flush_step ::
  "('a \<Rightarrow> 'st \<Rightarrow> string + 'b \<times> 'st) \<Rightarrow> 'a option \<Rightarrow> 'st \<Rightarrow> (string + unit) \<times> 'a option \<times> 'st" where
  "flush_step write row st =
     (case row of
        None \<Rightarrow> (Inr (), None, st)
      | Some a \<Rightarrow> (case write a st of Inl e \<Rightarrow> (Inl e, Some a, st) | Inr (_, st') \<Rightarrow> (Inr (), None, st')))"

definition flush_pending ::
  "'st adapter \<Rightarrow> pending_session \<Rightarrow> 'st \<Rightarrow> (string + unit) \<times> pending_session \<times> 'st" where
  "flush_pending ad p0 st0 =
     (case flush_step (ad_create_conversation ad) (ps_conversation p0) st0 of (r1, x1, st1) \<Rightarrow>
      let p1 = p0\<lparr>ps_conversation := x1\<rparr> in
      if \<not> result_ok r1 then (r1, p1, st1)
      else case flush_step (ad_add_participant ad) (ps_user p1) st1 of (r2, x2, st2) \<Rightarrow>
      let p2 = p1\<lparr>ps_user := x2\<rparr> in
      if \<not> result_ok r2 then (r2, p2, st2)
      else case flush_step (ad_add_participant ad) (ps_agent p2) st2 of (r3, x3, st3) \<Rightarrow>
      let p3 = p2\<lparr>ps_agent := x3\<rparr> in
      if \<not> result_ok r3 then (r3, p3, st3)
      else case flush_step (ad_create_session ad) (ps_session p3) st3 of (r4, x4, st4) \<Rightarrow>
      (r4, p3\<lparr>ps_session := x4\<rparr>, st4))"

definition materialize_session :: "'st adapter \<Rightarrow> string \<Rightarrow> 'st app_state \<Rightarrow> (string + unit) \<times> 'st app_state" where
  "materialize_session ad sid w =
     (if poisoned w PendingSessionsLock then (Inl ''pending-session registry poisoned'', w)
      else case map_of (pending_sessions w) sid of
        None \<Rightarrow> (Inr (), w)
      | Some p \<Rightarrow>
          let w1 = w\<lparr>pending_sessions := AList.delete sid (pending_sessions w)\<rparr> in
          (case flush_pending ad p (storage w1) of (r, p', st') \<Rightarrow>
             let w2 = w1\<lparr>storage := st'\<rparr> in
             (r, if result_ok r then w2 else defer_session p' w2)))"

definition materialize_conversation ::
  "'st adapter \<Rightarrow> (pending_session \<Rightarrow> nat) \<Rightarrow> string \<Rightarrow> 'st app_state \<Rightarrow> (string + unit) \<times> 'st app_state" where
  "materialize_conversation ad bucket cid w =
     (if poisoned w PendingSessionsLock then (Inl ''pending-session registry poisoned'', w)
      else case find (\<lambda>p. case ps_session p of Some s \<Rightarrow> ss_conversation_id s = cid | None \<Rightarrow> False)
                  (hash_order bucket (map snd (pending_sessions w))) of
        None \<Rightarrow> (Inr (), w)
      | Some p \<Rightarrow> materialize_session ad (ps_session_id p) w)"

definition discard_pending_sessions_for_conn :: "string \<Rightarrow> 'st app_state \<Rightarrow> 'st app_state" where
  "discard_pending_sessions_for_conn c w =
     (if poisoned w PendingSessionsLock then w
      else w\<lparr>pending_sessions := filter (\<lambda>(_, p). ps_conn_id p \<noteq> c) (pending_sessions w)\<rparr>)"

definition state_get_session :: "'st app_state \<Rightarrow> string \<Rightarrow> session option" where
  "state_get_session w sid = (if poisoned w SessionsLock then None else reg_sessions w sid)"

definition load_session :: "'st adapter \<Rightarrow> string \<Rightarrow> 'st app_state \<Rightarrow> (string + session option) \<times> 'st app_state" where
  "load_session ad sid w =
     (case state_get_session w sid of
        Some s \<Rightarrow> (Inr (Some s), w)
      | None \<Rightarrow>
          (case ad_get_session ad sid (storage w) of
             Inr (Some s) \<Rightarrow> (Inr (Some s), insert_session s w)
           | Inr None \<Rightarrow> (Inr None, w)
           | Inl e \<Rightarrow> (Inl e, w)))"

definition session_meta :: "'st app_state \<Rightarrow> string \<Rightarrow> string \<Rightarrow> json option" where
  "session_meta w sid k =
     Option.bind (state_get_session w sid) (\<lambda>s. Option.bind (ss_metadata s) (\<lambda>m. map_of m k))"

definition session_current_step :: "'st app_state \<Rightarrow> string \<Rightarrow> string option" where
  "session_current_step w sid = Option.bind (session_meta w sid ''currentStepId'') as_str"

text \<open>Rewriting the metadata of a registered session: the new map, or nothing when there is none.\<close>

definition edit_meta ::
  "string \<Rightarrow> ((string \<times> json) list \<Rightarrow> (string \<times> json) list) \<Rightarrow> 'st app_state
    \<Rightarrow> ((string \<times> json) list \<times> 'st app_state) option" where
  "edit_meta sid f w =
     (if poisoned w SessionsLock then None
      else case reg_sessions w sid of
        None \<Rightarrow> None
      | Some s \<Rightarrow>
          let m = f (unwrap_or (ss_metadata s) []) in
          Some (m, w\<lparr>reg_sessions := (reg_sessions w)(sid \<mapsto> s\<lparr>ss_metadata := Some m\<rparr>)\<rparr>))"

definition set_session_current_step :: "string \<Rightarrow> string option \<Rightarrow> 'st app_state \<Rightarrow> 'st app_state" where
  "set_session_current_step sid step_id w =
     (case edit_meta sid (\<lambda>m. case step_id of
                            Some i \<Rightarrow> AList.update ''currentStepId'' (JStr i) m
                          | None \<Rightarrow> AList.delete ''currentStepId'' m) w of
        None \<Rightarrow> w | Some (_, w') \<Rightarrow> w')"

definition session_authenticated :: "'st app_state \<Rightarrow> string \<Rightarrow> bool" where
  "session_authenticated w sid = unwrap_or (Option.bind (session_meta w sid ''otpVerified'') as_bool) False"

text \<open>Writing a metadata map through to storage.\<close>

definition metadata_update :: "(string \<times> json) list \<Rightarrow> session_update" where
  "metadata_update m =
     \<lparr>su_status = None, su_token_count = None, su_message_count = None, su_last_activity_at = None,
      su_ended_at = None, su_metadata = Some m\<rparr>"

definition write_through ::
  "'st adapter \<Rightarrow> int \<Rightarrow> string \<Rightarrow> (string \<times> json) list \<Rightarrow> 'st app_state \<Rightarrow> (string + unit) \<times> 'st app_state" where
  "write_through ad now sid m w =
     (case ad_update_session ad now sid (metadata_update m) (storage w) of
        Inl e \<Rightarrow> (Inl e, w)
      | Inr (_, st') \<Rightarrow> (Inr (), w\<lparr>storage := st'\<rparr>))"

definition set_session_authenticated ::
  "'st adapter \<Rightarrow> int \<Rightarrow> string \<Rightarrow> bool \<Rightarrow> 'st app_state \<Rightarrow> 'st app_state" where
  "set_session_authenticated ad now sid verified w =
     (case edit_meta sid (AList.update ''otpVerified'' (JBool verified)) w of
        None \<Rightarrow> w | Some (m, w') \<Rightarrow> snd (write_through ad now sid m w'))"

definition session_contact :: "'st app_state \<Rightarrow> string \<Rightarrow> otp_contact" where
  "session_contact w sid =
     \<lparr>contact_email = Option.bind (session_meta w sid ''contactEmail'') as_str,
      contact_phone = Option.bind (session_meta w sid ''contactPhone'') as_str\<rparr>"

definition set_session_meta_key ::
  "'st adapter \<Rightarrow> int \<Rightarrow> string \<Rightarrow> string \<Rightarrow> json option \<Rightarrow> 'st app_state \<Rightarrow> (string + unit) \<times> 'st app_state" where
  "set_session_meta_key ad now sid key v w =
     (case edit_meta sid (\<lambda>m. case v of Some x \<Rightarrow> AList.update key x m | None \<Rightarrow> AList.delete key m) w of
        None \<Rightarrow> (Inr (), w) | Some (m, w') \<Rightarrow> write_through ad now sid m w')"

definition set_pending_confirmation ::
  "'st adapter \<Rightarrow> int \<Rightarrow> string \<Rightarrow> json option \<Rightarrow> 'st app_state \<Rightarrow> (string + unit) \<times> 'st app_state" where
  "set_pending_confirmation ad now sid v w = set_session_meta_key ad now sid ''pendingConfirmation'' v w"

definition set_pending_interaction ::
  "'st adapter \<Rightarrow> int \<Rightarrow> string \<Rightarrow> json option \<Rightarrow> 'st app_state \<Rightarrow> (string + unit) \<times> 'st app_state" where
  "set_pending_interaction ad now sid v w = set_session_meta_key ad now sid ''pendingInteraction'' v w"

definition session_capabilities :: "'st app_state \<Rightarrow> string \<Rightarrow> string list" where
  "session_capabilities w sid =
     (case Option.bind (session_meta w sid ''supports'') as_array of
        None \<Rightarrow> [] | Some vs \<Rightarrow> remdups (filter_map as_str vs))"

definition attach_session_identity ::
  "'st adapter \<Rightarrow> int \<Rightarrow> string \<Rightarrow> intake_values \<Rightarrow> 'st app_state \<Rightarrow> 'st app_state" where
  "attach_session_identity ad now sid v w =
     (let put = (\<lambda>k x m. case x of Some y \<Rightarrow> AList.update k (JStr y) m | None \<Rightarrow> m) in
      case edit_meta sid (\<lambda>m. put ''contactPhone'' (iv_phone v) (put ''contactEmail'' (iv_email v)
                               (put ''userName'' (iv_name v) m))) w of
        None \<Rightarrow> w | Some (m, w') \<Rightarrow> snd (write_through ad now sid m w'))"

section \<open>Registries of the admin API\<close>

definition record_document_set :: "string \<Rightarrow> string \<Rightarrow> 'st app_state \<Rightarrow> 'st app_state" where
  "record_document_set org set_name w =
     (if poisoned w DocSetsLock then w
      else
        let sets = unwrap_or (map_of (doc_sets w) org) [];
            n = unwrap_or (map_of sets set_name) 0
        in w\<lparr>doc_sets := AList.update org (AList.update set_name (n + 1) sets) (doc_sets w)\<rparr>)"

definition document_sets :: "'st app_state \<Rightarrow> string \<Rightarrow> (string \<times> nat) list" where
  "document_sets w org =
     (if poisoned w DocSetsLock then []
      else case map_of (doc_sets w) org of None \<Rightarrow> [] | Some sets \<Rightarrow> sort_key fst sets)"

definition record_connector :: "string \<Rightarrow> string \<Rightarrow> 'st app_state \<Rightarrow> 'st app_state" where
  "record_connector org name w =
     (if poisoned w ConnectorsLock then w
      else
        let v = unwrap_or (map_of (connectors_reg w) org) [] in
        w\<lparr>connectors_reg := AList.update org (if list_ex (\<lambda>c. c = name) v then v else v @ [name]) (connectors_reg w)\<rparr>)"

definition connectors :: "'st app_state \<Rightarrow> string \<Rightarrow> string list" where
  "connectors w org =
     (if poisoned w ConnectorsLock then [] else sort (unwrap_or (map_of (connectors_reg w) org) []))"

section \<open>Parked turns\<close>

definition register_confirmation :: "string \<Rightarrow> nat \<Rightarrow> 'st app_state \<Rightarrow> 'st app_state" where
  "register_confirmation sid responder w =
     (if poisoned w ConfirmationsLock then w
      else w\<lparr>pending_confirmations := (pending_confirmations w)(sid \<mapsto> responder)\<rparr>)"

definition take_confirmation :: "string \<Rightarrow> 'st app_state \<Rightarrow> nat option \<times> 'st app_state" where
  "take_confirmation sid w =
     (if poisoned w ConfirmationsLock then (None, w)
      else (pending_confirmations w sid, w\<lparr>pending_confirmations := (pending_confirmations w)(sid := None)\<rparr>))"

definition clear_confirmation :: "string \<Rightarrow> 'st app_state \<Rightarrow> 'st app_state" where
  "clear_confirmation sid w =
     (if poisoned w ConfirmationsLock then w
      else w\<lparr>pending_confirmations := (pending_confirmations w)(sid := None)\<rparr>)"

definition grant_pre_approval :: "string \<Rightarrow> string \<Rightarrow> 'st app_state \<Rightarrow> 'st app_state" where
  "grant_pre_approval sid tool w =
     (if poisoned w PreApprovedLock then w
      else w\<lparr>pre_approved_confirmations := (pre_approved_confirmations w)(sid \<mapsto> tool)\<rparr>)"

definition take_pre_approval :: "string \<Rightarrow> 'st app_state \<Rightarrow> string option \<times> 'st app_state" where
  "take_pre_approval sid w =
     (if poisoned w PreApprovedLock then (None, w)
      else (pre_approved_confirmations w sid,
            w\<lparr>pre_approved_confirmations := (pre_approved_confirmations w)(sid := None)\<rparr>))"

definition register_interaction :: "string \<Rightarrow> pending_interaction \<Rightarrow> 'st app_state \<Rightarrow> 'st app_state" where
  "register_interaction sid p w =
     (if poisoned w InteractionsLock then w
      else w\<lparr>pending_interactions := (pending_interactions w)(sid \<mapsto> p)\<rparr>)"

definition pending_interaction_of :: "'st app_state \<Rightarrow> string \<Rightarrow> pending_interaction option" where
  "pending_interaction_of w sid = (if poisoned w InteractionsLock then None else pending_interactions w sid)"

definition take_interaction :: "string \<Rightarrow> 'st app_state \<Rightarrow> pending_interaction option \<times> 'st app_state" where
  "take_interaction sid w =
     (if poisoned w InteractionsLock then (None, w)
      else (pending_interactions w sid, w\<lparr>pending_interactions := (pending_interactions w)(sid := None)\<rparr>))"

definition clear_interaction :: "string \<Rightarrow> 'st app_state \<Rightarrow> 'st app_state" where
  "clear_interaction sid w =
     (if poisoned w InteractionsLock then w
      else w\<lparr>pending_interactions := (pending_interactions w)(sid := None)\<rparr>)"

text \<open>\<open>UnboundedSender::send\<close>\<close>

definition send_verdict :: "nat \<Rightarrow> human_response \<Rightarrow> 'st app_state \<Rightarrow> bool \<times> 'st app_state" where
  "send_verdict ch v w =
     (if receiver_gone w ch then (False, w) else (True, w\<lparr>sent_verdicts := sent_verdicts w @ [(ch, v)]\<rparr>))"

definition send_resolution :: "nat \<Rightarrow> interaction_resolution \<Rightarrow> 'st app_state \<Rightarrow> bool \<times> 'st app_state" where
  "send_resolution ch v w =
     (if receiver_gone w ch then (False, w) else (True, w\<lparr>sent_resolutions := sent_resolutions w @ [(ch, v)]\<rparr>))"

section \<open>Parked creates under storage failures\<close>

text \<open>The in-memory adapter behind a network that may fail any write, with the log of the writes that landed.\<close>

definition logged ::
  "(storage_op \<Rightarrow> bool) \<Rightarrow> storage_op \<Rightarrow> (tables \<Rightarrow> storage_error + 'a \<times> tables) \<Rightarrow> tables \<times> storage_op list
    \<Rightarrow> string + 'a \<times> tables \<times> storage_op list" where
  "logged fails op write st =
     (if fails op then Inl ''unavailable''
      else case write (fst st) of
        Inl e \<Rightarrow> Inl (storage_error_text e)
      | Inr (x, t') \<Rightarrow> Inr (x, t', snd st @ [op]))"

definition flaky_adapter ::
  "(storage_op \<Rightarrow> bool) \<Rightarrow> (conversation \<Rightarrow> nat) \<Rightarrow> (participant \<Rightarrow> nat) \<Rightarrow> (tables \<times> storage_op list) adapter" where
  "flaky_adapter fails cb pb =
     \<lparr>ad_create_conversation = (\<lambda>c. logged fails (CreateConversation c) (create_conversation cb c)),
      ad_get_conversation = (\<lambda>i st. text_error (get_conversation i (fst st))),
      ad_list_conversations = (\<lambda>st org. text_error (list_conversations_by_org cb (fst st) org)),
      ad_update_conversation = (\<lambda>now i u. logged fails (UpdateConversation now i u) (update_conversation now i u)),
      ad_add_participant = (\<lambda>p. logged fails (AddParticipant p) (add_participant p)),
      ad_list_participants = (\<lambda>st c. text_error (list_participants_by_conversation pb (fst st) c)),
      ad_append_message = (\<lambda>m. logged fails (AppendMessage m) (append_message m)),
      ad_list_messages = (\<lambda>st q. text_error (list_messages_by_conversation (fst st) q)),
      ad_create_session = (\<lambda>s. logged fails (CreateSession s) (create_session s)),
      ad_get_session = (\<lambda>i st. text_error (get_session i (fst st))),
      ad_update_session = (\<lambda>now i u. logged fails (UpdateSession now i u) (update_session now i u)),
      ad_owned_page = (\<lambda>st org email q. list_owned_conversation_summaries_page (memory_text_reads cb pb (fst st)) org email q)\<rparr>"

definition row_ops :: "('a \<Rightarrow> storage_op) \<Rightarrow> 'a option \<Rightarrow> storage_op list" where
  "row_ops f x = (case x of None \<Rightarrow> [] | Some a \<Rightarrow> [f a])"

lemma row_ops_simps [simp]: "row_ops f None = []" "row_ops f (Some a) = [f a]"
  by (simp_all add: row_ops_def)

text \<open>The writes a parked create still owes, in the order of the eager path.\<close>

definition owed :: "pending_session \<Rightarrow> storage_op list" where
  "owed p = row_ops CreateConversation (ps_conversation p) @ row_ops AddParticipant (ps_user p) @
            row_ops AddParticipant (ps_agent p) @ row_ops CreateSession (ps_session p)"

definition log_ok :: "(conversation \<Rightarrow> nat) \<Rightarrow> tables \<Rightarrow> tables \<times> storage_op list \<Rightarrow> bool" where
  "log_ok cb t0 st \<longleftrightarrow> fst st = storage_run cb (snd st) t0"

lemma flush_step_logged:
  assumes "flush_step (\<lambda>a. logged fails (op a) (write a)) row st = (r, row', st')"
    and "log_ok cb t0 st" and "\<And>a t. storage_step cb (op a) t = after_op t (write a t)"
  shows "log_ok cb t0 st' \<and> snd st' @ row_ops op row' = snd st @ row_ops op row \<and> result_ok r = (row' = None)"
proof (cases row)
  case (Some a)
  show ?thesis
  proof (cases "logged fails (op a) (write a) st")
    case (Inl e)
    with assms Some show ?thesis by (auto simp: flush_step_def)
  next
    case (Inr y)
    then obtain x t' where w: "write a (fst st) = Inr (x, t')" "y = (x, t', snd st @ [op a])"
      by (auto simp: logged_def split: if_splits sum.splits)
    then have "storage_step cb (op a) (fst st) = t'" using assms(3) by (simp add: after_op_def)
    with assms Some Inr w show ?thesis
      by (auto simp: flush_step_def log_ok_def storage_run_def)
  qed
qed (use assms in \<open>auto simp: flush_step_def\<close>)

lemma flaky_writes [simp]:
  "ad_create_conversation (flaky_adapter fails cb pb) = (\<lambda>c. logged fails (CreateConversation c) (create_conversation cb c))"
  "ad_add_participant (flaky_adapter fails cb pb) = (\<lambda>p. logged fails (AddParticipant p) (add_participant p))"
  "ad_create_session (flaky_adapter fails cb pb) = (\<lambda>s. logged fails (CreateSession s) (create_session s))"
  by (simp_all add: flaky_adapter_def)

lemma flush_pending_logged:
  assumes "flush_pending (flaky_adapter fails cb pb) p st = (r, p', st')" and "log_ok cb t0 st"
  shows "log_ok cb t0 st' \<and> snd st' @ owed p' = snd st @ owed p \<and> result_ok r = (owed p' = []) \<and>
         ps_session_id p' = ps_session_id p"
proof -
  obtain r1 x1 st1 where s1: "flush_step (\<lambda>c. logged fails (CreateConversation c) (create_conversation cb c))
      (ps_conversation p) st = (r1, x1, st1)" by (metis prod_cases3)
  obtain r2 x2 st2 where s2: "flush_step (\<lambda>q. logged fails (AddParticipant q) (add_participant q))
      (ps_user p) st1 = (r2, x2, st2)" by (metis prod_cases3)
  obtain r3 x3 st3 where s3: "flush_step (\<lambda>q. logged fails (AddParticipant q) (add_participant q))
      (ps_agent p) st2 = (r3, x3, st3)" by (metis prod_cases3)
  obtain r4 x4 st4 where s4: "flush_step (\<lambda>s. logged fails (CreateSession s) (create_session s))
      (ps_session p) st3 = (r4, x4, st4)" by (metis prod_cases3)
  have f1: "log_ok cb t0 st1 \<and> snd st1 @ row_ops CreateConversation x1 = snd st @ row_ops CreateConversation (ps_conversation p) \<and>
      result_ok r1 = (x1 = None)" by (rule flush_step_logged [OF s1 assms(2)]) simp
  then have f2: "log_ok cb t0 st2 \<and> snd st2 @ row_ops AddParticipant x2 = snd st1 @ row_ops AddParticipant (ps_user p) \<and>
      result_ok r2 = (x2 = None)" by (intro flush_step_logged [OF s2]) simp_all
  then have f3: "log_ok cb t0 st3 \<and> snd st3 @ row_ops AddParticipant x3 = snd st2 @ row_ops AddParticipant (ps_agent p) \<and>
      result_ok r3 = (x3 = None)" by (intro flush_step_logged [OF s3]) simp_all
  then have f4: "log_ok cb t0 st4 \<and> snd st4 @ row_ops CreateSession x4 = snd st3 @ row_ops CreateSession (ps_session p) \<and>
      result_ok r4 = (x4 = None)" by (intro flush_step_logged [OF s4]) simp_all
  show ?thesis
  proof (cases "result_ok r1")
    case False
    then show ?thesis using assms(1) s1 f1 by (auto simp: flush_pending_def owed_def)
  next
    case ok1: True
    show ?thesis
    proof (cases "result_ok r2")
      case False
      then show ?thesis using assms(1) s1 s2 f1 f2 ok1 by (auto simp: flush_pending_def owed_def)
    next
      case ok2: True
      show ?thesis
      proof (cases "result_ok r3")
        case False
        then show ?thesis using assms(1) s1 s2 s3 f1 f2 f3 ok1 ok2 by (auto simp: flush_pending_def owed_def)
      next
        case True
        then show ?thesis using assms(1) s1 s2 s3 s4 f1 f2 f3 f4 ok1 ok2
          by (auto simp: flush_pending_def owed_def)
      qed
    qed
  qed
qed

text \<open>Every attempt to land the create of one session.\<close>

definition attempt ::
  "(conversation \<Rightarrow> nat) \<Rightarrow> (participant \<Rightarrow> nat) \<Rightarrow> string \<Rightarrow> (storage_op \<Rightarrow> bool)
    \<Rightarrow> (tables \<times> storage_op list) app_state \<Rightarrow> (tables \<times> storage_op list) app_state" where
  "attempt cb pb sid fails w = snd (materialize_session (flaky_adapter fails cb pb) sid w)"

definition create_inv :: "(conversation \<Rightarrow> nat) \<Rightarrow> tables \<Rightarrow> storage_op list \<Rightarrow> string \<Rightarrow> (tables \<times> storage_op list) app_state \<Rightarrow> bool" where
  "create_inv cb t0 rows sid w \<longleftrightarrow>
     \<not> poisoned w PendingSessionsLock \<and> log_ok cb t0 (storage w) \<and>
     (case map_of (pending_sessions w) sid of
        None \<Rightarrow> snd (storage w) = rows
      | Some p \<Rightarrow> ps_session_id p = sid \<and> owed p \<noteq> [] \<and> snd (storage w) @ owed p = rows)"

lemma attempt_inv:
  assumes "create_inv cb t0 rows sid w"
  shows "create_inv cb t0 rows sid (attempt cb pb sid fails w)"
proof (cases "map_of (pending_sessions w) sid")
  case None
  then show ?thesis using assms by (simp add: attempt_def materialize_session_def create_inv_def)
next
  case (Some p)
  obtain r p' st' where f: "flush_pending (flaky_adapter fails cb pb) p (storage w) = (r, p', st')"
    by (metis prod_cases3)
  have "log_ok cb t0 (storage w)" "ps_session_id p = sid" "snd (storage w) @ owed p = rows"
    "\<not> poisoned w PendingSessionsLock" using assms Some by (simp_all add: create_inv_def)
  with flush_pending_logged [OF f, of t0] f Some show ?thesis
    by (cases "result_ok r")
      (auto simp: attempt_def materialize_session_def create_inv_def defer_session_def Let_def delete_conv update_conv)
qed

lemma attempts_inv:
  "create_inv cb t0 rows sid w \<Longrightarrow> create_inv cb t0 rows sid (fold (attempt cb pb sid) attempts w)"
  by (induction attempts arbitrary: w) (simp_all add: attempt_inv)

section \<open>Properties\<close>

text \<open>C11. Landing a parked create is exactly-once under failures: over any number of attempts, each with
  any of its writes failing, the writes that landed are a prefix of conversation, user participant, agent
  participant, session, in that order and without repetition; the create stays parked until all four have
  landed, and the tables are those of the landed writes.\<close>

theorem parked_create_exactly_once:
  assumes "\<not> poisoned w PendingSessionsLock"
    and "map_of (pending_sessions w) sid =
           Some \<lparr>ps_session_id = sid, ps_conn_id = conn, ps_conversation = Some c, ps_user = Some u,
                 ps_agent = Some a, ps_session = Some s\<rparr>"
    and "storage w = (t0, [])"
    and "w' = fold (attempt cb pb sid) attempts w"
  shows "prefix (snd (storage w')) [CreateConversation c, AddParticipant u, AddParticipant a, CreateSession s] \<and>
         fst (storage w') = storage_run cb (snd (storage w')) t0 \<and>
         is_session_deferred w' sid = (snd (storage w') \<noteq> [CreateConversation c, AddParticipant u, AddParticipant a, CreateSession s])"
proof -
  let ?rows = "[CreateConversation c, AddParticipant u, AddParticipant a, CreateSession s]"
  have "create_inv cb t0 ?rows sid w"
    using assms(1-3) by (simp add: create_inv_def log_ok_def storage_run_def owed_def)
  then have inv: "create_inv cb t0 ?rows sid w'" unfolding assms(4) by (rule attempts_inv)
  show ?thesis
  proof (cases "map_of (pending_sessions w') sid")
    case None
    with inv show ?thesis by (simp add: create_inv_def log_ok_def is_session_deferred_def)
  next
    case (Some p)
    with inv have p: "owed p \<noteq> []" "snd (storage w') @ owed p = ?rows" by (simp_all add: create_inv_def)
    then have "prefix (snd (storage w')) ?rows" by (metis prefixI)
    moreover have "snd (storage w') \<noteq> ?rows" using p by (metis append_self_conv)
    ultimately show ?thesis using inv Some by (simp add: create_inv_def log_ok_def is_session_deferred_def)
  qed
qed

text \<open>An organization cannot reach another's indexing runs through the name of a connector: as long as
  organization ids do not contain the separator, the key of a connector determines both its parts.\<close>

theorem scoped_connector_key_inj:
  assumes "CHR 0x01 \<notin> set org" and "CHR 0x01 \<notin> set org'"
  shows "scoped_connector_key org name = scoped_connector_key org' name' \<longleftrightarrow> org = org' \<and> name = name'"
proof -
  have "takeWhile (\<lambda>c. c \<noteq> CHR 0x01) (o' @ CHR 0x01 # n) = o'" if "CHR 0x01 \<notin> set o'" for o' n
    using that by (subst takeWhile_append2) auto
  with assms show ?thesis
    unfolding scoped_connector_key_def by (metis append_Cons append_Nil same_append_eq list.inject)
qed

text \<open>A verification survives a move to another pod: after a successful one-time-code check on a
  session that storage holds, a pod with an empty registry over the same store reads the session back
  and finds it verified, with the metadata the first pod had.\<close>

theorem verification_survives_hop:
  assumes "\<not> poisoned w SessionsLock" and "reg_sessions w sid = Some s" and "\<not> tables_poisoned (storage w)"
    and "map_of (sessions (storage w)) sid = Some stored"
    and "keyed session_id (sessions (storage w))"
    and "w1 = set_session_authenticated (memory_adapter cb pb) now sid True w"
    and "load_session (memory_adapter cb pb) sid (app_state_new (storage w1)) = (r, w2)"
  shows "session_authenticated w1 sid \<and> session_authenticated w2 sid \<and>
         (\<exists>s'. r = Inr (Some s') \<and> ss_metadata s' = Some (AList.update ''otpVerified'' (JBool True) (unwrap_or (ss_metadata s) [])))"
proof -
  have id: "session_id stored = sid" using assms(4,5) by (auto simp: keyed_def dest!: map_of_SomeD)
  let ?m = "AList.update ''otpVerified'' (JBool True) (unwrap_or (ss_metadata s) [])"
  let ?s = "stored\<lparr>ss_metadata := Some ?m, ss_updated_at := Some now\<rparr>"
  have w1: "w1 = w\<lparr>reg_sessions := (reg_sessions w)(sid \<mapsto> s\<lparr>ss_metadata := Some ?m\<rparr>),
      storage := (storage w)\<lparr>sessions := AList.update sid ?s (sessions (storage w))\<rparr>\<rparr>"
    using assms(1-4) unfolding assms(6)
    by (simp add: set_session_authenticated_def edit_meta_def write_through_def memory_adapter_def text_error_def
        update_session_def locked_def metadata_update_def Let_def)
  have "load_session (memory_adapter cb pb) sid (app_state_new (storage w1)) =
      (Inr (Some ?s), insert_session ?s (app_state_new (storage w1)))"
    using assms(3) unfolding w1
    by (simp add: load_session_def state_get_session_def app_state_new_def memory_adapter_def text_error_def
        get_session_def locked_def update_conv)
  then have "r = Inr (Some ?s)" "w2 = insert_session ?s (app_state_new (storage w1))" using assms(7) by auto
  then show ?thesis using assms(1) id unfolding w1
    by (simp add: session_authenticated_def session_meta_def state_get_session_def insert_session_def
        app_state_new_def update_conv)
qed

section \<open>Observations\<close>

text \<open>Attaching new contact details to a verified session keeps it verified: the bit speaks of the contact
  that was verified before.\<close>

lemma new_contact_keeps_verification:
  assumes "session_authenticated w sid" and "iv_email v = Some e"
  shows "session_authenticated (attach_session_identity ad now sid v w) sid \<and>
         contact_email (session_contact (attach_session_identity ad now sid v w) sid) = Some e"
proof -
  obtain s where s: "\<not> poisoned w SessionsLock" "reg_sessions w sid = Some s"
    using assms(1) by (auto simp: session_authenticated_def session_meta_def state_get_session_def
        split: if_splits bind_splits)
  define m where "m = (\<lambda>k x m. case x of Some y \<Rightarrow> AList.update k (JStr y) m | None \<Rightarrow> m) ''contactPhone'' (iv_phone v)
    ((\<lambda>k x m. case x of Some y \<Rightarrow> AList.update k (JStr y) m | None \<Rightarrow> m) ''contactEmail'' (iv_email v)
     ((\<lambda>k x m. case x of Some y \<Rightarrow> AList.update k (JStr y) m | None \<Rightarrow> m) ''userName'' (iv_name v) (unwrap_or (ss_metadata s) [])))"
  have same: "reg_sessions (snd (write_through ad now sid m w')) = reg_sessions w' \<and>
      poisoned (snd (write_through ad now sid m w')) = poisoned w'" for w'
    by (auto simp: write_through_def split: sum.splits)
  let ?w = "attach_session_identity ad now sid v w"
  have reg: "reg_sessions ?w sid = Some (s\<lparr>ss_metadata := Some m\<rparr>)" "\<not> poisoned ?w SessionsLock"
    using s same by (simp_all add: attach_session_identity_def edit_meta_def Let_def m_def)
  have "map_of m ''otpVerified'' = map_of (unwrap_or (ss_metadata s) []) ''otpVerified''"
    "map_of m ''contactEmail'' = Some (JStr e)"
    using assms(2) by (auto simp: m_def update_conv split: option.splits)
  then show ?thesis using assms(1) s reg
    by (cases "ss_metadata s")
      (auto simp: session_authenticated_def session_contact_def session_meta_def state_get_session_def)
qed

section \<open>Witnesses\<close>

definition demo_session :: "string \<Rightarrow> string \<Rightarrow> session" where
  "demo_session i c =
     \<lparr>session_id = i, ss_conversation_id = c, ss_organization_id = ''org'', ss_agent_id = Some ''a1'',
      ss_agent_name = ''smooth-agent'', ss_user_participant_id = ''p1'', ss_agent_participant_id = ''p2'',
      ss_thread_id = c, ss_status = Some Active, ss_token_count = Some 0, ss_message_count = Some 0,
      ss_metadata = None, ss_created_at = Some 0, ss_updated_at = Some 0, ss_ended_at = None,
      ss_last_activity_at = Some 0\<rparr>"

definition demo_parked :: pending_session where
  "demo_parked =
     \<lparr>ps_session_id = ''s1'', ps_conn_id = ''k'', ps_conversation = Some (demo_conversation ''c1'' 1),
      ps_user = Some (demo_participant ''c1'' ''p1''), ps_agent = Some (demo_participant ''c1'' ''p2''),
      ps_session = Some (demo_session ''s1'' ''c1'')\<rparr>"

definition demo_parked_state :: "(tables \<times> storage_op list) app_state" where
  "demo_parked_state = defer_session demo_parked (app_state_new (tables_default, []))"

text \<open>The first attempt loses the agent participant's write, the second nothing.\<close>

theorem parked_create_exactly_once_witness:
  "prefix (snd (storage (fold (attempt (\<lambda>_. 0) (\<lambda>_. 0) ''s1'')
       [\<lambda>op. op = AddParticipant (demo_participant ''c1'' ''p2''), \<lambda>_. False] demo_parked_state)))
     [CreateConversation (demo_conversation ''c1'' 1), AddParticipant (demo_participant ''c1'' ''p1''),
      AddParticipant (demo_participant ''c1'' ''p2''), CreateSession (demo_session ''s1'' ''c1'')]"
proof -
  have "\<not> poisoned demo_parked_state PendingSessionsLock" "storage demo_parked_state = (tables_default, [])"
    "map_of (pending_sessions demo_parked_state) ''s1'' = Some demo_parked"
    by (simp_all add: demo_parked_state_def defer_session_def app_state_new_def demo_parked_def)
  from parked_create_exactly_once [OF this(1) this(3) [unfolded demo_parked_def] this(2) refl] show ?thesis by blast
qed

theorem scoped_connector_key_inj_witness:
  "scoped_connector_key ''a'' ''docs'' \<noteq> scoped_connector_key ''b'' ''docs''"
  by (subst scoped_connector_key_inj) simp_all

definition demo_verified_state :: "tables app_state" where
  "demo_verified_state = insert_session (demo_session ''s1'' ''c1'')
     (app_state_new (tables_default\<lparr>sessions := [(''s1'', demo_session ''s1'' ''c1'')]\<rparr>))"

theorem verification_survives_hop_witness:
  "session_authenticated (snd (load_session (memory_adapter (\<lambda>_. 0) (\<lambda>_. 0)) ''s1''
     (app_state_new (storage (set_session_authenticated (memory_adapter (\<lambda>_. 0) (\<lambda>_. 0)) 5 ''s1'' True demo_verified_state))))) ''s1''"
proof -
  let ?w1 = "set_session_authenticated (memory_adapter (\<lambda>_. 0) (\<lambda>_. 0)) 5 ''s1'' True demo_verified_state"
  let ?l = "load_session (memory_adapter (\<lambda>_. 0) (\<lambda>_. 0)) ''s1'' (app_state_new (storage ?w1))"
  have "\<not> poisoned demo_verified_state SessionsLock"
    "reg_sessions demo_verified_state ''s1'' = Some (demo_session ''s1'' ''c1'')"
    "\<not> tables_poisoned (storage demo_verified_state)"
    "map_of (sessions (storage demo_verified_state)) ''s1'' = Some (demo_session ''s1'' ''c1'')"
    "keyed session_id (sessions (storage demo_verified_state))"
    by (simp_all add: demo_verified_state_def insert_session_def app_state_new_def tables_default_def
        demo_session_def keyed_def)
  from verification_survives_hop [OF this refl, of "\<lambda>_. 0" "\<lambda>_. 0" 5 "fst ?l" "snd ?l"] show ?thesis by simp
qed

end
