(* ===== verification/Widget_Auth.thy ===== *)
theory Widget_Auth
  imports Prelude
begin

text \<open>
  Embeddable-widget authentication, \<open>rust/smooth-operator/src/widget_auth.rs\<close>: the origin allow-list of
  an agent, the signed context of a pre-authenticated user, and the cached policy service.

  Parameters: the HMAC and hex libraries, the URL parser, and the replies of the policy service. The
  arithmetic on time stamps is on 64-bit signed values that wrap, as in a release build.
\<close>

section \<open>Policies\<close>

record agent_widget_auth =
  allowed_origins :: "string list"
  public_key :: "string option"
  wa_organization_id :: "string option"

definition widget_auth_default :: agent_widget_auth where
  "widget_auth_default = \<lparr>allowed_origins = [], public_key = None, wa_organization_id = None\<rparr>"

definition permissive_widget_auth :: "string \<Rightarrow> agent_widget_auth option" where
  "permissive_widget_auth agent_id = None"

definition static_widget_auth :: "(string \<rightharpoonup> agent_widget_auth) \<Rightarrow> string \<Rightarrow> agent_widget_auth option" where
  "static_widget_auth rows agent_id = rows agent_id"

section \<open>Origins\<close>

definition origin_matches :: "string \<Rightarrow> string \<Rightarrow> bool" where
  "origin_matches pattern origin =
     (if pattern = ''*'' then True
      else if pattern = origin then True
      else case (split_once_str ''://'' pattern, split_once_str ''://'' origin) of
        (Some (p_scheme, p_host), Some (o_scheme, o_host)) \<Rightarrow>
          if p_scheme \<noteq> o_scheme then False
          else (case strip_prefix p_host ''*.'' of
                  Some sfx \<Rightarrow> o_host = sfx \<or> ends_with o_host (''.'' @ sfx)
                | None \<Rightarrow> False)
      | _ \<Rightarrow> False)"

definition origin_allowed :: "string list \<Rightarrow> string \<Rightarrow> bool" where
  "origin_allowed allowed origin = list_ex (\<lambda>pattern. origin_matches pattern origin) allowed"

section \<open>The signed context\<close>

text \<open>The libraries: \<open>hex::decode\<close>, \<open>Hmac::new_from_slice\<close>, and \<open>update\<close> followed by \<open>verify_slice\<close>.\<close>

record 'mac mac_lib =
  ml_hex_decode :: "string \<Rightarrow> nat list option"
  ml_new :: "string \<Rightarrow> 'mac option"
  ml_verify :: "'mac \<Rightarrow> string \<Rightarrow> nat list \<Rightarrow> bool"

definition i64_abs :: "64 word \<Rightarrow> 64 word" where
  "i64_abs x = (if sint x < 0 then - x else x)"

text \<open>\<open>format!("{user_id}:{timestamp}")\<close>\<close>

definition auth_context_text :: "string \<Rightarrow> 64 word \<Rightarrow> string" where
  "auth_context_text u ts = u @ '':'' @ show_int (sint ts)"

definition verify_auth_context ::
  "'mac mac_lib \<Rightarrow> string \<Rightarrow> string \<Rightarrow> string \<Rightarrow> 64 word \<Rightarrow> 64 word \<Rightarrow> 64 word \<Rightarrow> bool" where
  "verify_auth_context lib key u signature_hex timestamp now_unix max_age_secs =
     (if sint (i64_abs (now_unix - timestamp)) > sint max_age_secs then False
      else case ml_hex_decode lib signature_hex of
        None \<Rightarrow> False
      | Some sig \<Rightarrow>
          (case ml_new lib key of
             None \<Rightarrow> False
           | Some mac \<Rightarrow> ml_verify lib mac (auth_context_text u timestamp) sig))"

section \<open>The policy service\<close>

record cache_entry =
  ce_value :: "agent_widget_auth option"
  ce_fetched :: int

record http_widget_auth =
  hw_base_url :: string
  hw_bearer :: "string option"
  hw_ttl :: int
  hw_cache :: "string \<rightharpoonup> cache_entry"
  hw_poisoned :: bool

definition hw_with_client :: "string \<Rightarrow> http_widget_auth" where
  "hw_with_client url =
     \<lparr>hw_base_url = trim_end_matches (CHR ''/'') url, hw_bearer = None, hw_ttl = 60, hw_cache = Map.empty,
      hw_poisoned = False\<rparr>"

definition hw_with_bearer :: "http_widget_auth \<Rightarrow> string \<Rightarrow> http_widget_auth" where
  "hw_with_bearer h t = h\<lparr>hw_bearer := Some t\<rparr>"

definition hw_with_ttl :: "http_widget_auth \<Rightarrow> int \<Rightarrow> http_widget_auth" where
  "hw_with_ttl h d = h\<lparr>hw_ttl := d\<rparr>"

definition hw_cached :: "int \<Rightarrow> string \<Rightarrow> http_widget_auth \<Rightarrow> agent_widget_auth option option" where
  "hw_cached now agent_id h =
     (if hw_poisoned h then None
      else case hw_cache h agent_id of
        None \<Rightarrow> None
      | Some e \<Rightarrow> if max 0 (now - ce_fetched e) < hw_ttl h then Some (ce_value e) else None)"

definition hw_store :: "int \<Rightarrow> string \<Rightarrow> agent_widget_auth option \<Rightarrow> http_widget_auth \<Rightarrow> http_widget_auth" where
  "hw_store now agent_id v h =
     (if hw_poisoned h then h
      else h\<lparr>hw_cache := (hw_cache h)(agent_id \<mapsto> \<lparr>ce_value = v, ce_fetched = now\<rparr>)\<rparr>)"

text \<open>A reply: the request failed, or it has a status and a body that parses or not.\<close>

datatype policy_reply = SendFailed | Replied nat "agent_widget_auth option"

text \<open>One call: the clock when the cache is read and when the reply is stored, and the reply.\<close>

record policy_call =
  pc_now :: int
  pc_stored :: int
  pc_reply :: policy_reply

definition is_success :: "nat \<Rightarrow> bool" where
  "is_success status = (200 \<le> status \<and> status < 300)"

definition http_agent_widget_auth ::
  "(string \<Rightarrow> bool) \<Rightarrow> policy_call \<Rightarrow> string \<Rightarrow> http_widget_auth \<Rightarrow> agent_widget_auth option \<times> http_widget_auth" where
  "http_agent_widget_auth usable_base pc agent_id h =
     (case hw_cached (pc_now pc) agent_id h of
        Some cached \<Rightarrow> (cached, h)
      | None \<Rightarrow>
          if \<not> usable_base (hw_base_url h) then (None, h)
          else case pc_reply pc of
            SendFailed \<Rightarrow> (None, h)
          | Replied status body \<Rightarrow>
              if is_success status then
                (case body of
                   Some policy \<Rightarrow> (Some policy, hw_store (pc_stored pc) agent_id (Some policy) h)
                 | None \<Rightarrow> (None, h))
              else if status = 404 then (None, hw_store (pc_stored pc) agent_id None h)
              else (None, h))"

section \<open>Lemmas\<close>

lemma auth_context_text_inj:
  "(auth_context_text u ts = auth_context_text v tt) = (u = v \<and> ts = tt)"
proof
  assume eq: "auth_context_text u ts = auth_context_text v tt"
  have split: "rev (show_int (sint t)) @ CHR '':'' # rev w = rev (auth_context_text w t)" for w t
    by (simp add: auth_context_text_def)
  have take: "takeWhile (\<lambda>c. c \<noteq> CHR '':'') (rev (auth_context_text w t)) = rev (show_int (sint t))" for w t
    using show_int_no_colon by (simp flip: split) (subst takeWhile_append2, auto)
  from eq take [of u ts] take [of v tt] have i: "sint ts = sint tt" by simp
  then have "ts = tt" by (metis of_int_sint scast_id)
  with eq show "u = v \<and> ts = tt" by (simp add: auth_context_text_def)
qed simp

text \<open>The wrapped distance of two instants.\<close>

lemma sint_bounds: "- (2 ^ 63) \<le> sint (x :: 64 word)" "sint (x :: 64 word) < 2 ^ 63"
  using sint_ge [of x] sint_lt [of x] by simp_all

lemma sint_wrap: "sint (word_of_int i :: 64 word) = (i + 2 ^ 63) mod 2 ^ 64 - 2 ^ 63"
  by (simp add: int_word_sint)

lemma sint_of_dist:
  assumes "0 \<le> sint (now :: 64 word)"
  shows "sint (now - t) = (if sint now - sint t < 2 ^ 63 then sint now - sint t else sint now - sint t - 2 ^ 64)"
proof -
  let ?d = "sint now - sint t"
  have "sint (now - t) = (?d + 2 ^ 63) mod 2 ^ 64 - 2 ^ 63"
    using sint_wrap [of ?d] by simp
  moreover have "- (2 ^ 63) \<le> ?d" "?d < 2 ^ 64" using assms sint_bounds [of now] sint_bounds [of t] by simp_all
  moreover have "(?d + 2 ^ 63) mod 2 ^ 64 = (if ?d < 2 ^ 63 then ?d + 2 ^ 63 else ?d + 2 ^ 63 - 2 ^ 64)"
    if "- (2 ^ 63) \<le> ?d" "?d < 2 ^ 64"
  proof (cases "?d < 2 ^ 63")
    case False
    have "(?d + 2 ^ 63) mod 2 ^ 64 = (?d + 2 ^ 63 - 2 ^ 64) mod 2 ^ 64" by (rule minus_mod_self2 [symmetric])
    with False that show ?thesis by (simp add: mod_pos_pos_trivial)
  qed (use that in \<open>simp add: mod_pos_pos_trivial\<close>)
  ultimately show ?thesis by simp
qed

lemma sint_i64_abs:
  "sint (i64_abs x) = (if sint x = - (2 ^ 63) then - (2 ^ 63) else \<bar>sint x\<bar>)"
proof (cases "sint x < 0")
  case True
  have "sint (- x) = (- sint x + 2 ^ 63) mod 2 ^ 64 - 2 ^ 63"
    using sint_wrap [of "- sint x"] by simp
  moreover have "(- sint x + 2 ^ 63) mod 2 ^ 64 = (if sint x = - (2 ^ 63) then 0 else - sint x + 2 ^ 63)"
    using True sint_bounds [of x] by (auto simp: mod_pos_pos_trivial)
  ultimately show ?thesis using True by (simp add: i64_abs_def)
qed (simp add: i64_abs_def)

subsection \<open>Origins\<close>

lemma split_once_str_colon:
  "CHR '':'' \<notin> set a \<Longrightarrow> split_once_str ''://'' (a @ ''://'' @ b) = Some (a, b)"
  by (induction a) (auto simp: starts_with_def)

lemma ends_with_sub: "ends_with h (''.'' @ sfx) = (\<exists>sub. h = sub @ ''.'' @ sfx)"
  by (auto simp: ends_with_def suffix_def)

subsection \<open>The policy cache\<close>

text \<open>A run of policy look-ups by one server.\<close>

fun policy_run :: "(string \<Rightarrow> bool) \<Rightarrow> (string \<times> policy_call) list \<Rightarrow> http_widget_auth \<Rightarrow> http_widget_auth" where
  "policy_run ub [] h = h"
| "policy_run ub ((a, pc) # cs) h = policy_run ub cs (snd (http_agent_widget_auth ub pc a h))"

text \<open>The definitive answers: a policy the service sent with a success status, or its 404.\<close>

fun definitive :: "policy_reply \<Rightarrow> agent_widget_auth option \<Rightarrow> bool" where
  "definitive SendFailed v = False"
| "definitive (Replied status body) v =
     (case v of Some p \<Rightarrow> is_success status \<and> body = Some p | None \<Rightarrow> status = 404)"

definition cache_backed :: "(string \<times> policy_call) list \<Rightarrow> http_widget_auth \<Rightarrow> bool" where
  "cache_backed past h =
     (\<forall>a e. hw_cache h a = Some e \<longrightarrow>
        (\<exists>pc. (a, pc) \<in> set past \<and> pc_stored pc = ce_fetched e \<and> definitive (pc_reply pc) (ce_value e)))"

lemma http_agent_widget_auth_backed:
  assumes "cache_backed past h"
  shows "cache_backed (past @ [(a, pc)]) (snd (http_agent_widget_auth ub pc a h))"
proof -
  have keep: "cache_backed (past @ [(a, pc)]) h"
    using assms unfolding cache_backed_def set_append by blast
  have put: "cache_backed (past @ [(a, pc)]) (hw_store (pc_stored pc) a v h)" if "definitive (pc_reply pc) v" for v
  proof (cases "hw_poisoned h")
    case False
    then show ?thesis using keep that by (auto simp: hw_store_def cache_backed_def)
  qed (use keep in \<open>simp add: hw_store_def\<close>)
  show ?thesis
    using keep put
    by (auto simp: http_agent_widget_auth_def is_success_def split: option.splits policy_reply.splits if_splits)
qed

lemma policy_run_backed: "cache_backed past h \<Longrightarrow> cache_backed (past @ cs) (policy_run ub cs h)"
proof (induction cs arbitrary: past h)
  case (Cons c cs)
  obtain a pc where c: "c = (a, pc)" by fastforce
  from Cons.IH [OF http_agent_widget_auth_backed [OF Cons.prems, of a pc ub]] c show ?case by simp
qed simp

lemma policy_run_ttl [simp]: "hw_ttl (policy_run ub cs h) = hw_ttl h"
proof (induction cs arbitrary: h)
  case (Cons c cs)
  obtain a pc where c: "c = (a, pc)" by fastforce
  have "hw_ttl (snd (http_agent_widget_auth ub pc a h)) = hw_ttl h"
    by (auto simp: http_agent_widget_auth_def hw_store_def split: option.splits policy_reply.splits if_splits)
  with Cons.IH c show ?case by simp
qed simp

section \<open>Properties\<close>

text \<open>C30. A wildcard entry admits its domain and the sub-domains of it, under its own scheme, and no
  look-alike: the host of an admitted origin is the domain itself or ends in a dot and the domain.\<close>

theorem origin_wildcard_exact:
  assumes "CHR '':'' \<notin> set scheme" and "scheme @ ''://*.'' @ sfx \<noteq> origin"
  shows "origin_allowed [scheme @ ''://*.'' @ sfx] origin \<longleftrightarrow>
         (\<exists>host. origin = scheme @ ''://'' @ host \<and> (host = sfx \<or> (\<exists>sub. host = sub @ ''.'' @ sfx)))"
proof -
  let ?p = "scheme @ ''://*.'' @ sfx"
  have sp: "split_once_str ''://'' ?p = Some (scheme, ''*.'' @ sfx)"
    using split_once_str_colon [OF assms(1), of "''*.'' @ sfx"] by simp
  have ne: "?p \<noteq> ''*''" by (cases scheme) auto
  have strip: "strip_prefix (''*.'' @ sfx) ''*.'' = Some sfx"
    by (simp add: strip_prefix_def starts_with_def)
  show ?thesis
  proof (cases "split_once_str ''://'' origin")
    case None
    have "origin \<noteq> scheme @ ''://'' @ host" for host
      using None split_once_str_colon [OF assms(1), of host] by auto
    then show ?thesis using None sp ne assms(2) by (simp add: origin_allowed_def origin_matches_def)
  next
    case (Some so)
    obtain os oh where so: "so = (os, oh)" by fastforce
    have orig: "origin = os @ ''://'' @ oh" using split_once_str_Some [of "''://''" origin os oh] Some so by simp
    have same: "(origin = scheme @ ''://'' @ host) = (os = scheme \<and> oh = host)" for host
    proof
      assume "origin = scheme @ ''://'' @ host"
      with Some so split_once_str_colon [OF assms(1), of host] show "os = scheme \<and> oh = host" by simp
    qed (simp add: orig)
    have "origin_allowed [?p] origin = (os = scheme \<and> (oh = sfx \<or> ends_with oh (''.'' @ sfx)))"
      using Some so sp ne strip assms(2) by (auto simp: origin_allowed_def origin_matches_def)
    then show ?thesis using same ends_with_sub [of oh sfx] by blast
  qed
qed

theorem origin_wildcard_exact_witness:
  "origin_allowed [''https'' @ ''://*.'' @ ''a.com''] ''https://x.a.com'' \<and>
   \<not> origin_allowed [''https'' @ ''://*.'' @ ''a.com''] ''https://evila.com''"
  by (subst origin_wildcard_exact, simp, simp, subst origin_wildcard_exact, simp, simp)
    (auto simp: append_eq_Cons_conv Cons_eq_append_conv)

text \<open>A signed context is accepted exactly when its signature verifies and the distance of the two
  instants is at most the window, with one exception: the subtraction is on 64-bit integers and its
  absolute value wraps, so the instant \<open>now - 2\<^sup>6\<^sup>3\<close> passes the window check too.\<close>

theorem auth_context_window:
  assumes "0 \<le> sint now" and "0 \<le> sint maxage" and "sint now + sint maxage < 2 ^ 63"
  shows "verify_auth_context lib key u sig ts now maxage \<longleftrightarrow>
           (\<exists>s m. ml_hex_decode lib sig = Some s \<and> ml_new lib key = Some m \<and>
                  ml_verify lib m (u @ '':'' @ show_int (sint ts)) s) \<and>
           (\<bar>sint now - sint ts\<bar> \<le> sint maxage \<or> sint ts = sint now - 2 ^ 63)"
proof -
  have "(sint (i64_abs (now - ts)) \<le> sint maxage) =
        (\<bar>sint now - sint ts\<bar> \<le> sint maxage \<or> sint ts = sint now - 2 ^ 63)"
    using assms sint_of_dist [OF assms(1), of ts] sint_bounds [of ts] sint_bounds [of now]
    by (simp add: sint_i64_abs abs_if)
  then show ?thesis
    by (auto simp: verify_auth_context_def auth_context_text_def not_less split: option.splits)
qed

text \<open>An origin policy served in the course of any run of look-ups was sent by the service, with a
  success status, for that very agent: in the reply to this look-up, or in one stored less than the time
  to live before it. Failed requests, refusals and replies that do not parse are never served or kept.\<close>

theorem policy_served_definitive:
  assumes "http_agent_widget_auth ub pc a (policy_run ub past (hw_with_ttl (hw_with_client url) ttl)) = (Some p, h')"
  shows "\<exists>b. (a, b) \<in> set (past @ [(a, pc)]) \<and> definitive (pc_reply b) (Some p) \<and>
             (b = pc \<or> max 0 (pc_now pc - pc_stored b) < ttl)"
proof -
  let ?h = "policy_run ub past (hw_with_ttl (hw_with_client url) ttl)"
  have ttl: "hw_ttl ?h = ttl" by (simp add: hw_with_ttl_def)
  have "cache_backed [] (hw_with_ttl (hw_with_client url) ttl)"
    by (simp add: cache_backed_def hw_with_ttl_def hw_with_client_def)
  from policy_run_backed [OF this, of past ub] have backed: "cache_backed past ?h" by simp
  show ?thesis
  proof (cases "hw_cached (pc_now pc) a ?h")
    case None
    with assms have "definitive (pc_reply pc) (Some p)"
      by (auto simp: http_agent_widget_auth_def split: if_splits policy_reply.splits option.splits)
    then show ?thesis by auto
  next
    case (Some c)
    with assms have "c = Some p" by (simp add: http_agent_widget_auth_def)
    with Some ttl obtain e where e: "hw_cache ?h a = Some e" "ce_value e = Some p"
      "max 0 (pc_now pc - ce_fetched e) < ttl"
      by (auto simp: hw_cached_def split: if_splits option.splits)
    with backed obtain b where "(a, b) \<in> set past" "pc_stored b = ce_fetched e" "definitive (pc_reply b) (Some p)"
      unfolding cache_backed_def by metis
    with e show ?thesis by auto
  qed
qed

definition demo_mac :: "unit mac_lib" where
  "demo_mac = \<lparr>ml_hex_decode = (\<lambda>s. Some (utf8_bytes s)), ml_new = (\<lambda>k. Some ()),
               ml_verify = (\<lambda>m t s. s = utf8_bytes t)\<rparr>"

theorem auth_context_window_witness:
  "verify_auth_context demo_mac ''k'' ''u'' ''u:100'' 100 160 60 \<and>
   \<not> verify_auth_context demo_mac ''k'' ''u'' ''u:100'' 100 161 60"
proof -
  have num: "sint (100 :: 64 word) = 100" "sint (160 :: 64 word) = 160" "sint (161 :: 64 word) = 161"
    "sint (60 :: 64 word) = 60" by simp_all
  have "show_int 100 = ''100''" by (simp add: show_int_def show_nat.simps char_of_def bit_0)
  then show ?thesis
    using auth_context_window [of 160 60 demo_mac "''k''" "''u''" "''u:100''" 100]
      auth_context_window [of 161 60 demo_mac "''k''" "''u''" "''u:100''" 100]
    unfolding num by (simp add: demo_mac_def)
qed

definition demo_policy :: agent_widget_auth where
  "demo_policy = \<lparr>allowed_origins = [''https://a.com''], public_key = None, wa_organization_id = None\<rparr>"

definition demo_fetch :: policy_call where
  "demo_fetch = \<lparr>pc_now = 0, pc_stored = 1, pc_reply = Replied 200 (Some demo_policy)\<rparr>"

definition demo_lookup :: policy_call where
  "demo_lookup = \<lparr>pc_now = 30, pc_stored = 31, pc_reply = SendFailed\<rparr>"

theorem policy_served_definitive_witness:
  "fst (http_agent_widget_auth (\<lambda>_. True) demo_lookup ''a1''
          (policy_run (\<lambda>_. True) [(''a1'', demo_fetch)] (hw_with_ttl (hw_with_client ''http://p'') 60))) = Some demo_policy \<and>
   (\<exists>b. (''a1'', b) \<in> set ([(''a1'', demo_fetch)] @ [(''a1'', demo_lookup)]) \<and> definitive (pc_reply b) (Some demo_policy) \<and>
        (b = demo_lookup \<or> max 0 (pc_now demo_lookup - pc_stored b) < 60))"
proof -
  let ?r = "http_agent_widget_auth (\<lambda>_. True) demo_lookup ''a1''
    (policy_run (\<lambda>_. True) [(''a1'', demo_fetch)] (hw_with_ttl (hw_with_client ''http://p'') 60))"
  have served: "fst ?r = Some demo_policy"
    by (simp add: http_agent_widget_auth_def hw_cached_def hw_store_def hw_with_ttl_def hw_with_client_def
        demo_fetch_def demo_lookup_def is_success_def)
  then have "?r = (Some demo_policy, snd ?r)" by (metis prod.collapse)
  from policy_served_definitive [OF this] served show ?thesis by blast
qed

end
