(* ===== verification/Conversations.thy ===== *)
theory Conversations
  imports App_State Widget_Auth
begin

text \<open>
  The conversation actions of \<open>rust/smooth-operator-server/src/handler.rs\<close>: who may read a conversation,
  creating and resuming sessions, reading them back, the history and the sidebar, renaming, and the
  metadata that lives on a conversation.

  A handler returns the new state and the frames it sends, in order. One frame is handled without
  interleaving, and the task a handler spawns runs when it returns. The clock and the identifiers drawn
  for a frame are its inputs. Log lines are not modelled.
\<close>

section \<open>What a handler is given\<close>

text \<open>The seams and settings of the server: the storage adapter, the widget policies, the libraries of the
  context signature, the codecs of a cursor and the serialiser of a message.\<close>

record ('st, 'mac) server_env =
  adapter :: "'st adapter"
  widget_policy :: "string \<Rightarrow> agent_widget_auth option"
  widget_auth_strict :: bool
  mac_library :: "'mac mac_lib"
  require_owned_conversations :: bool
  to_rfc3339 :: "int \<Rightarrow> string"
  parse_rfc3339 :: "string \<Rightarrow> int option"
  b64_encode :: "string \<Rightarrow> string"
  b64_decode :: "string \<Rightarrow> string option"
  ellipsis_char :: string
  message_ser :: "message \<Rightarrow> json"

text \<open>The inputs of one frame: the clock in three forms, the identifiers drawn, and the order in which the
  parked creates are visited.\<close>

record frame_input =
  fi_now_ms :: int
  fi_now :: int
  fi_unix :: "64 word"
  fi_conversation_id :: string
  fi_session_id :: string
  fi_user_participant_id :: string
  fi_agent_participant_id :: string
  fi_parked_order :: "pending_session \<Rightarrow> nat"

definition AGENT_NAME :: string where "AGENT_NAME = ''smooth-agent''"

definition SEED_ORG_ID :: string where "SEED_ORG_ID = ''reference-org''"

definition quoted :: "string \<Rightarrow> string" where
  "quoted s = [CHR 0x27] @ s @ [CHR 0x27]"

definition json_opt_str :: "string option \<Rightarrow> json" where
  "json_opt_str x = (case x of Some s \<Rightarrow> JStr s | None \<Rightarrow> JNull)"

section \<open>Scopes\<close>

datatype user_scope = Unscoped | ScopeUser string | ScopeDenied

fun principal_email :: "user_scope \<Rightarrow> string option" where
  "principal_email (ScopeUser e) = Some e"
| "principal_email Unscoped = None"
| "principal_email ScopeDenied = None"

definition same_org :: "string option \<Rightarrow> string \<Rightarrow> bool" where
  "same_org auth_org row_org = (case auth_org of None \<Rightarrow> True | Some o' \<Rightarrow> o' = row_org)"

datatype reach = ById | Listing

text \<open>A conversation has an owner when some user participant carries a non-blank address.\<close>

definition has_owner :: "participant list \<Rightarrow> bool" where
  "has_owner ps =
     list_ex (\<lambda>p. pt_type p = User \<and> (case pt_email p of Some e \<Rightarrow> trim e \<noteq> [] | None \<Rightarrow> False)) ps"

definition may_read_participants ::
  "bool \<Rightarrow> participant list \<Rightarrow> string option \<Rightarrow> user_scope \<Rightarrow> reach \<Rightarrow> bool" where
  "may_read_participants req_owned ps auth_org scope rch =
     (if (case ps of p # _ \<Rightarrow> \<not> same_org auth_org (pt_organization_id p) | [] \<Rightarrow> False) then False
      else if scope = Unscoped then True
      else
        let owned = has_owner ps in
        if req_owned \<and> \<not> owned then False
        else (case scope of
                ScopeUser email \<Rightarrow> \<not> owned \<or> list_ex (\<lambda>p. is_owner p email) ps
              | ScopeDenied \<Rightarrow> \<not> owned \<or> (auth_org = None \<and> rch = ById)
              | Unscoped \<Rightarrow> True))"

definition may_read_conversation ::
  "('st, 'mac) server_env \<Rightarrow> 'st app_state \<Rightarrow> string \<Rightarrow> string option \<Rightarrow> user_scope \<Rightarrow> reach \<Rightarrow> bool" where
  "may_read_conversation env w cid auth_org scope rch =
     (if auth_org = None \<and> scope = Unscoped then True
      else case ad_list_participants (adapter env) (storage w) cid of
        Inr ps \<Rightarrow> may_read_participants (require_owned_conversations env) ps auth_org scope rch
      | Inl _ \<Rightarrow> False)"

definition scoped_session ::
  "('st, 'mac) server_env \<Rightarrow> string \<Rightarrow> string option \<Rightarrow> user_scope \<Rightarrow> 'st app_state
    \<Rightarrow> (string + session option) \<times> 'st app_state" where
  "scoped_session env sid auth_org scope w =
     (case load_session (adapter env) sid w of
        (Inl e, w') \<Rightarrow> (Inl e, w')
      | (Inr None, w') \<Rightarrow> (Inr None, w')
      | (Inr (Some s), w') \<Rightarrow>
          if \<not> same_org auth_org (ss_organization_id s) then (Inr None, w')
          else (Inr (if may_read_conversation env w' (ss_conversation_id s) auth_org scope ById then Some s else None), w'))"

definition session_storage_error :: "frame_input \<Rightarrow> string option \<Rightarrow> json" where
  "session_storage_error fi rid =
     error_event (fi_now_ms fi) rid ''STORAGE_ERROR'' ''session lookup is temporarily unavailable, please try again''"

definition session_not_found :: "frame_input \<Rightarrow> string option \<Rightarrow> string \<Rightarrow> json" where
  "session_not_found fi rid sid =
     error_event (fi_now_ms fi) rid ''SESSION_NOT_FOUND'' (''session '' @ quoted sid @ '' not found'')"

definition cancel_conversation_turn ::
  "('st, 'mac) server_env \<Rightarrow> string option \<Rightarrow> user_scope \<Rightarrow> string \<Rightarrow> 'st app_state
    \<Rightarrow> cancelled_turn option \<times> 'st app_state" where
  "cancel_conversation_turn env auth_org scope sid w =
     (case scoped_session env sid auth_org scope w of
        (Inr (Some s), w') \<Rightarrow>
          (case cancel (ss_conversation_id s) (running w') of (ct, r') \<Rightarrow> (ct, w'\<lparr>running := r'\<rparr>))
      | (_, w') \<Rightarrow> (None, w'))"

section \<open>Widget policies\<close>

definition verify_auth_context_value :: "'mac mac_lib \<Rightarrow> frame_input \<Rightarrow> string option \<Rightarrow> json \<Rightarrow> bool" where
  "verify_auth_context_value lib fi key ac =
     (case (key, get_str ac ''userId'', get_str ac ''signature'', get_i64 ac ''timestamp'') of
        (Some pk, Some uid, Some sig, Some ts) \<Rightarrow>
          verify_auth_context lib pk uid sig (word_of_int ts) (fi_unix fi) 60
      | _ \<Rightarrow> False)"

text \<open>The error to send, or the organization of the policy.\<close>

definition enforce_widget_auth ::
  "('st, 'mac) server_env \<Rightarrow> frame_input \<Rightarrow> string option \<Rightarrow> string \<Rightarrow> json \<Rightarrow> string option \<Rightarrow> json + string option" where
  "enforce_widget_auth env fi orig aid parsed rid =
     (case widget_policy env aid of
        None \<Rightarrow>
          if widget_auth_strict env
          then Inl (error_event (fi_now_ms fi) rid ''AGENT_NOT_AUTHORIZED'' ''this agent is not registered for embedding'')
          else Inr None
      | Some policy \<Rightarrow>
          if \<not> origin_allowed (allowed_origins policy) (unwrap_or orig [])
          then Inl (error_event (fi_now_ms fi) rid ''ORIGIN_NOT_ALLOWED'' ''this origin is not allowed to embed this agent'')
          else if (case jget parsed ''authContext'' of
                     Some ac \<Rightarrow> \<not> verify_auth_context_value (mac_library env) fi (public_key policy) ac
                   | None \<Rightarrow> False)
          then Inl (error_event (fi_now_ms fi) rid ''AUTH_CONTEXT_INVALID'' ''authContext signature failed verification'')
          else Inr (wa_organization_id policy))"

section \<open>Metadata of a conversation\<close>

definition CLIENT_SUPPORTS_META_KEY :: string where "CLIENT_SUPPORTS_META_KEY = ''clientSupports''"
definition WF_STEP_META_KEY :: string where "WF_STEP_META_KEY = ''workflowCurrentStepId''"
definition WF_ATTEMPTS_META_KEY :: string where "WF_ATTEMPTS_META_KEY = ''workflowStepAttempts''"

definition conversation_supports :: "json option \<Rightarrow> string list" where
  "conversation_supports meta =
     (case Option.bind meta (\<lambda>m. get_array m CLIENT_SUPPORTS_META_KEY) of
        Some caps \<Rightarrow> filter_map as_str caps | None \<Rightarrow> [])"

fun object_or_empty :: "json option \<Rightarrow> (string \<times> json) list" where
  "object_or_empty (Some (JObj m)) = m"
| "object_or_empty _ = []"

definition json_strings :: "string list \<Rightarrow> json" where
  "json_strings xs = JArr (map JStr xs)"

definition with_client_supports :: "json option \<Rightarrow> string list \<Rightarrow> json option" where
  "with_client_supports meta supports =
     (if supports = [] then meta
      else Some (JObj (obj_insert CLIENT_SUPPORTS_META_KEY (json_strings supports) (object_or_empty meta))))"

definition obj_remove :: "string \<Rightarrow> (string \<times> json) list \<Rightarrow> (string \<times> json) list" where
  "obj_remove k kvs = filter (\<lambda>(k', _). k' \<noteq> k) kvs"

definition metadata_of :: "'st adapter \<Rightarrow> string \<Rightarrow> 'st \<Rightarrow> json option" where
  "metadata_of ad cid st =
     (case ad_get_conversation ad cid st of Inr (Some c) \<Rightarrow> conv_metadata_json c | _ \<Rightarrow> None)"

text \<open>A best-effort update: a failure is logged and nothing else.\<close>

definition put_metadata :: "'st adapter \<Rightarrow> int \<Rightarrow> string \<Rightarrow> json \<Rightarrow> 'st \<Rightarrow> 'st" where
  "put_metadata ad now cid meta st =
     (case ad_update_conversation ad now cid \<lparr>cu_name = None, cu_metadata_json = Some meta, cu_analytics_json = None\<rparr> st of
        Inr (_, st') \<Rightarrow> st' | Inl _ \<Rightarrow> st)"

definition persist_client_supports :: "'st adapter \<Rightarrow> int \<Rightarrow> string \<Rightarrow> string list \<Rightarrow> 'st \<Rightarrow> 'st" where
  "persist_client_supports ad now cid supports st =
     (let obj = object_or_empty (metadata_of ad cid st) in
      put_metadata ad now cid
        (JObj (if supports = [] then obj_remove CLIENT_SUPPORTS_META_KEY obj
               else obj_insert CLIENT_SUPPORTS_META_KEY (json_strings supports) obj)) st)"

definition load_workflow_step :: "'st adapter \<Rightarrow> string \<Rightarrow> 'st \<Rightarrow> string option \<times> nat" where
  "load_workflow_step ad cid st =
     (case metadata_of ad cid st of
        Some (JObj m) \<Rightarrow>
          (get_str (JObj m) WF_STEP_META_KEY, unwrap_or (get_u64 (JObj m) WF_ATTEMPTS_META_KEY) 0 mod 2 ^ 32)
      | _ \<Rightarrow> (None, 0))"

definition persist_workflow_step :: "'st adapter \<Rightarrow> int \<Rightarrow> string \<Rightarrow> string \<Rightarrow> nat \<Rightarrow> 'st \<Rightarrow> 'st" where
  "persist_workflow_step ad now cid step_id attempts st =
     put_metadata ad now cid
       (JObj (obj_insert WF_ATTEMPTS_META_KEY (json_u64 attempts)
               (obj_insert WF_STEP_META_KEY (JStr step_id) (object_or_empty (metadata_of ad cid st))))) st"

section \<open>Creating a session\<close>

text \<open>The rows of a create: the conversation (none on a resume), both participants and the session.\<close>

record create_rows =
  row_conversation :: "conversation option"
  row_user :: participant
  row_agent :: participant
  row_session :: session

definition declared_supports :: "json \<Rightarrow> string list option" where
  "declared_supports parsed = map_option (\<lambda>caps. filter_map as_str caps) (get_array parsed ''supports'')"

definition effective_supports :: "json \<Rightarrow> conversation option \<Rightarrow> string list" where
  "effective_supports parsed resume =
     (case (declared_supports parsed, resume) of
        (Some caps, _) \<Rightarrow> caps
      | (None, Some c) \<Rightarrow> conversation_supports (conv_metadata_json c)
      | (None, None) \<Rightarrow> [])"

definition user_email_of :: "user_scope \<Rightarrow> json \<Rightarrow> string option" where
  "user_email_of scope parsed = option_or (principal_email scope) (get_str parsed ''userEmail'')"

definition session_metadata :: "string option \<Rightarrow> string list \<Rightarrow> (string \<times> json) list option" where
  "session_metadata email supports =
     (let m = (case email of Some e \<Rightarrow> [(''contactEmail'', JStr e)] | None \<Rightarrow> []) @
              (if supports \<noteq> [] then [(''supports'', json_strings supports)] else [])
      in if m = [] then None else Some m)"

definition build_rows ::
  "frame_input \<Rightarrow> string \<Rightarrow> string \<Rightarrow> user_scope \<Rightarrow> json \<Rightarrow> conversation option \<Rightarrow> create_rows" where
  "build_rows fi org aid scope parsed resume =
     (let now = fi_now fi;
          cid = (case resume of Some c \<Rightarrow> conv_id c | None \<Rightarrow> fi_conversation_id fi);
          sid = fi_session_id fi;
          email = user_email_of scope parsed;
          supports = effective_supports parsed resume
      in \<lparr>row_conversation =
            (case resume of
               Some _ \<Rightarrow> None
             | None \<Rightarrow> Some \<lparr>conv_id = cid, conv_platform = Web, conv_name = ''Session '' @ sid, conv_organization_id = org,
                            conv_idempotency_key = sid,
                            conv_metadata_json = with_client_supports (jget parsed ''metadata'') supports,
                            conv_analytics_json = None, conv_created_at = now, conv_updated_at = now\<rparr>),
          row_user =
            \<lparr>pt_id = fi_user_participant_id fi, pt_conversation_id = cid, pt_organization_id = org, pt_type = User,
             pt_external_id = None, pt_internal_id = None,
             pt_browser_fingerprint = get_str parsed ''browserFingerprint'', pt_browser_info = None,
             pt_name = unwrap_or (get_str parsed ''userName'') ''Visitor'', pt_email = email, pt_phone = None,
             pt_crm_contact_id = None, pt_metadata_json = None, pt_created_at = now, pt_updated_at = now\<rparr>,
          row_agent =
            \<lparr>pt_id = fi_agent_participant_id fi, pt_conversation_id = cid, pt_organization_id = org, pt_type = AiAgent,
             pt_external_id = None, pt_internal_id = Some aid, pt_browser_fingerprint = None, pt_browser_info = None,
             pt_name = AGENT_NAME, pt_email = None, pt_phone = None, pt_crm_contact_id = None,
             pt_metadata_json = None, pt_created_at = now, pt_updated_at = now\<rparr>,
          row_session =
            \<lparr>session_id = sid, ss_conversation_id = cid, ss_organization_id = org, ss_agent_id = Some aid,
             ss_agent_name = AGENT_NAME, ss_user_participant_id = fi_user_participant_id fi,
             ss_agent_participant_id = fi_agent_participant_id fi, ss_thread_id = cid, ss_status = Some Active,
             ss_token_count = Some 0, ss_message_count = Some 0, ss_metadata = session_metadata email supports,
             ss_created_at = Some now, ss_updated_at = Some now, ss_ended_at = None, ss_last_activity_at = Some now\<rparr>\<rparr>)"

definition session_created_event :: "frame_input \<Rightarrow> string option \<Rightarrow> string \<Rightarrow> create_rows \<Rightarrow> json" where
  "session_created_event fi rid aid rows =
     immediate_response (fi_now_ms fi) rid 200 ''Session created''
       (JObj [(''sessionId'', JStr (session_id (row_session rows))),
              (''conversationId'', JStr (ss_conversation_id (row_session rows))), (''agentId'', JStr aid),
              (''agentName'', JStr AGENT_NAME), (''userParticipantId'', JStr (pt_id (row_user rows))),
              (''agentParticipantId'', JStr (pt_id (row_agent rows)))])"

definition carries_identity :: "user_scope \<Rightarrow> json \<Rightarrow> bool" where
  "carries_identity scope parsed =
     (user_email_of scope parsed \<noteq> None \<or>
      (case Option.bind (jget parsed ''metadata'') (\<lambda>m. get_str m ''userPhone'') of
         Some phone \<Rightarrow> trim phone \<noteq> [] | None \<Rightarrow> False))"

text \<open>One write of the eager path: skipped after a failure, whose message it names.\<close>

definition eager_write ::
  "string \<Rightarrow> ('a \<Rightarrow> 'st \<Rightarrow> string + 'b \<times> 'st) \<Rightarrow> 'a \<Rightarrow> string option \<times> 'st \<Rightarrow> string option \<times> 'st" where
  "eager_write what write row acc =
     (case acc of
        (Some e, st) \<Rightarrow> (Some e, st)
      | (None, st) \<Rightarrow>
          (case write row st of Inl e \<Rightarrow> (Some (what @ '' failed: '' @ e), st) | Inr (_, st') \<Rightarrow> (None, st')))"

definition persist_rows ::
  "'st adapter \<Rightarrow> int \<Rightarrow> bool \<Rightarrow> string list \<Rightarrow> create_rows \<Rightarrow> 'st \<Rightarrow> string option \<times> 'st" where
  "persist_rows ad now redeclared supports rows st0 =
     (let first = (case row_conversation rows of
                     Some c \<Rightarrow> eager_write ''create conversation'' (ad_create_conversation ad) c (None, st0)
                   | None \<Rightarrow>
                       (None, if redeclared
                              then persist_client_supports ad now (ss_conversation_id (row_session rows)) supports st0
                              else st0))
      in eager_write ''create session'' (ad_create_session ad) (row_session rows)
           (eager_write ''add agent participant'' (ad_add_participant ad) (row_agent rows)
             (eager_write ''add user participant'' (ad_add_participant ad) (row_user rows) first)))"

definition requested_conversation :: "json \<Rightarrow> string option" where
  "requested_conversation parsed = option_filter (\<lambda>cid. cid \<noteq> []) (get_str parsed ''conversationId'')"

definition resume_of ::
  "('st, 'mac) server_env \<Rightarrow> string option \<Rightarrow> user_scope \<Rightarrow> json \<Rightarrow> 'st app_state \<Rightarrow> conversation option" where
  "resume_of env auth_org scope parsed w =
     (case requested_conversation parsed of
        Some cid \<Rightarrow>
          if may_read_conversation env w cid auth_org scope ById
          then (case ad_get_conversation (adapter env) cid (storage w) of Inr c \<Rightarrow> c | Inl _ \<Rightarrow> None)
          else None
      | None \<Rightarrow> None)"

definition create_org :: "string option \<Rightarrow> string option \<Rightarrow> conversation option \<Rightarrow> string" where
  "create_org widget_org auth_org resume =
     (case resume of
        Some c \<Rightarrow> conv_organization_id c
      | None \<Rightarrow> unwrap_or (option_or widget_org auth_org) SEED_ORG_ID)"

definition create_session_allowed ::
  "('st, 'mac) server_env \<Rightarrow> frame_input \<Rightarrow> string \<Rightarrow> string option \<Rightarrow> user_scope \<Rightarrow> json \<Rightarrow> string option \<Rightarrow> string
    \<Rightarrow> string option \<Rightarrow> 'st app_state \<Rightarrow> 'st app_state \<times> json list" where
  "create_session_allowed env fi conn auth_org scope parsed rid aid widget_org w =
     (let w1 = (case requested_conversation parsed of
                  Some cid \<Rightarrow> snd (materialize_conversation (adapter env) (fi_parked_order fi) cid w)
                | None \<Rightarrow> w);
          resume = resume_of env auth_org scope parsed w1;
          rows = build_rows fi (create_org widget_org auth_org resume) aid scope parsed resume;
          w2 = w1\<lparr>backplane := associate conn (ToAgent aid)
                     (associate conn (ToSession (fi_session_id fi)) (backplane w1))\<rparr>
      in if row_conversation rows \<noteq> None \<and> \<not> carries_identity scope parsed then
           (insert_session (row_session rows)
              (defer_session \<lparr>ps_session_id = fi_session_id fi, ps_conn_id = conn, ps_conversation = row_conversation rows,
                 ps_user = Some (row_user rows), ps_agent = Some (row_agent rows), ps_session = Some (row_session rows)\<rparr> w2),
            [session_created_event fi rid aid rows])
         else
           (case persist_rows (adapter env) (fi_now fi) (declared_supports parsed \<noteq> None)
                   (effective_supports parsed resume) rows (storage w2) of
              (Some e, st') \<Rightarrow> (w2\<lparr>storage := st'\<rparr>, [error_event (fi_now_ms fi) rid ''INTERNAL_ERROR'' e])
            | (None, st') \<Rightarrow>
                (insert_session (row_session rows) (w2\<lparr>storage := st'\<rparr>), [session_created_event fi rid aid rows])))"

definition handle_create_session ::
  "('st, 'mac) server_env \<Rightarrow> frame_input \<Rightarrow> string \<Rightarrow> string option \<Rightarrow> string option \<Rightarrow> user_scope \<Rightarrow> json
    \<Rightarrow> string option \<Rightarrow> 'st app_state \<Rightarrow> 'st app_state \<times> json list" where
  "handle_create_session env fi conn orig auth_org scope parsed rid w =
     (case nonblank (get_str parsed ''agentId'') of
        None \<Rightarrow> (w, [error_event (fi_now_ms fi) rid ''VALIDATION_ERROR'' (''missing '' @ quoted ''agentId'')])
      | Some aid \<Rightarrow>
          (case enforce_widget_auth env fi orig aid parsed rid of
             Inl ev \<Rightarrow> (w, [ev])
           | Inr widget_org \<Rightarrow> create_session_allowed env fi conn auth_org scope parsed rid aid widget_org w))"

section \<open>Reading a session\<close>

fun status_text :: "session_status option \<Rightarrow> string" where
  "status_text None = ''active''"
| "status_text (Some Active) = ''active''"
| "status_text (Some Idle) = ''idle''"
| "status_text (Some Ended) = ''ended''"

definition session_event :: "frame_input \<Rightarrow> string option \<Rightarrow> session \<Rightarrow> json" where
  "session_event fi rid s =
     immediate_response (fi_now_ms fi) rid 200 ''Session''
       (JObj [(''sessionId'', JStr (session_id s)), (''conversationId'', JStr (ss_conversation_id s)),
              (''agentId'', json_opt_str (ss_agent_id s)), (''agentName'', JStr (ss_agent_name s)),
              (''userParticipantId'', JStr (ss_user_participant_id s)),
              (''agentParticipantId'', JStr (ss_agent_participant_id s)), (''threadId'', JStr (ss_thread_id s)),
              (''status'', JStr (status_text (ss_status s)))])"

definition missing_session_id :: "frame_input \<Rightarrow> string option \<Rightarrow> json" where
  "missing_session_id fi rid = error_event (fi_now_ms fi) rid ''VALIDATION_ERROR'' (''missing '' @ quoted ''sessionId'')"

definition handle_get_session ::
  "('st, 'mac) server_env \<Rightarrow> frame_input \<Rightarrow> string option \<Rightarrow> user_scope \<Rightarrow> json \<Rightarrow> string option \<Rightarrow> 'st app_state
    \<Rightarrow> 'st app_state \<times> json list" where
  "handle_get_session env fi auth_org scope parsed rid w =
     (case get_str parsed ''sessionId'' of
        None \<Rightarrow> (w, [missing_session_id fi rid])
      | Some sid \<Rightarrow>
          (case scoped_session env sid auth_org scope w of
             (Inr (Some s), w') \<Rightarrow> (w', [session_event fi rid s])
           | (Inr None, w') \<Rightarrow> (w', [session_not_found fi rid sid])
           | (Inl _, w') \<Rightarrow> (w', [session_storage_error fi rid])))"

definition messages_event :: "('st, 'mac) server_env \<Rightarrow> frame_input \<Rightarrow> string option \<Rightarrow> string \<Rightarrow> message_page \<Rightarrow> json" where
  "messages_event env fi rid cid page =
     immediate_response (fi_now_ms fi) rid 200 ''ConversationMessages''
       (JObj [(''conversationId'', JStr cid), (''messages'', JArr (map (message_ser env) (page_messages page))),
              (''nextCursor'', json_opt_str (next_cursor page)), (''hasMore'', JBool (next_cursor page \<noteq> None))])"

definition history_query :: "json \<Rightarrow> string \<Rightarrow> message_query" where
  "history_query parsed cid =
     \<lparr>mq_conversation_id = cid, mq_limit = unwrap_or (option_filter (\<lambda>n. n > 0) (get_u64 parsed ''limit'')) 50,
      mq_cursor = get_str parsed ''cursor'', mq_descending = True\<rparr>"

definition handle_get_conversation_messages ::
  "('st, 'mac) server_env \<Rightarrow> frame_input \<Rightarrow> string option \<Rightarrow> user_scope \<Rightarrow> json \<Rightarrow> string option \<Rightarrow> 'st app_state
    \<Rightarrow> 'st app_state \<times> json list" where
  "handle_get_conversation_messages env fi auth_org scope parsed rid w =
     (case get_str parsed ''sessionId'' of
        None \<Rightarrow> (w, [missing_session_id fi rid])
      | Some sid \<Rightarrow>
          (case scoped_session env sid auth_org scope w of
             (Inr None, w') \<Rightarrow> (w', [session_not_found fi rid sid])
           | (Inl _, w') \<Rightarrow> (w', [session_storage_error fi rid])
           | (Inr (Some s), w') \<Rightarrow>
               (case ad_list_messages (adapter env) (storage w') (history_query parsed (ss_conversation_id s)) of
                  Inr page \<Rightarrow> (w', [messages_event env fi rid (ss_conversation_id s) page])
                | Inl e \<Rightarrow> (w', [error_event (fi_now_ms fi) rid ''STORAGE_ERROR'' (''failed to list messages: '' @ e)]))))"

section \<open>The sidebar\<close>

definition TITLE_MAX :: nat where "TITLE_MAX = 60"

definition truncate_preview :: "string \<Rightarrow> string \<Rightarrow> nat \<Rightarrow> string" where
  "truncate_preview dots s n =
     (let s' = trim s in if length s' \<le> n then s' else trim_end (take n s') @ dots)"

definition summary_title :: "string \<Rightarrow> string option \<Rightarrow> string \<Rightarrow> string" where
  "summary_title dots inbound name =
     (if \<not> starts_with name DEFAULT_CONVERSATION_NAME_PREFIX \<and> trim name \<noteq> [] then truncate_preview dots name TITLE_MAX
      else case inbound of None \<Rightarrow> name | Some t \<Rightarrow> truncate_preview dots t TITLE_MAX)"

definition first_inbound_of :: "message list \<Rightarrow> string option" where
  "first_inbound_of ms = Option.bind (find (\<lambda>m. msg_direction m = Inbound) ms) (\<lambda>m. flat_text (msg_content m))"

definition conversation_row ::
  "('st, 'mac) server_env \<Rightarrow> conversation \<Rightarrow> string option \<Rightarrow> nat \<Rightarrow> conversation_key \<times> json" where
  "conversation_row env c inbound n =
     (key_of c,
      JObj [(''conversationId'', JStr (conv_id c)),
            (''title'', JStr (summary_title (ellipsis_char env) inbound (conv_name c))),
            (''updatedAt'', JStr (to_rfc3339 env (conv_updated_at c))), (''messageCount'', json_u64 n)])"

definition send_conversation_page ::
  "('st, 'mac) server_env \<Rightarrow> frame_input \<Rightarrow> (conversation_key \<times> json) list \<Rightarrow> nat \<Rightarrow> string option \<Rightarrow> json" where
  "send_conversation_page env fi rows limit rid =
     (let has_more = length rows > limit;
          page = take limit rows;
          cursor = (if has_more \<and> page \<noteq> []
                    then Some (key_encode (b64_encode env) (to_rfc3339 env) (fst (last page))) else None)
      in immediate_response (fi_now_ms fi) rid 200 ''Conversations''
           (JObj [(''conversations'', JArr (map snd page)), (''nextCursor'', json_opt_str cursor), (''hasMore'', JBool has_more)]))"

text \<open>The scan of an organization's conversations, in sidebar order, until the page is full.\<close>

fun scan_rows ::
  "('st, 'mac) server_env \<Rightarrow> 'st app_state \<Rightarrow> string option \<Rightarrow> user_scope \<Rightarrow> summary_query
    \<Rightarrow> (conversation_key \<times> json) list \<Rightarrow> conversation list \<Rightarrow> (conversation_key \<times> json) list" where
  "scan_rows env w auth_org scope q rows [] = rows"
| "scan_rows env w auth_org scope q rows (c # cs) =
     (if length rows \<ge> sq_limit q then rows
      else if \<not> admits_position q c then scan_rows env w auth_org scope q rows cs
      else if \<not> may_read_conversation env w (conv_id c) auth_org scope Listing then scan_rows env w auth_org scope q rows cs
      else case ad_list_messages (adapter env) (storage w) (message_query_new (conv_id c) 200) of
        Inl _ \<Rightarrow> scan_rows env w auth_org scope q rows cs
      | Inr page \<Rightarrow>
          let inbound = first_inbound_of (page_messages page) in
          if page_messages page = [] \<or> \<not> matches_search q (conv_name c) inbound
          then scan_rows env w auth_org scope q rows cs
          else scan_rows env w auth_org scope q (rows @ [conversation_row env c inbound (length (page_messages page))]) cs)"

definition list_failed :: "frame_input \<Rightarrow> string option \<Rightarrow> string \<Rightarrow> json" where
  "list_failed fi rid e = error_event (fi_now_ms fi) rid ''STORAGE_ERROR'' (''failed to list conversations: '' @ e)"

definition scan_conversations ::
  "('st, 'mac) server_env \<Rightarrow> frame_input \<Rightarrow> 'st app_state \<Rightarrow> string \<Rightarrow> string option \<Rightarrow> user_scope \<Rightarrow> summary_query \<Rightarrow> nat
    \<Rightarrow> string option \<Rightarrow> json" where
  "scan_conversations env fi w org auth_org scope q limit rid =
     (case ad_list_conversations (adapter env) (storage w) org of
        Inl e \<Rightarrow> list_failed fi rid e
      | Inr cs \<Rightarrow>
          send_conversation_page env fi (scan_rows env w auth_org scope q [] (sort_conversations_newest_first cs)) limit rid)"

definition send_owned_conversations ::
  "('st, 'mac) server_env \<Rightarrow> frame_input \<Rightarrow> 'st app_state \<Rightarrow> string \<Rightarrow> user_scope \<Rightarrow> summary_query \<Rightarrow> nat
    \<Rightarrow> string option \<Rightarrow> json" where
  "send_owned_conversations env fi w org scope q limit rid =
     (case (case scope of ScopeUser email \<Rightarrow> ad_owned_page (adapter env) (storage w) org email q | _ \<Rightarrow> Inr []) of
        Inl e \<Rightarrow> list_failed fi rid e
      | Inr summaries \<Rightarrow>
          send_conversation_page env fi
            (map (\<lambda>r. conversation_row env (sum_conversation r) (first_inbound_text r) (sum_message_count r)) summaries)
            limit rid)"

definition page_limit :: "json \<Rightarrow> nat" where
  "page_limit parsed =
     (case option_filter (\<lambda>n. n > 0) (get_u64 parsed ''limit'') of None \<Rightarrow> 50 | Some n \<Rightarrow> min n 200)"

definition list_cursor :: "('st, 'mac) server_env \<Rightarrow> json \<Rightarrow> conversation_key option option" where
  "list_cursor env parsed =
     (case get_str parsed ''cursor'' of
        None \<Rightarrow> Some None
      | Some [] \<Rightarrow> Some None
      | Some cursor \<Rightarrow> map_option Some (key_decode (b64_decode env) (parse_rfc3339 env) cursor))"

definition handle_list_conversations ::
  "('st, 'mac) server_env \<Rightarrow> frame_input \<Rightarrow> string option \<Rightarrow> user_scope \<Rightarrow> json \<Rightarrow> string option \<Rightarrow> 'st app_state
    \<Rightarrow> 'st app_state \<times> json list" where
  "handle_list_conversations env fi auth_org scope parsed rid w =
     (case list_cursor env parsed of
        None \<Rightarrow>
          (w, [error_event (fi_now_ms fi) rid ''VALIDATION_ERROR''
                 (''list_conversations '' @ quoted ''cursor'' @ '' is not a cursor this server issued'')])
      | Some after \<Rightarrow>
          let limit = page_limit parsed;
              q = with_search (query_after (summary_query_new (limit + 1)) after) (get_str parsed ''query'');
              org = unwrap_or auth_org SEED_ORG_ID
          in (w, [if require_owned_conversations env \<and> scope \<noteq> Unscoped
                  then send_owned_conversations env fi w org scope q limit rid
                  else scan_conversations env fi w org auth_org scope q limit rid]))"

section \<open>Titles\<close>

definition is_title_wrap :: "char \<Rightarrow> bool" where
  "is_title_wrap c = (c \<in> {CHR 0x22, CHR 0x27, CHR ''*'', CHR 0x60, CHR ''#'', CHR '' ''})"

definition sanitize_title :: "string \<Rightarrow> string" where
  "sanitize_title raw =
     trim (take TITLE_MAX (trim_matches is_title_wrap (join_str '' '' (split_whitespace raw))))"

definition rename_update :: "string \<Rightarrow> conversation_update" where
  "rename_update title = \<lparr>cu_name = Some title, cu_metadata_json = None, cu_analytics_json = None\<rparr>"

definition handle_rename_conversation ::
  "('st, 'mac) server_env \<Rightarrow> frame_input \<Rightarrow> string option \<Rightarrow> user_scope \<Rightarrow> json \<Rightarrow> string option \<Rightarrow> 'st app_state
    \<Rightarrow> 'st app_state \<times> json list" where
  "handle_rename_conversation env fi auth_org scope parsed rid w =
     (let err = (\<lambda>code msg. (w, [error_event (fi_now_ms fi) rid code msg])) in
      case get_str parsed ''conversationId'' of
        None \<Rightarrow> err ''VALIDATION_ERROR'' (''rename_conversation requires a '' @ quoted ''conversationId'')
      | Some cid \<Rightarrow>
          let title = sanitize_title (unwrap_or (get_str parsed ''title'') []) in
          if title = [] then err ''VALIDATION_ERROR'' (''rename_conversation requires a non-empty '' @ quoted ''title'')
          else case ad_get_conversation (adapter env) cid (storage w) of
            Inl e \<Rightarrow> err ''STORAGE_ERROR'' (''failed to load conversation: '' @ e)
          | Inr c \<Rightarrow>
              if c = None \<or> \<not> may_read_conversation env w cid auth_org scope ById
              then err ''CONVERSATION_NOT_FOUND'' (''conversation '' @ quoted cid @ '' not found'')
              else case ad_update_conversation (adapter env) (fi_now fi) cid (rename_update title) (storage w) of
                Inl e \<Rightarrow> err ''STORAGE_ERROR'' (''failed to rename conversation: '' @ e)
              | Inr (_, st') \<Rightarrow>
                  (w\<lparr>storage := st'\<rparr>,
                   [immediate_response (fi_now_ms fi) rid 200 ''Conversation renamed''
                      (JObj [(''conversationId'', JStr cid), (''title'', JStr title)])]))"

text \<open>The automatic title, over the model's answer. The second look at the name is on the store as it is
  when the answer arrives.\<close>

definition maybe_auto_title ::
  "'st adapter \<Rightarrow> (string \<Rightarrow> string option) \<Rightarrow> string option \<Rightarrow> (string \<Rightarrow> string option) \<Rightarrow> int \<Rightarrow> string \<Rightarrow> 'st \<Rightarrow> 'st \<Rightarrow> 'st" where
  "maybe_auto_title ad resolver env_key generate now cid st_before st_after =
     (case ad_get_conversation ad cid st_before of
        Inr (Some c) \<Rightarrow>
          if \<not> starts_with (conv_name c) DEFAULT_CONVERSATION_NAME_PREFIX then st_after
          else (case resolve_gateway_key resolver (conv_organization_id c) env_key of
            None \<Rightarrow> st_after
          | Some key \<Rightarrow>
              (case generate key of
                 None \<Rightarrow> st_after
               | Some raw \<Rightarrow>
                   let title = sanitize_title raw in
                   if title = [] then st_after
                   else if (case ad_get_conversation ad cid st_after of
                              Inr (Some c') \<Rightarrow> \<not> starts_with (conv_name c') DEFAULT_CONVERSATION_NAME_PREFIX
                            | _ \<Rightarrow> False) then st_after
                   else (case ad_update_conversation ad now cid (rename_update title) st_after of
                           Inr (_, st') \<Rightarrow> st' | Inl _ \<Rightarrow> st_after)))
      | _ \<Rightarrow> st_after)"

definition AUTO_TITLE_MODEL :: string where "AUTO_TITLE_MODEL = ''groq-gpt-oss-20b''"
definition AUTO_TITLE_MAX_TOKENS :: nat where "AUTO_TITLE_MAX_TOKENS = 512"

definition title_request_body :: "json \<Rightarrow> string \<Rightarrow> string \<Rightarrow> json" where
  "title_request_body temperature user_message answer =
     JObj [(''max_tokens'', json_u64 AUTO_TITLE_MAX_TOKENS), (''model'', JStr AUTO_TITLE_MODEL),
           (''temperature'', temperature),
           (''messages'', JArr [JObj [(''role'', JStr ''user''),
              (''content'', JStr (''Give this conversation a short 3-6 word title. Reply with ONLY the title, no quotes.'' @
                 newline @ newline @ ''User: '' @ take 500 user_message @ newline @ ''Assistant: '' @ take 500 answer))]])]"

text \<open>The gateway's reply, when the request succeeds.\<close>

definition title_of_reply :: "json \<Rightarrow> string option" where
  "title_of_reply resp =
     Option.bind (jget resp ''choices'') (\<lambda>cs.
       Option.bind (Option.bind (as_array cs) (\<lambda>xs. if xs = [] then None else Some (hd xs))) (\<lambda>c.
         Option.bind (jget c ''message'') (\<lambda>m. get_str m ''content'')))"

section \<open>The owned listing is the scan\<close>

lemma sorted_wrt_set_unique:
  assumes "\<And>a b. r a b \<Longrightarrow> \<not> r b a" and "\<And>a. \<not> r a a"
  shows "sorted_wrt r xs \<Longrightarrow> sorted_wrt r ys \<Longrightarrow> set xs = set ys \<Longrightarrow> xs = ys"
proof (induction xs arbitrary: ys)
  case (Cons x xs)
  then obtain y ys' where ys: "ys = y # ys'" by (cases ys) auto
  have "x = y"
  proof (rule ccontr)
    assume "x \<noteq> y"
    with Cons.prems ys have "r x y" "r y x" by (metis insertE insertI1 list.simps(15) sorted_wrt.simps(2))+
    with assms(1) show False by blast
  qed
  moreover have "x \<notin> set xs" "y \<notin> set ys'" using Cons.prems ys assms(2) by auto
  ultimately have "set xs = set ys'" using Cons.prems(3) ys by auto
  with Cons ys \<open>x = y\<close> show ?case by auto
qed simp

lemma sort_newest_filter:
  assumes "distinct (map conv_id cs)"
  shows "filter P (sort_conversations_newest_first cs) = sort_conversations_newest_first (filter P cs)"
proof (rule sorted_wrt_set_unique [where r = newer])
  show "sorted_wrt newer (filter P (sort_conversations_newest_first cs))"
    using sorted_sort_newest [OF assms] by (rule sorted_wrt_filter)
  show "sorted_wrt newer (sort_conversations_newest_first (filter P cs))"
    by (rule sorted_sort_newest) (rule distinct_map_filter [OF assms])
qed (auto simp: newer_def)

lemma is_owner_has_owner: "list_ex (\<lambda>p. is_owner p email) ps \<Longrightarrow> has_owner ps"
  by (fastforce simp: has_owner_def list_ex_iff is_owner_def eq_ignore_ascii_case_def to_ascii_lowercase_def
      split: if_splits option.splits)

text \<open>Under the flag a listing admits exactly the owner.\<close>

lemma may_read_listing_owned:
  assumes "\<forall>p \<in> set ps. same_org auth_org (pt_organization_id p)"
  shows "may_read_participants True ps auth_org (ScopeUser email) Listing = list_ex (\<lambda>p. is_owner p email) ps"
    and "may_read_participants True ps auth_org ScopeDenied Listing = False"
  using assms is_owner_has_owner [of email ps]
  by (auto simp: may_read_participants_def Let_def split: list.splits)

definition listed :: "('st, 'mac) server_env \<Rightarrow> (string \<Rightarrow> message list) \<Rightarrow> summary_query \<Rightarrow> conversation \<Rightarrow> (conversation_key \<times> json) option" where
  "listed env msgs q c =
     map_option (\<lambda>r. conversation_row env (sum_conversation r) (first_inbound_text r) (sum_message_count r))
       (summary_row q c (msgs (conv_id c)))"

lemma scan_rows_spec:
  assumes "\<And>i. ad_list_messages (adapter env) (storage w) (message_query_new i 200) = Inr (pages i)"
  shows "length rows \<le> sq_limit q \<Longrightarrow>
    scan_rows env w auth_org scope q rows cs =
      rows @ take (sq_limit q - length rows)
        (filter_map (listed env (\<lambda>i. page_messages (pages i)) q)
          (filter (\<lambda>c. admits_position q c \<and> may_read_conversation env w (conv_id c) auth_org scope Listing) cs))"
proof (induction cs arbitrary: rows)
  case (Cons c cs)
  show ?case
  proof (cases "length rows < sq_limit q \<and> admits_position q c \<and>
      may_read_conversation env w (conv_id c) auth_org scope Listing")
    case False
    with Cons.IH [OF Cons.prems] Cons.prems show ?thesis by auto
  next
    case True
    let ?ms = "page_messages (pages (conv_id c))"
    have take: "take (sq_limit q - length rows) (r # rs) = r # take (sq_limit q - length (rows @ [r])) rs" for r :: "conversation_key \<times> json" and rs
      using True by (simp add: take_Cons')
    from True Cons.IH [OF Cons.prems] Cons.IH [of "rows @ [conversation_row env c (first_inbound_of ?ms) (length ?ms)]"] assms take
    show ?thesis
      by (auto simp: listed_def summary_row_def first_inbound_of_def Let_def)
  qed
qed simp

text \<open>Every participant belongs to the organization of its conversation.\<close>

definition participants_scoped :: "tables \<Rightarrow> bool" where
  "participants_scoped t \<longleftrightarrow>
     (\<forall>p \<in> set (map snd (participants t)). \<forall>c \<in> set (map snd (conversations t)).
        pt_conversation_id p = conv_id c \<longrightarrow> pt_organization_id p = conv_organization_id c)"

lemma memory_may_read:
  assumes "adapter env = memory_adapter cb pb" and "storage w = storage_run sb ops tables_default"
  shows "may_read_conversation env w i auth_org scope rch =
     (auth_org = None \<and> scope = Unscoped \<or>
      may_read_participants (require_owned_conversations env) (memory_parts pb (storage w) i) auth_org scope rch)"
  using memory_text.parts_read [of cb pb sb ops i] assms
  by (auto simp: may_read_conversation_def memory_adapter_def memory_text_reads_def)

section \<open>Properties\<close>

text \<open>C31. On a host that requires owned conversations, the list the storage layer computes in one query is
  the frame the generic scan would send, for every caller with an identity to check, every limit, cursor
  and search, as long as participants belong to the organization of their conversation.\<close>

theorem owned_listing_equals_scan:
  assumes "adapter env = memory_adapter cb pb" and "storage w = storage_run sb ops tables_default"
    and "require_owned_conversations env" and "scope \<noteq> Unscoped" and "participants_scoped (storage w)"
    and "org = unwrap_or auth_org SEED_ORG_ID"
  shows "send_owned_conversations env fi w org scope q limit rid = scan_conversations env fi w org auth_org scope q limit rid"
proof -
  let ?t = "storage_run sb ops tables_default"
  let ?cs = "memory_convs cb ?t org"
  let ?pages = "\<lambda>i. memory_page ?t (message_query_new i 200)"
  let ?row = "listed env (\<lambda>i. page_messages (?pages i)) q"
  let ?own = "\<lambda>c. case scope of ScopeUser email \<Rightarrow> list_ex (\<lambda>p. is_owner p email) (memory_parts pb ?t (conv_id c)) | _ \<Rightarrow> False"
  have pages: "ad_list_messages (adapter env) (storage w) (message_query_new i 200) = Inr (?pages i)" for i
    using memory_text.page_read [of cb pb sb ops "message_query_new i 200"] assms(1,2)
    by (simp add: memory_adapter_def memory_text_reads_def)
  have "same_org auth_org (pt_organization_id p)" if "p \<in> set (memory_parts pb ?t (conv_id c))" "c \<in> set ?cs" for p c
    using that assms(5) unfolding assms(2,6) by (auto simp: participants_scoped_def memory_parts_def memory_convs_def same_org_def
        split: option.splits)
  then have may: "may_read_conversation env w (conv_id c) auth_org scope Listing = ?own c" if "c \<in> set ?cs" for c
    using that assms(3,4) may_read_listing_owned [of "memory_parts pb ?t (conv_id c)" auth_org]
    unfolding memory_may_read [OF assms(1,2)] assms(2) by (cases scope) auto
  have list: "ad_list_conversations (adapter env) (storage w) org = Inr ?cs"
    using memory_text.convs_read [of cb pb sb ops org] assms(1,2) by (simp add: memory_adapter_def memory_text_reads_def)
  have "filter (\<lambda>c. admits_position q c \<and> may_read_conversation env w (conv_id c) auth_org scope Listing)
      (sort_conversations_newest_first ?cs) = filter (admits_position q) (filter ?own (sort_conversations_newest_first ?cs))"
    unfolding filter_filter by (rule filter_cong) (auto simp: may)
  also have "\<dots> = filter (admits_position q) (sort_conversations_newest_first (filter ?own ?cs))"
    by (simp only: sort_newest_filter [OF memory_text.convs_distinct])
  finally have scan: "scan_rows env w auth_org scope q [] (sort_conversations_newest_first ?cs) =
      take (sq_limit q) (filter_map ?row (filter (admits_position q) (sort_conversations_newest_first (filter ?own ?cs))))"
    using scan_rows_spec [where env = env and w = w and rows = "[]", OF pages] by simp
  have fm: "map f (filter_map g xs) = filter_map (\<lambda>x. map_option f (g x)) xs" for f g and xs :: "conversation list"
    by (induction xs) (auto split: option.splits)
  show ?thesis
  proof (cases scope)
    case (ScopeUser email)
    have "ad_owned_page (adapter env) (storage w) org email q =
        Inr (take (sq_limit q) (filter_map (\<lambda>c. summary_row q c (page_messages (?pages (conv_id c))))
          (filter (admits_position q) (sort_conversations_newest_first (filter ?own ?cs)))))"
      using memory_text.page_spec [of cb pb sb ops org email q] assms(1,2) ScopeUser
      by (simp add: memory_adapter_def SUMMARY_MESSAGE_CAP_def)
    then show ?thesis using ScopeUser scan list
      by (simp add: send_owned_conversations_def scan_conversations_def take_map [symmetric] fm listed_def [abs_def])
  next
    case ScopeDenied
    then show ?thesis using scan list
      by (simp add: send_owned_conversations_def scan_conversations_def sort_conversations_newest_first_def)
  qed (use assms(4) in simp)
qed

text \<open>Enumerating conversations never shows a caller somebody else's: every row sent to a caller with an
  identity to check is a conversation of the scanned list that has no owner at all, or that the caller's
  own address owns.\<close>

theorem sidebar_scan_private:
  assumes "adapter env = memory_adapter cb pb" and "storage w = storage_run sb ops tables_default"
    and "scope \<noteq> Unscoped" and "r \<in> set (scan_rows env w auth_org scope q [] cs)"
  shows "\<exists>c \<in> set cs. jget (snd r) ''conversationId'' = Some (JStr (conv_id c)) \<and>
           (\<not> has_owner (memory_parts pb (storage w) (conv_id c)) \<or>
            (\<exists>email. scope = ScopeUser email \<and> list_ex (\<lambda>p. is_owner p email) (memory_parts pb (storage w) (conv_id c))))"
proof -
  let ?pages = "\<lambda>i. memory_page (storage w) (message_query_new i 200)"
  have pages: "ad_list_messages (adapter env) (storage w) (message_query_new i 200) = Inr (?pages i)" for i
    using memory_text.page_read [of cb pb sb ops "message_query_new i 200"] assms(1,2)
    by (simp add: memory_adapter_def memory_text_reads_def)
  from assms(4) obtain c where c: "c \<in> set cs" "may_read_conversation env w (conv_id c) auth_org scope Listing"
    "listed env (\<lambda>i. page_messages (?pages i)) q c = Some r"
    using scan_rows_spec [where env = env and w = w and rows = "[]", OF pages, of q auth_org scope cs]
    by (auto simp: set_filter_map dest!: in_set_takeD)
  have "jget (snd r) ''conversationId'' = Some (JStr (conv_id c))"
    using c(3) summary_row_conv by (fastforce simp: listed_def conversation_row_def)
  moreover have "may_read_participants (require_owned_conversations env) (memory_parts pb (storage w) (conv_id c)) auth_org scope Listing"
    using c(2) assms(3) unfolding memory_may_read [OF assms(1,2)] by simp
  ultimately show ?thesis using c(1) assms(3)
    by (intro bexI [of _ c])
       (auto simp: may_read_participants_def Let_def split: if_splits user_scope.splits list.splits)
qed

section \<open>A created session and its creator\<close>

lemma put_metadata_memory:
  "participants (put_metadata (memory_adapter cb pb) now cid m t) = participants t"
  "tables_poisoned (put_metadata (memory_adapter cb pb) now cid m t) = tables_poisoned t"
  by (auto simp: put_metadata_def memory_adapter_def text_error_def update_conversation_def locked_def Let_def
      split: sum.splits option.splits if_splits)

lemma eager_write_None:
  "eager_write what write row acc = (None, st') \<Longrightarrow> \<exists>st x. acc = (None, st) \<and> write row st = Inr (x, st')"
  by (auto simp: eager_write_def split: prod.splits option.splits sum.splits)

lemma persist_rows_participants:
  assumes "persist_rows (memory_adapter cb pb) now redeclared supports rows t = (None, t')"
  shows "participants t' = AList.update (pt_id (row_agent rows)) (row_agent rows)
           (AList.update (pt_id (row_user rows)) (row_user rows) (participants t)) \<and> \<not> tables_poisoned t'"
proof -
  let ?first = "case row_conversation rows of
      Some c \<Rightarrow> eager_write ''create conversation'' (ad_create_conversation (memory_adapter cb pb)) c (None, t)
    | None \<Rightarrow> (None, if redeclared then persist_client_supports (memory_adapter cb pb) now
        (ss_conversation_id (row_session rows)) supports t else t)"
  from eager_write_None [OF assms [unfolded persist_rows_def Let_def]]
  obtain t3 x3 where 3: "ad_create_session (memory_adapter cb pb) (row_session rows) t3 = Inr (x3, t')"
    "eager_write ''add agent participant'' (ad_add_participant (memory_adapter cb pb)) (row_agent rows)
       (eager_write ''add user participant'' (ad_add_participant (memory_adapter cb pb)) (row_user rows) ?first) = (None, t3)"
    by auto
  from eager_write_None [OF 3(2)] obtain t2 x2 where 2:
    "ad_add_participant (memory_adapter cb pb) (row_agent rows) t2 = Inr (x2, t3)"
    "eager_write ''add user participant'' (ad_add_participant (memory_adapter cb pb)) (row_user rows) ?first = (None, t2)"
    by auto
  from eager_write_None [OF 2(2)] obtain t1 x1 where 1:
    "ad_add_participant (memory_adapter cb pb) (row_user rows) t1 = Inr (x1, t2)" "?first = (None, t1)" by auto
  have "participants t1 = participants t"
  proof (cases "row_conversation rows")
    case None
    with 1(2) show ?thesis by (auto simp: persist_client_supports_def put_metadata_memory Let_def split: if_splits)
  next
    case (Some c)
    with 1(2) have "eager_write ''create conversation'' (ad_create_conversation (memory_adapter cb pb)) c (None, t) = (None, t1)" by simp
    from eager_write_None [OF this] obtain x0 where "create_conversation cb c t = Inr (x0, t1)"
      by (auto simp: memory_adapter_def)
    then show ?thesis by (auto simp: create_conversation_def locked_def split: if_splits option.splits)
  qed
  with 1(1) 2(1) 3(1) show ?thesis
    by (auto simp: memory_adapter_def add_participant_def create_session_def locked_def split: if_splits)
qed

text \<open>The participants that a create leaves in the store for its conversation.\<close>

lemma memory_participants_fresh:
  assumes "participants t' = AList.update (pt_id a) a (AList.update (pt_id u) u (participants t))"
    and "\<not> tables_poisoned t'" and "distinct (map fst (participants t))"
    and "\<forall>p \<in> set (map snd (participants t)). pt_conversation_id p \<noteq> cid"
    and "pt_conversation_id a = cid" "pt_conversation_id u = cid" "pt_id a \<noteq> pt_id u"
  shows "\<exists>ps. ad_list_participants (memory_adapter cb pb) t' cid = Inr ps \<and> set ps = {u, a}"
proof -
  have "set (map snd (participants t')) \<inter> {p. pt_conversation_id p = cid} = {u, a}"
    using assms(3-7) unfolding assms(1)
    by (auto simp: alist_update_set distinct_update intro: image_eqI [of _ _ "(pt_id u, u)"])
  then have "set (filter (\<lambda>p. pt_conversation_id p = cid) (map snd (participants t'))) = {u, a}" by auto
  with assms(2) show ?thesis
    by (simp add: memory_adapter_def list_participants_by_conversation_def locked_def)
qed

lemma build_rows_fresh:
  assumes "rows = build_rows fi org aid scope parsed None"
  shows "pt_organization_id (row_user rows) = org" "pt_organization_id (row_agent rows) = org"
    "pt_conversation_id (row_user rows) = fi_conversation_id fi" "pt_conversation_id (row_agent rows) = fi_conversation_id fi"
    "pt_id (row_user rows) = fi_user_participant_id fi" "pt_id (row_agent rows) = fi_agent_participant_id fi"
    "pt_type (row_user rows) = User" "pt_type (row_agent rows) = AiAgent"
    "pt_email (row_user rows) = user_email_of scope parsed" "row_conversation rows \<noteq> None"
    "session_id (row_session rows) = fi_session_id fi" "ss_conversation_id (row_session rows) = fi_conversation_id fi"
    "ss_organization_id (row_session rows) = org"
  using assms by (simp_all add: build_rows_def Let_def)

text \<open>A fresh create that is acknowledged registers its session and leaves, for its conversation, no
  participants yet or its own two.\<close>

lemma create_fresh_result:
  assumes mem: "adapter env = memory_adapter cb pb" and ok: "tables_ok (storage w)"
    and locks: "\<not> poisoned w SessionsLock" "\<not> poisoned w PendingSessionsLock"
    and fresh: "requested_conversation parsed = None"
      "\<forall>p \<in> set (map snd (participants (storage w))). pt_conversation_id p \<noteq> fi_conversation_id fi"
      "fi_user_participant_id fi \<noteq> fi_agent_participant_id fi"
    and run: "create_session_allowed env fi conn auth_org scope parsed rid aid widget_org w = (w', [f])"
      "frame_type f = ''immediate_response''"
  defines "rows \<equiv> build_rows fi (create_org widget_org auth_org None) aid scope parsed None"
  shows "state_get_session w' (fi_session_id fi) = Some (row_session rows) \<and>
         (\<exists>ps. ad_list_participants (adapter env) (storage w') (fi_conversation_id fi) = Inr ps \<and>
               (ps = [] \<and> \<not> carries_identity scope parsed \<or> carries_identity scope parsed \<and> set ps = {row_user rows, row_agent rows}))"
proof -
  note rows = build_rows_fresh [OF rows_def [THEN meta_eq_to_obj_eq]]
  have res: "resume_of env auth_org scope parsed w = None" using fresh(1) by (simp add: resume_of_def)
  show ?thesis
  proof (cases "carries_identity scope parsed")
    case False
    have "set (filter (\<lambda>p. pt_conversation_id p = fi_conversation_id fi) (map snd (participants (storage w)))) = {}"
      using fresh(2) by auto
    then have "ad_list_participants (adapter env) (storage w) (fi_conversation_id fi) = Inr []"
      using ok unfolding mem
      by (auto simp: memory_adapter_def list_participants_by_conversation_def locked_def tables_ok_def filter_empty_conv)
    moreover have "storage w' = storage w" "state_get_session w' (fi_session_id fi) = Some (row_session rows)"
      using run False locks fresh(1) res rows
      by (auto simp: create_session_allowed_def Let_def rows_def [symmetric] insert_session_def defer_session_def
          state_get_session_def split: if_splits)
    ultimately show ?thesis using False by simp
  next
    case True
    obtain e t' where p: "persist_rows (adapter env) (fi_now fi) (declared_supports parsed \<noteq> None)
        (effective_supports parsed None) rows (storage w) = (e, t')" by fastforce
    have e: "e = None" using run True fresh(1) res p
      by (cases e) (auto simp: create_session_allowed_def Let_def rows_def [symmetric])
    have w': "storage w' = t'" "state_get_session w' (fi_session_id fi) = Some (row_session rows)"
      using run True fresh(1) res p locks rows unfolding e
      by (auto simp: create_session_allowed_def Let_def rows_def [symmetric] insert_session_def state_get_session_def
          split: if_splits)
    have "\<exists>ps. ad_list_participants (memory_adapter cb pb) t' (fi_conversation_id fi) = Inr ps \<and>
        set ps = {row_user rows, row_agent rows}"
      using persist_rows_participants [OF p [unfolded e mem]] ok fresh(2,3) rows
      by (intro memory_participants_fresh [where t = "storage w"]) (auto simp: tables_ok_def keyed_def)
    with w' True mem show ?thesis by auto
  qed
qed

lemma scoped_session_registered:
  assumes "state_get_session w sid = Some s" and "same_org auth_org (ss_organization_id s)"
  shows "scoped_session env sid auth_org scope w =
     (Inr (if may_read_conversation env w (ss_conversation_id s) auth_org scope ById then Some s else None), w)"
  using assms by (simp add: scoped_session_def load_session_def)

text \<open>A caller is never locked out of the session it has just created: when a create of a new
  conversation is acknowledged, reading that session back over the same connection returns it. This
  holds for every anonymous caller, also one that gave an address, and for every authenticated one, but
  for a principal without an address that sends one in the frame; the policy's organization must not
  contradict the token's, and a host that requires owned conversations needs an address in the token.\<close>

theorem creator_reaches_session:
  assumes mem: "adapter env = memory_adapter cb pb" and ok: "tables_ok (storage w)"
    and locks: "\<not> poisoned w SessionsLock" "\<not> poisoned w PendingSessionsLock"
    and fresh: "requested_conversation parsed = None"
      "\<forall>p \<in> set (map snd (participants (storage w))). pt_conversation_id p \<noteq> fi_conversation_id fi"
      "fi_user_participant_id fi \<noteq> fi_agent_participant_id fi"
    and run: "create_session_allowed env fi conn auth_org scope parsed rid aid widget_org w = (w', [f])"
      "frame_type f = ''immediate_response''"
    and org: "same_org auth_org (unwrap_or widget_org (unwrap_or auth_org SEED_ORG_ID))"
    and ident: "\<not> (scope = ScopeDenied \<and> auth_org \<noteq> None \<and> get_str parsed ''userEmail'' \<noteq> None)"
    and flag: "require_owned_conversations env \<Longrightarrow> scope = Unscoped \<or> (\<exists>e. scope = ScopeUser e \<and> trim e \<noteq> [])"
    and again: "get_str parsed' ''sessionId'' = Some (fi_session_id fi)"
  shows "\<exists>s. handle_get_session env fi' auth_org scope parsed' rid' w' = (w', [session_event fi' rid' s]) \<and>
             session_id s = fi_session_id fi \<and> ss_conversation_id s = fi_conversation_id fi"
proof -
  let ?org = "create_org widget_org auth_org None"
  let ?rows = "build_rows fi ?org aid scope parsed None"
  note rows = build_rows_fresh [OF refl, of fi ?org aid scope parsed]
  have org': "same_org auth_org ?org" using org by (cases widget_org; cases auth_org) (simp_all add: create_org_def)
  from create_fresh_result [OF mem ok locks fresh run] obtain ps where
    reg: "state_get_session w' (fi_session_id fi) = Some (row_session ?rows)" and
    ps: "ad_list_participants (adapter env) (storage w') (fi_conversation_id fi) = Inr ps"
      "ps = [] \<and> \<not> carries_identity scope parsed \<or> carries_identity scope parsed \<and> set ps = {row_user ?rows, row_agent ?rows}"
    by blast
  have head: "\<not> (case ps of p # _ \<Rightarrow> \<not> same_org auth_org (pt_organization_id p) | [] \<Rightarrow> False)"
  proof (cases ps)
    case (Cons p qs)
    then have "p \<in> {row_user ?rows, row_agent ?rows}" using ps(2) by auto
    then have "pt_organization_id p = ?org" using rows(1,2) by auto
    with Cons org' show ?thesis by simp
  qed simp
  have owned: "has_owner ps = (ps \<noteq> [] \<and> (case user_email_of scope parsed of Some e \<Rightarrow> trim e \<noteq> [] | None \<Rightarrow> False))"
    using ps(2) rows by (auto simp: has_owner_def list_ex_iff)
  have mine: "list_ex (\<lambda>p. is_owner p e) ps" if "scope = ScopeUser e" "trim e \<noteq> []" "ps \<noteq> []" for e
    using ps(2) that rows by (auto simp: list_ex_iff is_owner_def user_email_of_def eq_ignore_ascii_case_def)
  have carried: "ps \<noteq> []" if "scope = ScopeUser e" for e
    using ps(2) that by (auto simp: carries_identity_def user_email_of_def)
  have "may_read_participants (require_owned_conversations env) ps auth_org scope ById"
  proof (cases scope)
    case Unscoped
    then show ?thesis using head by (simp add: may_read_participants_def)
  next
    case (ScopeUser e)
    show ?thesis
    proof (cases "trim e = []")
      case True
      then have "\<not> require_owned_conversations env" using flag ScopeUser by auto
      moreover have "\<not> has_owner ps" using owned ScopeUser True by (simp add: user_email_of_def)
      ultimately show ?thesis using head ScopeUser by (simp add: may_read_participants_def Let_def)
    next
      case False
      with mine carried ScopeUser owned have "list_ex (\<lambda>p. is_owner p e) ps" "has_owner ps"
        by (auto simp: user_email_of_def)
      then show ?thesis using head ScopeUser by (simp add: may_read_participants_def Let_def)
    qed
  next
    case ScopeDenied
    then have "\<not> require_owned_conversations env" using flag by auto
    moreover have "\<not> has_owner ps \<or> auth_org = None"
      using ident ScopeDenied owned by (auto simp: user_email_of_def)
    ultimately show ?thesis using head ScopeDenied by (simp add: may_read_participants_def Let_def)
  qed
  then have "may_read_conversation env w' (fi_conversation_id fi) auth_org scope ById"
    using ps(1) by (simp add: may_read_conversation_def)
  then show ?thesis
    using scoped_session_registered [OF reg, of auth_org env scope] rows(11-13) org' again
    by (auto simp: handle_get_session_def)
qed

text \<open>The workflow pointer written at the end of a turn is the one the next turn reads, on whichever pod,
  and writing it keeps the render capabilities recorded beside it, and the other way round.\<close>

theorem workflow_step_roundtrip:
  assumes "\<not> tables_poisoned t" and "map_of (conversations t) cid = Some c" and "attempts < 2 ^ 32"
    and "ad = memory_adapter cb pb"
  shows "load_workflow_step ad cid (persist_workflow_step ad now cid step_id attempts t) = (Some step_id, attempts) \<and>
         conversation_supports (metadata_of ad cid (persist_workflow_step ad now cid step_id attempts t)) =
           conversation_supports (metadata_of ad cid t) \<and>
         load_workflow_step ad cid (persist_client_supports ad now' cid caps (persist_workflow_step ad now cid step_id attempts t)) =
           (Some step_id, attempts)"
proof -
  have put: "metadata_of ad cid (put_metadata ad n cid m u) = Some m \<and>
      \<not> tables_poisoned (put_metadata ad n cid m u) \<and> map_of (conversations (put_metadata ad n cid m u)) cid \<noteq> None"
    if "\<not> tables_poisoned u" "map_of (conversations u) cid \<noteq> None" for n m u
    using that assms(4) by (auto simp: put_metadata_def metadata_of_def memory_adapter_def update_conversation_def
        get_conversation_def locked_def Let_def update_conv)
  have num: "unwrap_or (as_u64 (json_u64 attempts)) 0 mod 2 ^ 32 = attempts"
    using assms(3) by (simp add: json_u64_def unat_of_nat)
  define t1 where "t1 = persist_workflow_step ad now cid step_id attempts t"
  let ?m1 = "obj_insert WF_ATTEMPTS_META_KEY (json_u64 attempts) (obj_insert WF_STEP_META_KEY (JStr step_id)
    (object_or_empty (metadata_of ad cid t)))"
  have t1: "metadata_of ad cid t1 = Some (JObj ?m1)" "\<not> tables_poisoned t1" "map_of (conversations t1) cid \<noteq> None"
    using put [of t] assms(1,2) by (auto simp: t1_def persist_workflow_step_def)
  have keys: "CLIENT_SUPPORTS_META_KEY \<noteq> WF_ATTEMPTS_META_KEY" "CLIENT_SUPPORTS_META_KEY \<noteq> WF_STEP_META_KEY"
    "WF_STEP_META_KEY \<noteq> WF_ATTEMPTS_META_KEY"
    by (simp_all add: CLIENT_SUPPORTS_META_KEY_def WF_ATTEMPTS_META_KEY_def WF_STEP_META_KEY_def)
  have obj: "conversation_supports (Some (JObj (object_or_empty m))) = conversation_supports m" for m
    by (cases m rule: object_or_empty.cases) (simp_all add: conversation_supports_def get_array_def)
  have "conversation_supports (Some (JObj ?m1)) = conversation_supports (metadata_of ad cid t)"
    using keys obj [of "metadata_of ad cid t"] by (simp add: conversation_supports_def get_array_def)
  moreover have "load_workflow_step ad cid t1 = (Some step_id, attempts)"
    using t1(1) keys num by (simp add: load_workflow_step_def get_str_def get_u64_def)
  moreover have rm: "map_of (obj_remove k kvs) k' = (if k' = k then None else map_of kvs k')" for k k' kvs
    by (induction kvs) (auto simp: obj_remove_def)
  have "load_workflow_step ad cid (persist_client_supports ad now' cid caps t1) = (Some step_id, attempts)"
    using put [OF t1(2,3)] t1(1) keys num
    by (auto simp: persist_client_supports_def load_workflow_step_def get_str_def get_u64_def rm Let_def)
  ultimately show ?thesis unfolding t1_def [symmetric] t1(1) by simp
qed

text \<open>A title, typed or generated, is at most sixty characters, has no white space but single blanks
  inside, and none at its ends.\<close>

theorem sanitize_title_bounds:
  "length (sanitize_title raw) \<le> 60 \<and> trim (sanitize_title raw) = sanitize_title raw \<and>
   {c \<in> set (sanitize_title raw). is_whitespace c} \<subseteq> {CHR '' ''}"
proof -
  let ?j = "join_str '' '' (split_whitespace raw)"
  have "length (sanitize_title raw) \<le> 60"
    unfolding sanitize_title_def TITLE_MAX_def by (rule le_trans [OF length_trim_le]) simp
  moreover have "c = CHR '' ''" if "c \<in> set (sanitize_title raw)" "is_whitespace c" for c
  proof -
    have "set (trim_matches is_title_wrap ?j) \<subseteq> set ?j"
      unfolding trim_matches_def by (fastforce dest: set_dropWhileD)
    with that(1) have "c \<in> set ?j"
      unfolding sanitize_title_def by (meson in_set_takeD set_trim subset_iff)
    moreover have "set (join_str '' '' ws) \<subseteq> insert (CHR '' '') (\<Union> (set ` set ws))" for ws
      by (induction "'' '' :: string" ws rule: join_str.induct) auto
    ultimately have "c = CHR '' '' \<or> (\<exists>v \<in> set (split_whitespace raw). c \<in> set v)" by blast
    with split_whitespace_word that(2) show ?thesis by blast
  qed
  moreover have "trim (sanitize_title raw) = sanitize_title raw" unfolding sanitize_title_def by (rule trim_idem)
  ultimately show ?thesis by blast
qed

section \<open>Observations\<close>

text \<open>The one lockout: a principal without an address that names one in the frame owns a conversation it may
  not read, so its acknowledged session is reported as not found.\<close>

lemma emailless_principal_locked_out:
  assumes mem: "adapter env = memory_adapter cb pb" and ok: "tables_ok (storage w)"
    and locks: "\<not> poisoned w SessionsLock" "\<not> poisoned w PendingSessionsLock"
    and fresh: "requested_conversation parsed = None"
      "\<forall>p \<in> set (map snd (participants (storage w))). pt_conversation_id p \<noteq> fi_conversation_id fi"
      "fi_user_participant_id fi \<noteq> fi_agent_participant_id fi"
    and run: "create_session_allowed env fi conn (Some o') ScopeDenied parsed rid aid None w = (w', [f])"
      "frame_type f = ''immediate_response''"
    and email: "get_str parsed ''userEmail'' = Some e" "trim e \<noteq> []"
    and again: "get_str parsed' ''sessionId'' = Some (fi_session_id fi)"
  shows "handle_get_session env fi' (Some o') ScopeDenied parsed' rid' w' = (w', [session_not_found fi' rid' (fi_session_id fi)])"
proof -
  let ?rows = "build_rows fi (create_org None (Some o') None) aid ScopeDenied parsed None"
  note rows = build_rows_fresh [OF refl, of fi "create_org None (Some o') None" aid ScopeDenied parsed]
  have "carries_identity ScopeDenied parsed" using email by (simp add: carries_identity_def user_email_of_def)
  with create_fresh_result [OF mem ok locks fresh run] obtain ps where
    reg: "state_get_session w' (fi_session_id fi) = Some (row_session ?rows)" and
    ps: "ad_list_participants (adapter env) (storage w') (fi_conversation_id fi) = Inr ps"
      "set ps = {row_user ?rows, row_agent ?rows}" by blast
  have "has_owner ps" using ps(2) rows email by (auto simp: has_owner_def list_ex_iff user_email_of_def)
  then have "\<not> may_read_conversation env w' (fi_conversation_id fi) (Some o') ScopeDenied ById"
    using ps(1) by (auto simp: may_read_conversation_def may_read_participants_def Let_def)
  then show ?thesis
    using scoped_session_registered [OF reg, of "Some o'" env ScopeDenied] rows(11-13) again
    by (auto simp: handle_get_session_def same_org_def create_org_def)
qed

text \<open>An automatic title never replaces a name that is no longer the default one when it is written.\<close>

lemma auto_title_keeps_names:
  assumes "ad_get_conversation ad cid st_after = Inr (Some c)" and "\<not> starts_with (conv_name c) DEFAULT_CONVERSATION_NAME_PREFIX"
  shows "maybe_auto_title ad resolver env_key generate now cid st_before st_after = st_after"
  unfolding maybe_auto_title_def assms(1) Let_def using assms(2) by (auto split: sum.split option.split)

section \<open>Witnesses\<close>

definition demo_env :: "bool \<Rightarrow> (tables, unit) server_env" where
  "demo_env owned =
     \<lparr>adapter = memory_adapter (\<lambda>_. 0) (\<lambda>_. 0), widget_policy = (\<lambda>_. None), widget_auth_strict = False,
      mac_library = demo_mac, require_owned_conversations = owned, to_rfc3339 = show_int, parse_rfc3339 = (\<lambda>_. None),
      b64_encode = (\<lambda>s. s), b64_decode = Some, ellipsis_char = ''...'', message_ser = (\<lambda>m. JStr (msg_id m))\<rparr>"

definition demo_input :: frame_input where
  "demo_input =
     \<lparr>fi_now_ms = 7, fi_now = 7, fi_unix = 7, fi_conversation_id = ''c9'', fi_session_id = ''s9'',
      fi_user_participant_id = ''u9'', fi_agent_participant_id = ''g9'', fi_parked_order = (\<lambda>_. 0)\<rparr>"

definition demo_store :: "tables app_state" where
  "demo_store = app_state_new (storage_run (\<lambda>_. 0) demo_ops tables_default)"

lemma demo_store_scoped: "participants_scoped (storage demo_store)"
  by (simp add: participants_scoped_def demo_store_def app_state_new_def demo_ops_def storage_run_def after_op_def
      create_conversation_def add_participant_def append_message_def locked_def tables_default_def entry_or_insert_def
      hash_order_def same_idempotency_def demo_conversation_def demo_participant_def demo_message_def Let_def)

theorem owned_listing_equals_scan_witness:
  "send_owned_conversations (demo_env True) demo_input demo_store ''org'' (ScopeUser ''a@x.io'') (summary_query_new 2) 1 None =
   scan_conversations (demo_env True) demo_input demo_store ''org'' (Some ''org'') (ScopeUser ''a@x.io'') (summary_query_new 2) 1 None"
  by (rule owned_listing_equals_scan [where cb = "\<lambda>_. 0" and pb = "\<lambda>_. 0" and sb = "\<lambda>_. 0" and ops = demo_ops, OF _ _ _ _ demo_store_scoped])
    (simp_all add: demo_env_def demo_store_def app_state_new_def)

definition demo_scan :: "(conversation_key \<times> json) list" where
  "demo_scan = scan_rows (demo_env False) demo_store (Some ''org'') (ScopeUser ''a@x.io'') (summary_query_new 1) []
     [demo_conversation ''c1'' 1]"

lemma demo_scan_row: "map (\<lambda>r. jget (snd r) ''conversationId'') demo_scan = [Some (JStr ''c1'')]"
  by code_simp

theorem sidebar_scan_private_witness:
  "\<exists>r \<in> set demo_scan. \<exists>c \<in> set [demo_conversation ''c1'' 1]. jget (snd r) ''conversationId'' = Some (JStr (conv_id c))"
proof -
  have "demo_scan \<noteq> []" using demo_scan_row by (rule contrapos_pn) simp
  then obtain r where r: "r \<in> set demo_scan" using hd_in_set by blast
  have "\<exists>c \<in> set [demo_conversation ''c1'' 1]. jget (snd r) ''conversationId'' = Some (JStr (conv_id c))"
    using sidebar_scan_private [where env = "demo_env False" and cb = "\<lambda>_. 0" and pb = "\<lambda>_. 0" and sb = "\<lambda>_. 0"
        and ops = demo_ops, OF _ _ _ r [unfolded demo_scan_def]]
    by (auto simp: demo_env_def demo_store_def app_state_new_def)
  with r show ?thesis by blast
qed

definition demo_create_frame :: json where
  "demo_create_frame = JObj [(''agentId'', JStr ''a1''), (''userEmail'', JStr ''v@x.io'')]"

text \<open>An anonymous visitor whose pre-chat form sent an address.\<close>

theorem creator_reaches_session_witness:
  "\<exists>w' f s. create_session_allowed (demo_env False) demo_input ''k'' None ScopeDenied demo_create_frame None ''a1'' None
      (app_state_new tables_default) = (w', [f]) \<and>
     handle_get_session (demo_env False) demo_input None ScopeDenied (JObj [(''sessionId'', JStr ''s9'')]) None w' =
       (w', [session_event demo_input None s]) \<and> session_id s = ''s9''"
proof -
  let ?env = "demo_env False" and ?w = "app_state_new tables_default" and ?fi = demo_input
  obtain w' fs where run: "create_session_allowed ?env ?fi ''k'' None ScopeDenied demo_create_frame None ''a1'' None ?w = (w', fs)"
    by fastforce
  have "carries_identity ScopeDenied demo_create_frame"
    by (simp add: carries_identity_def user_email_of_def demo_create_frame_def get_str_def)
  with run obtain f where f: "fs = [f]" "frame_type f = ''immediate_response''"
    by (auto simp: create_session_allowed_def requested_conversation_def resume_of_def demo_create_frame_def get_str_def
        persist_rows_def eager_write_def build_rows_def demo_env_def memory_adapter_def create_conversation_def
        add_participant_def create_session_def locked_def app_state_new_def tables_default_def hash_order_def Let_def
        session_created_event_def)
  have "\<exists>s. handle_get_session ?env ?fi None ScopeDenied (JObj [(''sessionId'', JStr ''s9'')]) None w' =
      (w', [session_event ?fi None s]) \<and> session_id s = fi_session_id ?fi \<and> ss_conversation_id s = fi_conversation_id ?fi"
    by (rule creator_reaches_session [where cb = "\<lambda>_. 0" and pb = "\<lambda>_. 0" and w = ?w, OF _ _ _ _ _ _ _ run [unfolded f(1)] f(2)])
      (simp_all add: demo_env_def app_state_new_def tables_ok_def keyed_def tables_default_def demo_input_def
        demo_create_frame_def requested_conversation_def get_str_def same_org_def)
  with run f show ?thesis by (auto simp: demo_input_def)
qed

theorem workflow_step_roundtrip_witness:
  "load_workflow_step (memory_adapter (\<lambda>_. 0) (\<lambda>_. 0)) ''c1''
     (persist_workflow_step (memory_adapter (\<lambda>_. 0) (\<lambda>_. 0)) 9 ''c1'' ''greet'' 2
       (tables_default\<lparr>conversations := [(''c1'', demo_conversation ''c1'' 1)]\<rparr>)) = (Some ''greet'', 2)"
  using workflow_step_roundtrip [of "tables_default\<lparr>conversations := [(''c1'', demo_conversation ''c1'' 1)]\<rparr>" "''c1''"
      "demo_conversation ''c1'' 1" 2 "memory_adapter (\<lambda>_. 0) (\<lambda>_. 0)" "\<lambda>_. 0" "\<lambda>_. 0" 9 "''greet''"]
  by (simp add: tables_default_def)

end
