(* ===== verification/Server_Config.thy ===== *)
theory Server_Config
  imports Protocol
begin

text \<open>
  Configuration: the environment of the service (\<open>rust/smooth-operator-server/src/config.rs\<close>), the agent
  settings of an organization (\<open>rust/smooth-operator/src/settings.rs\<close>) and its connector configurations
  (\<open>rust/smooth-operator/src/connector_config.rs\<close>).

  The environment is a function from variable names to their values. The long default system prompt and
  the constant temperature, retry policy and wire format of a model configuration are left out: no
  decision depends on them.
\<close>

section \<open>Reading the environment\<close>

text \<open>\<open>str::parse\<close> for an unsigned integer of a width: an optional plus sign, then digits.\<close>

definition parse_uint :: "nat \<Rightarrow> string \<Rightarrow> nat option" where
  "parse_uint bits s =
     (let digits = (case strip_prefix s ''+'' of Some rest \<Rightarrow> rest | None \<Rightarrow> s) in
      if digits = [] \<or> \<not> list_all is_ascii_digit digits \<or> read_nat digits \<ge> 2 ^ bits then None
      else Some (read_nat digits))"

text \<open>\<open>var(k).ok().map(trim).filter(non-empty)\<close>\<close>

definition env_trimmed :: "(string \<rightharpoonup> string) \<Rightarrow> string \<Rightarrow> string option" where
  "env_trimmed env k = option_filter (\<lambda>s. s \<noteq> []) (map_option trim (env k))"

definition DEFAULT_BIND :: string where "DEFAULT_BIND = ''127.0.0.1''"
definition DEFAULT_PORT :: nat where "DEFAULT_PORT = 8787"
definition DEFAULT_GATEWAY_URL :: string where "DEFAULT_GATEWAY_URL = ''https://llm.smoo.ai/v1''"
definition DEFAULT_MODEL :: string where "DEFAULT_MODEL = ''gpt-6-luna''"
definition DEFAULT_JUDGE_MODEL :: string where "DEFAULT_JUDGE_MODEL = ''groq-gpt-oss-120b''"
definition DEFAULT_MAX_ITERATIONS :: nat where "DEFAULT_MAX_ITERATIONS = 20"
definition DEFAULT_MAX_TOKENS :: nat where "DEFAULT_MAX_TOKENS = 8192"

datatype storage_backend = MemoryBackend | PostgresBackend | DynamodbBackend

definition backend_parse :: "string \<Rightarrow> storage_backend" where
  "backend_parse v =
     (let s = to_ascii_lowercase (trim v) in
      if s \<in> {''postgres'', ''pg'', ''postgresql''} then PostgresBackend
      else if s \<in> {''dynamodb'', ''ddb'', ''dynamo''} then DynamodbBackend
      else MemoryBackend)"

record server_config =
  cfg_bind :: string
  cfg_port :: nat
  cfg_gateway_url :: string
  cfg_gateway_key :: "string option"
  cfg_model :: string
  cfg_seed_kb :: bool
  cfg_max_iterations :: nat
  cfg_max_tokens :: nat
  cfg_storage :: storage_backend
  cfg_widget_auth_strict :: bool
  cfg_confirm_tools :: "string list"
  cfg_judge_model :: string

definition parse_confirm_tools :: "string \<Rightarrow> string list" where
  "parse_confirm_tools raw = filter (\<lambda>s. s \<noteq> []) (map trim (split_by (\<lambda>c. c = CHR '','') raw))"

definition resolve_judge_model :: "string option \<Rightarrow> string" where
  "resolve_judge_model raw = unwrap_or (option_filter (\<lambda>s. s \<noteq> []) (map_option trim raw)) DEFAULT_JUDGE_MODEL"

definition env_number :: "(string \<rightharpoonup> string) \<Rightarrow> string \<Rightarrow> nat option" where
  "env_number env k = option_filter (\<lambda>n. n > 0) (Option.bind (env k) (\<lambda>s. parse_uint 32 (trim s)))"

definition config_from_env :: "(string \<rightharpoonup> string) \<Rightarrow> server_config" where
  "config_from_env env =
     \<lparr>cfg_bind = unwrap_or (env_trimmed env ''SMOOTH_AGENT_BIND'') DEFAULT_BIND,
      cfg_port = unwrap_or (Option.bind (env ''SMOOTH_AGENT_PORT'') (\<lambda>s. parse_uint 16 (trim s))) DEFAULT_PORT,
      cfg_gateway_url = unwrap_or (env_trimmed env ''SMOOAI_GATEWAY_URL'') DEFAULT_GATEWAY_URL,
      cfg_gateway_key = env_trimmed env ''SMOOAI_GATEWAY_KEY'',
      cfg_model = unwrap_or (env_trimmed env ''SMOOTH_AGENT_MODEL'') DEFAULT_MODEL,
      cfg_seed_kb = (env ''SMOOTH_AGENT_SEED_KB'' = Some ''1''),
      cfg_max_iterations = unwrap_or (env_number env ''SMOOTH_AGENT_MAX_ITERATIONS'') DEFAULT_MAX_ITERATIONS,
      cfg_max_tokens = unwrap_or (env_number env ''SMOOTH_AGENT_MAX_TOKENS'') DEFAULT_MAX_TOKENS,
      cfg_storage = (case env ''SMOOTH_AGENT_STORAGE'' of Some s \<Rightarrow> backend_parse s | None \<Rightarrow> MemoryBackend),
      cfg_widget_auth_strict =
        (case env ''WIDGET_AUTH_STRICT'' of
           Some s \<Rightarrow> to_ascii_lowercase (trim s) \<in> {''1'', ''true'', ''yes''} | None \<Rightarrow> False),
      cfg_confirm_tools =
        (case env ''SMOOTH_AGENT_CONFIRM_TOOLS'' of Some s \<Rightarrow> parse_confirm_tools s | None \<Rightarrow> []),
      cfg_judge_model = resolve_judge_model (env ''SMOOTH_AGENT_JUDGE_MODEL'')\<rparr>"

definition confirmation_tool_patterns :: "server_config \<Rightarrow> string list option" where
  "confirmation_tool_patterns c = (if cfg_confirm_tools c = [] then None else Some (cfg_confirm_tools c))"

definition has_llm :: "server_config \<Rightarrow> bool" where
  "has_llm c = (cfg_gateway_key c \<noteq> None)"

record llm_config =
  api_url :: string
  api_key :: string
  llm_model :: string
  llm_max_tokens :: nat

definition llm_config_with_key :: "server_config \<Rightarrow> string \<Rightarrow> llm_config" where
  "llm_config_with_key c key =
     \<lparr>api_url = cfg_gateway_url c, api_key = key, llm_model = cfg_model c, llm_max_tokens = cfg_max_tokens c\<rparr>"

definition server_llm_config :: "server_config \<Rightarrow> llm_config option" where
  "server_llm_config c = map_option (llm_config_with_key c) (cfg_gateway_key c)"

definition placeholder_llm_config :: "server_config \<Rightarrow> llm_config" where
  "placeholder_llm_config c =
     \<lparr>api_url = cfg_gateway_url c, api_key = ''mock-no-network'', llm_model = cfg_model c, llm_max_tokens = cfg_max_tokens c\<rparr>"

section \<open>Agent settings\<close>

record agent_settings =
  set_org_id :: string
  set_model :: "string option"
  set_system_prompt :: string
  set_persona :: "string option"
  set_default_tools :: "string list"
  set_updated_at :: int

definition settings_defaults :: "string \<Rightarrow> int \<Rightarrow> string \<Rightarrow> agent_settings" where
  "settings_defaults default_prompt now org =
     \<lparr>set_org_id = org, set_model = None, set_system_prompt = default_prompt, set_persona = None,
      set_default_tools = [], set_updated_at = now\<rparr>"

record settings_store =
  settings_rows :: "string \<rightharpoonup> agent_settings"
  settings_poisoned :: bool

definition settings_get :: "string \<Rightarrow> int \<Rightarrow> settings_store \<Rightarrow> string \<Rightarrow> agent_settings" where
  "settings_get default_prompt now st org =
     unwrap_or (if settings_poisoned st then None else settings_rows st org) (settings_defaults default_prompt now org)"

definition settings_put :: "agent_settings \<Rightarrow> settings_store \<Rightarrow> settings_store" where
  "settings_put s st =
     (if settings_poisoned st then st else st\<lparr>settings_rows := (settings_rows st)(set_org_id s \<mapsto> s)\<rparr>)"

section \<open>Connector configurations\<close>

datatype connector_kind = Github | WebPage | LocalFile

definition connector_kind_parse :: "string \<Rightarrow> string + connector_kind" where
  "connector_kind_parse v =
     (let s = to_ascii_lowercase (trim v) in
      if s = ''github'' then Inr Github else if s = ''web'' then Inr WebPage
      else if s = ''file'' then Inr LocalFile else Inl s)"

fun connector_kind_as_str :: "connector_kind \<Rightarrow> string" where
  "connector_kind_as_str Github = ''github''"
| "connector_kind_as_str WebPage = ''web''"
| "connector_kind_as_str LocalFile = ''file''"

record connector_config =
  cc_id :: string
  cc_org_id :: string
  cc_name :: string
  cc_kind :: connector_kind
  cc_config :: json
  cc_enabled :: bool
  cc_created_at :: int
  cc_updated_at :: int

definition auth_ref :: "connector_config \<Rightarrow> string option" where
  "auth_ref c = nonblank (get_str (cc_config c) ''auth_ref'')"

record connector_store =
  cc_rows :: "((string \<times> string) \<times> connector_config) list"
  cc_poisoned :: bool

definition connector_list :: "(connector_config \<Rightarrow> nat) \<Rightarrow> connector_store \<Rightarrow> string \<Rightarrow> connector_config list" where
  "connector_list bucket st org =
     (if cc_poisoned st then []
      else sort_key (\<lambda>c. (cc_name c, cc_id c)) (filter (\<lambda>c. cc_org_id c = org) (hash_order bucket (map snd (cc_rows st)))))"

definition connector_get :: "connector_store \<Rightarrow> string \<Rightarrow> string \<Rightarrow> connector_config option" where
  "connector_get st org i = (if cc_poisoned st then None else map_of (cc_rows st) (org, i))"

definition connector_upsert :: "connector_config \<Rightarrow> connector_store \<Rightarrow> connector_store" where
  "connector_upsert c st =
     (if cc_poisoned st then st else st\<lparr>cc_rows := AList.update (cc_org_id c, cc_id c) c (cc_rows st)\<rparr>)"

definition connector_delete :: "string \<Rightarrow> string \<Rightarrow> connector_store \<Rightarrow> bool \<times> connector_store" where
  "connector_delete org i st =
     (if cc_poisoned st then (False, st)
      else (map_of (cc_rows st) (org, i) \<noteq> None, st\<lparr>cc_rows := AList.delete (org, i) (cc_rows st)\<rparr>))"

section \<open>Lemmas\<close>

lemma connector_kind_roundtrip: "connector_kind_parse (connector_kind_as_str k) = Inr k"
proof -
  have "connector_kind_parse ''github'' = Inr Github" "connector_kind_parse ''web'' = Inr WebPage"
    "connector_kind_parse ''file'' = Inr LocalFile" by code_simp+
  then show ?thesis by (cases k) simp_all
qed

datatype connector_op = Upsert connector_config | Delete string string

fun connector_step :: "connector_op \<Rightarrow> connector_store \<Rightarrow> connector_store" where
  "connector_step (Upsert c) st = connector_upsert c st"
| "connector_step (Delete org i) st = snd (connector_delete org i st)"

definition connector_run :: "connector_op list \<Rightarrow> connector_store" where
  "connector_run ops = fold connector_step ops \<lparr>cc_rows = [], cc_poisoned = False\<rparr>"

text \<open>What an organization asked for: its own operations.\<close>

fun connector_op_org :: "connector_op \<Rightarrow> string" where
  "connector_op_org (Upsert c) = cc_org_id c"
| "connector_op_org (Delete org i) = org"

definition rows_keyed :: "connector_store \<Rightarrow> bool" where
  "rows_keyed st \<longleftrightarrow> \<not> cc_poisoned st \<and> distinct (map fst (cc_rows st)) \<and>
     (\<forall>(k, c) \<in> set (cc_rows st). k = (cc_org_id c, cc_id c))"

lemma connector_step_keyed: "rows_keyed st \<Longrightarrow> rows_keyed (connector_step op st)"
  by (cases op)
    (auto simp: rows_keyed_def connector_upsert_def connector_delete_def distinct_update alist_update_set
      AList.delete_eq distinct_map_filter)

lemma connector_run_keyed: "rows_keyed (connector_run ops)"
proof -
  have "rows_keyed st \<Longrightarrow> rows_keyed (fold connector_step ops st)" for st
    by (induction ops arbitrary: st) (simp_all add: connector_step_keyed)
  moreover have "rows_keyed \<lparr>cc_rows = [], cc_poisoned = False\<rparr>" by (simp add: rows_keyed_def)
  ultimately show ?thesis unfolding connector_run_def by blast
qed

lemma connector_step_frame:
  "rows_keyed st \<Longrightarrow> connector_op_org op \<noteq> org \<Longrightarrow> map_of (cc_rows (connector_step op st)) (org, i) = map_of (cc_rows st) (org, i)"
  by (cases op) (auto simp: rows_keyed_def connector_upsert_def connector_delete_def update_conv delete_conv)

lemma connector_step_cong:
  "rows_keyed st \<Longrightarrow> rows_keyed st' \<Longrightarrow> \<forall>i. map_of (cc_rows st) (org, i) = map_of (cc_rows st') (org, i) \<Longrightarrow>
   map_of (cc_rows (connector_step op st)) (org, i) = map_of (cc_rows (connector_step op st')) (org, i)"
  by (cases op) (auto simp: rows_keyed_def connector_upsert_def connector_delete_def update_conv delete_conv)

lemma connector_run_own:
  "map_of (cc_rows (connector_run ops)) (org, i) =
   map_of (cc_rows (connector_run (filter (\<lambda>op. connector_op_org op = org) ops))) (org, i)"
proof -
  let ?own = "filter (\<lambda>op. connector_op_org op = org)"
  have "\<forall>i. map_of (cc_rows (fold connector_step ops st)) (org, i) = map_of (cc_rows (fold connector_step (?own ops) st')) (org, i)"
    if "rows_keyed st" "rows_keyed st'" "\<forall>i. map_of (cc_rows st) (org, i) = map_of (cc_rows st') (org, i)" for st st'
    using that
  proof (induction ops arbitrary: st st')
    case (Cons op ops)
    show ?case
    proof (cases "connector_op_org op = org")
      case True
      have "\<forall>i. map_of (cc_rows (connector_step op st)) (org, i) = map_of (cc_rows (connector_step op st')) (org, i)"
        using connector_step_cong [OF Cons.prems] by blast
      from Cons.IH [OF connector_step_keyed [OF Cons.prems(1)] connector_step_keyed [OF Cons.prems(2)] this] True
      show ?thesis by simp
    next
      case False
      have "\<forall>i. map_of (cc_rows (connector_step op st)) (org, i) = map_of (cc_rows st') (org, i)"
        using connector_step_frame [OF Cons.prems(1) False] Cons.prems(3) by simp
      from Cons.IH [OF connector_step_keyed [OF Cons.prems(1)] Cons.prems(2) this] False show ?thesis by simp
    qed
  qed simp
  then show ?thesis by (simp add: connector_run_def rows_keyed_def)
qed

text \<open>The rows of an organization, as a set.\<close>

lemma connector_rows_of:
  assumes "rows_keyed st"
  shows "set (filter (\<lambda>c. cc_org_id c = org) (hash_order b (map snd (cc_rows st)))) =
         {c. \<exists>i. map_of (cc_rows st) (org, i) = Some c}" (is "?l = ?r")
    and "distinct (filter (\<lambda>c. cc_org_id c = org) (hash_order b (map snd (cc_rows st))))"
    and "inj_on (\<lambda>c. (cc_name c, cc_id c)) {c. \<exists>i. map_of (cc_rows st) (org, i) = Some c}"
proof -
  have key: "k = (cc_org_id c, cc_id c)" if "map_of (cc_rows st) k = Some c" for k c
    using that assms by (auto simp: rows_keyed_def dest!: map_of_SomeD)
  have mem: "((k, c) \<in> set (cc_rows st)) = (map_of (cc_rows st) k = Some c)" for k c
    using assms by (simp add: rows_keyed_def)
  show "?l = ?r"
  proof (intro set_eqI iffI)
    fix c assume "c \<in> ?l"
    then obtain k where "(k, c) \<in> set (cc_rows st)" "cc_org_id c = org" by auto
    then have "map_of (cc_rows st) (org, cc_id c) = Some c" using key mem by metis
    then show "c \<in> ?r" by blast
  next
    fix c assume "c \<in> ?r"
    then obtain i where i: "map_of (cc_rows st) (org, i) = Some c" by blast
    with key mem show "c \<in> ?l" by (force simp: image_iff)
  qed
  have "inj_on snd (set (cc_rows st))"
  proof (rule inj_onI)
    fix x y assume "x \<in> set (cc_rows st)" "y \<in> set (cc_rows st)" "snd x = snd y"
    then have "map_of (cc_rows st) (fst x) = Some (snd x)" "map_of (cc_rows st) (fst y) = Some (snd x)"
      using mem by (metis prod.collapse)+
    from key [OF this(1)] key [OF this(2)] \<open>snd x = snd y\<close> show "x = y" by (simp add: prod_eq_iff)
  qed
  then have "distinct (map snd (cc_rows st))"
    using assms by (simp add: rows_keyed_def distinct_map)
  then show "distinct (filter (\<lambda>c. cc_org_id c = org) (hash_order b (map snd (cc_rows st))))"
    by (simp add: hash_order_def)
  show "inj_on (\<lambda>c. (cc_name c, cc_id c)) {c. \<exists>i. map_of (cc_rows st) (org, i) = Some c}"
    using key by (fastforce intro!: inj_onI)
qed

section \<open>Properties\<close>

text \<open>Organizations do not interfere through the connector store: after any sequence of upserts and
  deletes by all of them, what an organization lists and what it can read by id is what its own
  operations alone would have left, in the same order whatever the iteration order of the table.\<close>

theorem connectors_noninterference:
  "connector_list b (connector_run ops) org =
     connector_list b' (connector_run (filter (\<lambda>op. connector_op_org op = org) ops)) org \<and>
   connector_get (connector_run ops) org i =
     connector_get (connector_run (filter (\<lambda>op. connector_op_org op = org) ops)) org i"
proof -
  let ?st = "connector_run ops" and ?st' = "connector_run (filter (\<lambda>op. connector_op_org op = org) ops)"
  let ?rows = "\<lambda>b st. filter (\<lambda>c. cc_org_id c = org) (hash_order b (map snd (cc_rows st)))"
  have up: "\<not> cc_poisoned ?st" "\<not> cc_poisoned ?st'" using connector_run_keyed by (auto simp: rows_keyed_def)
  have same: "{c. \<exists>i. map_of (cc_rows ?st) (org, i) = Some c} = {c. \<exists>i. map_of (cc_rows ?st') (org, i) = Some c}"
    by (subst connector_run_own) simp
  note r = connector_rows_of(1,2) [where org = org and b = b, OF connector_run_keyed [of ops]]
    connector_rows_of(3) [where org = org, OF connector_run_keyed [of ops]]
  note r' = connector_rows_of(1,2) [where org = org and b = b', OF connector_run_keyed [of "filter (\<lambda>op. connector_op_org op = org) ops"]]
  have "mset (?rows b ?st) = mset (?rows b' ?st')"
    by (rule iffD1 [OF set_eq_iff_mset_eq_distinct [OF r(2) r'(2)]]) (simp only: r(1) r'(1) same)
  then have "mset (?rows b ?st) = mset (sort_key (\<lambda>c. (cc_name c, cc_id c)) (?rows b' ?st'))" by (simp only: mset_sort)
  then have "sort_key (\<lambda>c. (cc_name c, cc_id c)) (?rows b ?st) = sort_key (\<lambda>c. (cc_name c, cc_id c)) (?rows b' ?st')"
    by (rule sort_key_inj_key_eq) (use r(1,3) in \<open>simp_all only: sorted_sort_key\<close>)
  then show ?thesis using up by (simp add: connector_list_def connector_get_def connector_run_own [of ops])
qed

end
