(* ===== verification/Retrieval.thy ===== *)
theory Retrieval
  imports Curation
begin

text \<open>
  Reranking and the \<open>knowledge_search\<close> tool, \<open>rust/smooth-operator/src/rerank.rs\<close> and
  \<open>rust/smooth-operator/src/tools/knowledge_search.rs\<close>. The tool reads through a requester-bound
  reader and hands the candidates to an optional reranker; the two contracts meet in the locale
  \<open>search_tool\<close>, whose lemmas say what reaches the model's context and the citation sink.

  The float operations of the lexical score are fields of the record \<open>f32_ops\<close>, and the order in
  which a \<open>HashSet\<close> of query terms is iterated is that of an arbitrary bucket function.
\<close>

section \<open>Rerankers\<close>

definition noop_rerank :: "string \<Rightarrow> knowledge_result list \<Rightarrow> nat \<Rightarrow> knowledge_result list" where
  "noop_rerank q candidates top_k = take top_k candidates"

record f32_ops =
  f_add :: "32 word \<Rightarrow> 32 word \<Rightarrow> 32 word"
  f_div :: "32 word \<Rightarrow> 32 word \<Rightarrow> 32 word"
  f_ln :: "32 word \<Rightarrow> 32 word"
  f_of_usize :: "nat \<Rightarrow> 32 word"

record lexical_reranker =
  k1 :: "32 word"

text \<open>The bits of \<open>1.2_f32\<close>.\<close>

definition lexical_new :: lexical_reranker where
  "lexical_new = \<lparr>k1 = 0x3F99999A\<rparr>"

definition lexical_with_k1 :: "32 word \<Rightarrow> lexical_reranker" where
  "lexical_with_k1 k = \<lparr>k1 = k\<rparr>"

text \<open>\<open>char::is_alphanumeric\<close>: the letters and the numeric characters of the modelled range.\<close>

definition is_alphanumeric :: "char \<Rightarrow> bool" where
  "is_alphanumeric c =
     (let n = of_char c :: nat in
      (48 \<le> n \<and> n \<le> 57) \<or> (65 \<le> n \<and> n \<le> 90) \<or> (97 \<le> n \<and> n \<le> 122) \<or>
      n \<in> {170, 178, 179, 181, 185, 186, 188, 189, 190} \<or>
      (192 \<le> n \<and> n \<noteq> 215 \<and> n \<noteq> 247))"

definition tokenize :: "string \<Rightarrow> string list" where
  "tokenize text = filter (\<lambda>t. t \<noteq> []) (split_by (\<lambda>c. \<not> is_alphanumeric c) (to_lowercase text))"

definition term_score :: "f32_ops \<Rightarrow> lexical_reranker \<Rightarrow> string list \<Rightarrow> 32 word \<Rightarrow> string \<Rightarrow> 32 word \<Rightarrow> 32 word" where
  "term_score ops lr tokens penalty t acc =
     (let count = count_list tokens t in
      if 0 < count
      then f_add ops acc (f_div ops (f_div ops (f_of_usize ops count) (f_add ops (f_of_usize ops count) (k1 lr))) penalty)
      else acc)"

definition lexical_score :: "f32_ops \<Rightarrow> lexical_reranker \<Rightarrow> string list \<Rightarrow> string \<Rightarrow> 32 word" where
  "lexical_score ops lr query_terms text =
     (let tokens = tokenize text in
      if tokens = [] then 0
      else
        let penalty = f_add ops f32_one (f_ln ops (f_add ops f32_one (f_of_usize ops (length tokens)))) in
        fold (term_score ops lr tokens penalty) query_terms 0)"

text \<open>The order of \<open>f32::partial_cmp\<close> on numbers that are not NaN; the two zeros are equal.\<close>

definition f32_partial_key :: "32 word \<Rightarrow> int" where
  "f32_partial_key b = (if f32_sign b then - (int (unat b) - 2 ^ 31) else int (unat b))"

definition lexical_rerank ::
  "f32_ops \<Rightarrow> (string \<Rightarrow> nat) \<Rightarrow> lexical_reranker
    \<Rightarrow> string \<Rightarrow> knowledge_result list \<Rightarrow> nat \<Rightarrow> knowledge_result list" where
  "lexical_rerank ops bucket lr q candidates top_k =
     (if candidates = [] \<or> top_k = 0 then []
      else
        let query_terms = hash_order bucket (remdups (tokenize q));
            scored = map (\<lambda>c. (lexical_score ops lr query_terms (chunk c), c)) candidates;
            ordered = sort_key (\<lambda>p. - f32_partial_key (fst p)) scored
        in map snd (take top_k ordered))"

text \<open>An \<open>Option<Arc<dyn Reranker>>\<close> is an optional function.\<close>

type_synonym rerank_fn = "string \<Rightarrow> knowledge_result list \<Rightarrow> nat \<Rightarrow> knowledge_result list"

definition apply_optional_rerank ::
  "rerank_fn option \<Rightarrow> string \<Rightarrow> knowledge_result list \<Rightarrow> nat \<Rightarrow> knowledge_result list" where
  "apply_optional_rerank rr q candidates top_k =
     (case rr of Some r \<Rightarrow> r q candidates top_k | None \<Rightarrow> take top_k candidates)"

section \<open>The search tool\<close>

definition DEFAULT_LIMIT :: nat where "DEFAULT_LIMIT = 3"
definition RERANK_OVERFETCH :: nat where "RERANK_OVERFETCH = 4"

text \<open>A result sink: the recorded results and whether its mutex is poisoned.\<close>

record result_sink =
  sink_results :: "knowledge_result list"
  sink_poisoned :: bool

record 'e search_tool_state =
  knowledge :: "string \<Rightarrow> nat \<Rightarrow> 'e + knowledge_result list"
  tool_reranker :: "rerank_fn option"
  tool_sink :: "result_sink option"

definition tool_new :: "(string \<Rightarrow> nat \<Rightarrow> 'e + knowledge_result list) \<Rightarrow> 'e search_tool_state" where
  "tool_new kb = \<lparr>knowledge = kb, tool_reranker = None, tool_sink = None\<rparr>"

definition with_access_control ::
  "('kb \<Rightarrow> string \<Rightarrow> nat \<Rightarrow> string + knowledge_result list) \<Rightarrow> 'kb acl_store \<Rightarrow> access_context
    \<Rightarrow> kb_error search_tool_state" where
  "with_access_control kb_query st c =
     \<lparr>knowledge = reader_query kb_query st c, tool_reranker = None, tool_sink = None\<rparr>"

definition with_curation ::
  "(32 word \<Rightarrow> 32 word \<Rightarrow> 32 word) \<Rightarrow> ('kb \<Rightarrow> string \<Rightarrow> nat \<Rightarrow> string + knowledge_result list)
    \<Rightarrow> 'kb curated_store \<Rightarrow> access_context \<Rightarrow> retrieval_filter \<Rightarrow> curated_error search_tool_state" where
  "with_curation f32_mul kb_query st c f =
     \<lparr>knowledge = curated_query f32_mul kb_query st f c, tool_reranker = None, tool_sink = None\<rparr>"

definition with_result_sink :: "'e search_tool_state \<Rightarrow> result_sink \<Rightarrow> 'e search_tool_state" where
  "with_result_sink t s = t\<lparr>tool_sink := Some s\<rparr>"

definition with_reranker :: "'e search_tool_state \<Rightarrow> rerank_fn \<Rightarrow> 'e search_tool_state" where
  "with_reranker t r = t\<lparr>tool_reranker := Some r\<rparr>"

text \<open>The text the tool returns, by the values it interpolates: the query, and the results in their
  numbered order.\<close>

datatype search_output = NoResults string | Found string "knowledge_result list"

datatype 'e search_error = QueryRequired | KnowledgeFailed 'e

definition search_limit :: "json \<Rightarrow> nat" where
  "search_limit arguments =
     (case get_u64 arguments ''limit'' of None \<Rightarrow> DEFAULT_LIMIT | Some n \<Rightarrow> max 1 (min n 10))"

definition sink_extend :: "knowledge_result list \<Rightarrow> result_sink \<Rightarrow> result_sink" where
  "sink_extend rs s = (if sink_poisoned s then s else s\<lparr>sink_results := sink_results s @ rs\<rparr>)"

definition search_execute ::
  "json \<Rightarrow> 'e search_tool_state \<Rightarrow> ('e search_error + search_output) \<times> 'e search_tool_state" where
  "search_execute arguments t =
     (case get_str arguments ''query'' of
        None \<Rightarrow> (Inl QueryRequired, t)
      | Some q \<Rightarrow>
          let limit = search_limit arguments;
              fetch = (if tool_reranker t \<noteq> None then saturating_mul limit RERANK_OVERFETCH else limit)
          in case knowledge t q fetch of
               Inl e \<Rightarrow> (Inl (KnowledgeFailed e), t)
             | Inr candidates \<Rightarrow>
                 let results = apply_optional_rerank (tool_reranker t) q candidates limit;
                     t' = t\<lparr>tool_sink := map_option (sink_extend results) (tool_sink t)\<rparr>
                 in (Inr (if results = [] then NoResults q else Found q results), t'))"

section \<open>The contracts\<close>

text \<open>What a reranker owes its callers: it invents no candidate and keeps to the requested number.\<close>

locale reranker =
  fixes rerank :: rerank_fn
  assumes rerank_submset: "mset (rerank q cs k) \<subseteq># mset cs"
    and rerank_bounded: "length (rerank q cs k) \<le> k"
begin

lemma rerank_subset: "set (rerank q cs k) \<subseteq> set cs"
  using rerank_submset by (metis set_mset_mono set_mset_mset)

lemma rerank_empty: "rerank q [] k = []"
  using rerank_subset [of q "[]" k] by simp

lemma rerank_zero: "rerank q cs 0 = []"
  using rerank_bounded [of q cs 0] by simp

end

lemma mset_take_submset: "mset (take n xs) \<subseteq># mset xs"
  by (metis append_take_drop_id mset_append mset_subset_eq_add_left)

interpretation noop: reranker noop_rerank
  by unfold_locales (simp_all add: noop_rerank_def mset_take_submset)

interpretation lexical: reranker "lexical_rerank ops bucket lr"
  for ops bucket lr
proof unfold_locales
  fix q cs k
  show "mset (lexical_rerank ops bucket lr q cs k) \<subseteq># mset cs"
  proof (cases "cs = [] \<or> k = 0")
    case False
    let ?scored = "map (\<lambda>c. (lexical_score ops lr (hash_order bucket (remdups (tokenize q))) (chunk c), c)) cs"
    let ?ordered = "sort_key (\<lambda>p. - f32_partial_key (fst p)) ?scored"
    have "mset (map snd (take k ?ordered)) \<subseteq># mset (map snd ?ordered)"
      by (metis mset_take_submset take_map)
    also have "mset (map snd ?ordered) = mset cs"
    proof -
      have "mset (map snd ?ordered) = image_mset snd (mset ?scored)" by simp
      also have "\<dots> = mset (map snd ?scored)" by (simp only: mset_map)
      also have "map snd ?scored = cs" by (simp add: comp_def)
      finally show ?thesis .
    qed
    finally show ?thesis using False by (simp add: lexical_rerank_def Let_def)
  qed (auto simp: lexical_rerank_def)
  show "length (lexical_rerank ops bucket lr q cs k) \<le> k"
    by (simp add: lexical_rerank_def Let_def)
qed

fun output_results :: "search_output \<Rightarrow> knowledge_result list" where
  "output_results (NoResults _) = []"
| "output_results (Found _ rs) = rs"

definition reranker_ok :: "rerank_fn option \<Rightarrow> bool" where
  "reranker_ok rr = (case rr of None \<Rightarrow> True | Some r \<Rightarrow> reranker r)"

lemma apply_optional_rerank_subset: "reranker_ok rr \<Longrightarrow> set (apply_optional_rerank rr q cs k) \<subseteq> set cs"
  by (auto simp: reranker_ok_def apply_optional_rerank_def dest: reranker.rerank_subset in_set_takeD
      split: option.splits)

lemma apply_optional_rerank_length: "reranker_ok rr \<Longrightarrow> length (apply_optional_rerank rr q cs k) \<le> k"
  by (auto simp: reranker_ok_def apply_optional_rerank_def dest: reranker.rerank_bounded split: option.splits)

lemma search_limit_range: "1 \<le> search_limit a \<and> search_limit a \<le> 10"
  by (simp add: search_limit_def DEFAULT_LIMIT_def split: option.split)

text \<open>A tool over a bound reader: whatever a search returns or records is visible to the reader's
  requester.\<close>

context bound_reader
begin

lemma search_visible:
  assumes "search_execute a t = (Inr out, t')" and "knowledge t = query" and "reranker_ok (tool_reranker t)"
  shows "list_all (\<lambda>r. visible (document_id r)) (output_results out) \<and> length (output_results out) \<le> search_limit a"
proof -
  from assms(1,2) obtain q cs n where
    cs: "query q n = Inr cs" and
    out: "output_results out = apply_optional_rerank (tool_reranker t) q cs (search_limit a)"
    by (auto simp: search_execute_def Let_def split: option.splits sum.splits)
  show ?thesis
    using apply_optional_rerank_subset [OF assms(3)] apply_optional_rerank_length [OF assms(3)]
      query_sound [OF cs] out
    by (auto simp: list_all_iff subset_iff)
qed

end

lemma search_sink:
  assumes "search_execute a t = (Inr out, t')"
  shows "tool_sink t' = map_option (sink_extend (output_results out)) (tool_sink t) \<and> knowledge t' = knowledge t"
  using assms by (auto simp: search_execute_def Let_def split: option.splits sum.splits)

lemma term_score_absent: "t \<notin> set tokens \<Longrightarrow> term_score ops lr tokens p t acc = acc"
  by (simp add: term_score_def count_list_0_iff Let_def)

lemma lexical_score_no_overlap:
  assumes "set terms \<inter> set (tokenize text) = {}"
  shows "lexical_score ops lr terms text = 0"
proof -
  have "fold (term_score ops lr (tokenize text) p) terms 0 = 0" for p
    using assms by (induction terms) (simp_all add: term_score_absent)
  then show ?thesis by (simp add: lexical_score_def Let_def)
qed

lemma sort_key_const: "(\<And>x y. x \<in> set xs \<Longrightarrow> y \<in> set xs \<Longrightarrow> f x = f y) \<Longrightarrow> sort_key f xs = xs"
proof -
  assume eq: "\<And>x y. x \<in> set xs \<Longrightarrow> y \<in> set xs \<Longrightarrow> f x = f y"
  have "sorted (map f xs)"
    unfolding sorted_iff_nth_mono using eq by (auto intro!: eq_refl)
  then show ?thesis by (simp add: sort_key_id_if_sorted)
qed

section \<open>Properties\<close>

text \<open>Whatever a search through an access-controlled tool returns to the model, with or without a
  reranker, the requester is entitled to it, there are at most ten results, and the citation sink
  records exactly these results.\<close>

theorem knowledge_search_entitled:
  assumes "search_execute a t = (Inr out, t')"
    and "knowledge t = reader_query kb_query st c"
    and "tool_reranker t = None \<or> tool_reranker t = Some noop_rerank \<or>
         (\<exists>ops bucket lr. tool_reranker t = Some (lexical_rerank ops bucket lr))"
  shows "list_all (\<lambda>r. entitled (acls st) c (document_id r)) (output_results out) \<and>
         length (output_results out) \<le> 10 \<and>
         tool_sink t' = map_option (sink_extend (output_results out)) (tool_sink t)"
proof -
  have ok: "reranker_ok (tool_reranker t)"
    using assms(3) noop.reranker_axioms lexical.reranker_axioms by (auto simp: reranker_ok_def)
  show ?thesis
    using acl_reader.search_visible [OF assms(1,2) ok] search_sink [OF assms(1)] search_limit_range [of a]
    by simp
qed

text \<open>The lexical reranker never shuffles on a query without signal: when no candidate contains a
  query term, the upstream order is kept, exactly as with no reranker.\<close>

theorem lexical_rerank_no_signal:
  assumes "list_all (\<lambda>c. set (tokenize q) \<inter> set (tokenize (chunk c)) = {}) candidates"
  shows "lexical_rerank ops bucket lr q candidates top_k = apply_optional_rerank None q candidates top_k"
proof -
  let ?scored = "map (\<lambda>c. (lexical_score ops lr (hash_order bucket (remdups (tokenize q))) (chunk c), c)) candidates"
  have zero: "fst p = 0" if p: "p \<in> set ?scored" for p
  proof -
    obtain c where c: "c \<in> set candidates" "p = (lexical_score ops lr (hash_order bucket (remdups (tokenize q))) (chunk c), c)"
      using p by auto
    have "lexical_score ops lr (hash_order bucket (remdups (tokenize q))) (chunk c) = 0"
      by (rule lexical_score_no_overlap) (use assms c(1) in \<open>simp add: list_all_iff\<close>)
    with c(2) show ?thesis by simp
  qed
  have "sort_key (\<lambda>p. - f32_partial_key (fst p)) ?scored = ?scored"
  proof (rule sort_key_const)
    fix x y
    assume "x \<in> set ?scored" "y \<in> set ?scored"
    from zero [OF this(1)] zero [OF this(2)] show "- f32_partial_key (fst x) = - f32_partial_key (fst y)"
      by (simp only:)
  qed
  then show ?thesis
    by (auto simp: lexical_rerank_def apply_optional_rerank_def Let_def take_map comp_def)
qed

section \<open>Witnesses\<close>

definition demo_args :: json where
  "demo_args = JObj [(''query'', JStr ''q''), (''limit'', JNum (PosInt 2))]"

definition demo_tool :: "kb_error search_tool_state" where
  "demo_tool = with_reranker (with_access_control list_kb_query (acl_store_new [''a'', ''b'', ''c'']) access_anonymous)
     noop_rerank"

theorem knowledge_search_entitled_witness:
  "fst (search_execute demo_args demo_tool) = Inr (Found ''q'' [hit ''a'', hit ''b'']) \<and>
   list_all (\<lambda>r. entitled Map.empty access_anonymous (document_id r)) [hit ''a'', hit ''b'']"
proof -
  let ?st = "acl_store_new [''a'', ''b'', ''c'']"
  have run: "search_execute demo_args demo_tool = (Inr (Found ''q'' [hit ''a'', hit ''b'']), demo_tool)"
    by (simp add: demo_args_def demo_tool_def search_execute_def with_reranker_def with_access_control_def
        search_limit_def json_simps apply_optional_rerank_def noop_rerank_def RERANK_OVERFETCH_def list_kb_defs Let_def)
  have "list_all (\<lambda>r. entitled (acls ?st) access_anonymous (document_id r)) (output_results (Found ''q'' [hit ''a'', hit ''b'']))"
    by (rule knowledge_search_entitled
          [where kb_query = list_kb_query and st = ?st and c = access_anonymous, OF run, THEN conjunct1])
      (simp_all add: demo_tool_def with_reranker_def with_access_control_def)
  with run show ?thesis by (simp add: acl_store_new_def)
qed

theorem lexical_rerank_no_signal_witness:
  "lexical_rerank \<lparr>f_add = (+), f_div = (div), f_ln = (\<lambda>x. x), f_of_usize = of_nat\<rparr> length lexical_new
     ''zz'' [hit ''a'', hit ''b''] 1 = [hit ''a'']"
  by (subst lexical_rerank_no_signal)
    (simp_all add: apply_optional_rerank_def hit_def tokenize_def to_lowercase_def)

end
