(* ===== verification/Agent_Config.thy ===== *)
theory Agent_Config
  imports Prelude
begin

text \<open>
  Per-agent behaviour, \<open>rust/smooth-operator/src/agent_config.rs\<close>, with the parts of
  \<open>handler.rs\<close> and \<open>runner.rs\<close> that build the auth gate and move the workflow pointer:
  the tool auth gate, the tolerant parse of an agent row, and the stepped conversation workflow
  with its judge verdict and attempt cap.

  Deserialising a workflow from JSON is derived by serde and is the argument \<open>wf_de\<close>.
\<close>

section \<open>Data\<close>

record conversation_workflow_step =
  step_id :: string
  intent :: string
  criteria :: string
  step_next :: "string option"
  suggested_replies :: "string list option"

record conversation_workflow =
  goal :: string
  steps :: "conversation_workflow_step list"

record enabled_tool =
  tool_id :: string
  tool_enabled :: bool
  tool_auth_level :: string
  tool_config :: json

record enabled_extension =
  extension_id :: string
  ext_enabled :: bool
  ext_config :: "json option"

datatype auth_level = AuthNone | EndUser | Admin

datatype visibility = Public | Internal

definition auth_level_parse :: "string \<Rightarrow> auth_level" where
  "auth_level_parse s =
     (if s = ''end_user'' then EndUser else if s = ''admin'' then Admin else AuthNone)"

definition visibility_parse :: "string \<Rightarrow> visibility" where
  "visibility_parse s = (if s = ''internal'' then Internal else Public)"

section \<open>The tool auth gate\<close>

definition quote_char :: string where
  "quote_char = [CHR 0x27]"

definition admin_refusal :: "string \<Rightarrow> string" where
  "admin_refusal tool_name =
     ''Tool '' @ quote_char @ tool_name @ quote_char @
     '' requires admin authentication and is not available on public-facing agents.''"

definition end_user_refusal :: "string \<Rightarrow> string" where
  "end_user_refusal tool_name =
     ''I need to verify your identity before I can use '' @ tool_name @
     ''. Please verify with a one-time code.''"

definition tool_auth_refusal :: "string \<Rightarrow> auth_level \<Rightarrow> visibility \<Rightarrow> bool \<Rightarrow> string option" where
  "tool_auth_refusal tool_name level vis session_authenticated =
     (if vis = Internal then None
      else case level of
             AuthNone \<Rightarrow> None
           | Admin \<Rightarrow> Some (admin_refusal tool_name)
           | EndUser \<Rightarrow> if session_authenticated then None else Some (end_user_refusal tool_name))"

record auth_gate_hook =
  auth_levels :: "string \<rightharpoonup> auth_level"
  gate_visibility :: visibility
  session_authenticated :: bool
  auth_supporting_tools :: "string set"
  otp_refused_tool :: "string option"

definition auth_gate_new ::
  "(string \<rightharpoonup> auth_level) \<Rightarrow> visibility \<Rightarrow> bool \<Rightarrow> string set \<Rightarrow> auth_gate_hook" where
  "auth_gate_new levels vis auth tools =
     \<lparr>auth_levels = levels, gate_visibility = vis, session_authenticated = auth,
      auth_supporting_tools = tools, otp_refused_tool = None\<rparr>"

definition level_of :: "auth_gate_hook \<Rightarrow> string \<Rightarrow> auth_level" where
  "level_of h name = unwrap_or (auth_levels h name) AuthNone"

definition is_active :: "auth_gate_hook \<Rightarrow> bool" where
  "is_active h = (\<exists>name \<in> auth_supporting_tools h. level_of h name \<noteq> AuthNone)"

definition pre_call :: "auth_gate_hook \<Rightarrow> string \<Rightarrow> (string + unit) \<times> auth_gate_hook" where
  "pre_call h name =
     (if name \<notin> auth_supporting_tools h then (Inr (), h)
      else
        let level = level_of h name in
        case tool_auth_refusal name level (gate_visibility h) (session_authenticated h) of
          Some message \<Rightarrow>
            (Inl message,
             if level = EndUser \<and> gate_visibility h = Public \<and> \<not> session_authenticated h
             then h\<lparr>otp_refused_tool := Some name\<rparr> else h)
        | None \<Rightarrow> (Inr (), h))"

section \<open>Per-agent configuration\<close>

record agent_behavior_config =
  cfg_visibility :: visibility
  instructions :: "string option"
  persona :: "string option"
  greeting :: "string option"
  conversation_workflow :: "conversation_workflow option"
  enabled_tools :: "enabled_tool list"
  enabled_extensions :: "enabled_extension list"
  model :: "string option"
  max_iterations :: "nat option"
  llm_metadata :: "(string \<times> json) list option"

definition cfg_is_empty :: "agent_behavior_config \<Rightarrow> bool" where
  "cfg_is_empty cfg =
     (instructions cfg = None \<and> persona cfg = None \<and> greeting cfg = None \<and>
      conversation_workflow cfg = None \<and> enabled_tools cfg = [] \<and> enabled_extensions cfg = [] \<and>
      model cfg = None \<and> max_iterations cfg = None \<and> llm_metadata cfg = None)"

definition system_prompt :: "agent_behavior_config \<Rightarrow> string option" where
  "system_prompt cfg =
     (case instructions cfg of
        None \<Rightarrow> None
      | Some i \<Rightarrow>
          if trim i = [] then None
          else Some (trim i @
            (case option_filter (\<lambda>s. s \<noteq> []) (map_option trim (persona cfg)) of
               Some p \<Rightarrow> newline @ newline @ ''<Personality>'' @ newline @ p @ newline @ ''</Personality>''
             | None \<Rightarrow> [])))"

text \<open>The greeting that the first-turn section quotes, when there is one.\<close>

definition greeting_section :: "agent_behavior_config \<Rightarrow> string option" where
  "greeting_section cfg = option_filter (\<lambda>s. s \<noteq> []) (map_option trim (greeting cfg))"

definition enabled_tool_ids :: "agent_behavior_config \<Rightarrow> string list option" where
  "enabled_tool_ids cfg =
     (if enabled_tools cfg = [] then None
      else Some (map tool_id (filter tool_enabled (enabled_tools cfg))))"

definition enabled_extension_ids :: "agent_behavior_config \<Rightarrow> string list" where
  "enabled_extension_ids cfg = map extension_id (filter ext_enabled (enabled_extensions cfg))"

definition auth_level_for :: "agent_behavior_config \<Rightarrow> string \<Rightarrow> auth_level" where
  "auth_level_for cfg tid =
     (case find (\<lambda>t. tool_id t = tid) (enabled_tools cfg) of
        Some t \<Rightarrow> auth_level_parse (tool_auth_level t)
      | None \<Rightarrow> AuthNone)"

text \<open>Collecting an iterator of pairs into a \<open>HashMap\<close>: a later pair replaces an earlier one.\<close>

definition collect_map :: "('k \<times> 'v) list \<Rightarrow> 'k \<rightharpoonup> 'v" where
  "collect_map kvs = fold (\<lambda>(k, v) m. m(k \<mapsto> v)) kvs Map.empty"

definition tool_configs :: "agent_behavior_config \<Rightarrow> string \<rightharpoonup> json" where
  "tool_configs cfg =
     collect_map (map (\<lambda>t. (tool_id t, tool_config t))
       (filter (\<lambda>t. \<not> is_null (tool_config t)) (enabled_tools cfg)))"

definition clamp_max_iterations :: "int \<Rightarrow> nat" where
  "clamp_max_iterations raw = nat (max 1 (min 64 raw))"

definition parse_enabled_tool :: "json \<Rightarrow> enabled_tool option" where
  "parse_enabled_tool v =
     (case option_filter (\<lambda>s. trim s \<noteq> []) (get_str v ''toolId'') of
        None \<Rightarrow> None
      | Some tid \<Rightarrow>
          Some \<lparr>tool_id = tid,
                tool_enabled = unwrap_or (get_bool v ''enabled'') True,
                tool_auth_level = unwrap_or (get_str v ''authLevel'') ''none'',
                tool_config = unwrap_or (jget v ''config'') JNull\<rparr>)"

definition parse_enabled_extension :: "json \<Rightarrow> enabled_extension option" where
  "parse_enabled_extension v =
     (case option_filter (\<lambda>s. trim s \<noteq> []) (get_str v ''extensionId'') of
        None \<Rightarrow> None
      | Some eid \<Rightarrow>
          Some \<lparr>extension_id = eid,
                ext_enabled = unwrap_or (get_bool v ''enabled'') True,
                ext_config = jget v ''config''\<rparr>)"

definition parse_entries :: "(json \<Rightarrow> 'a option) \<Rightarrow> string \<Rightarrow> json option \<Rightarrow> 'a list" where
  "parse_entries f key v =
     (case Option.bind v (\<lambda>v. get_array v key) of Some arr \<Rightarrow> filter_map f arr | None \<Rightarrow> [])"

definition from_row_values ::
  "(json \<Rightarrow> conversation_workflow option) \<Rightarrow> json option \<Rightarrow> json option \<Rightarrow> string option \<Rightarrow> json option
    \<Rightarrow> json option \<Rightarrow> json option \<Rightarrow> string option \<Rightarrow> string option \<Rightarrow> int option \<Rightarrow> agent_behavior_config" where
  "from_row_values wf_de instr personality greet workflow tools exts vis mdl max_iter =
     \<lparr>cfg_visibility = (case vis of Some s \<Rightarrow> visibility_parse s | None \<Rightarrow> Public),
      instructions = option_filter (\<lambda>s. trim s \<noteq> []) (Option.bind instr (\<lambda>v. get_str v ''prompt'')),
      persona = option_filter (\<lambda>s. trim s \<noteq> []) (Option.bind personality (\<lambda>v. get_str v ''persona'')),
      greeting = option_filter (\<lambda>s. trim s \<noteq> []) greet,
      conversation_workflow = option_filter (\<lambda>w. steps w \<noteq> []) (Option.bind workflow wf_de),
      enabled_tools = parse_entries parse_enabled_tool ''enabledTools'' tools,
      enabled_extensions = parse_entries parse_enabled_extension ''enabledExtensions'' exts,
      model = option_filter (\<lambda>s. s \<noteq> []) (map_option trim mdl),
      max_iterations = map_option clamp_max_iterations max_iter,
      llm_metadata = None\<rparr>"

text \<open>\<open>build_auth_gate\<close> of the handler: \<open>auth_tools\<close> is \<open>SMOOTH_AGENT_AUTH_TOOLS\<close>.\<close>

definition auth_tools_env :: "string option \<Rightarrow> string list" where
  "auth_tools_env env =
     (case env of None \<Rightarrow> []
      | Some s \<Rightarrow> filter (\<lambda>s. s \<noteq> []) (map trim (split_by (\<lambda>c. c = CHR '','') s)))"

definition build_auth_gate :: "string option \<Rightarrow> agent_behavior_config \<Rightarrow> bool \<Rightarrow> auth_gate_hook option" where
  "build_auth_gate env cfg auth =
     (if auth_tools_env env = [] then None
      else
        let levels = collect_map (map (\<lambda>t. (tool_id t, auth_level_parse (tool_auth_level t))) (enabled_tools cfg));
            hook = auth_gate_new levels (cfg_visibility cfg) auth (set (auth_tools_env env))
        in if is_active hook then Some hook else None)"

section \<open>Workflow steps\<close>

definition resolve_current_step ::
  "conversation_workflow \<Rightarrow> string option \<Rightarrow> conversation_workflow_step option" where
  "resolve_current_step w cur =
     (if steps w = [] then None
      else case Option.bind cur (\<lambda>i. find (\<lambda>s. step_id s = i) (steps w)) of
             Some found \<Rightarrow> Some found
           | None \<Rightarrow> Some (hd (steps w)))"

definition nth_opt :: "'a list \<Rightarrow> nat \<Rightarrow> 'a option" where
  "nth_opt xs i = (if i < length xs then Some (xs ! i) else None)"

definition next_step ::
  "conversation_workflow \<Rightarrow> conversation_workflow_step \<Rightarrow> conversation_workflow_step option" where
  "next_step w cur =
     (case Option.bind (option_filter (\<lambda>s. s \<noteq> []) (step_next cur))
             (\<lambda>i. find (\<lambda>s. step_id s = i) (steps w)) of
        Some explicit \<Rightarrow> Some explicit
      | None \<Rightarrow>
          (case position (\<lambda>s. step_id s = step_id cur) (steps w) of
             None \<Rightarrow> None
           | Some idx \<Rightarrow> nth_opt (steps w) (idx + 1)))"

text \<open>What the rendered \<open><ConversationWorkflow>\<close> block says: the goal, the position among the
  steps, and the current step.\<close>

definition workflow_prompt_section ::
  "conversation_workflow \<Rightarrow> string option \<Rightarrow> (string \<times> nat \<times> nat \<times> conversation_workflow_step) option" where
  "workflow_prompt_section w cur =
     (case resolve_current_step w cur of
        None \<Rightarrow> None
      | Some step \<Rightarrow>
          let idx = unwrap_or (position (\<lambda>s. step_id s = step_id step) (steps w)) 0
          in Some (goal w, idx + 1, length (steps w), step))"

datatype workflow_judge_verdict = Yes | No | Maybe | Skipped

definition verdict_parse :: "string \<Rightarrow> workflow_judge_verdict" where
  "verdict_parse reply =
     (let lower = to_lowercase (trim reply) in
      if contains_str lower ''maybe'' then Maybe
      else if contains_str lower ''yes'' then Yes
      else if contains_str lower ''no'' then No
      else Maybe)"

definition judge_user_prompt ::
  "conversation_workflow \<Rightarrow> conversation_workflow_step \<Rightarrow> string \<Rightarrow> string \<Rightarrow> string" where
  "judge_user_prompt w s user_message agent_reply =
     ''GOAL: '' @ goal w @ newline @ newline @ ''CURRENT STEP ('' @ step_id s @ ''):'' @ newline @
     ''  intent: '' @ intent s @ newline @ ''  criteria: '' @ criteria s @ newline @ newline @
     ''LAST USER MESSAGE:'' @ newline @ (if user_message = [] then ''(none)'' else user_message) @
     newline @ newline @ ''AGENT REPLY:'' @ newline @ agent_reply @ newline @ newline @
     ''Return exactly one word: yes, no, or maybe.''"

definition advance_after_verdict ::
  "conversation_workflow \<Rightarrow> string option \<Rightarrow> workflow_judge_verdict \<Rightarrow> string option" where
  "advance_after_verdict w cur verdict =
     (case resolve_current_step w cur of
        None \<Rightarrow> None
      | Some c \<Rightarrow>
          if verdict = Yes
          then (case next_step w c of Some n \<Rightarrow> Some (step_id n) | None \<Rightarrow> Some (step_id c))
          else Some (step_id c))"

definition WORKFLOW_STEP_ATTEMPT_CAP :: "32 word" where
  "WORKFLOW_STEP_ATTEMPT_CAP = 3"

definition apply_step_cap ::
  "conversation_workflow \<Rightarrow> string option \<Rightarrow> string \<Rightarrow> 32 word \<Rightarrow> 32 word \<Rightarrow> string \<times> 32 word" where
  "apply_step_cap w step_before judged_next attempts max_attempts =
     (if map_option step_id (resolve_current_step w step_before) \<noteq> Some judged_next
      then (judged_next, 0)
      else
        let next_attempts = attempts + 1;
            forced = (if next_attempts \<ge> max_attempts
                      then Option.bind (resolve_current_step w (Some judged_next)) (next_step w)
                      else None)
        in case forced of
             Some n \<Rightarrow> (step_id n, 0)
           | None \<Rightarrow> (judged_next, next_attempts))"

text \<open>
  \<open>judge_next_step\<close> of the runner. The judge is an optional provider; its answer to the
  prompt is \<open>Inl\<close> on an error.
\<close>

definition judge_next_step ::
  "(string \<Rightarrow> string + string) option \<Rightarrow> conversation_workflow \<Rightarrow> string option \<Rightarrow> string \<Rightarrow> string \<Rightarrow> string" where
  "judge_next_step judge w cur user_message reply =
     (case resolve_current_step w cur of
        None \<Rightarrow> unwrap_or cur []
      | Some c \<Rightarrow>
          if trim reply = [] then step_id c
          else case judge of
                 None \<Rightarrow> step_id c
               | Some chat \<Rightarrow>
                   let verdict = (case chat (judge_user_prompt w c user_message reply) of
                                    Inr content \<Rightarrow> verdict_parse content
                                  | Inl _ \<Rightarrow> Maybe)
                   in unwrap_or (advance_after_verdict w (Some (step_id c)) verdict) (step_id c))"

text \<open>One turn of an agent with a workflow: judge, then cap, then persist pointer and count.\<close>

definition workflow_turn ::
  "conversation_workflow \<Rightarrow> (string \<Rightarrow> string + string) option \<times> string \<times> string
    \<Rightarrow> string option \<times> 32 word \<Rightarrow> string option \<times> 32 word" where
  "workflow_turn w inp st =
     (case (inp, st) of ((judge, user_message, reply), (ptr, attempts)) \<Rightarrow>
        case apply_step_cap w ptr (judge_next_step judge w ptr user_message reply) attempts
               WORKFLOW_STEP_ATTEMPT_CAP of
          (step, n) \<Rightarrow> (Some step, n))"

section \<open>Lemmas: the gate\<close>

lemma tool_auth_refusal_None:
  "tool_auth_refusal n l v a = None \<longleftrightarrow> v = Internal \<or> l = AuthNone \<or> (l = EndUser \<and> a)"
  by (cases l; cases v) (auto simp: tool_auth_refusal_def)

definition otp_remediable :: "auth_gate_hook \<Rightarrow> string \<Rightarrow> bool" where
  "otp_remediable h n \<longleftrightarrow> n \<in> auth_supporting_tools h \<and> level_of h n = EndUser \<and>
     gate_visibility h = Public \<and> \<not> session_authenticated h"

lemma pre_call_result:
  "fst (pre_call h n) = Inr () \<longleftrightarrow>
     n \<notin> auth_supporting_tools h \<or> gate_visibility h = Internal \<or> level_of h n = AuthNone \<or>
     (level_of h n = EndUser \<and> session_authenticated h)"
  by (cases "gate_visibility h"; cases "level_of h n")
    (auto simp: pre_call_def Let_def tool_auth_refusal_def)

lemma pre_call_state:
  "snd (pre_call h n) = (if otp_remediable h n then h\<lparr>otp_refused_tool := Some n\<rparr> else h)"
  by (cases "gate_visibility h"; cases "level_of h n")
    (auto simp: pre_call_def otp_remediable_def Let_def tool_auth_refusal_def)

definition gate_run :: "auth_gate_hook \<Rightarrow> string list \<Rightarrow> auth_gate_hook" where
  "gate_run h ns = fold (\<lambda>n h. snd (pre_call h n)) ns h"

lemma level_of_frame [simp]: "level_of (h\<lparr>otp_refused_tool := x\<rparr>) = level_of h"
  by (simp add: level_of_def fun_eq_iff)

lemma otp_remediable_frame [simp]: "otp_remediable (h\<lparr>otp_refused_tool := x\<rparr>) = otp_remediable h"
  by (simp add: otp_remediable_def fun_eq_iff)

lemma last_opt_snoc_aux:
  "(case xs of [] \<Rightarrow> Some n | y # ys \<Rightarrow> Some (last xs)) =
   (case n # xs of [] \<Rightarrow> d | y # ys \<Rightarrow> Some (last (n # xs)))"
  by (cases xs) auto

lemma gate_run_state:
  "gate_run h ns = h\<lparr>otp_refused_tool :=
     (case filter (otp_remediable h) ns of [] \<Rightarrow> otp_refused_tool h
        | y # ys \<Rightarrow> Some (last (filter (otp_remediable h) ns)))\<rparr>"
proof (induction ns arbitrary: h)
  case Nil
  show ?case by (simp add: gate_run_def)
next
  case (Cons n ns)
  have "gate_run h (n # ns) = gate_run (snd (pre_call h n)) ns" by (simp add: gate_run_def)
  also have "\<dots> = h\<lparr>otp_refused_tool :=
     (case filter (otp_remediable h) (n # ns) of [] \<Rightarrow> otp_refused_tool h
        | y # ys \<Rightarrow> Some (last (filter (otp_remediable h) (n # ns))))\<rparr>"
    unfolding Cons.IH by (auto simp: pre_call_state split: list.split)
  finally show ?case .
qed

lemma fold_map_upd:
  "fold (\<lambda>(k, v) m. m(k \<mapsto> v)) kvs m = (\<lambda>k. case map_of (rev kvs) k of Some v \<Rightarrow> Some v | None \<Rightarrow> m k)"
proof (induction kvs arbitrary: m)
  case (Cons kv kvs)
  then show ?case
    by (cases kv) (auto simp: fun_eq_iff map_add_def split: option.splits)
qed simp

lemma collect_map_eq: "collect_map kvs = map_of (rev kvs)"
  by (auto simp: collect_map_def fold_map_upd fun_eq_iff split: option.splits)

lemma find_map_of:
  "map_option g (find (\<lambda>t. f t = x) ts) = map_of (map (\<lambda>t. (f t, g t)) ts) x"
  by (induction ts) auto

lemma collect_map_distinct: "distinct (map fst kvs) \<Longrightarrow> collect_map kvs = map_of kvs"
  by (simp add: collect_map_eq map_of_inject_set rev_map [symmetric])

lemma gate_levels_distinct:
  assumes "distinct (map tool_id (enabled_tools cfg))"
  shows "unwrap_or (collect_map (map (\<lambda>t. (tool_id t, auth_level_parse (tool_auth_level t))) (enabled_tools cfg)) n) AuthNone
           = auth_level_for cfg n"
proof -
  have "collect_map (map (\<lambda>t. (tool_id t, auth_level_parse (tool_auth_level t))) (enabled_tools cfg)) n
      = map_option (\<lambda>t. auth_level_parse (tool_auth_level t)) (find (\<lambda>t. tool_id t = n) (enabled_tools cfg))"
    using assms by (simp add: collect_map_distinct find_map_of comp_def)
  then show ?thesis by (auto simp: auth_level_for_def split: option.splits)
qed

section \<open>Lemmas: the row parse\<close>

lemma clamp_max_iterations_bounds [simp]: "Suc 0 \<le> clamp_max_iterations r" "clamp_max_iterations r \<le> 64"
  by (auto simp: clamp_max_iterations_def)

lemma option_filter_case: "(case option_filter p x of None \<Rightarrow> True | Some s \<Rightarrow> p s)"
  by (cases x) auto

lemma model_trimmed:
  "(case option_filter (\<lambda>s. s \<noteq> []) (map_option trim m) of None \<Rightarrow> True | Some s \<Rightarrow> s \<noteq> [] \<and> trim s = s)"
  by (cases m) auto

lemma parse_entries_all:
  "(\<And>v y. f v = Some y \<Longrightarrow> p y) \<Longrightarrow> list_all p (parse_entries f key v)"
  by (auto simp: parse_entries_def list_all_iff set_filter_map split: option.split)

lemma parse_enabled_tool_id: "parse_enabled_tool v = Some t \<Longrightarrow> trim (tool_id t) \<noteq> []"
  by (auto simp: parse_enabled_tool_def option_filter_Some split: option.splits)

lemma parse_enabled_extension_id: "parse_enabled_extension v = Some t \<Longrightarrow> trim (extension_id t) \<noteq> []"
  by (auto simp: parse_enabled_extension_def option_filter_Some split: option.splits)

section \<open>Lemmas: the workflow\<close>

lemma resolve_current_step_in:
  "resolve_current_step w cur = Some s \<Longrightarrow> s \<in> set (steps w)"
  by (auto simp: resolve_current_step_def bind_eq_Some_conv split: if_splits option.splits dest: find_SomeD)

lemma resolve_current_step_total: "steps w \<noteq> [] \<Longrightarrow> \<exists>s. resolve_current_step w cur = Some s"
  by (auto simp: resolve_current_step_def split: option.splits)

lemma next_step_in: "next_step w c = Some n \<Longrightarrow> n \<in> set (steps w)"
  by (auto simp: next_step_def nth_opt_def bind_eq_Some_conv split: if_splits option.splits dest: find_SomeD)

lemma judge_next_step_in:
  assumes "steps w \<noteq> []"
  shows "judge_next_step judge w cur um reply \<in> step_id ` set (steps w)"
proof -
  obtain c where c: "resolve_current_step w cur = Some c" "c \<in> set (steps w)"
    using resolve_current_step_total [OF assms] resolve_current_step_in by blast
  have adv: "x \<in> step_id ` set (steps w)" if "advance_after_verdict w (Some (step_id c)) v = Some x" for v x
    using that
    by (auto simp: advance_after_verdict_def dest: resolve_current_step_in next_step_in
        split: option.splits if_splits)
  show ?thesis
    using c adv
    by (cases judge)
      (auto simp: judge_next_step_def Let_def split: option.splits sum.splits,
       (metis unwrap_or.simps imageI option.exhaust)+)
qed

lemma apply_step_cap_in:
  assumes "j \<in> step_id ` set (steps w)"
  shows "fst (apply_step_cap w b j a m) \<in> step_id ` set (steps w)"
  using assms
  by (auto simp: apply_step_cap_def Let_def bind_eq_Some_conv dest: next_step_in split: option.splits if_splits)

text \<open>A linear workflow: distinct step ids, no explicit successors.\<close>

definition linear_workflow :: "conversation_workflow \<Rightarrow> bool" where
  "linear_workflow w \<longleftrightarrow> steps w \<noteq> [] \<and> distinct (map step_id (steps w)) \<and>
     (\<forall>s \<in> set (steps w). step_next s = None)"

lemma linear_find:
  assumes "distinct (map step_id ss)" "i < length ss"
  shows "find (\<lambda>s. step_id s = step_id (ss ! i)) ss = Some (ss ! i)"
  using assms
proof (induction ss arbitrary: i)
  case (Cons s ss)
  moreover have "step_id (ss ! k) \<in> step_id ` set ss" if "k < length ss" for k
    using that by simp
  ultimately show ?case by (cases i) auto
qed simp

lemma linear_position:
  assumes "distinct (map step_id ss)" "i < length ss"
  shows "position (\<lambda>s. step_id s = step_id (ss ! i)) ss = Some i"
  using assms
proof (induction ss arbitrary: i)
  case (Cons s ss)
  moreover have "step_id (ss ! k) \<in> step_id ` set ss" if "k < length ss" for k
    using that by simp
  ultimately show ?case by (cases i) auto
qed simp

lemma linear_resolve:
  assumes "linear_workflow w" "i < length (steps w)"
  shows "resolve_current_step w (Some (step_id (steps w ! i))) = Some (steps w ! i)"
  using assms linear_find [of "steps w" i] by (auto simp: resolve_current_step_def linear_workflow_def)

lemma linear_next:
  assumes "linear_workflow w" "i < length (steps w)"
  shows "next_step w (steps w ! i) = nth_opt (steps w) (i + 1)"
  using assms linear_position [of "steps w" i] by (auto simp: next_step_def linear_workflow_def)

lemma linear_judge:
  assumes "linear_workflow w" "i < length (steps w)" "resolve_current_step w ptr = Some (steps w ! i)"
  shows "judge_next_step judge w ptr um reply = step_id (steps w ! i) \<or>
         (i + 1 < length (steps w) \<and> judge_next_step judge w ptr um reply = step_id (steps w ! (i + 1)))"
proof -
  have adv: "advance_after_verdict w (Some (step_id (steps w ! i))) v = Some (step_id (steps w ! i)) \<or>
     (i + 1 < length (steps w) \<and>
      advance_after_verdict w (Some (step_id (steps w ! i))) v = Some (step_id (steps w ! (i + 1))))" for v
    using assms(1,2)
    by (auto simp: advance_after_verdict_def linear_resolve linear_next nth_opt_def)
  show ?thesis
    using adv
    by (cases judge)
      (auto simp: judge_next_step_def assms(3) Let_def split: sum.splits,
       (metis unwrap_or.simps(1))+)
qed

text \<open>The progress measure: three times the step index plus the attempts spent on it.\<close>

definition at_step :: "conversation_workflow \<Rightarrow> nat \<Rightarrow> nat \<Rightarrow> string option \<times> 32 word \<Rightarrow> bool" where
  "at_step w i a st \<longleftrightarrow> i < length (steps w) \<and>
     resolve_current_step w (fst st) = Some (steps w ! i) \<and> snd st = of_nat a"

lemma linear_turn:
  assumes "linear_workflow w" "at_step w i a st" "i + 1 < length (steps w) \<longrightarrow> a < 3"
  shows "\<exists>j b. at_step w j b (workflow_turn w inp st) \<and> (j + 1 < length (steps w) \<longrightarrow> b < 3) \<and>
           (i + 1 < length (steps w) \<longrightarrow> 3 * i + a < 3 * j + b) \<and>
           (\<not> i + 1 < length (steps w) \<longrightarrow> \<not> j + 1 < length (steps w))"
proof -
  obtain judge um reply where inp: "inp = (judge, um, reply)" by (cases inp)
  obtain ptr n where st: "st = (ptr, n)" by (cases st)
  let ?n = "length (steps w)" and ?j = "judge_next_step judge w ptr um reply"
  have i: "i < ?n" and res: "resolve_current_step w ptr = Some (steps w ! i)" and n: "n = of_nat a"
    using assms(2) by (auto simp: at_step_def st)
  have dist: "distinct (map step_id (steps w))" using assms(1) by (simp add: linear_workflow_def)
  have turn: "workflow_turn w inp st =
      (case apply_step_cap w ptr ?j n WORKFLOW_STEP_ATTEMPT_CAP of (s, m) \<Rightarrow> (Some s, m))"
    by (simp add: workflow_turn_def inp st)
  consider (adv) "i + 1 < ?n" "?j = step_id (steps w ! (i + 1))" | (stay) "?j = step_id (steps w ! i)"
    using linear_judge [OF assms(1) i res] by blast
  then show ?thesis
  proof cases
    case adv
    then have "step_id (steps w ! i) \<noteq> ?j"
      using dist i by (auto simp: distinct_conv_nth)
    then have "workflow_turn w inp st = (Some (step_id (steps w ! (i + 1))), 0)"
      using adv by (simp add: turn apply_step_cap_def res)
    then show ?thesis using adv assms(3)
      by (intro exI [of _ "i + 1"] exI [of _ 0]) (simp add: at_step_def linear_resolve [OF assms(1)])
  next
    case stay
    show ?thesis
    proof (cases "i + 1 < ?n")
      case True
      then have "a = 0 \<or> a = 1 \<or> a = 2" using assms(3) by auto
      then have "workflow_turn w inp st =
          (if a = 2 then (Some (step_id (steps w ! (i + 1))), 0) else (Some (step_id (steps w ! i)), of_nat (a + 1)))"
        using True stay n i
        by (auto simp: turn apply_step_cap_def res linear_resolve [OF assms(1)] linear_next [OF assms(1)]
            nth_opt_def WORKFLOW_STEP_ATTEMPT_CAP_def word_le_nat_alt)
      then show ?thesis using True i \<open>a = 0 \<or> a = 1 \<or> a = 2\<close>
        by (intro exI [of _ "if a = 2 then i + 1 else i"] exI [of _ "if a = 2 then 0 else a + 1"])
          (auto simp: at_step_def linear_resolve [OF assms(1)])
    next
      case False
      then have "workflow_turn w inp st = (Some (step_id (steps w ! i)), of_nat (a + 1))"
        using stay n i
        by (simp add: turn apply_step_cap_def res linear_resolve [OF assms(1)] linear_next [OF assms(1)] nth_opt_def
            Let_def add.commute)
      then show ?thesis using False i
        by (intro exI [of _ i] exI [of _ "a + 1"]) (simp add: at_step_def linear_resolve [OF assms(1)])
    qed
  qed
qed

lemma linear_run:
  assumes "linear_workflow w" "at_step w i a st" "i + 1 < length (steps w) \<longrightarrow> a < 3"
  shows "\<exists>j b. at_step w j b (fold (workflow_turn w) inps st) \<and> (j + 1 < length (steps w) \<longrightarrow> b < 3) \<and>
           (j + 1 < length (steps w) \<longrightarrow> 3 * i + a + length inps \<le> 3 * j + b)"
  using assms(2,3)
proof (induction inps arbitrary: i a st)
  case Nil
  then show ?case by auto
next
  case (Cons inp inps)
  obtain j b where jb: "at_step w j b (workflow_turn w inp st)" "j + 1 < length (steps w) \<longrightarrow> b < 3"
    "i + 1 < length (steps w) \<longrightarrow> 3 * i + a < 3 * j + b" "\<not> i + 1 < length (steps w) \<longrightarrow> \<not> j + 1 < length (steps w)"
    using linear_turn [OF assms(1) Cons.prems] by blast
  obtain j' b' where k: "at_step w j' b' (fold (workflow_turn w) inps (workflow_turn w inp st))"
    "j' + 1 < length (steps w) \<longrightarrow> b' < 3"
    "j' + 1 < length (steps w) \<longrightarrow> 3 * j + b + length inps \<le> 3 * j' + b'"
    using Cons.IH [OF jb(1,2)] by blast
  show ?case
  proof (intro exI conjI)
    show "at_step w j' b' (fold (workflow_turn w) (inp # inps) st)" using k(1) by simp
    show "j' + 1 < length (steps w) \<longrightarrow> b' < 3" by (rule k(2))
    show "j' + 1 < length (steps w) \<longrightarrow> 3 * i + a + length (inp # inps) \<le> 3 * j' + b'"
    proof
      assume j': "j' + 1 < length (steps w)"
      have "i + 1 < length (steps w)"
      proof (rule ccontr)
        assume last: "\<not> i + 1 < length (steps w)"
        with jb(4) have "\<not> j + 1 < length (steps w)" by blast
        moreover have "j < length (steps w)" using jb(1) by (simp add: at_step_def)
        ultimately have "j' < j" using j' by simp
        moreover have "3 * j + b + length inps \<le> 3 * j' + b'" "b' < 3" using k(2,3) j' by auto
        ultimately show False by simp
      qed
      with jb(3) k(3) j' show "3 * i + a + length (inp # inps) \<le> 3 * j' + b'" by auto
    qed
  qed
qed

section \<open>Properties\<close>

text \<open>The auth gate is exactly the documented rule: a call goes through if and only if the tool is
  not auth-supporting, or the agent is internal, or the tool's level is none, or it needs a verified
  end user and the session is verified. In particular an admin tool never runs on a public agent.\<close>

theorem pre_call_decision:
  "(fst (pre_call h n) = Inr ()) =
     (if n \<notin> auth_supporting_tools h then True
      else if gate_visibility h = Internal then True
      else case level_of h n of
             AuthNone \<Rightarrow> True
           | Admin \<Rightarrow> False
           | EndUser \<Rightarrow> session_authenticated h)"
  by (cases "level_of h n"; cases "gate_visibility h") (auto simp: pre_call_result)

text \<open>Over a whole turn the gate's only memory is the last end-user tool it refused for lack of a
  verified session; refusals that no one-time code can remedy leave it alone.\<close>

theorem gate_run_remembers_last_refusal:
  "otp_refused_tool (gate_run (auth_gate_new levels vis auth tools) ns) =
     (let refused = filter (otp_remediable (auth_gate_new levels vis auth tools)) ns
      in if refused = [] then None else Some (last refused))"
  by (simp add: gate_run_state auth_gate_new_def Let_def split: list.split)


text \<open>The two readings of a duplicated tool entry disagree: the configuration reports the first
  entry's level, the gate is built from the last. A row that lists a tool as admin and again without
  a level is reported as admin, yet no gate is installed for it.\<close>

theorem duplicate_tool_entry_ungated:
  "let cfg = from_row_values (\<lambda>_. None) None None None None
       (Some (JObj [(''enabledTools'', JArr [JObj [(''toolId'', JStr ''t''), (''authLevel'', JStr ''admin'')],
                                             JObj [(''toolId'', JStr ''t'')]])])) None None None None
   in auth_level_for cfg ''t'' = Admin \<and> build_auth_gate (Some ''t'') cfg False = None"
  by (simp add: from_row_values_def parse_entries_def parse_enabled_tool_def json_simps Let_def
      auth_level_for_def auth_level_parse_def build_auth_gate_def auth_tools_env_def is_active_def
      level_of_def auth_gate_new_def collect_map_def trim_def trim_start_def trim_end_def is_whitespace_def
      visibility_parse_def)

text \<open>Parsing an agent row never fails and never lets a degenerate value through: the loop cap is
  between 1 and 64, blank prompts, personas, greetings and models are dropped, a workflow has a step,
  and every tool and extension entry has a non-blank id.\<close>

theorem from_row_values_wellformed:
  "let cfg = from_row_values wf_de instr personality greet workflow tools exts vis mdl max_iter in
     (case max_iterations cfg of None \<Rightarrow> max_iter = None | Some n \<Rightarrow> 1 \<le> n \<and> n \<le> 64) \<and>
     (case instructions cfg of None \<Rightarrow> True | Some s \<Rightarrow> trim s \<noteq> []) \<and>
     (case persona cfg of None \<Rightarrow> True | Some s \<Rightarrow> trim s \<noteq> []) \<and>
     (case greeting cfg of None \<Rightarrow> True | Some s \<Rightarrow> trim s \<noteq> []) \<and>
     (case model cfg of None \<Rightarrow> True | Some s \<Rightarrow> s \<noteq> [] \<and> trim s = s) \<and>
     (case conversation_workflow cfg of None \<Rightarrow> True | Some w \<Rightarrow> steps w \<noteq> []) \<and>
     list_all (\<lambda>t. trim (tool_id t) \<noteq> []) (enabled_tools cfg) \<and>
     list_all (\<lambda>e. trim (extension_id e) \<noteq> []) (enabled_extensions cfg)"
  unfolding from_row_values_def Let_def
  by (simp add: clamp_max_iterations_bounds option_filter_case parse_entries_all [OF parse_enabled_tool_id]
      parse_entries_all [OF parse_enabled_extension_id] model_trimmed split: option.split)

text \<open>Whatever the judge answers, the pointer that a turn persists names a step of the
  workflow.\<close>

theorem workflow_pointer_valid:
  assumes "steps w \<noteq> []"
  shows "\<exists>s \<in> set (steps w). fst (workflow_turn w inp st) = Some (step_id s)"
proof -
  obtain judge um reply ptr n where io: "inp = (judge, um, reply)" "st = (ptr, n)"
    by (metis prod.exhaust)
  obtain s m where sm: "apply_step_cap w ptr (judge_next_step judge w ptr um reply) n WORKFLOW_STEP_ATTEMPT_CAP = (s, m)"
    by fastforce
  have "s \<in> step_id ` set (steps w)"
    using apply_step_cap_in [OF judge_next_step_in [OF assms]] sm by (metis fst_conv)
  with io sm show ?thesis by (auto simp: workflow_turn_def)
qed

text \<open>C34. A workflow cannot be stalled. On a linear workflow of \<open>n\<close> steps, from a fresh pointer,
  any \<open>3 * (n - 1)\<close> turns bring the conversation to the last step, whatever the visitor and the judge
  do, and it stays there.\<close>

theorem linear_workflow_completes:
  assumes "linear_workflow w" and "3 * (length (steps w) - 1) \<le> length inps"
  shows "resolve_current_step w (fst (fold (workflow_turn w) inps (None, 0))) = Some (last (steps w))"
proof -
  have ne: "steps w \<noteq> []" using assms(1) by (simp add: linear_workflow_def)
  then have "at_step w 0 0 (None, 0)"
    by (simp add: at_step_def resolve_current_step_def hd_conv_nth)
  then obtain j b where jb: "at_step w j b (fold (workflow_turn w) inps (None, 0))"
    "j + 1 < length (steps w) \<longrightarrow> b < 3" "j + 1 < length (steps w) \<longrightarrow> length inps \<le> 3 * j + b"
    using linear_run [OF assms(1), of 0 0 "(None, 0)" inps] by auto
  have "\<not> j + 1 < length (steps w)"
  proof
    assume "j + 1 < length (steps w)"
    with jb assms(2) have "b < 3" "3 * (length (steps w) - 1) \<le> 3 * j + b" by auto
    with \<open>j + 1 < length (steps w)\<close> show False by simp
  qed
  with jb(1) ne show ?thesis
    by (metis One_nat_def Suc_eq_plus1 Suc_lessI at_step_def diff_Suc_1 last_conv_nth)
qed

text \<open>The judge advances a step only on an affirmative reply: without a judge, on a judge error, on
  an empty agent reply, or when the answer contains no \<open>yes\<close>, the step is kept.\<close>

theorem judge_keeps_step_without_yes:
  assumes "resolve_current_step w cur = Some c"
    and "case judge of None \<Rightarrow> True
         | Some chat \<Rightarrow> (case chat (judge_user_prompt w c um reply) of
              Inl _ \<Rightarrow> True
            | Inr content \<Rightarrow> trim reply = [] \<or> \<not> contains_str (to_lowercase (trim content)) ''yes'')"
    and "distinct (map step_id (steps w))"
  shows "judge_next_step judge w cur um reply = step_id c"
proof -
  obtain i where i: "i < length (steps w)" "c = steps w ! i"
    using resolve_current_step_in [OF assms(1)] by (auto simp: in_set_conv_nth)
  then have "resolve_current_step w (Some (step_id c)) = Some c"
    using linear_find [OF assms(3) i(1)] by (auto simp: resolve_current_step_def)
  then have stay: "v \<noteq> Yes \<Longrightarrow> advance_after_verdict w (Some (step_id c)) v = Some (step_id c)" for v
    by (simp add: advance_after_verdict_def)
  have "\<not> contains_str (to_lowercase (trim content)) ''yes'' \<Longrightarrow> verdict_parse content \<noteq> Yes" for content
    by (simp add: verdict_parse_def Let_def)
  with stay assms(1,2) show ?thesis
    by (auto simp: judge_next_step_def Let_def split: option.splits sum.splits)
qed

section \<open>Witnesses\<close>

definition demo_step :: "string \<Rightarrow> conversation_workflow_step" where
  "demo_step i = \<lparr>step_id = i, intent = ''ask'', criteria = ''answered'', step_next = None, suggested_replies = None\<rparr>"

definition demo_workflow :: conversation_workflow where
  "demo_workflow = \<lparr>goal = ''g'', steps = [demo_step ''a'', demo_step ''b'']\<rparr>"

definition demo_cfg :: agent_behavior_config where
  "demo_cfg = from_row_values (\<lambda>_. None) None None None None
     (Some (JObj [(''enabledTools'', JArr [JObj [(''toolId'', JStr ''t''), (''authLevel'', JStr ''end_user'')]])]))
     None None None None"

lemma demo_cfg_tools:
  "enabled_tools demo_cfg =
     [\<lparr>tool_id = ''t'', tool_enabled = True, tool_auth_level = ''end_user'', tool_config = JNull\<rparr>]"
  by (simp add: demo_cfg_def from_row_values_def parse_entries_def parse_enabled_tool_def json_simps
      trim_def trim_start_def trim_end_def is_whitespace_def)


theorem workflow_pointer_valid_witness:
  "\<exists>s \<in> set (steps demo_workflow). fst (workflow_turn demo_workflow (None, ''hi'', ''hello'') (Some ''zzz'', 0)) = Some (step_id s)"
  by (rule workflow_pointer_valid) (simp add: demo_workflow_def)

theorem linear_workflow_completes_witness:
  "resolve_current_step demo_workflow
     (fst (fold (workflow_turn demo_workflow) [(None, [], []), (None, [], []), (None, [], [])] (None, 0)))
   = Some (demo_step ''b'')"
  using linear_workflow_completes [of demo_workflow "[(None, [], []), (None, [], []), (None, [], [])]"]
  by (simp add: linear_workflow_def demo_workflow_def demo_step_def)

theorem judge_keeps_step_without_yes_witness:
  "judge_next_step (Some (\<lambda>_. Inr ''No.'')) demo_workflow (Some ''a'') ''hi'' ''hello'' = ''a''"
  using judge_keeps_step_without_yes [where w = demo_workflow and cur = "Some ''a''" and c = "demo_step ''a''"
      and judge = "Some (\<lambda>_. Inr ''No.'')" and um = "''hi''" and reply = "''hello''"]
  by (simp add: resolve_current_step_def demo_workflow_def demo_step_def trim_def trim_start_def trim_end_def
      is_whitespace_def to_lowercase_def char_to_lowercase_def starts_with_def)

end
