(* ===== verification/Replies.thy ===== *)
theory Replies
  imports Retrieval Agent_Config
begin

text \<open>
  What surrounds the model's text: the suggested quick replies and the streaming hold-back of
  \<open>rust/smooth-operator-server/src/suggestions.rs\<close>, the skills of \<open>skills.rs\<close> and the prompt sections of
  \<open>prompt_composer.rs\<close>.

  Positions are counted in characters; every pattern searched for is ASCII. The bullet U+2022 lies outside
  the modelled range. Parameters: the JSON parser and the file system.
\<close>

section \<open>Suggested replies\<close>

definition MARKER_OPEN :: string where "MARKER_OPEN = ''<suggested_replies>''"
definition MARKER_CLOSE :: string where "MARKER_CLOSE = ''</suggested_replies>''"
definition MAX_SUGGESTIONS :: nat where "MAX_SUGGESTIONS = 4"

text \<open>\<open>str::rfind\<close>\<close>

fun rfind_str :: "string \<Rightarrow> string \<Rightarrow> nat option" where
  "rfind_str p [] = (if p = [] then Some 0 else None)"
| "rfind_str p (c # cs) =
     (case rfind_str p cs of Some i \<Rightarrow> Some (Suc i) | None \<Rightarrow> if starts_with (c # cs) p then Some 0 else None)"

definition rfind_ci :: "string \<Rightarrow> string \<Rightarrow> nat option" where
  "rfind_ci haystack needle =
     (if needle = [] \<or> length haystack < length needle then None else rfind_str needle (to_ascii_lowercase haystack))"

fun suggestion_item :: "json \<Rightarrow> string option" where
  "suggestion_item (JStr s) = option_filter (\<lambda>t. t \<noteq> []) (Some (trim s))"
| "suggestion_item _ = None"

definition is_newline :: "char \<Rightarrow> bool" where
  "is_newline c = (c = CHR 0x0A)"

definition is_item_quote :: "char \<Rightarrow> bool" where
  "is_item_quote c = (c \<in> {CHR 0x22, CHR 0x27, CHR 0x60})"

text \<open>One line of a trailing list: the item, or nothing when the line is prose.\<close>

definition markdown_item :: "string \<Rightarrow> string option" where
  "markdown_item t =
     (let bulleted = dropWhile (\<lambda>c. c \<in> {CHR ''-'', CHR ''*''}) t;
          item = (if length bulleted < length t then Some (trim_start bulleted)
                  else map_option (\<lambda>i. trim_start (drop (i + 1) t))
                         (option_filter (\<lambda>i. i > 0 \<and> list_all is_ascii_digit (take i t))
                           (position (\<lambda>c. c \<in> {CHR ''.'', CHR '')''}) t)))
      in option_filter (\<lambda>s. s \<noteq> []) (map_option (\<lambda>s. trim (trim_matches is_item_quote (trim s))) item))"

fun all_items :: "string list \<Rightarrow> string list option" where
  "all_items [] = Some []"
| "all_items (l # ls) =
     (if trim l = [] then all_items ls
      else Option.bind (markdown_item (trim l)) (\<lambda>i. map_option (\<lambda>is. i # is) (all_items ls)))"

text \<open>The later of the two headers.\<close>

definition markdown_header :: "string \<Rightarrow> (nat \<times> nat) option" where
  "markdown_header reply_text =
     (let a = map_option (\<lambda>p. (p, 18)) (rfind_ci reply_text ''suggested replies:'');
          b = map_option (\<lambda>p. (p, 18)) (rfind_ci reply_text ''suggested_replies:'')
      in case (a, b) of
           (Some (p, m), Some (q, n)) \<Rightarrow> if p > q then Some (p, m) else Some (q, n)
         | (Some x, None) \<Rightarrow> Some x
         | (None, y) \<Rightarrow> y)"

definition extract_markdown_suggested_replies :: "string \<Rightarrow> (string \<times> string list) option" where
  "extract_markdown_suggested_replies reply_text =
     Option.bind (markdown_header reply_text) (\<lambda>(start, n).
       let after = drop (start + n) reply_text in
       Option.bind (position is_newline after) (\<lambda>nl.
         Option.bind (all_items (split_by is_newline (drop (nl + 1) after))) (\<lambda>is.
           if is = [] then None
           else Some (trim_end (take start reply_text), take MAX_SUGGESTIONS is))))"

definition extract_suggested_replies :: "(string \<Rightarrow> json list option) \<Rightarrow> string \<Rightarrow> string \<times> string list" where
  "extract_suggested_replies from_str reply_text =
     (case rfind_str MARKER_OPEN reply_text of
        None \<Rightarrow> (case extract_markdown_suggested_replies reply_text of Some r \<Rightarrow> r | None \<Rightarrow> (reply_text, []))
      | Some start \<Rightarrow>
          (case (let rest = drop (start + length MARKER_OPEN) reply_text in
                 case split_once_str MARKER_CLOSE rest of Some (b, tail) \<Rightarrow> (b, tail) | None \<Rightarrow> (rest, [])) of
             (body, tail) \<Rightarrow>
               (trim_end (take start reply_text @ tail),
                (case from_str (trim body) of
                   Some vs \<Rightarrow> take MAX_SUGGESTIONS (filter_map suggestion_item vs)
                 | None \<Rightarrow> []))))"

section \<open>Runaway repetition\<close>

definition MAX_RESPONSE_PARTS :: nat where "MAX_RESPONSE_PARTS = 6"

definition normalized_words :: "string \<Rightarrow> string list" where
  "normalized_words s = map to_lowercase (filter (\<lambda>w. w \<noteq> []) (split_by (\<lambda>c. \<not> is_alphanumeric c) s))"

text \<open>The ratio test on floats agrees with the one on integers for every length a reply can have.\<close>

definition near_identical :: "string list \<Rightarrow> string list \<Rightarrow> bool" where
  "near_identical a b =
     (let inter = length (remdups (filter (\<lambda>w. w \<in> set b) a)); union = length (remdups (a @ b)) in
      union > 0 \<and> 10 * inter \<ge> 9 * union)"

fun dedupe_loop :: "string list \<Rightarrow> string list list \<Rightarrow> string list \<Rightarrow> string list" where
  "dedupe_loop kept kept_words [] = kept"
| "dedupe_loop kept kept_words (part # parts) =
     (let p = trim part; ws = normalized_words p in
      if p = [] \<or> ws = [] \<or> list_ex (\<lambda>prev. near_identical prev ws) kept_words
      then dedupe_loop kept kept_words parts
      else dedupe_loop (kept @ [p]) (kept_words @ [ws]) parts)"

definition dedupe_near_identical :: "string list \<Rightarrow> string list" where
  "dedupe_near_identical parts = dedupe_loop [] [] parts"

definition dedupe_response_parts :: "string list \<Rightarrow> string list" where
  "dedupe_response_parts parts = take MAX_RESPONSE_PARTS (dedupe_near_identical parts)"

definition push_trimmed :: "string \<Rightarrow> string list \<Rightarrow> string list" where
  "push_trimmed cur out = (if trim cur \<noteq> [] then out @ [trim cur] else out)"

fun sentence_loop :: "string list \<Rightarrow> string \<Rightarrow> string \<Rightarrow> string list" where
  "sentence_loop out cur [] = push_trimmed cur out"
| "sentence_loop out cur (c # cs) =
     (if is_newline c then sentence_loop (push_trimmed cur out) [] cs
      else if c \<in> {CHR ''.'', CHR ''!'', CHR ''?''} then sentence_loop (push_trimmed (cur @ [c]) out) [] cs
      else sentence_loop out (cur @ [c]) cs)"

definition split_sentences :: "string \<Rightarrow> string list" where
  "split_sentences s = sentence_loop [] [] s"

definition collapse_repetition :: "string \<Rightarrow> string" where
  "collapse_repetition s =
     (let sentences = split_sentences s; distinct_ones = dedupe_near_identical sentences in
      if length sentences - length distinct_ones \<le> MAX_RESPONSE_PARTS then s
      else join_str '' '' (take MAX_RESPONSE_PARTS distinct_ones))"

section \<open>The streaming hold-back\<close>

record marker_suppressor =
  held :: string
  suppressing :: bool

definition suppressor_new :: marker_suppressor where
  "suppressor_new = \<lparr>held = [], suppressing = False\<rparr>"

text \<open>From the longest candidate down.\<close>

fun marker_suffix_from :: "nat \<Rightarrow> string \<Rightarrow> nat" where
  "marker_suffix_from 0 s = length s"
| "marker_suffix_from (Suc n) s =
     (if starts_with MARKER_OPEN (drop (length s - Suc n) s) then length s - Suc n else marker_suffix_from n s)"

definition longest_marker_prefix_suffix :: "string \<Rightarrow> nat" where
  "longest_marker_prefix_suffix s = marker_suffix_from (min (length MARKER_OPEN) (length s)) s"

definition suppressor_push :: "string \<Rightarrow> marker_suppressor \<Rightarrow> string \<times> marker_suppressor" where
  "suppressor_push delta m =
     (if suppressing m then ([], m)
      else
        let h = held m @ delta in
        (case split_once_str MARKER_OPEN h of
           Some (before, _) \<Rightarrow> (before, \<lparr>held = [], suppressing = True\<rparr>)
         | None \<Rightarrow>
             let k = longest_marker_prefix_suffix h in
             (take k h, m\<lparr>held := drop k h\<rparr>)))"

definition suppressor_finish :: "marker_suppressor \<Rightarrow> string" where
  "suppressor_finish m = (if suppressing m then [] else held m)"

section \<open>Skills\<close>

definition is_ascii_alphanumeric :: "char \<Rightarrow> bool" where
  "is_ascii_alphanumeric c =
     (let n = of_char c :: nat in (48 \<le> n \<and> n \<le> 57) \<or> (65 \<le> n \<and> n \<le> 90) \<or> (97 \<le> n \<and> n \<le> 122))"

definition skill_section :: "string \<Rightarrow> string \<Rightarrow> string" where
  "skill_section name body =
     ''## Skill: '' @ name @ newline @ newline @ ''The user invoked this skill for this turn. Follow it.'' @
     newline @ newline @ body"

definition is_valid_skill_name :: "string \<Rightarrow> bool" where
  "is_valid_skill_name name =
     (name \<noteq> [] \<and> length name \<le> 128 \<and>
      list_all (\<lambda>c. is_ascii_alphanumeric c \<or> c = CHR ''-'' \<or> c = CHR ''_'') name)"

text \<open>The search for the closing fence, over the non-overlapping matches; the flag says that a line starts.\<close>

function closing_fence :: "bool \<Rightarrow> string \<Rightarrow> string option" where
  "closing_fence b [] = None"
| "closing_fence b (c # cs) =
     (if starts_with (c # cs) ''---'' then
        let rest = drop 3 (c # cs) in
        if b \<and> starts_with rest newline then Some (dropWhile is_newline rest) else closing_fence False rest
      else closing_fence (is_newline c) cs)"
  by pat_completeness auto
termination
  by (relation "measure (\<lambda>(b, s). length s)") auto

definition strip_frontmatter :: "string \<Rightarrow> string" where
  "strip_frontmatter text =
     (case strip_prefix text (''---'' @ newline) of
        None \<Rightarrow> text
      | Some rest \<Rightarrow> unwrap_or (closing_fence True rest) text)"

definition path_join :: "string \<Rightarrow> string \<Rightarrow> string" where
  "path_join a b = (if a = [] \<or> last a = CHR ''/'' then a @ b else a @ ''/'' @ b)"

definition skill_path :: "string \<Rightarrow> string \<Rightarrow> string" where
  "skill_path root name = path_join (path_join root name) ''SKILL.md''"

definition from_path_list :: "string \<Rightarrow> string list option" where
  "from_path_list l =
     (let roots = filter (\<lambda>s. s \<noteq> []) (map trim (split_by (\<lambda>c. c = CHR '':'') l)) in
      if roots = [] then None else Some roots)"

definition skill_body :: "(string \<Rightarrow> string option) \<Rightarrow> string \<Rightarrow> string \<Rightarrow> string option" where
  "skill_body read name root =
     Option.bind (read (skill_path root name)) (\<lambda>text. option_filter (\<lambda>b. b \<noteq> []) (Some (trim (strip_frontmatter text))))"

fun first_some :: "('a \<Rightarrow> 'b option) \<Rightarrow> 'a list \<Rightarrow> 'b option" where
  "first_some f [] = None"
| "first_some f (x # xs) = (case f x of Some y \<Rightarrow> Some y | None \<Rightarrow> first_some f xs)"

definition dir_skill_resolve :: "(string \<Rightarrow> string option) \<Rightarrow> string list \<Rightarrow> string \<Rightarrow> string option" where
  "dir_skill_resolve read roots name =
     (if \<not> is_valid_skill_name name then None else first_some (skill_body read name) roots)"

definition resolve_section :: "(string \<Rightarrow> string option) option \<Rightarrow> string \<Rightarrow> string option" where
  "resolve_section resolver name =
     Option.bind resolver (\<lambda>r. map_option (skill_section name) (r name))"

section \<open>Prompt composition\<close>

datatype base_source = BaseAgent | BaseOrgPersona | BaseDefaultPersona | BaseBuiltIn

record prompt_sections =
  sec_base :: string
  sec_base_source :: base_source
  sec_greeting :: "string option"
  sec_workflow :: "string option"
  sec_skill :: "string option"
  sec_suggested_replies :: string
  sec_agent :: "agent_behavior_config option"
  sec_access :: access_context
  sec_session_authenticated :: bool
  sec_conversation_id :: string

fun opt_list :: "'a option \<Rightarrow> 'a list" where
  "opt_list None = []"
| "opt_list (Some a) = [a]"

definition default_sections :: "prompt_sections \<Rightarrow> string list" where
  "default_sections s =
     [sec_base s] @ opt_list (sec_greeting s) @ opt_list (sec_workflow s) @ opt_list (sec_skill s) @ [sec_suggested_replies s]"

definition join_sections :: "string list \<Rightarrow> string" where
  "join_sections ss = join_str (newline @ newline) (filter (\<lambda>s. trim s \<noteq> []) ss)"

definition prompt_render :: "(prompt_sections \<Rightarrow> string list) option \<Rightarrow> prompt_sections \<Rightarrow> string" where
  "prompt_render composer s =
     join_sections (case composer of Some c \<Rightarrow> c s | None \<Rightarrow> default_sections s)"

section \<open>First occurrences\<close>

lemma starts_with_prefix: "starts_with s p = prefix p s"
  unfolding starts_with_def prefix_def by (metis append_eq_conv_conj append_take_drop_id)

lemma split_once_str_first:
  "split_once_str p s = Some (a, b) \<Longrightarrow> s = a' @ p @ b' \<Longrightarrow> length a \<le> length a'"
proof (induction s arbitrary: a a')
  case (Cons c cs)
  show ?case
  proof (cases "starts_with (c # cs) p")
    case True
    with Cons.prems(1) have "a = []" by simp
    then show ?thesis by simp
  next
    case False
    with Cons.prems(1) obtain x where x: "split_once_str p cs = Some (x, b)" "a = c # x" by auto
    have "a' \<noteq> []" using False Cons.prems(2) by (auto simp: starts_with_prefix)
    then obtain y where "a' = c # y" "cs = y @ p @ b'" using Cons.prems(2) by (cases a') auto
    with Cons.IH [OF x(1)] x(2) show ?thesis by simp
  qed
qed (auto split: if_splits)

lemma split_once_str_None: "split_once_str p s = None \<Longrightarrow> s \<noteq> a @ p @ b"
proof (induction s arbitrary: a)
  case (Cons c cs)
  have no: "\<not> starts_with (c # cs) p" "split_once_str p cs = None" using Cons.prems by (auto split: if_splits)
  show ?case
  proof
    assume eq: "c # cs = a @ p @ b"
    then have "a \<noteq> []" using no(1) by (auto simp: starts_with_prefix)
    with eq obtain y where "cs = y @ p @ b" by (cases a) auto
    with Cons.IH [OF no(2)] show False by blast
  qed
qed (auto split: if_splits)

lemma split_once_str_unique:
  assumes "s = a @ p @ b" and "\<And>a' b'. s = a' @ p @ b' \<Longrightarrow> length a \<le> length a'"
  shows "split_once_str p s = Some (a, b)"
proof (cases "split_once_str p s")
  case None
  with assms(1) show ?thesis using split_once_str_None by blast
next
  case (Some ab)
  obtain x y where xy: "ab = (x, y)" by fastforce
  with Some have s: "s = x @ p @ y" by (simp add: split_once_str_Some)
  have "length x = length a"
    using split_once_str_first [OF Some [unfolded xy] assms(1)] assms(2) [OF s] by simp
  with s assms(1) have "x = a \<and> y = b" by auto
  with Some xy show ?thesis by simp
qed

text \<open>When nothing before the held-back text can be the start of the pattern, the search may start there.\<close>

definition clear_before :: "string \<Rightarrow> string \<Rightarrow> string \<Rightarrow> bool" where
  "clear_before p e h \<longleftrightarrow>
     split_once_str p (e @ h) = None \<and> (\<forall>t. suffix t (e @ h) \<longrightarrow> prefix t p \<longrightarrow> length t \<le> length h)"

lemma occurrence_after:
  assumes "clear_before p e h" and "e @ h @ x = a @ p @ b"
  shows "length e \<le> length a"
proof (rule ccontr)
  assume "\<not> length e \<le> length a"
  then have la: "length a < length e" by simp
  have "take (length a) e = a" "e = a @ drop (length a) e"
    using assms(2) la by (metis append_eq_append_conv_if less_imp_le_nat append_take_drop_id)+
  then obtain r where r: "e @ h = a @ r" "length r > length h"
    by (metis append_assoc append_take_drop_id la length_append length_drop less_add_same_cancel2 zero_less_diff)
  with assms(2) have rx: "r @ x = p @ b" by (metis append_assoc same_append_eq)
  show False
  proof (cases "length p \<le> length r")
    case True
    with rx obtain y where "r = p @ y" by (metis append_eq_append_conv2 append_Nil2 append_eq_append_conv_if append_take_drop_id)
    with r(1) assms(1) show False using split_once_str_None unfolding clear_before_def by blast
  next
    case False
    with rx have "prefix r p" by (metis linear prefix_def prefix_length_prefix)
    moreover have "suffix r (e @ h)" using r(1) by (simp add: suffix_def)
    ultimately show False using assms(1) r(2) unfolding clear_before_def by fastforce
  qed
qed

lemma split_once_after:
  assumes "clear_before p e h"
  shows "split_once_str p (e @ h @ x) = map_option (\<lambda>(a, b). (e @ a, b)) (split_once_str p (h @ x))"
proof (cases "split_once_str p (h @ x)")
  case None
  have "split_once_str p (e @ h @ x) = None"
  proof (cases "split_once_str p (e @ h @ x)")
    case (Some ab)
    obtain a b where ab: "e @ h @ x = a @ p @ b" using Some split_once_str_Some by (cases ab) blast
    with occurrence_after [OF assms] have "length e \<le> length a" by blast
    with ab obtain a' where "a = e @ a'" by (metis append_eq_append_conv_if append_take_drop_id)
    with ab have "h @ x = a' @ p @ b" by simp
    with None show ?thesis using split_once_str_None by blast
  qed
  with None show ?thesis by simp
next
  case (Some ab)
  obtain a b where ab: "ab = (a, b)" by fastforce
  have hx: "h @ x = a @ p @ b" using Some ab by (simp add: split_once_str_Some)
  have "split_once_str p (e @ h @ x) = Some (e @ a, b)"
  proof (rule split_once_str_unique)
    fix a' b' assume occ: "e @ h @ x = a' @ p @ b'"
    with occurrence_after [OF assms] have "length e \<le> length a'" by blast
    with occ obtain c where c: "a' = e @ c" by (metis append_eq_append_conv_if append_take_drop_id)
    with occ have "h @ x = c @ p @ b'" by simp
    from split_once_str_first [OF Some [unfolded ab] this] c show "length (e @ a) \<le> length a'" by simp
  qed (simp add: hx)
  with Some ab show ?thesis by simp
qed

lemma marker_suffix_from_spec:
  "n \<le> length s \<Longrightarrow> marker_suffix_from n s \<le> length s \<and>
   (\<forall>t. suffix t s \<longrightarrow> prefix t MARKER_OPEN \<longrightarrow> length t \<le> n \<longrightarrow> length t \<le> length s - marker_suffix_from n s)"
proof (induction n)
  case (Suc n)
  show ?case
  proof (cases "starts_with MARKER_OPEN (drop (length s - Suc n) s)")
    case True
    then show ?thesis using Suc.prems by auto
  next
    case False
    have "length t \<le> n" if "suffix t s" "prefix t MARKER_OPEN" "length t \<le> Suc n" for t
    proof (rule ccontr)
      assume "\<not> length t \<le> n"
      with that have "t = drop (length s - Suc n) s" by (auto simp: suffix_def)
      with that(2) False show False by (simp add: starts_with_prefix)
    qed
    with Suc False show ?thesis by auto
  qed
qed simp

lemma clear_before_step:
  assumes "clear_before MARKER_OPEN e h" and "split_once_str MARKER_OPEN (h @ d) = None"
  shows "clear_before MARKER_OPEN (e @ take (longest_marker_prefix_suffix (h @ d)) (h @ d))
           (drop (longest_marker_prefix_suffix (h @ d)) (h @ d))"
proof -
  let ?s = "h @ d" and ?n = "min (length MARKER_OPEN) (length (h @ d))"
  let ?k = "longest_marker_prefix_suffix ?s"
  have spec: "?k \<le> length ?s" "suffix t ?s \<Longrightarrow> prefix t MARKER_OPEN \<Longrightarrow> length t \<le> ?n \<Longrightarrow> length t \<le> length ?s - ?k" for t
    using marker_suffix_from_spec [of ?n ?s] unfolding longest_marker_prefix_suffix_def by auto
  have "length t \<le> length ?s - ?k" if t: "suffix t (e @ ?s)" "prefix t MARKER_OPEN" for t
  proof (cases "length t \<le> length ?s")
    case True
    with t(1) have "suffix t ?s" by (metis suffix_appendI suffix_length_suffix suffixI)
    with True t(2) spec(2) show ?thesis by (simp add: prefix_length_le)
  next
    case False
    from t(1) obtain z where z: "e @ h @ d = z @ t" by (auto simp: suffix_def)
    then have "length z + length t = length e + length h + length d" by (metis length_append add.assoc)
    with False have "length z \<le> length (e @ h)" by simp
    then obtain t1 where t1: "e @ h = z @ t1" "t = t1 @ d"
      using z by (metis append_assoc append_eq_append_conv_if append_take_drop_id)
    then have "suffix t1 (e @ h)" "prefix t1 MARKER_OPEN" using t(2) by (auto simp: suffix_def dest: append_prefixD)
    with assms(1) have "length t1 \<le> length h" unfolding clear_before_def by blast
    with t1(2) False show ?thesis by simp
  qed
  moreover have "split_once_str MARKER_OPEN (e @ ?s) = None"
    using split_once_after [OF assms(1), of d] assms(2) by simp
  ultimately show ?thesis
    unfolding clear_before_def append.assoc [of e] append_take_drop_id length_drop by blast
qed

text \<open>The text a client sees: every delta through the hold-back, then the flush at the end.\<close>

fun suppress_stream :: "string list \<Rightarrow> marker_suppressor \<Rightarrow> string" where
  "suppress_stream [] m = suppressor_finish m"
| "suppress_stream (d # ds) m = (case suppressor_push d m of (out, m') \<Rightarrow> out @ suppress_stream ds m')"

lemma suppress_stream_suppressing: "suppressing m \<Longrightarrow> suppress_stream ds m = []"
  by (induction ds) (auto simp: suppressor_finish_def suppressor_push_def)

definition before_marker :: "string \<Rightarrow> string" where
  "before_marker s = (case split_once_str MARKER_OPEN s of Some (a, _) \<Rightarrow> a | None \<Rightarrow> s)"

lemma suppress_stream_from:
  "clear_before MARKER_OPEN e h \<Longrightarrow> e @ suppress_stream ds \<lparr>held = h, suppressing = False\<rparr> = before_marker (e @ h @ concat ds)"
proof (induction ds arbitrary: e h)
  case Nil
  then show ?case by (simp add: before_marker_def suppressor_finish_def clear_before_def)
next
  case (Cons d ds)
  show ?case
  proof (cases "split_once_str MARKER_OPEN (h @ d)")
    case (Some ab)
    obtain a b where ab: "ab = (a, b)" by fastforce
    have hd: "h @ d = a @ MARKER_OPEN @ b" using Some ab by (simp add: split_once_str_Some)
    have "split_once_str MARKER_OPEN ((h @ d) @ concat ds) = Some (a, b @ concat ds)"
    proof (rule split_once_str_unique)
      fix a' b' assume occ: "(h @ d) @ concat ds = a' @ MARKER_OPEN @ b'"
      show "length a \<le> length a'"
      proof (rule ccontr)
        assume "\<not> length a \<le> length a'"
        then have "length a' + length MARKER_OPEN \<le> length (h @ d)" using hd by simp
        moreover have "prefix (a' @ MARKER_OPEN) ((h @ d) @ concat ds)" unfolding occ by simp
        moreover have "prefix (h @ d) ((h @ d) @ concat ds)" by (rule prefixI) (rule refl)
        ultimately have "prefix (a' @ MARKER_OPEN) (h @ d)" by (auto intro: prefix_length_prefix simp del: append_assoc)
        then obtain y where "h @ d = a' @ MARKER_OPEN @ y" by (auto simp: prefix_def simp del: append_assoc) simp
        from split_once_str_first [OF Some [unfolded ab] this] \<open>\<not> length a \<le> length a'\<close> show False by simp
      qed
    qed (simp add: hd)
    then have "split_once_str MARKER_OPEN (e @ h @ d @ concat ds) = Some (e @ a, b @ concat ds)"
      using split_once_after [OF Cons.prems, of "d @ concat ds"] by simp
    then have "before_marker (e @ h @ concat (d # ds)) = e @ a" by (simp add: before_marker_def)
    moreover have "suppress_stream (d # ds) \<lparr>held = h, suppressing = False\<rparr> = a"
      using Some ab by (simp add: suppressor_push_def suppress_stream_suppressing)
    ultimately show ?thesis by simp
  next
    case None
    let ?k = "longest_marker_prefix_suffix (h @ d)"
    from Cons.IH [OF clear_before_step [OF Cons.prems None]]
    have "(e @ take ?k (h @ d)) @ suppress_stream ds \<lparr>held = drop ?k (h @ d), suppressing = False\<rparr> =
        before_marker (e @ h @ concat (d # ds))" by (metis append.assoc append_take_drop_id concat.simps(2))
    with None show ?thesis by (simp add: suppressor_push_def Let_def)
  qed
qed

section \<open>Properties\<close>

text \<open>The streaming hold-back is exact: however the reply is cut into tokens, what reaches the client is
  the reply up to the first marker, the whole reply when there is none, and no character is lost, repeated
  or shown of a marker that arrives in pieces.\<close>

theorem suppressor_exact:
  "suppress_stream deltas suppressor_new =
     (case split_once_str MARKER_OPEN (concat deltas) of Some (before, _) \<Rightarrow> before | None \<Rightarrow> concat deltas)"
proof -
  have "clear_before MARKER_OPEN [] []" by (simp add: clear_before_def MARKER_OPEN_def)
  from suppress_stream_from [OF this, of deltas] show ?thesis
    by (simp add: suppressor_new_def before_marker_def)
qed

lemma filter_map_members: "x \<in> set (filter_map f xs) \<Longrightarrow> \<exists>y. y \<in> set xs \<and> f y = Some x"
  by (induction xs) (auto split: option.splits)

lemma suggestion_item_nonempty: "suggestion_item v = Some t \<Longrightarrow> t \<noteq> []"
  by (cases v) (auto split: if_splits)

lemma markdown_item_nonempty: "markdown_item l = Some t \<Longrightarrow> t \<noteq> []"
  unfolding markdown_item_def Let_def by (simp add: option_filter_Some)

lemma all_items_nonempty: "all_items ls = Some its \<Longrightarrow> t \<in> set its \<Longrightarrow> t \<noteq> []"
  by (induction ls arbitrary: its) (auto split: if_splits bind_splits dest: markdown_item_nonempty)

text \<open>However the model writes its suggestions, as a marker with a JSON array or as a trailing list, the client
  gets at most four, none of them blank.\<close>

theorem suggestions_bounded:
  "length (snd (extract_suggested_replies from_str reply_text)) \<le> 4 \<and>
   [] \<notin> set (snd (extract_suggested_replies from_str reply_text))"
proof -
  have "length its \<le> 4 \<and> [] \<notin> set its" if "extract_markdown_suggested_replies reply_text = Some (clean, its)" for clean its
    using that unfolding extract_markdown_suggested_replies_def Let_def MAX_SUGGESTIONS_def
    by (auto split: bind_splits if_splits dest!: in_set_takeD dest: all_items_nonempty)
  moreover have "[] \<notin> set (take n (filter_map suggestion_item vs))" for n vs
    by (auto dest!: in_set_takeD filter_map_members dest: suggestion_item_nonempty)
  ultimately show ?thesis
    unfolding extract_suggested_replies_def
    by (auto simp: MAX_SUGGESTIONS_def Let_def split: option.splits prod.splits)
qed

lemma skill_name_chars:
  "is_valid_skill_name name \<Longrightarrow> c \<in> set name \<Longrightarrow> is_ascii_alphanumeric c \<or> c = CHR ''-'' \<or> c = CHR ''_''"
  by (auto simp: is_valid_skill_name_def list_all_iff)

lemma skill_name_confined:
  assumes "is_valid_skill_name name"
  shows "set name \<inter> {CHR ''/'', CHR 0x5C, CHR ''.'', CHR 0x00} = {}"
proof -
  have "\<not> is_ascii_alphanumeric c" if "c \<in> {CHR ''/'', CHR 0x5C, CHR ''.'', CHR 0x00}" for c
    using that by (auto simp: is_ascii_alphanumeric_def Let_def)
  with skill_name_chars [OF assms] show ?thesis by auto
qed

lemma first_some_cong: "(\<And>x. x \<in> set xs \<Longrightarrow> f x = g x) \<Longrightarrow> first_some f xs = first_some g xs"
  by (induction xs) (auto split: option.splits)

text \<open>A skill is read from nowhere but \<open><root>/<name>/SKILL.md\<close>, with a name that cannot leave the root: two file
  systems that agree on those files give the same skill, and no accepted name holds a separator, a dot or a NUL.\<close>

theorem skill_resolution_confined:
  assumes "\<And>root. root \<in> set roots \<Longrightarrow> set name \<inter> {CHR ''/'', CHR 0x5C, CHR ''.'', CHR 0x00} = {} \<Longrightarrow>
             read (skill_path root name) = read' (skill_path root name)"
  shows "dir_skill_resolve read roots name = dir_skill_resolve read' roots name"
proof (cases "is_valid_skill_name name")
  case True
  have "skill_body read name r = skill_body read' name r" if "r \<in> set roots" for r
  proof -
    have "read (skill_path r name) = read' (skill_path r name)"
      by (rule assms [OF that skill_name_confined [OF True]])
    then show ?thesis by (simp only: skill_body_def)
  qed
  then have "first_some (skill_body read name) roots = first_some (skill_body read' name) roots"
    by (rule first_some_cong)
  then show ?thesis by (simp only: dir_skill_resolve_def)
qed (simp add: dir_skill_resolve_def)

definition demo_skills :: "string \<Rightarrow> string option" where
  "demo_skills p = (if p = ''/skills/review/SKILL.md'' then Some ''Check it.''
                    else if p = ''/etc/review/SKILL.md'' then Some ''Secret.'' else None)"

theorem skill_resolution_confined_witness:
  "dir_skill_resolve demo_skills [''/skills''] ''review'' =
     dir_skill_resolve (demo_skills(''/etc/review/SKILL.md'' := None)) [''/skills''] ''review''"
  by (rule skill_resolution_confined) (simp add: skill_path_def path_join_def)

text \<open>A header that shares its line with prose is taken for a header all the same, and the prose is dropped.\<close>

lemma header_line_prose_dropped:
  "extract_markdown_suggested_replies (''Ok. Suggested replies: see below'' @ newline @ ''- Yes'') = Some (''Ok.'', [''Yes''])"
  by code_simp

text \<open>A closing fence that ends the file is not seen, and the frontmatter becomes the body.\<close>

lemma final_fence_missed:
  "strip_frontmatter (''---'' @ newline @ ''a: b'' @ newline @ ''---'') = ''---'' @ newline @ ''a: b'' @ newline @ ''---''"
  by code_simp

end
