(* ===== verification/Turns.thy ===== *)
theory Turns
  imports Retrieval Storage
begin

text \<open>
  One knowledge-grounded turn, \<open>rust/smooth-operator/src/runtime.rs\<close>, and the history replay and message
  records of the service runner, \<open>rust/smooth-operator-server/src/runner.rs\<close>: which reader a turn reads
  through, the sources it cites, the messages it loads and writes.

  The engine's agent loop is third-party code. A turn sees of it the searches the agent issued, in
  order, and its reply or failure; both are arbitrary functions of the replayed history and the user's
  message. The message ids and the clock readings are arguments. The fields that only configure the
  engine (the language model, its test double, the iteration limit) and the log of the engine's events,
  which the turn hands through, are left out of the records.
\<close>

section \<open>Citations\<close>

definition MAX_CITATIONS :: nat where "MAX_CITATIONS = 8"
definition AUTO_CONTEXT_LIMIT :: nat where "AUTO_CONTEXT_LIMIT = 3"
definition MAX_PRIOR_MESSAGES :: nat where "MAX_PRIOR_MESSAGES = 50"

text \<open>\<open>filter(|r| seen.insert(r.document_id.clone()))\<close>\<close>

fun first_by_id :: "string set \<Rightarrow> knowledge_result list \<Rightarrow> knowledge_result list" where
  "first_by_id seen [] = []"
| "first_by_id seen (r # rs) =
     (if document_id r \<in> seen then first_by_id seen rs else r # first_by_id (insert (document_id r) seen) rs)"

definition collect_citations :: "string \<Rightarrow> knowledge_result list \<Rightarrow> knowledge_result list \<Rightarrow> citation list" where
  "collect_citations ellipsis auto tool =
     map (from_knowledge_result ellipsis) (take MAX_CITATIONS (first_by_id {} (auto @ tool)))"

section \<open>The reader of a turn\<close>

type_synonym turn_kb_error = "curated_error + kb_error"

record 'kb runtime_access =
  ra_store :: "'kb acl_store"
  ra_context :: access_context

record 'kb runtime_curation =
  rc_store :: "'kb curated_store"
  rc_context :: access_context
  rc_filter :: retrieval_filter

record 'kb chat_runtime =
  rt_storage_kb :: "'kb acl_store"
  rt_access :: "'kb runtime_access option"
  rt_curation :: "'kb runtime_curation option"

definition runtime_new :: "'kb acl_store \<Rightarrow> 'kb chat_runtime" where
  "runtime_new kb = \<lparr>rt_storage_kb = kb, rt_access = None, rt_curation = None\<rparr>"

definition runtime_with_curation ::
  "'kb chat_runtime \<Rightarrow> 'kb curated_store \<Rightarrow> access_context \<Rightarrow> retrieval_filter \<Rightarrow> 'kb chat_runtime" where
  "runtime_with_curation rt st c f = rt\<lparr>rt_curation := Some \<lparr>rc_store = st, rc_context = c, rc_filter = f\<rparr>\<rparr>"

definition runtime_with_retrieval_filter :: "'kb chat_runtime \<Rightarrow> retrieval_filter \<Rightarrow> 'kb chat_runtime" where
  "runtime_with_retrieval_filter rt f = rt\<lparr>rt_curation := map_option (\<lambda>c. c\<lparr>rc_filter := f\<rparr>) (rt_curation rt)\<rparr>"

definition runtime_with_access_control :: "'kb chat_runtime \<Rightarrow> 'kb acl_store \<Rightarrow> access_context \<Rightarrow> 'kb chat_runtime" where
  "runtime_with_access_control rt st c = rt\<lparr>rt_access := Some \<lparr>ra_store = st, ra_context = c\<rparr>\<rparr>"

definition map_error :: "('e \<Rightarrow> 'f) \<Rightarrow> 'e + 'a \<Rightarrow> 'f + 'a" where
  "map_error f r = (case r of Inl e \<Rightarrow> Inl (f e) | Inr a \<Rightarrow> Inr a)"

text \<open>Curation wins over plain access control; without either, the storage adapter's own handle, which
  is the unfiltered ingest handle, is read.\<close>

definition read_knowledge ::
  "(32 word \<Rightarrow> 32 word \<Rightarrow> 32 word) \<Rightarrow> ('kb \<Rightarrow> string \<Rightarrow> nat \<Rightarrow> string + knowledge_result list) \<Rightarrow> 'kb chat_runtime
    \<Rightarrow> string \<Rightarrow> nat \<Rightarrow> turn_kb_error + knowledge_result list" where
  "read_knowledge f32_mul kb_query rt q n =
     (case rt_curation rt of
        Some cur \<Rightarrow> map_error Inl (curated_query f32_mul kb_query (rc_store cur) (rc_filter cur) (rc_context cur) q n)
      | None \<Rightarrow>
          (case rt_access rt of
             Some ac \<Rightarrow> map_error Inr (reader_query kb_query (ra_store ac) (ra_context ac) q n)
           | None \<Rightarrow> map_error Inr (ingest_handle_query kb_query (rt_storage_kb rt) q n)))"

section \<open>Messages\<close>

definition new_message :: "string \<Rightarrow> int \<Rightarrow> string \<Rightarrow> direction \<Rightarrow> message_content \<Rightarrow> message" where
  "new_message i now c d content =
     \<lparr>msg_id = i, msg_external_id = None, msg_organization_id = None, msg_conversation_id = Some c,
      msg_direction = d, msg_content = content, msg_from = None, msg_to = None, msg_metadata_json = None,
      msg_analytics_json = None, msg_created_at = now, msg_updated_at = None\<rparr>"

text \<open>The runtime persists text; the runner persists text and images.\<close>

definition persist_message ::
  "string \<Rightarrow> int \<Rightarrow> string \<Rightarrow> direction \<Rightarrow> string \<Rightarrow> tables \<Rightarrow> storage_error + message \<times> tables" where
  "persist_message i now c d text t = append_message (new_message i now c d (content_from_text text)) t"

definition persist_message_images ::
  "string \<Rightarrow> int \<Rightarrow> string \<Rightarrow> direction \<Rightarrow> string \<Rightarrow> string list \<Rightarrow> tables \<Rightarrow> storage_error + message \<times> tables" where
  "persist_message_images i now c d text urls t =
     append_message (new_message i now c d
       (if urls = [] then content_from_text text else content_from_text_and_images text urls)) t"

definition TURN_ERROR_METADATA_KEY :: string where "TURN_ERROR_METADATA_KEY = ''turnError''"

definition is_turn_error :: "message \<Rightarrow> bool" where
  "is_turn_error m =
     (case msg_metadata_json m of None \<Rightarrow> False | Some meta \<Rightarrow> jget meta TURN_ERROR_METADATA_KEY \<noteq> None)"

definition turn_error_message :: "string \<Rightarrow> int \<Rightarrow> string \<Rightarrow> string \<Rightarrow> string \<Rightarrow> string \<Rightarrow> message" where
  "turn_error_message i now c request_id code detail =
     (new_message i now c Outbound (content_from_text (''This reply failed before it finished ('' @ detail @ '').'')))
       \<lparr>msg_metadata_json :=
          Some (JObj [(TURN_ERROR_METADATA_KEY, JObj [(''code'', JStr code), (''requestId'', JStr request_id)])])\<rparr>"

definition persist_turn_error ::
  "string \<Rightarrow> int \<Rightarrow> string \<Rightarrow> string \<Rightarrow> string \<Rightarrow> string \<Rightarrow> tables \<Rightarrow> storage_error + message \<times> tables" where
  "persist_turn_error i now c request_id code detail t =
     append_message (turn_error_message i now c request_id code detail) t"

section \<open>History replay\<close>

datatype role = RoleUser | RoleAssistant

record engine_message =
  em_id :: string
  em_role :: role
  em_content :: string
  em_images :: "string list"
  em_timestamp :: int

definition role_of :: "direction \<Rightarrow> role" where
  "role_of d = (case d of Inbound \<Rightarrow> RoleUser | Outbound \<Rightarrow> RoleAssistant)"

definition raw_text :: "message \<Rightarrow> string" where
  "raw_text m = unwrap_or (option_or (content_flat (msg_content m)) (find_map item_text (items (msg_content m)))) []"

definition engine_of :: "message \<Rightarrow> string \<Rightarrow> string list \<Rightarrow> engine_message" where
  "engine_of m text urls =
     \<lparr>em_id = msg_id m, em_role = role_of (msg_direction m), em_content = text, em_images = urls,
      em_timestamp = msg_created_at m\<rparr>"

definition prior_message :: "message \<Rightarrow> engine_message option" where
  "prior_message m = (let text = raw_text m in if text = [] then None else Some (engine_of m text []))"

definition load_prior_messages :: "tables \<Rightarrow> string \<Rightarrow> storage_error + engine_message list" where
  "load_prior_messages t c =
     bind_result (list_messages_by_conversation t (message_query_new c MAX_PRIOR_MESSAGES)) (\<lambda>page.
       Inr (filter_map prior_message (page_messages page)))"

definition MAX_REPLAYED_IMAGE_MESSAGES :: nat where "MAX_REPLAYED_IMAGE_MESSAGES = 3"

definition image_urls :: "message \<Rightarrow> string list" where
  "image_urls m =
     (if msg_direction m \<noteq> Inbound then []
      else filter (\<lambda>u. u \<noteq> [])
             (filter_map item_url (filter (\<lambda>it. item_type it = ''image'') (items (msg_content m)))))"

definition keep_images_from :: "message list \<Rightarrow> nat list" where
  "keep_images_from ms =
     take MAX_REPLAYED_IMAGE_MESSAGES
       (rev (map fst (filter (\<lambda>(i, m). image_urls m \<noteq> []) (enumerate 0 ms))))"

definition omitted_note :: "nat \<Rightarrow> string" where
  "omitted_note n = (if n = 1 then ''[image omitted]'' else ''['' @ show_nat n @ '' images omitted]'')"

definition replay_message :: "nat list \<Rightarrow> nat \<times> message \<Rightarrow> engine_message option" where
  "replay_message keep im =
     (case im of (i, m) \<Rightarrow>
        if is_turn_error m then None
        else
          let urls = image_urls m;
              (text, images) =
                (if urls = [] then (raw_text m, [])
                 else if i \<in> set keep then (raw_text m, urls)
                 else
                   let note = omitted_note (length urls)
                   in (if trim (raw_text m) = [] then note else raw_text m @ newline @ note, []))
          in if text = [] \<and> images = [] then None else Some (engine_of m text images))"

definition prior_messages_for_replay :: "message list \<Rightarrow> engine_message list" where
  "prior_messages_for_replay ms = filter_map (replay_message (keep_images_from ms)) (enumerate 0 ms)"

definition load_prior_messages_runner :: "tables \<Rightarrow> string \<Rightarrow> storage_error + engine_message list" where
  "load_prior_messages_runner t c =
     bind_result (list_messages_by_conversation t (message_query_new c MAX_PRIOR_MESSAGES)) (\<lambda>page.
       Inr (prior_messages_for_replay (page_messages page)))"

section \<open>A turn\<close>

definition run_searches :: "json list \<Rightarrow> 'e search_tool_state \<Rightarrow> 'e search_tool_state" where
  "run_searches calls t = fold (\<lambda>a t. snd (search_execute a t)) calls t"

record agent_run =
  searches :: "engine_message list \<Rightarrow> string \<Rightarrow> json list"
  answer :: "engine_message list \<Rightarrow> string \<Rightarrow> string + string"

datatype turn_error = StorageFailed storage_error | AgentFailed string

record turn_outcome =
  reply :: string
  citations :: "citation list"

record turn_stamps =
  inbound_id :: string
  inbound_at :: int
  outbound_id :: string
  outbound_at :: int

definition run_turn_inner ::
  "string \<Rightarrow> (string \<Rightarrow> nat \<Rightarrow> turn_kb_error + knowledge_result list) \<Rightarrow> agent_run \<Rightarrow> turn_stamps \<Rightarrow> string \<Rightarrow> string
    \<Rightarrow> tables \<Rightarrow> (turn_error + turn_outcome) \<times> tables" where
  "run_turn_inner ellipsis kb agent stamps c user_message t =
     (let auto_sources = (case kb user_message AUTO_CONTEXT_LIMIT of Inr rs \<Rightarrow> rs | Inl _ \<Rightarrow> []) in
      case load_prior_messages t c of
        Inl e \<Rightarrow> (Inl (StorageFailed e), t)
      | Inr prior \<Rightarrow>
          (case persist_message (inbound_id stamps) (inbound_at stamps) c Inbound user_message t of
             Inl e \<Rightarrow> (Inl (StorageFailed e), t)
           | Inr (_, t1) \<Rightarrow>
               let tool = run_searches (searches agent prior user_message)
                            (with_result_sink (tool_new kb) \<lparr>sink_results = [], sink_poisoned = False\<rparr>);
                   tool_sources = (case tool_sink tool of Some s \<Rightarrow> sink_results s | None \<Rightarrow> [])
               in case answer agent prior user_message of
                    Inl e \<Rightarrow> (Inl (AgentFailed e), t1)
                  | Inr text \<Rightarrow>
                      let done = \<lparr>reply = text, citations = collect_citations ellipsis auto_sources tool_sources\<rparr>
                      in if text = [] then (Inr done, t1)
                         else case persist_message (outbound_id stamps) (outbound_at stamps) c Outbound text t1 of
                                Inl e \<Rightarrow> (Inl (StorageFailed e), t1)
                              | Inr (_, t2) \<Rightarrow> (Inr done, t2)))"

section \<open>Lemmas\<close>

lemma first_by_id_props:
  "distinct (map document_id (first_by_id seen rs)) \<and> set (first_by_id seen rs) \<subseteq> set rs \<and>
   document_id ` set (first_by_id seen rs) \<inter> seen = {}"
  by (induction seen rs rule: first_by_id.induct) auto

lemma collect_citations_props:
  "distinct (map cite_id (collect_citations el auto tool)) \<and> length (collect_citations el auto tool) \<le> 8 \<and>
   cite_id ` set (collect_citations el auto tool) \<subseteq> document_id ` (set auto \<union> set tool)"
proof -
  let ?rs = "take MAX_CITATIONS (first_by_id {} (auto @ tool))"
  have ids: "map cite_id (collect_citations el auto tool) = map document_id ?rs"
    by (simp add: collect_citations_def from_knowledge_result_def comp_def)
  have "distinct (map document_id ?rs)" using first_by_id_props [of "{}"] by (simp add: take_map [symmetric])
  moreover have "set ?rs \<subseteq> set auto \<union> set tool"
    using first_by_id_props [of "{}" "auto @ tool"] by (auto dest!: in_set_takeD)
  moreover have "cite_id ` set (collect_citations el auto tool) = document_id ` set ?rs"
    by (metis ids set_map)
  ultimately show ?thesis
    unfolding ids by (auto simp: collect_citations_def MAX_CITATIONS_def)
qed

text \<open>A turn over a bound reader cites only what the reader lets its requester see.\<close>

context bound_reader
begin

lemma run_searches_sink:
  assumes "knowledge t = query" "reranker_ok (tool_reranker t)" "tool_sink t = Some s"
    and "list_all (\<lambda>r. visible (document_id r)) (sink_results s)"
  shows "\<exists>s'. tool_sink (run_searches calls t) = Some s' \<and> list_all (\<lambda>r. visible (document_id r)) (sink_results s')"
  using assms
proof (induction calls arbitrary: t s)
  case (Cons a calls)
  obtain r t' where run: "search_execute a t = (r, t')" by (cases "search_execute a t")
  have frame: "knowledge t' = query" "reranker_ok (tool_reranker t')"
    using run Cons.prems by (auto simp: search_execute_def Let_def split: option.splits sum.splits)
  have "\<exists>s'. tool_sink t' = Some s' \<and> list_all (\<lambda>r. visible (document_id r)) (sink_results s')"
  proof (cases r)
    case (Inl e)
    with run Cons.prems show ?thesis by (auto simp: search_execute_def Let_def split: option.splits sum.splits)
  next
    case (Inr out)
    with run have ok: "search_execute a t = (Inr out, t')" by simp
    from search_visible [OF ok Cons.prems(1,2)] search_sink [OF ok] Cons.prems(3,4) show ?thesis
      by (auto simp: sink_extend_def)
  qed
  with Cons.IH [OF frame] run show ?case by (auto simp: run_searches_def)
qed (auto simp: run_searches_def)

end

lemma first_page_prior:
  assumes "distinct (map msg_id (filter_map message_op ops))"
  shows "load_prior_messages (storage_run b ops tables_default) c =
           Inr (filter_map prior_message (take 50 (filter_map (appended c) ops)))"
    and "load_prior_messages_runner (storage_run b ops tables_default) c =
           Inr (prior_messages_for_replay (take 50 (filter_map (appended c) ops)))"
  using first_page [OF assms, of b c 50]
  by (auto simp: load_prior_messages_def load_prior_messages_runner_def MAX_PRIOR_MESSAGES_def)

lemma keep_images_bound: "length (keep_images_from ms) \<le> 3"
  by (simp add: keep_images_from_def MAX_REPLAYED_IMAGE_MESSAGES_def)

lemma mapped_reader: "bound_reader query visible \<Longrightarrow> bound_reader (\<lambda>q n. map_error f (query q n)) visible"
  by (auto simp: bound_reader_def map_error_def split: sum.splits)

text \<open>What the reader of a turn shows its requester, when the turn has one.\<close>

definition turn_visible :: "'kb chat_runtime \<Rightarrow> string \<Rightarrow> bool" where
  "turn_visible rt d =
     (case rt_curation rt of
        Some cur \<Rightarrow> curated_visible (rc_store cur) (rc_filter cur) (rc_context cur) d
      | None \<Rightarrow> (case rt_access rt of Some ac \<Rightarrow> entitled (acls (ra_store ac)) (ra_context ac) d | None \<Rightarrow> True))"

lemma read_knowledge_bound:
  assumes "rt_curation rt \<noteq> None \<or> rt_access rt \<noteq> None"
  shows "bound_reader (read_knowledge f32_mul kb_query rt) (turn_visible rt)"
proof (cases "rt_curation rt")
  case (Some cur)
  from mapped_reader [OF curated_reader.bound_reader_axioms, of Inl f32_mul kb_query "rc_store cur" "rc_filter cur" "rc_context cur"]
  show ?thesis by (simp add: read_knowledge_def [abs_def] turn_visible_def [abs_def] Some)
next
  case None
  with assms obtain ac where ac: "rt_access rt = Some ac" by auto
  from mapped_reader [OF acl_reader.bound_reader_axioms, of Inr kb_query "ra_store ac" "ra_context ac"]
  show ?thesis by (simp add: read_knowledge_def [abs_def] turn_visible_def [abs_def] None ac)
qed

lemma run_turn_sources:
  assumes "run_turn_inner el kb agent stamps c msg t = (Inr out, t')"
  obtains auto prior where
    "citations out = collect_citations el auto
       (case tool_sink (run_searches (searches agent prior msg)
          (with_result_sink (tool_new kb) \<lparr>sink_results = [], sink_poisoned = False\<rparr>)) of Some s \<Rightarrow> sink_results s | None \<Rightarrow> [])"
    "auto = [] \<or> kb msg 3 = Inr auto"
proof -
  let ?auto = "case kb msg AUTO_CONTEXT_LIMIT of Inr rs \<Rightarrow> rs | Inl _ \<Rightarrow> []"
  from assms obtain prior where
    "citations out = collect_citations el ?auto
       (case tool_sink (run_searches (searches agent prior msg)
          (with_result_sink (tool_new kb) \<lparr>sink_results = [], sink_poisoned = False\<rparr>)) of Some s \<Rightarrow> sink_results s | None \<Rightarrow> [])"
    unfolding run_turn_inner_def Let_def by (auto split: sum.splits prod.splits if_splits)
  then show thesis by (rule that) (simp add: AUTO_CONTEXT_LIMIT_def split: sum.split)
qed

section \<open>Properties\<close>

text \<open>A turn cites only what its requester may see: with access control or curation configured, every
  citation of a turn, from the injected context or from the agent's own searches, is of a document
  visible to the requester; citations are distinct and at most eight.\<close>

theorem turn_citations_visible:
  assumes run: "run_turn_inner el (read_knowledge f32_mul kb_query rt) agent stamps c msg t = (Inr out, t')"
    and scoped: "rt_curation rt \<noteq> None \<or> rt_access rt \<noteq> None"
  shows "list_all (turn_visible rt) (map cite_id (citations out)) \<and> distinct (map cite_id (citations out)) \<and>
         length (citations out) \<le> 8"
proof -
  let ?kb = "read_knowledge f32_mul kb_query rt"
  note reader = read_knowledge_bound [OF scoped, of f32_mul kb_query]
  let ?tool = "with_result_sink (tool_new ?kb) \<lparr>sink_results = [], sink_poisoned = False\<rparr>"
  from run obtain auto prior where
    cites: "citations out = collect_citations el auto
       (case tool_sink (run_searches (searches agent prior msg) ?tool) of Some s \<Rightarrow> sink_results s | None \<Rightarrow> [])" and
    auto: "auto = [] \<or> ?kb msg 3 = Inr auto" by (rule run_turn_sources)
  obtain s where s: "tool_sink (run_searches (searches agent prior msg) ?tool) = Some s"
    "list_all (\<lambda>r. turn_visible rt (document_id r)) (sink_results s)"
    using bound_reader.run_searches_sink [OF reader, where t = ?tool and calls = "searches agent prior msg"
        and s = "\<lparr>sink_results = [], sink_poisoned = False\<rparr>"]
    by (auto simp: with_result_sink_def tool_new_def reranker_ok_def)
  note props = collect_citations_props [of el auto "sink_results s"]
  have vis: "turn_visible rt (document_id r)" if "r \<in> set auto \<union> set (sink_results s)" for r
  proof (cases "r \<in> set auto")
    case True
    then have "?kb msg 3 = Inr auto" using auto by (cases auto) auto
    from bound_reader.query_sound [OF reader this True] show ?thesis .
  next
    case False
    with that s(2) show ?thesis by (simp add: list_all_iff)
  qed
  have "list_all (turn_visible rt) (map cite_id (collect_citations el auto (sink_results s)))"
    unfolding list_all_iff set_map
  proof
    fix i
    assume "i \<in> cite_id ` set (collect_citations el auto (sink_results s))"
    then have "i \<in> document_id ` (set auto \<union> set (sink_results s))"
      by (rule subsetD [OF props [THEN conjunct2, THEN conjunct2]])
    then show "turn_visible rt i" using vis by (elim imageE) simp
  qed
  with props show ?thesis unfolding cites s(1) by simp
qed

text \<open>What a turn remembers: both history loaders replay the oldest fifty messages of a conversation,
  so once a conversation is longer, no later message reaches the model again.\<close>

theorem replay_is_oldest_fifty:
  assumes "distinct (map msg_id (filter_map message_op ops))"
  shows "load_prior_messages (storage_run b ops tables_default) c =
           Inr (filter_map prior_message (take 50 (filter_map (appended c) ops))) \<and>
         load_prior_messages_runner (storage_run b ops tables_default) c =
           Inr (prior_messages_for_replay (take 50 (filter_map (appended c) ops)))"
  using first_page_prior [OF assms] by blast

section \<open>Witnesses\<close>

definition demo_runtime :: "string list chat_runtime" where
  "demo_runtime = runtime_with_access_control (runtime_new (acl_store_new [])) (acl_store_new [''a'', ''b'']) access_anonymous"

definition demo_agent :: agent_run where
  "demo_agent = \<lparr>searches = (\<lambda>_ _. [JObj [(''query'', JStr ''q'')]]), answer = (\<lambda>_ _. Inr ''ok'')\<rparr>"

definition demo_stamps :: turn_stamps where
  "demo_stamps = \<lparr>inbound_id = ''i'', inbound_at = 1, outbound_id = ''o'', outbound_at = 2\<rparr>"

lemma demo_turn_ok:
  "\<exists>out t'. run_turn_inner [] (read_knowledge (\<lambda>x y. x) list_kb_query demo_runtime) demo_agent demo_stamps ''c'' ''hi'' tables_default
     = (Inr out, t') \<and> map cite_id (citations out) = [''a'', ''b'']"
  by (simp add: run_turn_inner_def load_prior_messages_def list_messages_by_conversation_def locked_def tables_default_def
      persist_message_def append_message_def demo_agent_def demo_runtime_def runtime_with_access_control_def runtime_new_def
      read_knowledge_def map_error_def list_kb_defs run_searches_def search_execute_def with_result_sink_def tool_new_def
      json_simps search_limit_def DEFAULT_LIMIT_def apply_optional_rerank_def sink_extend_def collect_citations_def
      from_knowledge_result_def MAX_CITATIONS_def AUTO_CONTEXT_LIMIT_def Let_def new_message_def)

theorem turn_citations_visible_witness:
  "list_all (turn_visible demo_runtime) [''a'', ''b'']"
proof -
  obtain out t' where
    run: "run_turn_inner [] (read_knowledge (\<lambda>x y. x) list_kb_query demo_runtime) demo_agent demo_stamps ''c'' ''hi'' tables_default
      = (Inr out, t')" and ids: "map cite_id (citations out) = [''a'', ''b'']"
    using demo_turn_ok by (elim exE conjE)
  have "rt_curation demo_runtime \<noteq> None \<or> rt_access demo_runtime \<noteq> None"
    by (simp add: demo_runtime_def runtime_with_access_control_def)
  from turn_citations_visible [OF run this] ids show ?thesis by simp
qed

text \<open>Fifty-one messages: the last one is not replayed.\<close>

definition long_log :: "storage_op list" where
  "long_log = map (\<lambda>n. AppendMessage (demo_message ''c'' (show_nat n))) [0..<51]"

theorem replay_is_oldest_fifty_witness:
  "load_prior_messages (storage_run (\<lambda>_. 0) long_log tables_default) ''c'' =
     Inr (filter_map prior_message (map (\<lambda>n. demo_message ''c'' (show_nat n)) [0..<50]))"
proof -
  have ops: "filter_map message_op (map (\<lambda>n. AppendMessage (demo_message ''c'' (show_nat n))) ns) =
      map (\<lambda>n. demo_message ''c'' (show_nat n)) ns" for ns
    by (induction ns) simp_all
  have app: "filter_map (appended ''c'') (map (\<lambda>n. AppendMessage (demo_message ''c'' (show_nat n))) ns) =
      map (\<lambda>n. demo_message ''c'' (show_nat n)) ns" for ns
    by (induction ns) (simp_all add: demo_message_def)
  have "distinct (map msg_id (filter_map message_op long_log))"
    unfolding long_log_def ops by (simp add: demo_message_def comp_def distinct_map inj_on_def)
  from replay_is_oldest_fifty [OF this, of "\<lambda>_. 0" "''c''"] show ?thesis
    unfolding long_log_def app by (simp add: take_map)
qed

end
