(* ===== verification/Turn_Start.thy ===== *)
theory Turn_Start
  imports Conversations Server_Config Replies Turns
begin

text \<open>
  A turn as the service runs it, from \<open>rust/smooth-operator-server/src/handler.rs\<close>: \<open>handle_send_message\<close> up to
  the spawn, the resolution of the model, the prompt and the judge, and the tail of the spawned task once the
  runner has answered.

  The runner itself is a parameter: the tail takes its result. The task that is spawned is a value, the
  \<open>turn_request\<close> it was given. A cancel may land at any await, so the tail reads the flag as a function of the
  point it has reached.
\<close>

section \<open>The seams of a turn\<close>

record user_image =
  ui_url :: string
  ui_detail :: "string option"

record user_file =
  uf_name :: string
  uf_mime :: "string option"
  uf_url :: string

text \<open>The host's seams and the derived codecs. The dash of the approval message lies outside the modelled
  characters.\<close>

record ('st, 'mac) handler_env =
  he_server :: "('st, 'mac) server_env"
  he_from_str :: "string \<Rightarrow> string + json"
  he_images_de :: "json \<Rightarrow> user_image list option"
  he_files_de :: "json \<Rightarrow> user_file list option"
  he_skills :: "(string \<Rightarrow> string option) option"
  he_gateway_keys :: "string \<Rightarrow> string option"
  he_config :: server_config
  he_chat_provider :: bool
  he_host_approver :: bool
  he_settings :: settings_store
  he_default_prompt :: string
  he_agent_config :: "string \<Rightarrow> agent_behavior_config option"
  he_default_persona :: "string option"
  he_otp :: "otp_service option"
  he_interactions :: interaction_registry
  he_intake_de :: "json \<Rightarrow> intake_values option"
  he_auth_tools :: "string option"
  he_field_error_ser :: "field_error \<Rightarrow> json"
  he_citation_ser :: "citation \<Rightarrow> json"
  he_json_text :: "json \<Rightarrow> string"
  he_dash :: string

text \<open>What a frame that starts a turn draws: its connection's sink, the flag and the task of the turn.\<close>

record spawn_input =
  si_sink :: nat
  si_flag :: nat
  si_task :: nat

section \<open>Models and prompts\<close>

definition apply_model :: "string option \<Rightarrow> llm_config \<Rightarrow> llm_config" where
  "apply_model m llm =
     (case m of Some x \<Rightarrow> if trim x \<noteq> [] then llm\<lparr>llm_model := trim x\<rparr> else llm | None \<Rightarrow> llm)"

definition apply_model_override :: "llm_config \<Rightarrow> json \<Rightarrow> llm_config" where
  "apply_model_override llm body = apply_model (get_str body ''model'') llm"

definition apply_org_model_override :: "llm_config \<Rightarrow> agent_settings \<Rightarrow> llm_config" where
  "apply_org_model_override llm settings = apply_model (set_model settings) llm"

definition apply_agent_model_override :: "llm_config \<Rightarrow> agent_behavior_config option \<Rightarrow> llm_config" where
  "apply_agent_model_override llm cfg = apply_model (Option.bind cfg model) llm"

definition resolve_turn_model ::
  "llm_config \<Rightarrow> agent_settings \<Rightarrow> agent_behavior_config option \<Rightarrow> json \<Rightarrow> llm_config" where
  "resolve_turn_model llm settings cfg body =
     apply_model_override (apply_agent_model_override (apply_org_model_override llm settings) cfg) body"

fun resolve_base_prompt ::
  "string option \<Rightarrow> string option \<Rightarrow> string option \<Rightarrow> string option \<times> base_source" where
  "resolve_base_prompt (Some p) org_persona default_persona = (Some p, BaseAgent)"
| "resolve_base_prompt None (Some p) default_persona = (Some p, BaseOrgPersona)"
| "resolve_base_prompt None None (Some p) = (Some p, BaseDefaultPersona)"
| "resolve_base_prompt None None None = (None, BaseBuiltIn)"

definition JUDGE_MAX_TOKENS :: nat where "JUDGE_MAX_TOKENS = 512"

definition judge_llm_config :: "string \<Rightarrow> llm_config \<Rightarrow> llm_config" where
  "judge_llm_config judge_model turn_llm = turn_llm\<lparr>llm_model := judge_model, llm_max_tokens := JUDGE_MAX_TOKENS\<rparr>"

datatype judge_provider = InjectedJudge | LiveJudge llm_config

definition build_judge_provider :: "('st, 'mac) handler_env \<Rightarrow> llm_config \<Rightarrow> judge_provider" where
  "build_judge_provider he turn_llm =
     (if he_chat_provider he then InjectedJudge
      else LiveJudge (judge_llm_config (cfg_judge_model (he_config he)) turn_llm))"

section \<open>Starting a turn\<close>

record send_request =
  sr_session_id :: string
  sr_request_id :: string
  sr_message :: string
  sr_images :: "user_image list"
  sr_files :: "user_file list"
  sr_skill_section :: "string option"

text \<open>The checks on the frame alone: the error to send, or what was asked for.\<close>

definition validate_send ::
  "('st, 'mac) handler_env \<Rightarrow> frame_input \<Rightarrow> json \<Rightarrow> string option \<Rightarrow> json + send_request" where
  "validate_send he fi parsed rid =
     (case rid of
        None \<Rightarrow> Inl (error_event (fi_now_ms fi) None ''VALIDATION_ERROR'' (''send_message requires a '' @ quoted ''requestId''))
      | Some r \<Rightarrow>
          (case get_str parsed ''sessionId'' of
             None \<Rightarrow> Inl (error_event (fi_now_ms fi) (Some r) ''VALIDATION_ERROR'' (''missing '' @ quoted ''sessionId''))
           | Some sid \<Rightarrow>
               let images = unwrap_or (Option.bind (jget parsed ''images'') (he_images_de he)) [];
                   files = unwrap_or (Option.bind (jget parsed ''files'') (he_files_de he)) [];
                   message = unwrap_or (get_str parsed ''message'') []
               in if trim message = [] \<and> images = [] \<and> files = [] then
                    Inl (error_event (fi_now_ms fi) (Some r) ''VALIDATION_ERROR''
                      (''missing or empty '' @ quoted ''message'' @ '' (an empty message needs at least one '' @
                       quoted ''images'' @ '' or '' @ quoted ''files'' @ '' attachment)''))
                  else
                    let req = \<lparr>sr_session_id = sid, sr_request_id = r, sr_message = message, sr_images = images,
                               sr_files = files, sr_skill_section = None\<rparr> in
                    (case nonblank (get_str parsed ''skill'') of
                       None \<Rightarrow> Inr req
                     | Some name \<Rightarrow>
                         (case resolve_section (he_skills he) name of
                            Some sec \<Rightarrow> Inr (req\<lparr>sr_skill_section := Some sec\<rparr>)
                          | None \<Rightarrow>
                              Inl (error_event (fi_now_ms fi) (Some r) ''SKILL_NOT_FOUND''
                                (''skill '' @ quoted name @ '' is not available on this server''))))))"

record confirmation_config =
  cf_tool_patterns :: "string list"
  cf_host_approver :: bool
  cf_session_id :: string
  cf_pre_approved :: "string option"

record workflow_start =
  ws_workflow :: conversation_workflow
  ws_current_step_id :: "string option"

text \<open>What the spawned task owns: the runner's request and what the tail needs.\<close>

record turn_request =
  tr_session_id :: string
  tr_conversation_id :: string
  tr_request_id :: string
  tr_message :: string
  tr_images :: "user_image list"
  tr_files :: "user_file list"
  tr_llm :: llm_config
  tr_max_iterations :: nat
  tr_access :: access_context
  tr_confirmation :: "confirmation_config option"
  tr_capabilities :: "string list"
  tr_system_prompt :: "string option"
  tr_base_source :: base_source
  tr_org_id :: string
  tr_gateway_key :: "string option"
  tr_workflow :: "workflow_start option"
  tr_attempts :: nat
  tr_judge :: "judge_provider option"
  tr_greeting_section :: "string option"
  tr_skill_section :: "string option"
  tr_enabled_tools :: "string list option"
  tr_enabled_extensions :: "string list option"
  tr_auth_gate :: "auth_gate_hook option"
  tr_tool_configs :: "string \<rightharpoonup> json"
  tr_request_metadata :: "(string \<times> json) list option"
  tr_demo_tools :: bool
  tr_agent :: "agent_behavior_config option"
  tr_session_authenticated :: bool

record spawned_turn =
  sp_handle :: nat
  sp_cancelled :: nat
  sp_releaser :: turn_reservation

text \<open>The organization of the conversation, empty when it cannot be read.\<close>

definition conversation_org :: "'st adapter \<Rightarrow> string \<Rightarrow> 'st \<Rightarrow> string" where
  "conversation_org ad cid st =
     (case ad_get_conversation ad cid st of Inr (Some c) \<Rightarrow> conv_organization_id c | _ \<Rightarrow> [])"

text \<open>The resolved key and the configuration it gives, or nothing when no model can be reached.\<close>

definition turn_llm :: "('st, 'mac) handler_env \<Rightarrow> string \<Rightarrow> (string option \<times> llm_config) option" where
  "turn_llm he org =
     (case resolve_gateway_key (he_gateway_keys he) org (cfg_gateway_key (he_config he)) of
        Some key \<Rightarrow> Some (Some key, llm_config_with_key (he_config he) key)
      | None \<Rightarrow> if he_chat_provider he then Some (None, placeholder_llm_config (he_config he)) else None)"

definition wants_confirmation :: "('st, 'mac) handler_env \<Rightarrow> bool" where
  "wants_confirmation he = (confirmation_tool_patterns (he_config he) \<noteq> None \<or> he_host_approver he)"

definition build_turn ::
  "('st, 'mac) handler_env \<Rightarrow> frame_input \<Rightarrow> access_context \<Rightarrow> json \<Rightarrow> session \<Rightarrow> send_request \<Rightarrow> string
    \<Rightarrow> string option \<Rightarrow> llm_config \<Rightarrow> string option \<Rightarrow> 'st app_state \<Rightarrow> turn_request" where
  "build_turn he fi acc parsed s req conv_org key llm0 pre w =
     (let ad = adapter (he_server he);
          sid = sr_session_id req;
          org = (if conv_org = [] then SEED_ORG_ID else conv_org);
          cfg = Option.bind (ss_agent_id s) (he_agent_config he);
          settings = settings_get (he_default_prompt he) (fi_now fi) (he_settings he) org;
          llm = resolve_turn_model llm0 settings cfg parsed;
          base = resolve_base_prompt (Option.bind cfg system_prompt) (set_persona settings) (he_default_persona he);
          authed = App_State.session_authenticated w sid;
          wf_cfg = Option.bind cfg conversation_workflow;
          loaded = (if wf_cfg \<noteq> None then load_workflow_step ad (ss_conversation_id s) (storage w) else (None, 0))
      in \<lparr>tr_session_id = sid, tr_conversation_id = ss_conversation_id s, tr_request_id = sr_request_id req,
          tr_message = sr_message req, tr_images = sr_images req, tr_files = sr_files req, tr_llm = llm,
          tr_max_iterations = unwrap_or (Option.bind cfg max_iterations) (cfg_max_iterations (he_config he)),
          tr_access = with_agent_id
            (if organization_id acc \<noteq> None then acc else with_organization_id acc (ss_organization_id s)) (ss_agent_id s),
          tr_confirmation =
            (if wants_confirmation he
             then Some \<lparr>cf_tool_patterns = unwrap_or (confirmation_tool_patterns (he_config he)) [],
                        cf_host_approver = he_host_approver he, cf_session_id = session_id s, cf_pre_approved = pre\<rparr>
             else None),
          tr_capabilities = session_capabilities w sid, tr_system_prompt = fst base, tr_base_source = snd base,
          tr_org_id = org, tr_gateway_key = key,
          tr_workflow = map_option (\<lambda>wf. \<lparr>ws_workflow = wf, ws_current_step_id = fst loaded\<rparr>) wf_cfg,
          tr_attempts = snd loaded,
          tr_judge = (if wf_cfg \<noteq> None then Some (build_judge_provider he llm) else None),
          tr_greeting_section = Option.bind cfg greeting_section, tr_skill_section = sr_skill_section req,
          tr_enabled_tools = option_or (Option.bind cfg enabled_tool_ids)
            (if set_default_tools settings \<noteq> [] then Some (set_default_tools settings) else None),
          tr_enabled_extensions = map_option enabled_extension_ids cfg,
          tr_auth_gate = Option.bind cfg (\<lambda>c. build_auth_gate (he_auth_tools he) c authed),
          tr_tool_configs = (case cfg of Some c \<Rightarrow> tool_configs c | None \<Rightarrow> Map.empty),
          tr_request_metadata = Option.bind cfg llm_metadata, tr_demo_tools = cfg_seed_kb (he_config he),
          tr_agent = cfg, tr_session_authenticated = authed\<rparr>)"

definition turn_in_progress :: "frame_input \<Rightarrow> string \<Rightarrow> json" where
  "turn_in_progress fi rid =
     error_event (fi_now_ms fi) (Some rid) ''TURN_IN_PROGRESS''
       (''a turn is already in progress for this conversation (possibly from an earlier connection); '' @
        ''cancel it or wait for it to complete'')"

definition llm_unavailable :: "frame_input \<Rightarrow> string \<Rightarrow> json" where
  "llm_unavailable fi rid =
     error_event (fi_now_ms fi) (Some rid) ''LLM_UNAVAILABLE''
       (''No LLM gateway key is available for this turn (SMOOAI_GATEWAY_KEY is unset and no '' @
        ''per-org key resolved); this server cannot serve LLM turns. Configure the gateway '' @
        ''key to enable send_message.'')"

definition processing_ack :: "frame_input \<Rightarrow> string \<Rightarrow> json" where
  "processing_ack fi rid = immediate_response (fi_now_ms fi) (Some rid) 202 ''Processing your request...'' (JObj [])"

text \<open>An early return drops the claim.\<close>

definition drop_claim :: "turn_reservation \<Rightarrow> 'st app_state \<Rightarrow> 'st app_state" where
  "drop_claim res w = w\<lparr>running := reservation_drop res (running w)\<rparr>"

type_synonym 'st frame_result = "'st app_state \<times> json list \<times> (spawned_turn \<times> turn_request) option"

text \<open>From the claim on.\<close>

definition start_turn ::
  "('st, 'mac) handler_env \<Rightarrow> frame_input \<Rightarrow> spawn_input \<Rightarrow> access_context \<Rightarrow> json \<Rightarrow> send_request \<Rightarrow> session
    \<Rightarrow> turn_reservation \<Rightarrow> 'st app_state \<Rightarrow> 'st frame_result" where
  "start_turn he fi si acc parsed req s res w2 =
     (let ad = adapter (he_server he); sid = sr_session_id req; rid = sr_request_id req in
      case materialize_session ad sid w2 of
        (Inl _, w3) \<Rightarrow> (drop_claim res w3, [session_storage_error fi (Some rid)], None)
      | (Inr _, w3) \<Rightarrow>
          let org = conversation_org ad (ss_conversation_id s) (storage w3) in
          (case turn_llm he org of
             None \<Rightarrow> (drop_claim res w3, [llm_unavailable fi rid], None)
           | Some (key, llm) \<Rightarrow>
               (case (if wants_confirmation he then take_pre_approval sid w3 else (None, w3)) of (pre, w4) \<Rightarrow>
                  (w4\<lparr>running := releaser_set_abort (releaser res) (si_task si) (running w4)\<rparr>,
                   [processing_ack fi rid],
                   Some (\<lparr>sp_handle = si_task si, sp_cancelled = si_flag si, sp_releaser = releaser res\<rparr>,
                         build_turn he fi acc parsed s req org key llm pre w4)))))"

definition handle_send_message ::
  "('st, 'mac) handler_env \<Rightarrow> frame_input \<Rightarrow> spawn_input \<Rightarrow> string \<Rightarrow> string option \<Rightarrow> access_context \<Rightarrow> user_scope \<Rightarrow> json
    \<Rightarrow> string option \<Rightarrow> 'st app_state \<Rightarrow> 'st frame_result" where
  "handle_send_message he fi si conn auth_org acc scope parsed rid w =
     (case validate_send he fi parsed rid of
        Inl ev \<Rightarrow> (w, [ev], None)
      | Inr req \<Rightarrow>
          (case scoped_session (he_server he) (sr_session_id req) auth_org scope w of
             (Inr None, w1) \<Rightarrow> (w1, [session_not_found fi (Some (sr_request_id req)) (sr_session_id req)], None)
           | (Inl _, w1) \<Rightarrow> (w1, [session_storage_error fi (Some (sr_request_id req))], None)
           | (Inr (Some s), w1) \<Rightarrow>
               (case try_reserve (ss_conversation_id s) (sr_request_id req) conn (si_sink si) (si_flag si) (running w1) of
                  (None, _) \<Rightarrow> (w1, [turn_in_progress fi (sr_request_id req)], None)
                | (Some res, r') \<Rightarrow> start_turn he fi si acc parsed req s res (w1\<lparr>running := r'\<rparr>))))"

section \<open>The end of a turn\<close>

text \<open>What the runner hands back.\<close>

record streamed_turn =
  st_message_id :: string
  st_reply :: string
  st_suggested_next_actions :: "string list"
  st_citations :: "citation list"
  st_usage :: "turn_usage option"
  st_directive :: "json option"
  st_next_step_id :: "string option"

definition half_f64 :: json where
  "half_f64 = json_f64 0x3FE0000000000000"

definition general_agent_response :: "string \<Rightarrow> string list \<Rightarrow> json" where
  "general_agent_response text actions =
     JObj [(''responseParts'', JArr [JStr (collapse_repetition text)]), (''customerHappinessScore'', half_f64),
           (''needsSatisfactionScore'', half_f64), (''requestSummary'', JStr []),
           (''resolutionStatus'', JStr ''in_progress''), (''suggestedNextActions'', JArr (map JStr actions))]"

definition offer_otp :: "otp_service \<Rightarrow> int \<Rightarrow> string \<Rightarrow> string \<Rightarrow> otp_contact \<Rightarrow> string \<Rightarrow> json list" where
  "offer_otp otp now sid tool contact rid =
     [otp_verification_required now rid tool (''Verify your identity to continue using '' @ quoted tool @ ''.'')
        (map channel_as_str (available_channels contact)) ''end_user'',
      (case send_otp otp sid contact of
         Inr d \<Rightarrow> otp_sent now rid (channel_as_str (delivery_channel d)) (masked_destination d)
       | Inl e \<Rightarrow> error_event now (Some rid) ''OTP_SEND_FAILED'' (''failed to send verification code: '' @ e))]"

text \<open>The reads of the cancel flag.\<close>

datatype tail_point = AfterRun | BeforeOtp | BeforeReply | BeforeError

text \<open>The step and the count that are persisted.\<close>

definition capped_step :: "turn_request \<Rightarrow> string \<Rightarrow> string \<times> nat" where
  "capped_step tr step =
     (case tr_workflow tr of
        Some ws \<Rightarrow>
          (case apply_step_cap (ws_workflow ws) (ws_current_step_id ws) step (of_nat (tr_attempts tr))
                  WORKFLOW_STEP_ATTEMPT_CAP of (s, n) \<Rightarrow> (s, unat n))
      | None \<Rightarrow> (step, 0))"

definition persist_turn_step :: "'st adapter \<Rightarrow> int \<Rightarrow> turn_request \<Rightarrow> string option \<Rightarrow> 'st \<Rightarrow> 'st" where
  "persist_turn_step ad now tr nxt st =
     (case nxt of
        Some step \<Rightarrow>
          (case capped_step tr step of (p, n) \<Rightarrow> persist_workflow_step ad now (tr_conversation_id tr) p n st)
      | None \<Rightarrow> st)"

text \<open>The gate is the turn's own, as the run left it.\<close>

definition otp_offer ::
  "('st, 'mac) handler_env \<Rightarrow> int \<Rightarrow> bool \<Rightarrow> turn_request \<Rightarrow> auth_gate_hook option \<Rightarrow> 'st app_state \<Rightarrow> json list" where
  "otp_offer he now raised tr gate w =
     (case (gate, he_otp he) of
        (Some g, Some otp) \<Rightarrow>
          (case otp_refused_tool g of
             Some tool \<Rightarrow>
               let contact = session_contact w (tr_session_id tr) in
               if \<not> contact_is_empty contact \<and> \<not> raised
               then offer_otp otp now (tr_session_id tr) tool contact (tr_request_id tr) else []
           | None \<Rightarrow> [])
      | _ \<Rightarrow> [])"

definition final_response :: "('st, 'mac) handler_env \<Rightarrow> int \<Rightarrow> turn_request \<Rightarrow> streamed_turn \<Rightarrow> json" where
  "final_response he now tr t =
     eventual_response (he_citation_ser he) now (tr_request_id tr) 200 (st_message_id t)
       (general_agent_response (st_reply t) (st_suggested_next_actions t)) False (st_citations t) (st_usage t)
       (st_directive t)"

text \<open>The tail: \<open>generate\<close> is the small model's answer for the title, \<open>mid\<close> the id drawn for the error record.\<close>

definition turn_tail ::
  "('st, 'mac) handler_env \<Rightarrow> frame_input \<Rightarrow> string \<Rightarrow> (string \<Rightarrow> string option) \<Rightarrow> (tail_point \<Rightarrow> bool) \<Rightarrow> turn_request
    \<Rightarrow> auth_gate_hook option \<Rightarrow> string + streamed_turn \<Rightarrow> 'st app_state \<Rightarrow> 'st app_state \<times> json list" where
  "turn_tail he fi mid generate raised tr gate result w =
     (let ad = adapter (he_server he); now = fi_now fi; rid = tr_request_id tr in
      if raised AfterRun then (w, [])
      else case result of
        Inr t \<Rightarrow>
          let w1 = w\<lparr>storage := persist_turn_step ad now tr (st_next_step_id t) (storage w)\<rparr>;
              offered = otp_offer he (fi_now_ms fi) (raised BeforeOtp) tr gate w1
          in if raised BeforeReply then (w1, offered)
             else (w1\<lparr>storage := maybe_auto_title ad (he_gateway_keys he) (cfg_gateway_key (he_config he)) generate now
                        (tr_conversation_id tr) (storage w1) (storage w1)\<rparr>,
                   offered @ [final_response he (fi_now_ms fi) tr t])
      | Inl e \<Rightarrow>
          if raised BeforeError then (w, [])
          else
            let detail = ''agent turn failed: '' @ e in
            (w\<lparr>storage := (case ad_append_message ad
                              (turn_error_message mid now (tr_conversation_id tr) rid ''AGENT_ERROR'' detail) (storage w) of
                           Inr (_, st') \<Rightarrow> st' | Inl _ \<Rightarrow> storage w)\<rparr>,
             [error_event (fi_now_ms fi) (Some rid) ''AGENT_ERROR'' detail]))"

text \<open>The task holds the claim until it ends, whichever way.\<close>

definition finish_turn ::
  "('st, 'mac) handler_env \<Rightarrow> frame_input \<Rightarrow> string \<Rightarrow> (string \<Rightarrow> string option) \<Rightarrow> (tail_point \<Rightarrow> bool) \<Rightarrow> turn_reservation
    \<Rightarrow> turn_request \<Rightarrow> auth_gate_hook option \<Rightarrow> string + streamed_turn \<Rightarrow> 'st app_state \<Rightarrow> 'st app_state \<times> json list" where
  "finish_turn he fi mid generate raised res tr gate result w =
     (case turn_tail he fi mid generate raised tr gate result w of (w', fs) \<Rightarrow> (drop_claim res w', fs))"

section \<open>What the steps leave alone\<close>

lemma insert_session_frame [simp]:
  "running (insert_session s w) = running w" "storage (insert_session s w) = storage w"
  "pending_confirmations (insert_session s w) = pending_confirmations w"
  "pre_approved_confirmations (insert_session s w) = pre_approved_confirmations w"
  by (simp_all add: insert_session_def)

lemma scoped_session_frame:
  assumes "scoped_session env sid auth_org scope w = (r, w')"
  shows "w' = w \<or> (\<exists>s. w' = insert_session s w \<and> ad_get_session (adapter env) sid (storage w) = Inr (Some s))"
  using assms unfolding scoped_session_def load_session_def by (auto split: option.splits sum.splits if_splits)

lemma scoped_session_running: "scoped_session env sid auth_org scope w = (r, w') \<Longrightarrow> running w' = running w"
  using scoped_session_frame by fastforce

lemma materialize_session_running: "materialize_session ad sid w = (r, w') \<Longrightarrow> running w' = running w"
  unfolding materialize_session_def
  by (auto simp: defer_session_def Let_def split: if_splits option.splits prod.splits)

lemma take_pre_approval_running: "take_pre_approval sid w = (r, w') \<Longrightarrow> running w' = running w"
  by (auto simp: take_pre_approval_def split: if_splits)

lemma validate_send_request:
  "validate_send he fi parsed rid = Inr req \<Longrightarrow> rid = Some (sr_request_id req) \<and> get_str parsed ''sessionId'' = Some (sr_session_id req)"
  by (auto simp: validate_send_def Let_def split: option.splits if_splits)

lemma validate_send_error:
  "validate_send he fi parsed rid = Inl ev \<Longrightarrow> \<exists>code msg. ev = error_event (fi_now_ms fi) rid code msg"
  by (auto simp: validate_send_def Let_def split: option.splits if_splits)

lemma try_reserve_dropped:
  assumes "try_reserve c req conn snk flag s = (Some res, s')"
  shows "turns (reservation_drop res s') = turns s"
  using assms by (auto simp: try_reserve_def release_defs Let_def split: if_splits)

lemma start_turn_outcome:
  assumes claim: "try_reserve (ss_conversation_id s) (sr_request_id req) conn snk flag r0 = (Some res, running w2)"
    and run: "start_turn he fi si acc parsed req s res w2 = (w', fs, sp)"
  shows "case sp of
      None \<Rightarrow> (\<exists>code msg. fs = [error_event (fi_now_ms fi) (Some (sr_request_id req)) code msg]) \<and> turns (running w') = turns r0
    | Some (h, tr) \<Rightarrow> fs = [processing_ack fi (sr_request_id req)] \<and> tr_request_id tr = sr_request_id req \<and>
        tr_conversation_id tr = ss_conversation_id s \<and> sp_releaser h = releaser res \<and> holds (running w') res"
proof (cases "materialize_session (adapter (he_server he)) (sr_session_id req) w2")
  case (Pair r w3)
  note same = materialize_session_running [OF this]
  have held: "holds (running w3) res" "turns (reservation_drop res (running w3)) = turns r0"
    using try_reserve_spec [where c = "ss_conversation_id s" and req = "sr_request_id req" and conn = conn and snk = snk and flag = flag and s = r0] try_reserve_dropped [OF claim]
      claim same by simp_all
  have kept: "holds (releaser_set_abort (releaser res) h rt) res" if "holds rt res" for h rt
    using that by (auto simp: holds_def releaser_set_abort_def releaser_def registry_set_abort_def)
  show ?thesis
  proof (cases r)
    case (Inl e)
    with Pair run held(2) show ?thesis
      by (auto simp: start_turn_def Let_def drop_claim_def session_storage_error_def)
  next
    case (Inr u)
    let ?org = "conversation_org (adapter (he_server he)) (ss_conversation_id s) (storage w3)"
    show ?thesis
    proof (cases "turn_llm he ?org")
      case None
      with Pair Inr run held(2) show ?thesis by (auto simp: start_turn_def Let_def drop_claim_def llm_unavailable_def)
    next
      case (Some kl)
      obtain pre w4 where p: "(if wants_confirmation he then take_pre_approval (sr_session_id req) w3 else (None, w3)) = (pre, w4)"
        by fastforce
      then have "running w4 = running w3" using take_pre_approval_running by (auto split: if_splits)
      with Pair Inr Some run p held(1) kept show ?thesis
        by (cases kl) (auto simp: start_turn_def Let_def build_turn_def)
    qed
  qed
qed

section \<open>Properties\<close>

text \<open>C9. A message either starts a turn or changes nothing of the running turns: a refusal is exactly one error frame
  that echoes the request and leaves the registry as it was, whichever check refused it and however late; a
  start is exactly one acknowledgement, on a conversation that was free and is now held by this turn's claim.\<close>

theorem send_message_outcome:
  assumes "handle_send_message he fi si conn auth_org acc scope parsed rid w = (w', fs, sp)"
  shows "case sp of
      None \<Rightarrow> (\<exists>code msg. fs = [error_event (fi_now_ms fi) rid code msg]) \<and> turns (running w') = turns (running w)
    | Some (h, tr) \<Rightarrow> rid = Some (tr_request_id tr) \<and> fs = [processing_ack fi (tr_request_id tr)] \<and>
        \<not> is_running (running w) (tr_conversation_id tr) \<and> res_conversation_id (sp_releaser h) = tr_conversation_id tr \<and>
        holds (running w') (sp_releaser h)"
proof (cases "validate_send he fi parsed rid")
  case (Inl ev)
  with assms validate_send_error [OF Inl] show ?thesis by (auto simp: handle_send_message_def)
next
  case (Inr req)
  note r = validate_send_request [OF Inr]
  obtain q w1 where sc: "scoped_session (he_server he) (sr_session_id req) auth_org scope w = (q, w1)" by fastforce
  note same = scoped_session_running [OF this]
  show ?thesis
  proof (cases "\<exists>s. q = Inr (Some s)")
    case False
    with assms Inr sc same r show ?thesis
      by (auto simp: handle_send_message_def session_not_found_def session_storage_error_def split: sum.splits option.splits)
  next
    case True
    then obtain s where s: "q = Inr (Some s)" by blast
    let ?claim = "try_reserve (ss_conversation_id s) (sr_request_id req) conn (si_sink si) (si_flag si) (running w1)"
    obtain c r' where t: "?claim = (c, r')" by fastforce
    show ?thesis
    proof (cases c)
      case None
      with assms Inr sc s t same r show ?thesis by (auto simp: handle_send_message_def turn_in_progress_def)
    next
      case (Some res)
      have run: "start_turn he fi si acc parsed req s res (w1\<lparr>running := r'\<rparr>) = (w', fs, sp)"
        using assms Inr sc s t Some by (simp add: handle_send_message_def)
      have claim: "try_reserve (ss_conversation_id s) (sr_request_id req) conn (si_sink si) (si_flag si) (running w1) =
          (Some res, running (w1\<lparr>running := r'\<rparr>))" using t Some by simp
      have free: "\<not> is_running (running w) (ss_conversation_id s)" "res_conversation_id res = ss_conversation_id s"
        using try_reserve_spec [where c = "ss_conversation_id s" and req = "sr_request_id req" and conn = conn and
            snk = "si_sink si" and flag = "si_flag si" and s = "running w1"]
          t Some same by simp_all
      from start_turn_outcome [OF claim run] free r same show ?thesis
        by (auto simp: releaser_def holds_def split: option.splits)
    qed
  qed
qed

definition terminal :: "json \<Rightarrow> bool" where
  "terminal f = (frame_type f = ''eventual_response'' \<or> error_code f = Some ''AGENT_ERROR'')"

lemma otp_frames_not_terminal:
  "\<not> terminal (otp_verification_required now rid tool desc chans lvl)" "\<not> terminal (otp_sent now rid chan dest)"
  by (simp_all add: terminal_def error_code_def otp_verification_required_def otp_sent_def nested_event_def frame_type_def
      get_str_def)

lemma terminal_error [simp]: "terminal (error_event now rid code msg) = (code = ''AGENT_ERROR'')"
  by (simp add: terminal_def)

lemma otp_offer_not_terminal: "filter terminal (otp_offer he now raised tr gate w) = []"
  unfolding otp_offer_def offer_otp_def Let_def
  by (simp add: otp_frames_not_terminal split: option.split sum.split prod.split)


text \<open>The model of a turn: the frame's, else the agent's, else the organization's, else the server's, a blank name
  counting as none at every level; address, key and budget stay those of the resolved key.\<close>

theorem turn_model_precedence:
  "resolve_turn_model llm settings cfg body =
     llm\<lparr>llm_model := hd (filter_map nonblank [get_str body ''model'', Option.bind cfg model, set_model settings] @ [llm_model llm])\<rparr>"
  by (auto simp: resolve_turn_model_def apply_model_override_def apply_agent_model_override_def
      apply_org_model_override_def apply_model_def nonblank_def split: option.splits)

section \<open>Witnesses\<close>

definition demo_config :: server_config where
  "demo_config = config_from_env (\<lambda>k. if k = ''SMOOAI_GATEWAY_KEY'' then Some ''k'' else None)"

definition demo_handler :: "(tables, unit) handler_env" where
  "demo_handler =
     \<lparr>he_server = demo_env False, he_from_str = (\<lambda>s. Inr (JObj [(''action'', JStr s)])), he_images_de = (\<lambda>_. None),
      he_files_de = (\<lambda>_. None), he_skills = None, he_gateway_keys = (\<lambda>_. Some ''k''),
      he_config = demo_config, he_chat_provider = False, he_host_approver = True,
      he_settings = \<lparr>settings_rows = Map.empty, settings_poisoned = False\<rparr>, he_default_prompt = [],
      he_agent_config = (\<lambda>_. None), he_default_persona = None, he_otp = None, he_interactions = [],
      he_intake_de = (\<lambda>_. None), he_auth_tools = None, he_field_error_ser = (\<lambda>e. JStr (fe_field e)),
      he_citation_ser = (\<lambda>c. JNull), he_json_text = (\<lambda>_. ''null''), he_dash = ''-''\<rparr>"

definition demo_spawn :: spawn_input where
  "demo_spawn = \<lparr>si_sink = 0, si_flag = 1, si_task = 2\<rparr>"

definition demo_send_frame :: json where
  "demo_send_frame = JObj [(''sessionId'', JStr ''s1''), (''message'', JStr ''hi'')]"

definition demo_live :: "tables app_state" where
  "demo_live = insert_session (demo_session ''s1'' ''c1'') Conversations.demo_store"

lemma demo_send:
  "\<exists>h tr w'. handle_send_message demo_handler demo_input demo_spawn ''k'' None access_anonymous Unscoped demo_send_frame
     (Some ''r1'') demo_live = (w', [processing_ack demo_input ''r1''], Some (h, tr))"
proof -
  have v: "validate_send demo_handler demo_input demo_send_frame (Some ''r1'') =
      Inr \<lparr>sr_session_id = ''s1'', sr_request_id = ''r1'', sr_message = ''hi'', sr_images = [], sr_files = [], sr_skill_section = None\<rparr>"
    by code_simp
  have s: "scoped_session (he_server demo_handler) ''s1'' None Unscoped demo_live = (Inr (Some (demo_session ''s1'' ''c1'')), demo_live)"
    by (simp add: scoped_session_def load_session_def state_get_session_def demo_live_def Conversations.demo_store_def insert_session_def
        app_state_new_def demo_session_def same_org_def may_read_conversation_def)
  have m: "materialize_session ad ''s1'' (demo_live\<lparr>running := r\<rparr>) = (Inr (), demo_live\<lparr>running := r\<rparr>)" for ad r
    by (simp add: materialize_session_def demo_live_def Conversations.demo_store_def insert_session_def app_state_new_def)
  have k: "turn_llm demo_handler org = Some (Some ''k'', llm_config_with_key demo_config ''k'')" for org
    by (simp add: turn_llm_def resolve_gateway_key_def demo_handler_def)
  have c: "wants_confirmation demo_handler" by (simp add: wants_confirmation_def demo_handler_def)
  have r: "running demo_live = running_turns_default"
    by (simp add: demo_live_def Conversations.demo_store_def app_state_new_def)
  show ?thesis
    unfolding handle_send_message_def v start_turn_def
    by (simp add: s r m k c try_reserve_def running_turns_default_def Let_def split: prod.split)
qed

theorem send_message_outcome_witness:
  "\<exists>h tr w'. handle_send_message demo_handler demo_input demo_spawn ''k'' None access_anonymous Unscoped demo_send_frame
     (Some ''r1'') demo_live = (w', [processing_ack demo_input ''r1''], Some (h, tr)) \<and> holds (running w') (sp_releaser h)"
proof -
  obtain h tr w' where run: "handle_send_message demo_handler demo_input demo_spawn ''k'' None access_anonymous Unscoped
      demo_send_frame (Some ''r1'') demo_live = (w', [processing_ack demo_input ''r1''], Some (h, tr))" using demo_send by blast
  from send_message_outcome [OF run] run show ?thesis by auto
qed

definition demo_turn :: turn_request where
  "demo_turn = build_turn demo_handler demo_input access_anonymous demo_send_frame (demo_session ''s1'' ''c1'')
     \<lparr>sr_session_id = ''s1'', sr_request_id = ''r1'', sr_message = ''hi'', sr_images = [], sr_files = [], sr_skill_section = None\<rparr>
     ''org'' (Some ''k'') (llm_config_with_key demo_config ''k'') None demo_live"

definition demo_busy :: "tables app_state" where
  "demo_busy = demo_live\<lparr>running := snd (try_reserve ''c1'' ''r1'' ''k'' 0 1 running_turns_default)\<rparr>"


end
