(* ===== verification/Dispatch.thy ===== *)
theory Dispatch
  imports Turn_Start
begin

text \<open>
  The actions that resume a parked turn, the one-time-code check and the dispatcher of
  \<open>rust/smooth-operator-server/src/handler.rs\<close>: \<open>confirm_tool_action\<close> on the live and on the durable path,
  \<open>submit_interaction\<close>, \<open>verify_otp\<close> and \<open>handle_frame\<close>.
\<close>

section \<open>Confirmations\<close>

definition CONFIRMATION_TIMEOUT :: int where "CONFIRMATION_TIMEOUT = 300"

definition no_pending_confirmation :: "frame_input \<Rightarrow> string option \<Rightarrow> string \<Rightarrow> json" where
  "no_pending_confirmation fi rid sid =
     error_event (fi_now_ms fi) rid ''NO_PENDING_CONFIRMATION''
       (''no tool action is awaiting confirmation for session '' @ quoted sid)"

definition i64_saturating_sub :: "int \<Rightarrow> int \<Rightarrow> int" where
  "i64_saturating_sub a b = max (- (2 ^ 63)) (min (2 ^ 63 - 1) (a - b))"

text \<open>A record is honoured for as long as the park it mirrors would have lived.\<close>

definition record_fresh :: "frame_input \<Rightarrow> json \<Rightarrow> bool" where
  "record_fresh fi rec =
     (case get_i64 rec ''requestedAt'' of
        Some at \<Rightarrow> let age = i64_saturating_sub (sint (fi_unix fi)) at in 0 \<le> age \<and> age \<le> CONFIRMATION_TIMEOUT
      | None \<Rightarrow> False)"

definition verdict_ack :: "frame_input \<Rightarrow> string option \<Rightarrow> string \<Rightarrow> bool \<Rightarrow> json" where
  "verdict_ack fi rid sid approved =
     immediate_response (fi_now_ms fi) rid 200 (if approved then ''Tool action approved'' else ''Tool action rejected'')
       (JObj [(''sessionId'', JStr sid), (''approved'', JBool approved)])"

definition approval_frame :: "('st, 'mac) handler_env \<Rightarrow> string \<Rightarrow> string \<Rightarrow> string \<Rightarrow> json \<Rightarrow> json" where
  "approval_frame he sid tool prompt arguments =
     JObj [(''action'', JStr ''send_message''), (''sessionId'', JStr sid),
           (''message'', JStr (''Approved '' @ he_dash he @ '' please proceed with the pending '' @ [CHR 0x22] @ tool @ [CHR 0x22] @
              '' action now ('' @ prompt @ ''). Use exactly these arguments: '' @ he_json_text he arguments))]"

definition meta_record :: "session \<Rightarrow> string \<Rightarrow> json option" where
  "meta_record s k = Option.bind (ss_metadata s) (\<lambda>m. map_of m k)"

definition durable_confirm_fallback ::
  "('st, 'mac) handler_env \<Rightarrow> frame_input \<Rightarrow> spawn_input \<Rightarrow> string \<Rightarrow> string option \<Rightarrow> access_context \<Rightarrow> user_scope \<Rightarrow> string
    \<Rightarrow> bool \<Rightarrow> string option \<Rightarrow> 'st app_state \<Rightarrow> 'st frame_result" where
  "durable_confirm_fallback he fi si conn auth_org acc scope sid approved rid w =
     (let ad = adapter (he_server he); no_pending = no_pending_confirmation fi rid sid in
      case ad_get_session ad sid (storage w) of
        Inl _ \<Rightarrow> (w, [session_storage_error fi rid], None)
      | Inr None \<Rightarrow> (w, [no_pending], None)
      | Inr (Some s) \<Rightarrow>
          (case meta_record s ''pendingConfirmation'' of
             None \<Rightarrow> (w, [no_pending], None)
           | Some rec \<Rightarrow>
               (case set_pending_confirmation ad (fi_now fi) sid None (insert_session s w) of (cleared, w1) \<Rightarrow>
                  if \<not> record_fresh fi rec then (w1, [no_pending], None)
                  else if \<not> result_ok cleared then (w1, [session_storage_error fi rid], None)
                  else if \<not> approved then (w1, [verdict_ack fi rid sid False], None)
                  else
                    let tool = unwrap_or (get_str rec ''tool'') [];
                        prompt = unwrap_or (get_str rec ''prompt'') [];
                        arguments = unwrap_or (jget rec ''arguments'') JNull
                    in if tool = [] then (w1, [no_pending], None)
                       else handle_send_message he fi si conn auth_org acc scope (approval_frame he sid tool prompt arguments)
                              rid (grant_pre_approval sid tool w1))))"

text \<open>After the live verdict a task retires the durable record.\<close>

definition handle_confirm_tool_action ::
  "('st, 'mac) handler_env \<Rightarrow> frame_input \<Rightarrow> spawn_input \<Rightarrow> string \<Rightarrow> string option \<Rightarrow> access_context \<Rightarrow> user_scope \<Rightarrow> json
    \<Rightarrow> string option \<Rightarrow> 'st app_state \<Rightarrow> 'st frame_result" where
  "handle_confirm_tool_action he fi si conn auth_org acc scope parsed rid w =
     (case get_str parsed ''sessionId'' of
        None \<Rightarrow>
          (w, [error_event (fi_now_ms fi) rid ''VALIDATION_ERROR'' (''confirm_tool_action requires a '' @ quoted ''sessionId'')], None)
      | Some sid \<Rightarrow>
          (case get_bool parsed ''approved'' of
             None \<Rightarrow>
               (w, [error_event (fi_now_ms fi) rid ''VALIDATION_ERROR'' (''confirm_tool_action requires a boolean '' @ quoted ''approved'')],
                None)
           | Some approved \<Rightarrow>
               (case scoped_session (he_server he) sid auth_org scope w of
                  (Inl _, w1) \<Rightarrow> (w1, [session_storage_error fi rid], None)
                | (Inr None, w1) \<Rightarrow> (w1, [no_pending_confirmation fi rid sid], None)
                | (Inr (Some _), w1) \<Rightarrow>
                    (case take_confirmation sid w1 of
                       (None, w2) \<Rightarrow> durable_confirm_fallback he fi si conn auth_org acc scope sid approved rid w2
                     | (Some ch, w2) \<Rightarrow>
                         (case send_verdict ch (if approved then Approved else DeniedBecause ''user rejected the action'') w2 of
                            (True, w3) \<Rightarrow>
                              (snd (set_pending_confirmation (adapter (he_server he)) (fi_now fi) sid None w3),
                               [verdict_ack fi rid sid approved], None)
                          | (False, w3) \<Rightarrow> durable_confirm_fallback he fi si conn auth_org acc scope sid approved rid w3)))))"

section \<open>Interactions\<close>

record pending_view =
  pv_interaction_id :: string
  pv_kind :: string
  pv_spec :: json
  pv_live :: bool

definition view_of_live :: "pending_interaction \<Rightarrow> pending_view" where
  "view_of_live p = \<lparr>pv_interaction_id = pi_interaction_id p, pv_kind = pi_kind p, pv_spec = pi_spec p, pv_live = True\<rparr>"

definition attach_interaction_effect ::
  "('st, 'mac) handler_env \<Rightarrow> frame_input \<Rightarrow> string \<Rightarrow> string \<Rightarrow> json \<Rightarrow> 'st app_state \<Rightarrow> 'st app_state" where
  "attach_interaction_effect he fi sid kind values w =
     (if kind = ''identity_intake'' then
        (case he_intake_de he values of
           Some v \<Rightarrow> attach_session_identity (adapter (he_server he)) (fi_now fi) sid v w
         | None \<Rightarrow> w)
      else w)"

definition durable_pending_interaction ::
  "'st adapter \<Rightarrow> string \<Rightarrow> 'st app_state \<Rightarrow> (string + pending_view option) \<times> 'st app_state" where
  "durable_pending_interaction ad sid w =
     (case ad_get_session ad sid (storage w) of
        Inl e \<Rightarrow> (Inl e, w)
      | Inr None \<Rightarrow> (Inr None, w)
      | Inr (Some s) \<Rightarrow>
          (case meta_record s ''pendingInteraction'' of
             None \<Rightarrow> (Inr None, w)
           | Some rec \<Rightarrow>
               (Inr (case (get_str rec ''interactionId'', get_str rec ''kind'', jget rec ''spec'') of
                       (Some i, Some k, Some sp) \<Rightarrow>
                         Some \<lparr>pv_interaction_id = i, pv_kind = k, pv_spec = sp, pv_live = False\<rparr>
                     | _ \<Rightarrow> None),
                insert_session s w)))"

definition no_pending_interaction :: "frame_input \<Rightarrow> string \<Rightarrow> string \<Rightarrow> json" where
  "no_pending_interaction fi rid sid =
     error_event (fi_now_ms fi) (Some rid) ''NO_PENDING_INTERACTION''
       (''no interaction is awaiting submission for session '' @ quoted sid)"

text \<open>The error to send when the park has gone, or nothing when it was resumed.\<close>

definition resolve_interaction ::
  "frame_input \<Rightarrow> string \<Rightarrow> string \<Rightarrow> interaction_outcome \<Rightarrow> 'st app_state \<Rightarrow> json option \<times> 'st app_state" where
  "resolve_interaction fi sid rid result w =
     (case take_interaction sid w of
        (None, w1) \<Rightarrow> (Some (no_pending_interaction fi rid sid), w1)
      | (Some p, w1) \<Rightarrow>
          (case send_resolution (pi_responder p) \<lparr>interaction_id = pi_interaction_id p, outcome = result\<rparr> w1 of
             (True, w2) \<Rightarrow> (None, w2)
           | (False, w2) \<Rightarrow>
               (Some (error_event (fi_now_ms fi) (Some rid) ''NO_PENDING_INTERACTION''
                  (''the turn awaiting an interaction for session '' @ quoted sid @ '' is no longer active'')), w2)))"

text \<open>Resuming the live park, or retiring the durable record.\<close>

definition settle_interaction ::
  "('st, 'mac) handler_env \<Rightarrow> frame_input \<Rightarrow> string \<Rightarrow> string \<Rightarrow> bool \<Rightarrow> interaction_outcome \<Rightarrow> 'st app_state
    \<Rightarrow> json option \<times> 'st app_state" where
  "settle_interaction he fi sid rid is_live result w =
     (if is_live then resolve_interaction fi sid rid result w
      else case set_pending_interaction (adapter (he_server he)) (fi_now fi) sid None w of
             (Inr _, w1) \<Rightarrow> (None, w1)
           | (Inl _, w1) \<Rightarrow> (Some (session_storage_error fi (Some rid)), w1))"

definition submit_to_view ::
  "('st, 'mac) handler_env \<Rightarrow> frame_input \<Rightarrow> json \<Rightarrow> string \<Rightarrow> string \<Rightarrow> pending_view \<Rightarrow> 'st app_state
    \<Rightarrow> 'st app_state \<times> json list" where
  "submit_to_view he fi parsed rid sid v w =
     (let err = (\<lambda>code msg. (w, [error_event (fi_now_ms fi) (Some rid) code msg])) in
      if get_str parsed ''interactionId'' \<noteq> Some (pv_interaction_id v) then
        err ''INTERACTION_MISMATCH'' (''the submitted '' @ quoted ''interactionId'' @ '' does not match the pending interaction'')
      else if (case get_str parsed ''kind'' of Some k \<Rightarrow> k \<noteq> pv_kind v | None \<Rightarrow> False) then
        err ''INTERACTION_MISMATCH''
          (''the pending interaction is '' @ quoted (pv_kind v) @ '', not '' @ quoted (unwrap_or (get_str parsed ''kind'') []))
      else if unwrap_or (get_bool parsed ''declined'') False then
        (case settle_interaction he fi sid rid (pv_live v) Declined w of
           (Some ev, w1) \<Rightarrow> (w1, [ev])
         | (None, w1) \<Rightarrow>
             (w1, [immediate_response (fi_now_ms fi) (Some rid) 200 ''Interaction declined''
                     (JObj [(''sessionId'', JStr sid), (''interactionId'', JStr (pv_interaction_id v)), (''declined'', JBool True)])]))
      else (case jget parsed ''values'' of
        None \<Rightarrow> err ''VALIDATION_ERROR'' (''submit_interaction requires '' @ quoted ''values'' @ '' (or '' @ quoted ''declined'' @ '': true)'')
      | Some values \<Rightarrow>
          (case registry_get (he_interactions he) (pv_kind v) of
             None \<Rightarrow> err ''NO_PENDING_INTERACTION'' (''interaction kind '' @ quoted (pv_kind v) @ '' is not hosted by this server'')
           | Some kind \<Rightarrow>
               (case ik_validate kind (pv_spec v) values of
                  Inl errors \<Rightarrow>
                    (w, [interaction_invalid (he_field_error_ser he) (fi_now_ms fi) rid (pv_interaction_id v) (pv_kind v) errors
                           ''Some fields need attention.''])
                | Inr canonical \<Rightarrow>
                    (case settle_interaction he fi sid rid (pv_live v) (Submitted canonical) w of
                       (Some ev, w1) \<Rightarrow> (w1, [ev])
                     | (None, w1) \<Rightarrow>
                         (attach_interaction_effect he fi sid (pv_kind v) canonical w1,
                          [immediate_response (fi_now_ms fi) (Some rid) 200 ''Interaction submitted''
                             (JObj [(''sessionId'', JStr sid), (''interactionId'', JStr (pv_interaction_id v)),
                                    (''kind'', JStr (pv_kind v)), (''values'', canonical)])]))))))"

definition handle_submit_interaction ::
  "('st, 'mac) handler_env \<Rightarrow> frame_input \<Rightarrow> string option \<Rightarrow> user_scope \<Rightarrow> json \<Rightarrow> string option \<Rightarrow> 'st app_state
    \<Rightarrow> 'st app_state \<times> json list" where
  "handle_submit_interaction he fi auth_org scope parsed request w =
     (case request of
        None \<Rightarrow> (w, [error_event (fi_now_ms fi) None ''VALIDATION_ERROR'' (''submit_interaction requires a '' @ quoted ''requestId'')])
      | Some rid \<Rightarrow>
          (case get_str parsed ''sessionId'' of
             None \<Rightarrow>
               (w, [error_event (fi_now_ms fi) (Some rid) ''VALIDATION_ERROR'' (''submit_interaction requires a '' @ quoted ''sessionId'')])
           | Some sid \<Rightarrow>
               (case scoped_session (he_server he) sid auth_org scope w of
                  (Inl _, w1) \<Rightarrow> (w1, [session_storage_error fi (Some rid)])
                | (Inr None, w1) \<Rightarrow> (w1, [no_pending_interaction fi rid sid])
                | (Inr (Some _), w1) \<Rightarrow>
                    (case pending_interaction_of w1 sid of
                       Some p \<Rightarrow> submit_to_view he fi parsed rid sid (view_of_live p) w1
                     | None \<Rightarrow>
                         (case durable_pending_interaction (adapter (he_server he)) sid w1 of
                            (Inl _, w2) \<Rightarrow> (w2, [session_storage_error fi (Some rid)])
                          | (Inr None, w2) \<Rightarrow> (w2, [no_pending_interaction fi rid sid])
                          | (Inr (Some v), w2) \<Rightarrow> submit_to_view he fi parsed rid sid v w2)))))"

section \<open>One-time codes\<close>

definition handle_verify_otp ::
  "('st, 'mac) handler_env \<Rightarrow> frame_input \<Rightarrow> string option \<Rightarrow> user_scope \<Rightarrow> json \<Rightarrow> string option \<Rightarrow> 'st app_state
    \<Rightarrow> 'st app_state \<times> json list" where
  "handle_verify_otp he fi auth_org scope parsed request w =
     (let need = (\<lambda>rid what. (w, [error_event (fi_now_ms fi) rid ''VALIDATION_ERROR'' (''verify_otp requires a '' @ quoted what)])) in
      case request of
        None \<Rightarrow> need None ''requestId''
      | Some rid \<Rightarrow>
          (case get_str parsed ''sessionId'' of
             None \<Rightarrow> need (Some rid) ''sessionId''
           | Some sid \<Rightarrow>
               (case get_str parsed ''code'' of
                  None \<Rightarrow> need (Some rid) ''code''
                | Some code \<Rightarrow>
                    (case scoped_session (he_server he) sid auth_org scope w of
                       (Inl _, w1) \<Rightarrow> (w1, [session_storage_error fi (Some rid)])
                     | (Inr None, w1) \<Rightarrow> (w1, [session_not_found fi (Some rid) sid])
                     | (Inr (Some _), w1) \<Rightarrow>
                         (case he_otp he of
                            None \<Rightarrow>
                              (w1, [otp_invalid (fi_now_ms fi) rid (Some ''NOT_FOUND'') 0
                                      ''No verification is in progress for this session.''])
                          | Some otp \<Rightarrow>
                              (case verify_otp otp sid code of
                                 OtpVerified \<Rightarrow>
                                   (set_session_authenticated (adapter (he_server he)) (fi_now fi) sid True w1,
                                    [otp_verified (fi_now_ms fi) rid ''Identity verified successfully.''])
                               | OtpInvalid n e msg \<Rightarrow>
                                   (w1, [otp_invalid (fi_now_ms fi) rid (map_option otp_error_as_str e) n msg])))))))"

section \<open>The dispatcher\<close>

definition no_turn :: "'st app_state \<times> json list \<Rightarrow> 'st frame_result" where
  "no_turn r = (fst r, snd r, None)"

definition dispatch ::
  "('st, 'mac) handler_env \<Rightarrow> frame_input \<Rightarrow> spawn_input \<Rightarrow> access_context \<Rightarrow> string \<Rightarrow> string option \<Rightarrow> string option
    \<Rightarrow> user_scope \<Rightarrow> json \<Rightarrow> 'st app_state \<Rightarrow> 'st frame_result" where
  "dispatch he fi si acc conn orig auth_org scope parsed w =
     (let env = he_server he; rid = get_str parsed ''requestId'' in
      case get_str parsed ''action'' of
        None \<Rightarrow> (w, [error_event (fi_now_ms fi) rid ''VALIDATION_ERROR'' (''missing '' @ quoted ''action'' @ '' field'')], None)
      | Some a \<Rightarrow>
          if a = ''ping'' then (w, [pong (fi_now_ms fi) rid], None)
          else if a = ''create_conversation_session'' then
            no_turn (handle_create_session env fi conn orig auth_org scope parsed rid w)
          else if a = ''get_session'' then no_turn (handle_get_session env fi auth_org scope parsed rid w)
          else if a = ''get_conversation_messages'' then
            no_turn (handle_get_conversation_messages env fi auth_org scope parsed rid w)
          else if a = ''list_conversations'' then no_turn (handle_list_conversations env fi auth_org scope parsed rid w)
          else if a = ''rename_conversation'' then no_turn (handle_rename_conversation env fi auth_org scope parsed rid w)
          else if a = ''send_message'' then handle_send_message he fi si conn auth_org acc scope parsed rid w
          else if a = ''confirm_tool_action'' then handle_confirm_tool_action he fi si conn auth_org acc scope parsed rid w
          else if a = ''verify_otp'' then no_turn (handle_verify_otp he fi auth_org scope parsed rid w)
          else if a = ''submit_interaction'' then no_turn (handle_submit_interaction he fi auth_org scope parsed rid w)
          else (w, [error_event (fi_now_ms fi) rid ''UNSUPPORTED_ACTION''
                     (''action '' @ quoted a @ '' is not supported by this server'')], None))"

definition handle_frame ::
  "('st, 'mac) handler_env \<Rightarrow> frame_input \<Rightarrow> spawn_input \<Rightarrow> access_context \<Rightarrow> string \<Rightarrow> string option \<Rightarrow> string option
    \<Rightarrow> user_scope \<Rightarrow> string \<Rightarrow> 'st app_state \<Rightarrow> 'st frame_result" where
  "handle_frame he fi si acc conn orig auth_org scope raw w =
     (case he_from_str he raw of
        Inl e \<Rightarrow> (w, [error_event (fi_now_ms fi) None ''VALIDATION_ERROR'' (''invalid JSON frame: '' @ e)], None)
      | Inr parsed \<Rightarrow> dispatch he fi si acc conn orig auth_org scope parsed w)"

section \<open>Every frame is answered\<close>

definition answered :: "string option \<Rightarrow> json list \<Rightarrow> bool" where
  "answered rid fs \<longleftrightarrow> (\<exists>f. fs = [f] \<and> envelope_ok rid f)"

lemma answered_one [simp]: "answered rid [f] = envelope_ok rid f"
  by (simp add: answered_def)

declare envelopes_ok [simp]

lemma named_events_ok [simp]:
  "envelope_ok rid (session_not_found fi rid sid)" "envelope_ok rid (session_storage_error fi rid)"
  "envelope_ok rid (missing_session_id fi rid)" "envelope_ok rid (session_event fi rid s)"
  "envelope_ok rid (messages_event env fi rid cid page)" "envelope_ok rid (list_failed fi rid e)"
  "envelope_ok rid (session_created_event fi rid aid rows)" "envelope_ok rid (send_conversation_page env fi rs n rid)"
  "envelope_ok rid (no_pending_confirmation fi rid sid)" "envelope_ok rid (verdict_ack fi rid sid b)"
  "envelope_ok (Some r) (no_pending_interaction fi r sid)" "envelope_ok (Some r) (processing_ack fi r)"
  by (simp_all add: session_not_found_def session_storage_error_def missing_session_id_def session_event_def
      messages_event_def list_failed_def session_created_event_def send_conversation_page_def no_pending_confirmation_def
      verdict_ack_def no_pending_interaction_def processing_ack_def Let_def)

lemma create_answered: "answered rid (snd (handle_create_session env fi conn orig auth_org scope parsed rid w))"
  unfolding handle_create_session_def create_session_allowed_def Let_def enforce_widget_auth_def
  by (simp split: option.split sum.split prod.split)

lemma get_session_answered: "answered rid (snd (handle_get_session env fi auth_org scope parsed rid w))"
  unfolding handle_get_session_def by (simp split: option.split sum.split prod.split)

lemma get_messages_answered: "answered rid (snd (handle_get_conversation_messages env fi auth_org scope parsed rid w))"
  unfolding handle_get_conversation_messages_def by (simp split: option.split sum.split prod.split)

lemma list_answered: "answered rid (snd (handle_list_conversations env fi auth_org scope parsed rid w))"
  unfolding handle_list_conversations_def send_owned_conversations_def scan_conversations_def Let_def
  by (simp split: option.split sum.split prod.split)

lemma rename_answered: "answered rid (snd (handle_rename_conversation env fi auth_org scope parsed rid w))"
  unfolding handle_rename_conversation_def Let_def by (simp split: option.split sum.split prod.split)

lemma send_answered: "answered rid (fst (snd (handle_send_message he fi si conn auth_org acc scope parsed rid w)))"
proof -
  obtain w' fs sp where run: "handle_send_message he fi si conn auth_org acc scope parsed rid w = (w', fs, sp)"
    using prod_cases3 by blast
  have "validate_send he fi parsed rid = Inl ev \<Longrightarrow> envelope_ok rid ev" for ev
    using validate_send_error by fastforce
  moreover have "rid = Some (sr_request_id req)" if "validate_send he fi parsed rid = Inr req" for req
    using validate_send_request [OF that] by simp
  ultimately show ?thesis
    unfolding handle_send_message_def start_turn_def Let_def
    by (auto simp: turn_in_progress_def llm_unavailable_def split: option.split sum.split prod.split)
qed

lemma durable_answered:
  "answered rid (fst (snd (durable_confirm_fallback he fi si conn auth_org acc scope sid approved rid w)))"
  unfolding durable_confirm_fallback_def Let_def by (simp add: send_answered split: option.split sum.split prod.split)

lemma confirm_answered: "answered rid (fst (snd (handle_confirm_tool_action he fi si conn auth_org acc scope parsed rid w)))"
  unfolding handle_confirm_tool_action_def
  by (simp add: durable_answered split: option.split sum.split prod.split bool.split)

lemma verify_answered: "answered rid (snd (handle_verify_otp he fi auth_org scope parsed rid w))"
  unfolding handle_verify_otp_def Let_def
  by (simp split: option.split sum.split prod.split otp_verify_outcome.split)

lemma settle_event: "settle_interaction he fi sid rid l x w = (Some ev, w') \<Longrightarrow> envelope_ok (Some rid) ev"
  unfolding settle_interaction_def resolve_interaction_def
  by (auto split: if_splits option.splits sum.splits prod.splits bool.splits)

lemma submit_view_answered: "answered (Some rid) (snd (submit_to_view he fi parsed rid sid v w))"
  unfolding submit_to_view_def Let_def
  by (auto split: option.split sum.split prod.split dest: settle_event)

lemma submit_answered: "answered rid (snd (handle_submit_interaction he fi auth_org scope parsed rid w))"
  unfolding handle_submit_interaction_def
  by (simp add: submit_view_answered split: option.split sum.split prod.split)

lemmas handlers_answered =
  create_answered get_session_answered get_messages_answered list_answered rename_answered send_answered
  confirm_answered verify_answered submit_answered


section \<open>Hidden sessions\<close>

definition session_actions :: "string list" where
  "session_actions =
     [''get_session'', ''get_conversation_messages'', ''send_message'', ''confirm_tool_action'', ''verify_otp'', ''submit_interaction'']"

lemma unknown_scoped:
  assumes "state_get_session u sid = None" and "ad_get_session (adapter env) sid (storage u) = Inr None"
  shows "scoped_session env sid auth_org scope u = (Inr None, u)"
  using assms by (simp add: scoped_session_def load_session_def)

text \<open>The answer to a session-addressed frame when the session is not to be seen: a function of the frame.\<close>

definition hidden_answer :: "('st, 'mac) handler_env \<Rightarrow> frame_input \<Rightarrow> json \<Rightarrow> json list" where
  "hidden_answer he fi parsed =
     (let rid = get_str parsed ''requestId''; sid = unwrap_or (get_str parsed ''sessionId'') [];
          a = unwrap_or (get_str parsed ''action'') [];
          invalid = (\<lambda>msg. error_event (fi_now_ms fi) rid ''VALIDATION_ERROR'' msg)
      in [if a = ''send_message'' then
            (case validate_send he fi parsed rid of Inl ev \<Rightarrow> ev | Inr _ \<Rightarrow> session_not_found fi rid sid)
          else if a = ''confirm_tool_action'' then
            (if get_bool parsed ''approved'' = None then invalid (''confirm_tool_action requires a boolean '' @ quoted ''approved'')
             else no_pending_confirmation fi rid sid)
          else if a = ''verify_otp'' then
            (if rid = None then invalid (''verify_otp requires a '' @ quoted ''requestId'')
             else if get_str parsed ''code'' = None then invalid (''verify_otp requires a '' @ quoted ''code'')
             else session_not_found fi rid sid)
          else if a = ''submit_interaction'' then
            (case rid of None \<Rightarrow> invalid (''submit_interaction requires a '' @ quoted ''requestId'')
             | Some r \<Rightarrow> no_pending_interaction fi r sid)
          else session_not_found fi rid sid])"

lemma hidden_dispatch:
  assumes "get_str parsed ''action'' = Some a" and "a \<in> set session_actions" and "get_str parsed ''sessionId'' = Some sid"
    and "scoped_session (he_server he) sid auth_org scope w = (Inr None, w1)"
  shows "dispatch he fi si acc conn orig auth_org scope parsed w = (w, hidden_answer he fi parsed, None) \<or>
         dispatch he fi si acc conn orig auth_org scope parsed w = (w1, hidden_answer he fi parsed, None)"
proof -
  from assms(2) consider "a = ''get_session''" | "a = ''get_conversation_messages''" | "a = ''send_message''"
    | "a = ''confirm_tool_action''" | "a = ''verify_otp''" | "a = ''submit_interaction''"
    unfolding session_actions_def list.set insert_iff empty_iff by argo
  then show ?thesis
  proof cases
    case 3
    then have d: "dispatch he fi si acc conn orig auth_org scope parsed w =
        handle_send_message he fi si conn auth_org acc scope parsed (get_str parsed ''requestId'') w"
      using assms(1) by (simp add: dispatch_def Let_def)
    show ?thesis
    proof (cases "validate_send he fi parsed (get_str parsed ''requestId'')")
      case (Inl ev)
      with 3 assms(1) show ?thesis unfolding d by (simp add: handle_send_message_def hidden_answer_def Let_def)
    next
      case (Inr req)
      note r = validate_send_request [OF Inr]
      then have "sr_session_id req = sid" using assms(3) by simp
      with 3 assms Inr r [THEN conjunct1, symmetric] show ?thesis
        unfolding d by (simp add: handle_send_message_def hidden_answer_def Let_def)
    qed
  qed (use assms in \<open>auto simp: dispatch_def hidden_answer_def handle_get_session_def handle_get_conversation_messages_def
        handle_confirm_tool_action_def handle_verify_otp_def handle_submit_interaction_def no_turn_def Let_def
        split: option.splits\<close>)
qed

text \<open>C6. A session the connection may not see is indistinguishable from one that never existed, over every
  session-addressed action: in a state where the session is hidden and in any state where its id is
  unknown the answer is the same frame, no turn is started, and no more than a cached copy is left behind.\<close>

theorem hidden_session_is_unknown:
  assumes "get_str parsed ''action'' = Some a" and "a \<in> set session_actions" and "get_str parsed ''sessionId'' = Some sid"
    and "scoped_session (he_server he) sid auth_org scope w = (Inr None, w1)"
    and "state_get_session u sid = None" and "ad_get_session (adapter (he_server he)) sid (storage u) = Inr None"
    and "dispatch he fi si acc conn orig auth_org scope parsed w = (w', fs, sp)"
    and "dispatch he fi si acc conn orig auth_org scope parsed u = (u', fs', sp')"
  shows "fs = fs' \<and> sp = None \<and> sp' = None \<and> u' = u \<and>
         (w' = w \<or> (\<exists>s. w' = insert_session s w \<and> ad_get_session (adapter (he_server he)) sid (storage w) = Inr (Some s)))"
proof -
  from hidden_dispatch [OF assms(1-4), of fi si acc conn orig] assms(7)
  have w: "fs = hidden_answer he fi parsed" "sp = None" "w' = w \<or> w' = w1" by auto
  from hidden_dispatch [OF assms(1-3) unknown_scoped [OF assms(5,6), of auth_org scope], of fi si acc conn orig] assms(8)
  have "fs' = hidden_answer he fi parsed" "sp' = None" "u' = u" by auto
  with w scoped_session_frame [OF assms(4)] show ?thesis by auto
qed

section \<open>Witnesses\<close>

definition demo_read_frame :: json where
  "demo_read_frame = JObj [(''action'', JStr ''get_session''), (''sessionId'', JStr ''s1'')]"

text \<open>A connection of another organization, and a server that never saw the session.\<close>

theorem hidden_session_is_unknown_witness:
  "fst (snd (dispatch demo_handler demo_input demo_spawn access_anonymous ''k'' None (Some ''other'') ScopeDenied demo_read_frame demo_live)) =
   fst (snd (dispatch demo_handler demo_input demo_spawn access_anonymous ''k'' None (Some ''other'') ScopeDenied demo_read_frame
     (app_state_new tables_default)))"
proof -
  let ?run = "dispatch demo_handler demo_input demo_spawn access_anonymous ''k'' None (Some ''other'') ScopeDenied demo_read_frame"
  have act: "get_str demo_read_frame ''action'' = Some ''get_session''" "get_str demo_read_frame ''sessionId'' = Some ''s1''"
    by (simp_all add: demo_read_frame_def get_str_def)
  have mem: "''get_session'' \<in> set session_actions" by (simp add: session_actions_def)
  have hidden: "scoped_session (he_server demo_handler) ''s1'' (Some ''other'') ScopeDenied demo_live = (Inr None, demo_live)"
    by (simp add: scoped_session_def load_session_def state_get_session_def demo_live_def Conversations.demo_store_def
        insert_session_def app_state_new_def demo_session_def same_org_def)
  have unknown: "state_get_session (app_state_new tables_default) ''s1'' = None"
    "ad_get_session (adapter (he_server demo_handler)) ''s1'' (storage (app_state_new tables_default)) = Inr None"
    by (simp_all add: state_get_session_def app_state_new_def demo_handler_def Conversations.demo_env_def memory_adapter_def get_session_def
        locked_def tables_default_def)
  obtain w' fs sp where r1: "?run demo_live = (w', fs, sp)" by (metis prod_cases3)
  obtain u' fs' sp' where r2: "?run (app_state_new tables_default) = (u', fs', sp')" by (metis prod_cases3)
  from hidden_session_is_unknown [OF act(1) mem act(2) hidden unknown r1 r2] r1 r2 show ?thesis by simp
qed

end
