(* ===== verification/Session_Safety.thy ===== *)
theory Session_Safety
  imports Dispatch
begin

text \<open>
  What the dispatcher guarantees about a session on the in-memory store: a verdict on a parked write is used
  once, and a session is verified by nothing but a code its one-time-code service accepted.
\<close>

section \<open>A verdict is used once\<close>

definition pending_record :: "tables \<Rightarrow> string \<Rightarrow> json option" where
  "pending_record t sid = Option.bind (map_of (sessions t) sid) (\<lambda>s. meta_record s ''pendingConfirmation'')"

text \<open>Nothing is pending: no live park and no durable record.\<close>

definition nothing_pending :: "tables app_state \<Rightarrow> string \<Rightarrow> bool" where
  "nothing_pending w sid \<longleftrightarrow>
     \<not> poisoned w ConfirmationsLock \<and> \<not> tables_poisoned (storage w) \<and> pending_confirmations w sid = None \<and>
     pending_record (storage w) sid = None"

lemma memory_get_session [simp]:
  "ad_get_session (memory_adapter cb pb) sid t = (if tables_poisoned t then Inl (storage_error_text TablesPoisoned) else Inr (map_of (sessions t) sid))"
  by (simp add: memory_adapter_def get_session_def locked_def)

lemma scoped_session_fields:
  assumes "scoped_session env sid auth_org scope w = (r, w')"
  shows "storage w' = storage w" "pending_confirmations w' = pending_confirmations w" "poisoned w' = poisoned w"
    "sent_verdicts w' = sent_verdicts w" "pending_sessions w' = pending_sessions w"
  using scoped_session_frame [OF assms] by (auto simp: insert_session_def split: if_splits)

lemma durable_nothing:
  assumes "adapter (he_server he) = memory_adapter cb pb" and "\<not> tables_poisoned (storage w)"
    and "pending_record (storage w) sid = None"
  shows "durable_confirm_fallback he fi si conn auth_org acc scope sid approved rid w = (w, [no_pending_confirmation fi rid sid], None)"
  using assms by (auto simp: durable_confirm_fallback_def pending_record_def Let_def split: option.splits)

lemma confirm_nothing_pending:
  assumes mem: "adapter (he_server he) = memory_adapter cb pb" and none: "nothing_pending w sid"
    and frame: "get_str parsed ''sessionId'' = Some sid" "get_bool parsed ''approved'' = Some b"
  shows "\<exists>w'. handle_confirm_tool_action he fi si conn auth_org acc scope parsed rid w =
             (w', [no_pending_confirmation fi rid sid], None) \<and> sent_verdicts w' = sent_verdicts w"
proof -
  obtain r w1 where sc: "scoped_session (he_server he) sid auth_org scope w = (r, w1)" by fastforce
  note fields = scoped_session_fields [OF sc]
  have ok: "\<not> result_ok r \<Longrightarrow> False"
    using sc none mem by (auto simp: scoped_session_def load_session_def nothing_pending_def split: option.splits if_splits)
  have take: "take_confirmation sid w1 = (None, w1\<lparr>pending_confirmations := (pending_confirmations w1)(sid := None)\<rparr>)"
    using none fields by (simp add: take_confirmation_def nothing_pending_def)
  show ?thesis
  proof (cases r)
    case (Inl e)
    with ok show ?thesis by simp
  next
    case (Inr x)
    have "durable_confirm_fallback he fi si conn auth_org acc scope sid b rid
        (w1\<lparr>pending_confirmations := (pending_confirmations w1)(sid := None)\<rparr>) =
        (w1\<lparr>pending_confirmations := (pending_confirmations w1)(sid := None)\<rparr>, [no_pending_confirmation fi rid sid], None)"
      by (rule durable_nothing [OF mem]) (use none fields in \<open>simp_all add: nothing_pending_def\<close>)
    with Inr sc frame take fields show ?thesis
      by (cases x) (simp_all add: handle_confirm_tool_action_def)
  qed
qed

text \<open>Retiring the record of a registered session.\<close>

lemma pending_record_cleared:
  assumes "\<not> poisoned w SessionsLock" and "reg_sessions w sid = Some s"
    and "set_pending_confirmation (memory_adapter cb pb) now sid None w = (r, w')"
  shows "(\<not> tables_poisoned (storage w) \<longrightarrow> pending_record (storage w') sid = None) \<and>
         tables_poisoned (storage w') = tables_poisoned (storage w) \<and> pending_confirmations w' = pending_confirmations w \<and>
         poisoned w' = poisoned w \<and> pending_sessions w' = pending_sessions w \<and> running w' = running w \<and>
         (\<exists>s'. reg_sessions w' sid = Some s' \<and> ss_conversation_id s' = ss_conversation_id s)"
  using assms
  by (auto simp: set_pending_confirmation_def set_session_meta_key_def edit_meta_def write_through_def memory_adapter_def
      update_session_def locked_def metadata_update_def pending_record_def meta_record_def update_conv delete_conv Let_def
      split: option.splits sum.splits if_splits)

lemma insert_session_registered:
  "\<not> poisoned w SessionsLock \<Longrightarrow> reg_sessions (insert_session s w) = (reg_sessions w)(session_id s \<mapsto> s)"
  by (simp add: insert_session_def)

lemma scoped_session_some:
  assumes "scoped_session env sid auth_org scope w = (Inr (Some s), w')" and "\<not> poisoned w SessionsLock"
    and "\<And>s. ad_get_session (adapter env) sid (storage w) = Inr (Some s) \<Longrightarrow> session_id s = sid"
  shows "reg_sessions w' sid = Some s"
  using assms unfolding scoped_session_def load_session_def
  by (auto simp: state_get_session_def insert_session_def split: option.splits sum.splits if_splits)

lemma no_deferred_materialize:
  assumes "\<not> poisoned w PendingSessionsLock" and "map_of (pending_sessions w) sid = None"
  shows "materialize_session ad sid w = (Inr (), w)"
  using assms by (simp add: materialize_session_def)

text \<open>Sending a message to a session whose rows have landed leaves the store and the parks alone.\<close>

lemma send_message_store:
  assumes "handle_send_message he fi si conn auth_org acc scope parsed rid w = (w', fs, sp)"
    and "get_str parsed ''sessionId'' = Some sid"
    and "\<not> poisoned w PendingSessionsLock" and "map_of (pending_sessions w) sid = None"
  shows "storage w' = storage w \<and> pending_confirmations w' = pending_confirmations w \<and> poisoned w' = poisoned w"
proof (cases "validate_send he fi parsed rid")
  case (Inl ev)
  with assms(1) show ?thesis by (simp add: handle_send_message_def)
next
  case (Inr req)
  then have sid: "sr_session_id req = sid" using validate_send_request [OF Inr] assms(2) by simp
  obtain q w1 where sc: "scoped_session (he_server he) sid auth_org scope w = (q, w1)" by fastforce
  note fields = scoped_session_fields [OF sc]
  have m: "materialize_session ad sid (w1\<lparr>running := r\<rparr>) = (Inr (), w1\<lparr>running := r\<rparr>)" for ad r
    by (rule no_deferred_materialize) (use assms(3,4) fields in simp_all)
  have pre: "storage w4 = storage w \<and> pending_confirmations w4 = pending_confirmations w \<and> poisoned w4 = poisoned w"
    if "(if wants_confirmation he then take_pre_approval sid (w1\<lparr>running := r\<rparr>) else (None, w1\<lparr>running := r\<rparr>)) = (p, w4)" for r p w4
    using that fields by (auto simp: take_pre_approval_def split: if_splits)
  show ?thesis
  proof (cases "\<exists>s. q = Inr (Some s)")
    case False
    with assms(1) Inr sc sid fields show ?thesis
      by (auto simp: handle_send_message_def split: sum.splits option.splits)
  next
    case True
    then obtain s where s: "q = Inr (Some s)" by blast
    obtain c r where t: "try_reserve (ss_conversation_id s) (sr_request_id req) conn (si_sink si) (si_flag si) (running w1) = (c, r)"
      by fastforce
    show ?thesis
    proof (cases c)
      case None
      with assms(1) Inr sc sid fields s t show ?thesis by (auto simp: handle_send_message_def)
    next
      case (Some res)
      with assms(1) Inr sc sid s t
      have run: "start_turn he fi si acc parsed req s res (w1\<lparr>running := r\<rparr>) = (w', fs, sp)"
        by (simp add: handle_send_message_def)
      show ?thesis
      proof (cases "turn_llm he (conversation_org (adapter (he_server he)) (ss_conversation_id s) (storage w1))")
        case None
        with run sid m fields show ?thesis by (auto simp: start_turn_def Let_def drop_claim_def)
      next
        case (Some kl)
        obtain p w4 where p: "(if wants_confirmation he then take_pre_approval sid (w1\<lparr>running := r\<rparr>) else (None, w1\<lparr>running := r\<rparr>)) = (p, w4)"
          by fastforce
        with run sid m Some have "w' = w4\<lparr>running := releaser_set_abort (releaser res) (si_task si) (running w4)\<rparr>"
          by (cases kl) (auto simp: start_turn_def Let_def)
        with pre [OF p] show ?thesis by simp
      qed
    qed
  qed
qed

definition settled :: "tables app_state \<Rightarrow> string \<Rightarrow> bool" where
  "settled w sid \<longleftrightarrow>
     \<not> poisoned w SessionsLock \<and> \<not> poisoned w ConfirmationsLock \<and> \<not> poisoned w PendingSessionsLock \<and>
     \<not> tables_poisoned (storage w) \<and> keyed session_id (sessions (storage w)) \<and> map_of (pending_sessions w) sid = None"

lemma keyed_session: "keyed session_id m \<Longrightarrow> map_of m sid = Some s \<Longrightarrow> session_id s = sid"
  by (auto simp: keyed_def dest!: map_of_SomeD)

lemma durable_resolved:
  assumes mem: "adapter (he_server he) = memory_adapter cb pb" and st: "settled w sid" and none: "pending_confirmations w sid = None"
    and run: "durable_confirm_fallback he fi si conn auth_org acc scope sid approved rid w = (w', [f], sp)"
    and res: "frame_type f = ''immediate_response''"
  shows "nothing_pending w' sid"
proof -
  from run res mem obtain s rec where s: "map_of (sessions (storage w)) sid = Some s" "meta_record s ''pendingConfirmation'' = Some rec"
    by (auto simp: durable_confirm_fallback_def no_pending_confirmation_def session_storage_error_def Let_def
        split: option.splits if_splits)
  have id: "session_id s = sid" using st s(1) keyed_session by (auto simp: settled_def)
  obtain r w1 where c: "set_pending_confirmation (memory_adapter cb pb) (fi_now fi) sid None (insert_session s w) = (r, w1)" by fastforce
  have reg: "\<not> poisoned (insert_session s w) SessionsLock" "reg_sessions (insert_session s w) sid = Some s"
    using st id by (simp_all add: settled_def insert_session_def)
  note clr = pending_record_cleared [OF reg c]
  have w1: "nothing_pending w1 sid" "\<not> poisoned w1 PendingSessionsLock" "map_of (pending_sessions w1) sid = None"
    using clr st none by (simp_all add: nothing_pending_def settled_def insert_session_def)
  show ?thesis
  proof (cases "sp = None \<and> w' = w1")
    case True
    with w1 show ?thesis by simp
  next
    case False
    have "durable_confirm_fallback he fi si conn auth_org acc scope sid approved rid w =
        (if \<not> record_fresh fi rec then (w1, [no_pending_confirmation fi rid sid], None)
         else if \<not> result_ok r then (w1, [session_storage_error fi rid], None)
         else if \<not> approved then (w1, [verdict_ack fi rid sid False], None)
         else if unwrap_or (get_str rec ''tool'') [] = [] then (w1, [no_pending_confirmation fi rid sid], None)
         else handle_send_message he fi si conn auth_org acc scope
                (approval_frame he sid (unwrap_or (get_str rec ''tool'') []) (unwrap_or (get_str rec ''prompt'') [])
                  (unwrap_or (jget rec ''arguments'') JNull)) rid (grant_pre_approval sid (unwrap_or (get_str rec ''tool'') []) w1))"
      using mem s c st by (simp add: durable_confirm_fallback_def settled_def Let_def)
    with run False obtain parsed' where
      send: "handle_send_message he fi si conn auth_org acc scope parsed' rid
          (grant_pre_approval sid (unwrap_or (get_str rec ''tool'') []) w1) = (w', [f], sp)" and
      sid: "get_str parsed' ''sessionId'' = Some sid"
      by (auto simp: approval_frame_def get_str_def split: if_splits)
    let ?g = "grant_pre_approval sid (unwrap_or (get_str rec ''tool'') []) w1"
    have g: "storage ?g = storage w1" "pending_confirmations ?g = pending_confirmations w1" "poisoned ?g = poisoned w1"
      "pending_sessions ?g = pending_sessions w1" by (simp_all add: grant_pre_approval_def)
    from send_message_store [OF send sid] g w1 show ?thesis by (simp add: nothing_pending_def)
  qed
qed

lemma confirm_resolved:
  assumes mem: "adapter (he_server he) = memory_adapter cb pb" and st: "settled w sid"
    and frame: "get_str parsed ''sessionId'' = Some sid"
    and run: "handle_confirm_tool_action he fi si conn auth_org acc scope parsed rid w = (w', [f], sp)"
    and res: "frame_type f = ''immediate_response''"
  shows "nothing_pending w' sid"
proof -
  obtain b where b: "get_bool parsed ''approved'' = Some b"
    using run res frame by (auto simp: handle_confirm_tool_action_def split: option.splits)
  obtain q w1 where sc: "scoped_session (he_server he) sid auth_org scope w = (q, w1)" by fastforce
  note fields = scoped_session_fields [OF sc]
  obtain s where q: "q = Inr (Some s)"
    using run res frame b sc
    by (auto simp: handle_confirm_tool_action_def session_storage_error_def no_pending_confirmation_def
        split: sum.splits option.splits)
  have "reg_sessions w1 sid = Some s"
    by (rule scoped_session_some [OF sc [unfolded q]]) (use st mem in \<open>auto simp: settled_def dest: keyed_session\<close>)
  let ?w2 = "w1\<lparr>pending_confirmations := (pending_confirmations w1)(sid := None)\<rparr>"
  have take: "take_confirmation sid w1 = (pending_confirmations w1 sid, ?w2)"
    using st fields by (simp add: take_confirmation_def settled_def)
  have st2: "settled ?w2 sid" "pending_confirmations ?w2 sid = None"
    using st fields by (simp_all add: settled_def)
  show ?thesis
  proof (cases "\<exists>ch. pending_confirmations w1 sid = Some ch \<and> \<not> receiver_gone w1 ch")
    case False
    with run res frame b sc q take st2 mem show ?thesis
      by (auto simp: handle_confirm_tool_action_def send_verdict_def split: option.splits
          intro: durable_resolved [OF mem st2])
  next
    case True
    then obtain ch v w3 where ch: "pending_confirmations w1 sid = Some ch"
      and w3: "w3 = ?w2\<lparr>sent_verdicts := sent_verdicts ?w2 @ [(ch, v)]\<rparr>"
      and w': "w' = snd (set_pending_confirmation (memory_adapter cb pb) (fi_now fi) sid None w3)"
      using run frame b sc q take mem by (auto simp: handle_confirm_tool_action_def send_verdict_def)
    obtain r w4 where c: "set_pending_confirmation (memory_adapter cb pb) (fi_now fi) sid None w3 = (r, w4)" by fastforce
    have "\<not> poisoned w3 SessionsLock" "reg_sessions w3 sid = Some s"
      using st fields \<open>reg_sessions w1 sid = Some s\<close> unfolding w3 by (simp_all add: settled_def)
    from pending_record_cleared [OF this c] c st2 show ?thesis
      unfolding w' by (simp add: nothing_pending_def settled_def w3)
  qed
qed


text \<open>An approval can be lost: when the durable record is honoured while another turn runs on the conversation,
  the record is retired and the grant is left behind, but no turn carries it out, and a second
  confirmation finds nothing.\<close>

lemma approval_lost_when_busy:
  assumes mem: "adapter (he_server he) = memory_adapter cb pb" and st: "settled w sid" and none: "pending_confirmations w sid = None"
    and s: "map_of (sessions (storage w)) sid = Some s" "meta_record s ''pendingConfirmation'' = Some rec" "record_fresh fi rec"
    and tool: "get_str rec ''tool'' = Some tool" "tool \<noteq> []" and lock: "\<not> poisoned w PreApprovedLock"
    and busy: "is_running (running w) (ss_conversation_id s)"
  shows "\<exists>w'. durable_confirm_fallback he fi si conn None acc Unscoped sid True (Some r) w = (w', [turn_in_progress fi r], None) \<and>
             nothing_pending w' sid \<and> pre_approved_confirmations w' sid = Some tool"
proof -
  have id: "session_id s = sid" using st s(1) keyed_session by (auto simp: settled_def)
  obtain q w1 where c: "set_pending_confirmation (memory_adapter cb pb) (fi_now fi) sid None (insert_session s w) = (q, w1)" by fastforce
  have reg: "\<not> poisoned (insert_session s w) SessionsLock" "reg_sessions (insert_session s w) sid = Some s"
    using st id by (simp_all add: settled_def insert_session_def)
  note clr = pending_record_cleared [OF reg c]
  then obtain s' where s': "reg_sessions w1 sid = Some s'" "ss_conversation_id s' = ss_conversation_id s" by blast
  have q: "result_ok q"
    using c reg s(1) st by (auto simp: set_pending_confirmation_def set_session_meta_key_def edit_meta_def write_through_def
        memory_adapter_def update_session_def locked_def metadata_update_def settled_def insert_session_def Let_def
        split: sum.splits option.splits if_splits)
  let ?p = "approval_frame he sid tool (unwrap_or (get_str rec ''prompt'') []) (unwrap_or (jget rec ''arguments'') JNull)"
  let ?g = "grant_pre_approval sid tool w1"
  have v: "\<exists>req. validate_send he fi ?p (Some r) = Inr req \<and> sr_session_id req = sid \<and> sr_request_id req = r"
  proof -
    have "trim (''Approved '' @ x) \<noteq> []" for x
      using trim_Cons_nonblank [of "CHR ''A''"] by (simp add: is_whitespace_def)
    then show ?thesis by (simp add: validate_send_def approval_frame_def get_str_def nonblank_def Let_def)
  qed
  then obtain req where req: "validate_send he fi ?p (Some r) = Inr req" "sr_session_id req = sid" "sr_request_id req = r" by blast
  have sc: "scoped_session (he_server he) sid None Unscoped ?g = (Inr (Some s'), ?g)"
    using s'(1) clr st by (simp add: scoped_session_def load_session_def state_get_session_def grant_pre_approval_def
        same_org_def may_read_conversation_def settled_def insert_session_def)
  have run: "running ?g = running w" using clr by (simp add: grant_pre_approval_def)
  have "handle_send_message he fi si conn None acc Unscoped ?p (Some r) ?g = (?g, [turn_in_progress fi r], None)"
    using req sc run s'(2) busy by (simp add: handle_send_message_def try_reserve_def is_running_def)
  then have "durable_confirm_fallback he fi si conn None acc Unscoped sid True (Some r) w = (?g, [turn_in_progress fi r], None)"
    using mem s c st q tool by (simp add: durable_confirm_fallback_def settled_def Let_def)
  moreover have "nothing_pending ?g sid" "pre_approved_confirmations ?g sid = Some tool"
    using clr st none lock by (simp_all add: nothing_pending_def settled_def grant_pre_approval_def insert_session_def)
  ultimately show ?thesis by blast
qed

section \<open>What verifies a session\<close>

definition row_verified :: "session \<Rightarrow> bool" where
  "row_verified s \<longleftrightarrow> Option.bind (meta_record s ''otpVerified'') as_bool = Some True"

text \<open>A session that some copy calls verified: the registry's, the store's or that of a parked create.\<close>

definition known_verified :: "tables app_state \<Rightarrow> string \<Rightarrow> bool" where
  "known_verified w sid \<longleftrightarrow>
     (\<exists>s. reg_sessions w sid = Some s \<and> row_verified s) \<or>
     (\<exists>s. map_of (sessions (storage w)) sid = Some s \<and> row_verified s) \<or>
     (\<exists>kp \<in> set (pending_sessions w). \<exists>s. ps_session (snd kp) = Some s \<and> session_id s = sid \<and> row_verified s)"

lemma session_authenticated_known:
  assumes "App_State.session_authenticated w sid"
  shows "known_verified w sid"
proof -
  obtain s where s: "reg_sessions w sid = Some s" and v: "unwrap_or (Option.bind (meta_record s ''otpVerified'') as_bool) False"
    using assms by (auto simp: App_State.session_authenticated_def session_meta_def state_get_session_def meta_record_def
        split: if_splits bind_splits)
  from v have "row_verified s"
    by (cases "Option.bind (meta_record s ''otpVerified'') as_bool") (simp_all add: row_verified_def)
  with s show ?thesis by (simp add: known_verified_def)
qed

definition quiet :: "tables app_state \<Rightarrow> tables app_state \<Rightarrow> bool" where
  "quiet w w' \<longleftrightarrow>
     keyed session_id (sessions (storage w)) \<longrightarrow>
     keyed session_id (sessions (storage w')) \<and> (\<forall>sid. known_verified w' sid \<longrightarrow> known_verified w sid)"

lemma quiet_refl [simp]: "quiet w w"
  by (simp add: quiet_def)

lemma quiet_trans: "quiet w w' \<Longrightarrow> quiet w' w'' \<Longrightarrow> quiet w w''"
  by (simp add: quiet_def)

lemma quiet_same:
  "reg_sessions w' = reg_sessions w \<Longrightarrow> sessions (storage w') = sessions (storage w) \<Longrightarrow>
   pending_sessions w' = pending_sessions w \<Longrightarrow> quiet w w'"
  by (simp add: quiet_def known_verified_def)

lemma quiet_insert:
  assumes "row_verified s \<Longrightarrow> map_of (sessions (storage w)) (session_id s) = Some s"
  shows "quiet w (insert_session s w)"
  using assms by (auto simp: quiet_def known_verified_def insert_session_def split: if_splits)

lemma quiet_scoped:
  assumes mem: "adapter env = memory_adapter cb pb" and run: "scoped_session env sid auth_org scope w = (r, w')"
  shows "quiet w w'"
proof -
  from scoped_session_frame [OF run] mem consider "w' = w"
    | s where "w' = insert_session s w" "map_of (sessions (storage w)) sid = Some s"
    by (auto split: if_splits)
  then show ?thesis
  proof cases
    case (2 s)
    show ?thesis unfolding quiet_def
    proof
      assume k: "keyed session_id (sessions (storage w))"
      then have "quiet w (insert_session s w)" using 2 keyed_session by (intro quiet_insert) blast
      with k 2 show "keyed session_id (sessions (storage w')) \<and> (\<forall>sid. known_verified w' sid \<longrightarrow> known_verified w sid)"
        by (simp add: quiet_def)
    qed
  qed simp
qed

lemma keyed_update_session:
  "keyed session_id m \<Longrightarrow> map_of m i = Some s \<Longrightarrow> session_id s' = session_id s \<Longrightarrow> keyed session_id (AList.update i s' m)"
  using keyed_session keyed_update by metis

text \<open>An edit of the metadata that does not touch the bit, written through.\<close>

lemma quiet_edit:
  assumes edit: "edit_meta sid f w = Some (m, w1)" and bit: "\<And>m. map_of (f m) ''otpVerified'' = map_of m ''otpVerified''"
    and thru: "write_through (memory_adapter cb pb) now sid m w1 = (r, w')"
  shows "quiet w w'"
proof -
  obtain s where s: "reg_sessions w sid = Some s" "m = f (unwrap_or (ss_metadata s) [])"
    "w1 = w\<lparr>reg_sessions := (reg_sessions w)(sid \<mapsto> s\<lparr>ss_metadata := Some m\<rparr>)\<rparr>"
    using edit by (auto simp: edit_meta_def Let_def split: if_splits option.splits)
  have ver: "row_verified x = row_verified s" if "ss_metadata x = Some m" for x
    using that s(2) bit by (cases "ss_metadata s") (simp_all add: row_verified_def meta_record_def)
  show ?thesis
  proof (cases "\<exists>x. r = Inr x")
    case False
    with thru have "w' = w1" by (auto simp: write_through_def split: sum.splits)
    then show ?thesis using s(1,3) ver [of "s\<lparr>ss_metadata := Some m\<rparr>"]
      by (auto simp: quiet_def known_verified_def split: if_splits)
  next
    case True
    with thru s(3) obtain y where y: "map_of (sessions (storage w)) sid = Some y"
      "w' = w1\<lparr>storage := (storage w)\<lparr>sessions := AList.update sid (y\<lparr>ss_metadata := Some m, ss_updated_at := Some now\<rparr>) (sessions (storage w))\<rparr>\<rparr>"
      by (auto simp: write_through_def memory_adapter_def update_session_def locked_def metadata_update_def Let_def
          split: sum.splits option.splits if_splits)
    define x' where "x' = y\<lparr>ss_metadata := Some m, ss_updated_at := Some now\<rparr>"
    have x: "session_id x' = session_id y" "ss_metadata x' = Some m"
      "w' = w1\<lparr>storage := (storage w)\<lparr>sessions := AList.update sid x' (sessions (storage w))\<rparr>\<rparr>"
      using y(2) by (simp_all add: x'_def)
    have vs: "row_verified x' = row_verified s" "row_verified (s\<lparr>ss_metadata := Some m\<rparr>) = row_verified s"
      using ver [OF x(2)] ver [of "s\<lparr>ss_metadata := Some m\<rparr>"] by simp_all
    show ?thesis unfolding quiet_def
    proof (intro impI conjI allI)
      assume k: "keyed session_id (sessions (storage w))"
      then show "keyed session_id (sessions (storage w'))" using keyed_update_session [OF k y(1) x(1)] x(3) by simp
      fix i assume "known_verified w' i"
      then show "known_verified w i"
        unfolding known_verified_def x(3) s(3) using s(1) vs by (auto simp: update_conv split: if_splits)
    qed
  qed
qed

lemma quiet_set_meta_key:
  assumes "key \<noteq> ''otpVerified''" and "set_session_meta_key (memory_adapter cb pb) now sid key v w = (r, w')"
  shows "quiet w w'"
proof (cases "edit_meta sid (\<lambda>m. case v of Some x \<Rightarrow> AList.update key x m | None \<Rightarrow> AList.delete key m) w")
  case None
  with assms(2) show ?thesis by (simp add: set_session_meta_key_def)
next
  case (Some mw)
  obtain m w1 where mw: "mw = (m, w1)" by fastforce
  show ?thesis
    by (rule quiet_edit [OF Some [unfolded mw]])
      (use assms Some mw in \<open>auto simp: set_session_meta_key_def update_conv delete_conv split: option.split\<close>)
qed

lemma quiet_attach: "quiet w (attach_session_identity (memory_adapter cb pb) now sid v w)"
proof -
  let ?put = "\<lambda>k x m. case x of Some y \<Rightarrow> AList.update k (JStr y) m | None \<Rightarrow> m"
  let ?f = "\<lambda>m. ?put ''contactPhone'' (iv_phone v) (?put ''contactEmail'' (iv_email v) (?put ''userName'' (iv_name v) m))"
  show ?thesis
  proof (cases "edit_meta sid ?f w")
    case None
    then show ?thesis by (simp add: attach_session_identity_def Let_def)
  next
    case (Some mw)
    obtain m w1 where mw: "mw = (m, w1)" by fastforce
    obtain r w' where t: "write_through (memory_adapter cb pb) now sid m w1 = (r, w')" by fastforce
    have "quiet w w'" by (rule quiet_edit [OF Some [unfolded mw] _ t]) (simp add: update_conv split: option.split)
    moreover have "attach_session_identity (memory_adapter cb pb) now sid v w = w'"
      using Some mw t by (simp add: attach_session_identity_def Let_def)
    ultimately show ?thesis by simp
  qed
qed

text \<open>Parked creates.\<close>

lemma alist_update_subset: "set (AList.update k v m) \<subseteq> insert (k, v) (set m)"
  by (induction m) auto

lemma alist_delete_subset: "set (AList.delete k m) \<subseteq> set m"
  by (auto simp: AList.delete_eq)

lemma quiet_defer:
  assumes "\<And>s. ps_session p = Some s \<Longrightarrow> \<not> row_verified s"
  shows "quiet w (defer_session p w)"
  using assms alist_update_subset [of "ps_session_id p" p "pending_sessions w"]
  by (fastforce simp: quiet_def known_verified_def defer_session_def split: if_splits)

lemma flush_step_sessions:
  assumes "flush_step write row st = (r, row', st')" and "\<And>a x u. write a st = Inr (x, u) \<Longrightarrow> sessions u = sessions st"
  shows "sessions st' = sessions st"
  using assms by (auto simp: flush_step_def split: option.splits sum.splits)

lemma memory_writes_sessions:
  "ad_create_conversation (memory_adapter cb pb) c st = Inr (x, u) \<Longrightarrow> sessions u = sessions st"
  "ad_add_participant (memory_adapter cb pb) q st = Inr (y, u) \<Longrightarrow> sessions u = sessions st"
  "ad_update_conversation (memory_adapter cb pb) now i up st = Inr (x, u) \<Longrightarrow> sessions u = sessions st"
  by (auto simp: memory_adapter_def create_conversation_def add_participant_def update_conversation_def locked_def Let_def
      split: if_splits option.splits)

lemma memory_create_session:
  "ad_create_session (memory_adapter cb pb) s st = Inr (x, u) \<Longrightarrow> sessions u = AList.update (session_id s) s (sessions st)"
  by (auto simp: memory_adapter_def create_session_def locked_def split: if_splits)

lemma flush_pending_sessions:
  assumes "flush_pending (memory_adapter cb pb) p st = (r, p', st')"
  shows "(ps_session p' = ps_session p \<and> sessions st' = sessions st) \<or>
         (\<exists>s. ps_session p = Some s \<and> ps_session p' = None \<and> sessions st' = AList.update (session_id s) s (sessions st))"
proof -
  let ?ad = "memory_adapter cb pb"
  obtain r1 x1 st1 where s1: "flush_step (ad_create_conversation ?ad) (ps_conversation p) st = (r1, x1, st1)" by (metis prod_cases3)
  obtain r2 x2 st2 where s2: "flush_step (ad_add_participant ?ad) (ps_user p) st1 = (r2, x2, st2)" by (metis prod_cases3)
  obtain r3 x3 st3 where s3: "flush_step (ad_add_participant ?ad) (ps_agent p) st2 = (r3, x3, st3)" by (metis prod_cases3)
  obtain r4 x4 st4 where s4: "flush_step (ad_create_session ?ad) (ps_session p) st3 = (r4, x4, st4)" by (metis prod_cases3)
  have same: "sessions st1 = sessions st" "sessions st2 = sessions st" "sessions st3 = sessions st"
    using flush_step_sessions [OF s1] flush_step_sessions [OF s2] flush_step_sessions [OF s3] memory_writes_sessions by simp_all
  have "(x4 = ps_session p \<and> sessions st4 = sessions st) \<or>
      (\<exists>s. ps_session p = Some s \<and> x4 = None \<and> sessions st4 = AList.update (session_id s) s (sessions st))"
    using s4 same by (auto simp: flush_step_def split: option.splits sum.splits dest: memory_create_session)
  with assms s1 s2 s3 s4 same show ?thesis by (auto simp: flush_pending_def Let_def split: if_splits)
qed

lemma quiet_parts:
  assumes "reg_sessions w' = reg_sessions w"
    and "\<And>i x. map_of (sessions (storage w')) i = Some x \<Longrightarrow> row_verified x \<Longrightarrow> known_verified w i"
    and "\<And>kp x. kp \<in> set (pending_sessions w') \<Longrightarrow> ps_session (snd kp) = Some x \<Longrightarrow> row_verified x \<Longrightarrow> known_verified w (session_id x)"
    and "keyed session_id (sessions (storage w)) \<Longrightarrow> keyed session_id (sessions (storage w'))"
  shows "quiet w w'"
  unfolding quiet_def
proof (intro impI conjI allI)
  fix i assume "known_verified w' i"
  then consider x where "reg_sessions w i = Some x" "row_verified x"
    | x where "map_of (sessions (storage w')) i = Some x" "row_verified x"
    | kp x where "kp \<in> set (pending_sessions w')" "ps_session (snd kp) = Some x" "session_id x = i" "row_verified x"
    unfolding known_verified_def assms(1) by blast
  then show "known_verified w i"
  proof cases
    case 1
    then show ?thesis by (auto simp: known_verified_def)
  qed (use assms(2,3) in blast)+
qed (erule assms(4))

lemma stored_known: "map_of (sessions (storage w)) i = Some x \<Longrightarrow> row_verified x \<Longrightarrow> known_verified w i"
  by (auto simp: known_verified_def)

lemma quiet_store_row:
  assumes "row_verified s \<Longrightarrow> known_verified w (session_id s)" and "reg_sessions w' = reg_sessions w"
    and "sessions (storage w') = AList.update (session_id s) s (sessions (storage w))"
    and "\<And>kp x. kp \<in> set (pending_sessions w') \<Longrightarrow> ps_session (snd kp) = Some x \<Longrightarrow> row_verified x \<Longrightarrow> known_verified w (session_id x)"
  shows "quiet w w'"
proof (rule quiet_parts [OF assms(2)])
  show "keyed session_id (sessions (storage w))  \<Longrightarrow> keyed session_id (sessions (storage w'))"
    unfolding assms(3) by (erule Storage.keyed_update) (rule refl)
next
  fix i x assume "map_of (sessions (storage w')) i = Some x" "row_verified x"
  with assms(1) stored_known show "known_verified w i" unfolding assms(3) by (auto simp: update_conv split: if_splits)
qed (rule assms(4))

lemma quiet_materialize:
  assumes run: "materialize_session (memory_adapter cb pb) sid w = (r, w')"
  shows "quiet w w'"
proof (cases "poisoned w PendingSessionsLock \<or> map_of (pending_sessions w) sid = None")
  case True
  with run show ?thesis by (auto simp: materialize_session_def split: if_splits)
next
  case False
  then obtain p where p: "map_of (pending_sessions w) sid = Some p" "\<not> poisoned w PendingSessionsLock" by auto
  obtain q p' st' where f: "flush_pending (memory_adapter cb pb) p (storage w) = (q, p', st')" by (metis prod_cases3)
  let ?pend = "AList.delete sid (pending_sessions w)"
  have w': "reg_sessions w' = reg_sessions w" "storage w' = st'"
    "set (pending_sessions w') \<subseteq> insert (ps_session_id p', p') (set ?pend)"
    using run p f alist_update_subset [of "ps_session_id p'" p' ?pend]
    by (auto simp: materialize_session_def defer_session_def Let_def split: if_splits)
  have mem: "(sid, p) \<in> set (pending_sessions w)" using p(1) by (rule map_of_SomeD)
  have old: "known_verified w (session_id x)"
    if "kp \<in> set (pending_sessions w')" "ps_session (snd kp) = Some x" "row_verified x" for kp x
  proof -
    from that(1) w'(3) have "kp = (ps_session_id p', p') \<or> kp \<in> set (pending_sessions w)"
      using alist_delete_subset [of sid "pending_sessions w"] by auto
    then have "\<exists>kq \<in> set (pending_sessions w). ps_session (snd kq) = Some x"
    proof
      assume "kp = (ps_session_id p', p')"
      with that(2) flush_pending_sessions [OF f] mem show ?thesis by force
    qed (use that in blast)
    with that(3) show ?thesis by (auto simp: known_verified_def)
  qed
  from flush_pending_sessions [OF f] show ?thesis
  proof
    assume "ps_session p' = ps_session p \<and> sessions st' = sessions (storage w)"
    then have "sessions (storage w') = sessions (storage w)" using w'(2) by simp
    then show ?thesis by (intro quiet_parts [OF w'(1)]) (auto intro: stored_known old)
  next
    assume "\<exists>s. ps_session p = Some s \<and> ps_session p' = None \<and> sessions st' = AList.update (session_id s) s (sessions (storage w))"
    then obtain s where s: "ps_session p = Some s" "sessions st' = AList.update (session_id s) s (sessions (storage w))" by blast
    show ?thesis
      by (rule quiet_store_row [where s = s]) (use w' s mem old in \<open>auto simp: known_verified_def\<close>)
  qed
qed

lemma quiet_materialize_conversation:
  "materialize_conversation (memory_adapter cb pb) b cid w = (r, w') \<Longrightarrow> quiet w w'"
  unfolding materialize_conversation_def
  by (auto split: if_splits option.splits intro: quiet_materialize)

text \<open>Creating a session: neither the parked nor the eager path writes the bit.\<close>

lemma created_row_unverified: "\<not> row_verified (row_session (build_rows fi org aid scope parsed resume))"
  by (auto simp: row_verified_def meta_record_def build_rows_def session_metadata_def Let_def split: option.splits if_splits)

lemma eager_write_sessions:
  assumes "eager_write what write row acc = (e, st')" and "\<And>x u. write row (snd acc) = Inr (x, u) \<Longrightarrow> sessions u = sessions (snd acc)"
  shows "sessions st' = sessions (snd acc)"
  using assms by (cases acc) (auto simp: eager_write_def split: option.splits sum.splits)

lemma put_metadata_sessions: "sessions (put_metadata (memory_adapter cb pb) now cid m st) = sessions st"
  by (auto simp: put_metadata_def split: sum.split dest: memory_writes_sessions)

lemma persist_rows_sessions:
  assumes "persist_rows (memory_adapter cb pb) now re caps rows st = (e, st')"
  shows "sessions st' = sessions st \<or> sessions st' = AList.update (session_id (row_session rows)) (row_session rows) (sessions st)"
proof -
  let ?ad = "memory_adapter cb pb"
  define a0 where "a0 = (case row_conversation rows of
      Some c \<Rightarrow> eager_write ''create conversation'' (ad_create_conversation ?ad) c (None, st)
    | None \<Rightarrow> (None, if re then persist_client_supports ?ad now (ss_conversation_id (row_session rows)) caps st else st))"
  define a1 where "a1 = eager_write ''add user participant'' (ad_add_participant ?ad) (row_user rows) a0"
  define a2 where "a2 = eager_write ''add agent participant'' (ad_add_participant ?ad) (row_agent rows) a1"
  have "sessions (snd a0) = sessions st"
    unfolding a0_def using memory_writes_sessions(1)
    by (auto simp: eager_write_def persist_client_supports_def put_metadata_sessions Let_def split: option.split sum.split)
  moreover have "sessions (snd a1) = sessions (snd a0)" unfolding a1_def
    by (rule eager_write_sessions [OF prod.collapse [symmetric]]) (rule memory_writes_sessions(2))
  moreover have "sessions (snd a2) = sessions (snd a1)" unfolding a2_def
    by (rule eager_write_sessions [OF prod.collapse [symmetric]]) (rule memory_writes_sessions(2))
  moreover have "eager_write ''create session'' (ad_create_session ?ad) (row_session rows) a2 = (e, st')"
    using assms unfolding persist_rows_def a2_def a1_def a0_def Let_def by simp
  ultimately show ?thesis
    by (cases a2) (auto simp: eager_write_def split: option.splits sum.splits dest: memory_create_session)
qed

lemma quiet_insert_unverified: "\<not> row_verified s \<Longrightarrow> quiet w (insert_session s w)"
  by (rule quiet_insert) simp

lemma quiet_create:
  assumes mem: "adapter env = memory_adapter cb pb"
  shows "quiet w (fst (create_session_allowed env fi conn auth_org scope parsed rid aid widget_org w))"
proof -
  define w1 where "w1 = (case requested_conversation parsed of
      Some cid \<Rightarrow> snd (materialize_conversation (adapter env) (fi_parked_order fi) cid w) | None \<Rightarrow> w)"
  define resume where "resume = resume_of env auth_org scope parsed w1"
  define rows where "rows = build_rows fi (create_org widget_org auth_org resume) aid scope parsed resume"
  define w2 where "w2 = w1\<lparr>backplane := associate conn (ToAgent aid) (associate conn (ToSession (fi_session_id fi)) (backplane w1))\<rparr>"
  have q1: "quiet w w1"
  proof (cases "requested_conversation parsed")
    case (Some cid)
    then show ?thesis unfolding w1_def mem by (simp add: quiet_materialize_conversation [OF prod.collapse [symmetric]])
  qed (simp add: w1_def)
  moreover have "quiet w1 w2" unfolding w2_def by (rule quiet_same) simp_all
  ultimately have q2: "quiet w w2" by (rule quiet_trans)
  have un: "\<not> row_verified (row_session rows)" unfolding rows_def by (rule created_row_unverified)
  let ?p = "\<lparr>ps_session_id = fi_session_id fi, ps_conn_id = conn, ps_conversation = row_conversation rows,
     ps_user = Some (row_user rows), ps_agent = Some (row_agent rows), ps_session = Some (row_session rows)\<rparr>"
  show ?thesis
  proof (cases "row_conversation rows \<noteq> None \<and> \<not> carries_identity scope parsed")
    case True
    then have eq: "fst (create_session_allowed env fi conn auth_org scope parsed rid aid widget_org w) =
        insert_session (row_session rows) (defer_session ?p w2)"
      unfolding create_session_allowed_def Let_def w2_def rows_def resume_def w1_def by simp
    have "quiet w2 (defer_session ?p w2)" by (rule quiet_defer) (use un in auto)
    from quiet_trans [OF quiet_trans [OF q2 this] quiet_insert_unverified [OF un]] show ?thesis unfolding eq .
  next
    case False
    obtain e st' where p: "persist_rows (memory_adapter cb pb) (fi_now fi) (declared_supports parsed \<noteq> None)
        (effective_supports parsed resume) rows (storage w2) = (e, st')" by fastforce
    have res: "fst (create_session_allowed env fi conn auth_org scope parsed rid aid widget_org w) =
        (case e of Some _ \<Rightarrow> w2\<lparr>storage := st'\<rparr> | None \<Rightarrow> insert_session (row_session rows) (w2\<lparr>storage := st'\<rparr>))"
      using False p unfolding create_session_allowed_def Let_def w2_def rows_def resume_def w1_def mem
      by (auto split: option.split)
    have "quiet w2 (w2\<lparr>storage := st'\<rparr>)"
      using persist_rows_sessions [OF p]
    proof
      assume "sessions st' = sessions (storage w2)"
      then show ?thesis by (intro quiet_same) simp_all
    next
      assume "sessions st' = AList.update (session_id (row_session rows)) (row_session rows) (sessions (storage w2))"
      then show ?thesis
        by (intro quiet_store_row [where s = "row_session rows"]) (use un in \<open>auto simp: known_verified_def\<close>)
    qed
    from quiet_trans [OF q2 this] quiet_trans [OF quiet_trans [OF q2 this] quiet_insert_unverified [OF un]] show ?thesis
      unfolding res by (cases e) simp_all
  qed
qed

lemma quiet_send:
  assumes mem: "adapter (he_server he) = memory_adapter cb pb"
    and run: "handle_send_message he fi si conn auth_org acc scope parsed rid w = (w', fs, sp)"
  shows "quiet w w'"
proof (cases "validate_send he fi parsed rid")
  case (Inl ev)
  with run show ?thesis by (simp add: handle_send_message_def)
next
  case (Inr req)
  obtain q w1 where sc: "scoped_session (he_server he) (sr_session_id req) auth_org scope w = (q, w1)" by fastforce
  note q1 = quiet_scoped [OF mem sc]
  show ?thesis
  proof (cases "\<exists>s. q = Inr (Some s)")
    case False
    with run Inr sc q1 show ?thesis by (auto simp: handle_send_message_def split: sum.splits option.splits)
  next
    case True
    then obtain s where s: "q = Inr (Some s)" by blast
    obtain c r where t: "try_reserve (ss_conversation_id s) (sr_request_id req) conn (si_sink si) (si_flag si) (running w1) = (c, r)"
      by fastforce
    show ?thesis
    proof (cases c)
      case None
      with run Inr sc q1 s t show ?thesis by (auto simp: handle_send_message_def)
    next
      case (Some res)
      let ?w2 = "w1\<lparr>running := r\<rparr>"
      obtain m w3 where m: "materialize_session (memory_adapter cb pb) (sr_session_id req) ?w2 = (m, w3)" by fastforce
      have "quiet w1 ?w2" by (rule quiet_same) simp_all
      from quiet_trans [OF quiet_trans [OF q1 this] quiet_materialize [OF m]] have q3: "quiet w w3" .
      have "quiet w3 w'"
      proof (rule quiet_same)
        obtain pre w4 where p: "(if wants_confirmation he then take_pre_approval (sr_session_id req) w3 else (None, w3)) = (pre, w4)"
          by fastforce
        then have w4: "reg_sessions w4 = reg_sessions w3" "storage w4 = storage w3" "pending_sessions w4 = pending_sessions w3"
          by (auto simp: take_pre_approval_def split: if_splits)
        have "start_turn he fi si acc parsed req s res ?w2 = (w', fs, sp)"
          using run Inr sc s t Some by (simp add: handle_send_message_def)
        then have "w' = drop_claim res w3 \<or> w' = w4\<lparr>running := releaser_set_abort (releaser res) (si_task si) (running w4)\<rparr>"
          using m p mem by (auto simp: start_turn_def Let_def split: sum.splits option.splits)
        then show "reg_sessions w' = reg_sessions w3" "sessions (storage w') = sessions (storage w3)"
          "pending_sessions w' = pending_sessions w3" using w4 by (auto simp: drop_claim_def)
      qed
      with q3 show ?thesis by (rule quiet_trans)
    qed
  qed
qed

lemma quiet_durable:
  assumes mem: "adapter (he_server he) = memory_adapter cb pb"
    and run: "durable_confirm_fallback he fi si conn auth_org acc scope sid approved rid w = (w', fs, sp)"
  shows "quiet w w'"
proof (cases "\<exists>s rec. \<not> tables_poisoned (storage w) \<and> map_of (sessions (storage w)) sid = Some s \<and>
    meta_record s ''pendingConfirmation'' = Some rec")
  case False
  with run mem show ?thesis
    by (auto simp: durable_confirm_fallback_def Let_def split: option.splits sum.splits if_splits)
next
  case True
  then obtain s rec where s: "\<not> tables_poisoned (storage w)" "map_of (sessions (storage w)) sid = Some s"
    "meta_record s ''pendingConfirmation'' = Some rec" by blast
  obtain r w1 where c: "set_pending_confirmation (memory_adapter cb pb) (fi_now fi) sid None (insert_session s w) = (r, w1)" by fastforce
  let ?tool = "unwrap_or (get_str rec ''tool'') []"
  have step: "w' = w1 \<or> (\<exists>p. handle_send_message he fi si conn auth_org acc scope p rid (grant_pre_approval sid ?tool w1) = (w', fs, sp))"
    using run mem s c by (auto simp: durable_confirm_fallback_def Let_def split: if_splits)
  have g: "quiet w1 (grant_pre_approval sid ?tool w1)" by (rule quiet_same) (simp_all add: grant_pre_approval_def)
  from step have "quiet w1 w'"
  proof (elim disjE exE)
    fix p assume "handle_send_message he fi si conn auth_org acc scope p rid (grant_pre_approval sid ?tool w1) = (w', fs, sp)"
    from quiet_trans [OF g quiet_send [OF mem this]] show ?thesis .
  qed simp
  moreover have "quiet (insert_session s w) w1"
    using c by (intro quiet_set_meta_key [of "''pendingConfirmation''"]) (simp_all add: set_pending_confirmation_def)
  ultimately have later: "quiet (insert_session s w) w'" using quiet_trans by blast
  show ?thesis
  proof (unfold quiet_def, intro impI)
    assume k: "keyed session_id (sessions (storage w))"
    then have "quiet w (insert_session s w)" using s(2) keyed_session by (intro quiet_insert) blast
    from quiet_trans [OF this later] k
    show "keyed session_id (sessions (storage w')) \<and> (\<forall>i. known_verified w' i \<longrightarrow> known_verified w i)" by (simp add: quiet_def)
  qed
qed

lemma quiet_confirm:
  assumes mem: "adapter (he_server he) = memory_adapter cb pb"
    and run: "handle_confirm_tool_action he fi si conn auth_org acc scope parsed rid w = (w', fs, sp)"
  shows "quiet w w'"
proof (cases "\<exists>sid b. get_str parsed ''sessionId'' = Some sid \<and> get_bool parsed ''approved'' = Some b")
  case False
  with run show ?thesis by (auto simp: handle_confirm_tool_action_def split: option.splits)
next
  case True
  then obtain sid b where f: "get_str parsed ''sessionId'' = Some sid" "get_bool parsed ''approved'' = Some b" by blast
  obtain q w1 where sc: "scoped_session (he_server he) sid auth_org scope w = (q, w1)" by fastforce
  note q1 = quiet_scoped [OF mem sc]
  show ?thesis
  proof (cases "\<exists>s. q = Inr (Some s)")
    case False
    with run f sc q1 show ?thesis by (auto simp: handle_confirm_tool_action_def split: sum.splits option.splits)
  next
    case True
    obtain c w2 where t: "take_confirmation sid w1 = (c, w2)" by fastforce
    have q2: "quiet w1 w2" using t by (intro quiet_same) (auto simp: take_confirmation_def split: if_splits)
    let ?v = "if b then Approved else DeniedBecause ''user rejected the action''"
    have "quiet w2 w'"
    proof (cases c)
      case None
      with run f sc True t show ?thesis by (auto simp: handle_confirm_tool_action_def intro: quiet_durable [OF mem])
    next
      case (Some ch)
      obtain ok w3 where v: "send_verdict ch ?v w2 = (ok, w3)" by fastforce
      have q3: "quiet w2 w3" using v by (intro quiet_same) (auto simp: send_verdict_def split: if_splits)
      have "quiet w3 w'"
      proof (cases ok)
        case False
        with run f sc True t Some v show ?thesis
          by (auto simp: handle_confirm_tool_action_def intro: quiet_durable [OF mem])
      next
        case ok: True
        have w': "w' = snd (set_session_meta_key (memory_adapter cb pb) (fi_now fi) sid ''pendingConfirmation'' None w3)"
          using run f sc True t Some v ok mem by (auto simp: handle_confirm_tool_action_def set_pending_confirmation_def)
        show ?thesis unfolding w' by (rule quiet_set_meta_key [OF _ prod.collapse [symmetric]]) simp
      qed
      with q3 show ?thesis by (rule quiet_trans)
    qed
    with quiet_trans [OF q1 q2] show ?thesis by (rule quiet_trans)
  qed
qed

lemma quiet_settle:
  assumes mem: "adapter (he_server he) = memory_adapter cb pb" and run: "settle_interaction he fi sid rid l x w = (e, w')"
  shows "quiet w w'"
proof (cases l)
  case True
  with run have "reg_sessions w' = reg_sessions w \<and> storage w' = storage w \<and> pending_sessions w' = pending_sessions w"
    by (auto simp: settle_interaction_def resolve_interaction_def take_interaction_def send_resolution_def
        split: if_splits option.splits prod.splits bool.splits)
  then show ?thesis by (intro quiet_same) simp_all
next
  case False
  obtain r w1 where c: "set_session_meta_key (memory_adapter cb pb) (fi_now fi) sid ''pendingInteraction'' None w = (r, w1)" by fastforce
  with run False mem have "w' = w1"
    by (auto simp: settle_interaction_def set_pending_interaction_def split: sum.splits)
  with quiet_set_meta_key [OF _ c] show ?thesis by simp
qed

lemma quiet_effect:
  "adapter (he_server he) = memory_adapter cb pb \<Longrightarrow> quiet w (attach_interaction_effect he fi sid kind v w)"
  by (simp add: attach_interaction_effect_def quiet_attach split: option.split)

lemma quiet_submit_view:
  assumes mem: "adapter (he_server he) = memory_adapter cb pb"
  shows "quiet w (fst (submit_to_view he fi parsed rid sid v w))"
proof -
  have a: "quiet w (snd (settle_interaction he fi sid rid l x w))" for l x
    by (rule quiet_settle [OF mem prod.collapse [symmetric]])
  have b: "quiet w (attach_interaction_effect he fi sid k c (snd (settle_interaction he fi sid rid l x w)))" for k c l x
    by (rule quiet_trans [OF a quiet_effect [OF mem]])
  have c: "quiet w (fst (case settle_interaction he fi sid rid l x w of
      (Some ev, w1) \<Rightarrow> (w1, [ev]) | (None, w1) \<Rightarrow> (f w1, g w1)))"
    if "\<And>e w1. settle_interaction he fi sid rid l x w = (e, w1) \<Longrightarrow> quiet w (f w1)" for l x f and g :: "tables app_state \<Rightarrow> json list"
    using that a [of l x] by (cases "settle_interaction he fi sid rid l x w") (auto split: option.split)
  show ?thesis
    unfolding submit_to_view_def Let_def
    by (auto split: option.split sum.split intro!: c intro: quiet_settle [OF mem] quiet_trans [OF quiet_settle [OF mem] quiet_effect [OF mem]])
qed

lemma quiet_submit:
  assumes mem: "adapter (he_server he) = memory_adapter cb pb"
  shows "quiet w (fst (handle_submit_interaction he fi auth_org scope parsed request w))"
proof (cases "\<exists>rid sid. request = Some rid \<and> get_str parsed ''sessionId'' = Some sid")
  case False
  then show ?thesis by (auto simp: handle_submit_interaction_def split: option.split)
next
  case True
  then obtain rid sid where f: "request = Some rid" "get_str parsed ''sessionId'' = Some sid" by blast
  obtain q w1 where sc: "scoped_session (he_server he) sid auth_org scope w = (q, w1)" by fastforce
  note q1 = quiet_scoped [OF mem sc]
  show ?thesis
  proof (cases "\<exists>s. q = Inr (Some s)")
    case False
    with f sc q1 show ?thesis by (auto simp: handle_submit_interaction_def split: sum.splits option.splits)
  next
    case True
    show ?thesis
    proof (cases "pending_interaction_of w1 sid")
      case (Some p)
      from quiet_trans [OF q1 quiet_submit_view [OF mem, of w1 fi parsed rid sid "view_of_live p"]] show ?thesis
        using f sc True Some by (auto simp: handle_submit_interaction_def)
    next
      case None
      obtain d w2 where d: "durable_pending_interaction (adapter (he_server he)) sid w1 = (d, w2)" by fastforce
      have "keyed session_id (sessions (storage w1)) \<Longrightarrow> quiet w1 w2"
        using d mem by (auto simp: durable_pending_interaction_def split: sum.splits option.splits if_splits
            intro!: quiet_insert dest: keyed_session)
      then have q2: "quiet w1 w2" by (auto simp: quiet_def)
      have "fst (handle_submit_interaction he fi auth_org scope parsed request w) \<in>
          insert w2 (range (\<lambda>v. fst (submit_to_view he fi parsed rid sid v w2)))"
        using f sc True None d by (auto simp: handle_submit_interaction_def split: sum.splits option.splits)
      then show ?thesis using quiet_trans [OF q1 q2] quiet_trans [OF quiet_trans [OF q1 q2] quiet_submit_view [OF mem]]
        by auto
    qed
  qed
qed

lemma quiet_reads:
  assumes mem: "adapter env = memory_adapter cb pb"
  shows "quiet w (fst (handle_get_session env fi auth_org scope parsed rid w))"
    and "quiet w (fst (handle_get_conversation_messages env fi auth_org scope parsed rid w))"
  unfolding handle_get_session_def handle_get_conversation_messages_def
  by (auto split: option.split sum.split prod.split intro: quiet_scoped [OF mem])

lemma quiet_list: "quiet w (fst (handle_list_conversations env fi auth_org scope parsed rid w))"
  by (simp add: handle_list_conversations_def Let_def split: option.split)

lemma quiet_rename:
  assumes mem: "adapter env = memory_adapter cb pb"
  shows "quiet w (fst (handle_rename_conversation env fi auth_org scope parsed rid w))"
  unfolding handle_rename_conversation_def Let_def mem
  by (auto split: option.split sum.split intro!: quiet_same dest: memory_writes_sessions)

lemma quiet_create_frame:
  assumes mem: "adapter env = memory_adapter cb pb"
  shows "quiet w (fst (handle_create_session env fi conn orig auth_org scope parsed rid w))"
  by (simp add: handle_create_session_def quiet_create [OF mem] split: option.split sum.split)

text \<open>The check of a code: quiet unless the service accepts it, and then it speaks of that session alone.\<close>

lemma verify_effect:
  assumes mem: "adapter (he_server he) = memory_adapter cb pb" and k: "keyed session_id (sessions (storage w))"
    and run: "handle_verify_otp he fi auth_org scope parsed rid w = (w', fs)"
    and new: "known_verified w' i" "\<not> known_verified w i"
  shows "get_str parsed ''sessionId'' = Some i \<and>
     (\<exists>otp code s w1. he_otp he = Some otp \<and> get_str parsed ''code'' = Some code \<and> verify_otp otp i code = OtpVerified \<and>
        scoped_session (he_server he) i auth_org scope w = (Inr (Some s), w1))"
proof -
  have noisy: "\<not> quiet w w'" using new k by (auto simp: quiet_def)
  then obtain r sid code where f: "rid = Some r" "get_str parsed ''sessionId'' = Some sid" "get_str parsed ''code'' = Some code"
    using run by (auto simp: handle_verify_otp_def split: option.splits)
  obtain q w1 where sc: "scoped_session (he_server he) sid auth_org scope w = (q, w1)" by fastforce
  note q1 = quiet_scoped [OF mem sc]
  obtain s where s: "q = Inr (Some s)"
    using run f sc q1 noisy by (auto simp: handle_verify_otp_def split: sum.splits option.splits)
  obtain otp where otp: "he_otp he = Some otp"
    using run f sc q1 noisy s by (auto simp: handle_verify_otp_def split: option.splits)
  have ok: "verify_otp otp sid code = OtpVerified"
    using run f sc q1 noisy s otp by (auto simp: handle_verify_otp_def split: otp_verify_outcome.splits)
  then have w': "w' = set_session_authenticated (memory_adapter cb pb) (fi_now fi) sid True w1"
    using run f sc s otp mem by (simp add: handle_verify_otp_def)
  have "i = sid"
  proof (rule ccontr)
    assume ne: "i \<noteq> sid"
    have "known_verified w1 i"
      using new(1) ne unfolding w'
      by (auto simp: set_session_authenticated_def edit_meta_def write_through_def memory_adapter_def update_session_def
          locked_def metadata_update_def known_verified_def update_conv Let_def split: if_splits option.splits sum.splits)
    with q1 k new(2) show False by (simp add: quiet_def)
  qed
  with f otp ok sc s show ?thesis by blast
qed

text \<open>C7. Nothing but an accepted code verifies a session: when a frame makes a session verified in any copy, the registry,
  the store or a parked create, that was verified in none before, the frame is \<open>verify_otp\<close> for this very session, the connection
  may see the session, and the installed service accepted the code it carries.\<close>

theorem verified_only_by_code:
  assumes mem: "adapter (he_server he) = memory_adapter cb pb" and k: "keyed session_id (sessions (storage w))"
    and run: "dispatch he fi si acc conn orig auth_org scope parsed w = (w', fs, sp)"
    and new: "known_verified w' sid" "\<not> known_verified w sid"
  shows "get_str parsed ''action'' = Some ''verify_otp'' \<and> get_str parsed ''sessionId'' = Some sid \<and>
     (\<exists>otp code s w1. he_otp he = Some otp \<and> get_str parsed ''code'' = Some code \<and> verify_otp otp sid code = OtpVerified \<and>
        scoped_session (he_server he) sid auth_org scope w = (Inr (Some s), w1))"
proof -
  have noisy: "\<not> quiet w w'" using new k by (auto simp: quiet_def)
  let ?rid = "get_str parsed ''requestId''"
  have "get_str parsed ''action'' \<noteq> None"
  proof
    assume "get_str parsed ''action'' = None"
    with run noisy show False by (simp add: dispatch_def Let_def)
  qed
  then obtain a where a: "get_str parsed ''action'' = Some a" by blast
  have "a = ''verify_otp''"
  proof (rule ccontr)
    assume ne: "a \<noteq> ''verify_otp''"
    have send: "quiet w (fst (handle_send_message he fi si conn auth_org acc scope parsed ?rid w))"
      by (cases "handle_send_message he fi si conn auth_org acc scope parsed ?rid w" rule: prod_cases3) (simp add: quiet_send [OF mem])
    have confirm: "quiet w (fst (handle_confirm_tool_action he fi si conn auth_org acc scope parsed ?rid w))"
      by (cases "handle_confirm_tool_action he fi si conn auth_org acc scope parsed ?rid w" rule: prod_cases3)
        (simp add: quiet_confirm [OF mem])
    have "quiet w (fst (dispatch he fi si acc conn orig auth_org scope parsed w))"
      using ne unfolding dispatch_def Let_def a option.case
      by (simp add: no_turn_def send confirm quiet_create_frame [OF mem] quiet_reads [OF mem] quiet_list quiet_rename [OF mem]
          quiet_submit [OF mem])
    with run noisy show False by simp
  qed
  with run a have "handle_verify_otp he fi auth_org scope parsed ?rid w = (w', fs)"
    by (auto simp: dispatch_def no_turn_def Let_def)
  from verify_effect [OF mem k this new] a \<open>a = ''verify_otp''\<close> show ?thesis by blast
qed

section \<open>Witnesses\<close>

definition demo_parked_write :: "tables app_state" where
  "demo_parked_write = register_confirmation ''s1'' 5 demo_verified_state"

definition demo_confirm_frame :: json where
  "demo_confirm_frame = JObj [(''sessionId'', JStr ''s1''), (''approved'', JBool True)]"

abbreviation demo_confirm :: "tables app_state \<Rightarrow> tables frame_result" where
  "demo_confirm \<equiv> handle_confirm_tool_action demo_handler demo_input demo_spawn ''k'' None access_anonymous Unscoped
     demo_confirm_frame (Some ''r1'')"

lemma demo_session_scoped:
  assumes "state_get_session w ''s1'' = Some s"
  shows "scoped_session (he_server demo_handler) ''s1'' None Unscoped w = (Inr (Some s), w)"
  using assms by (simp add: scoped_session_def load_session_def same_org_def may_read_conversation_def)

lemma demo_confirm_ack: "\<exists>w'. demo_confirm demo_parked_write = (w', [verdict_ack demo_input (Some ''r1'') ''s1'' True], None)"
proof -
  have "state_get_session demo_parked_write ''s1'' = Some (demo_session ''s1'' ''c1'')"
    by (simp add: state_get_session_def demo_parked_write_def register_confirmation_def demo_verified_state_def insert_session_def
        app_state_new_def demo_session_def)
  note sc = demo_session_scoped [OF this]
  obtain w2 where t: "take_confirmation ''s1'' demo_parked_write = (Some 5, w2)" "\<not> receiver_gone w2 5"
    by (simp add: take_confirmation_def demo_parked_write_def register_confirmation_def demo_verified_state_def insert_session_def
        app_state_new_def)
  have f: "get_str demo_confirm_frame ''sessionId'' = Some ''s1''" "get_bool demo_confirm_frame ''approved'' = Some True"
    by (simp_all add: demo_confirm_frame_def get_str_def get_bool_def)
  show ?thesis unfolding handle_confirm_tool_action_def f by (simp add: sc t send_verdict_def)
qed


definition demo_otp_handler :: "(tables, unit) handler_env" where
  "demo_otp_handler = demo_handler\<lparr>he_otp :=
     Some \<lparr>send_otp = (\<lambda>_ _. Inl ''off''), verify_otp = (\<lambda>_ c. if c = ''123456'' then OtpVerified else OtpInvalid 2 (Some InvalidCode) ''no'')\<rparr>\<rparr>"

definition demo_code_frame :: json where
  "demo_code_frame = JObj [(''action'', JStr ''verify_otp''), (''requestId'', JStr ''r1''), (''sessionId'', JStr ''s1''),
     (''code'', JStr ''123456'')]"

theorem verified_only_by_code_witness:
  "\<exists>otp code. he_otp demo_otp_handler = Some otp \<and> get_str demo_code_frame ''code'' = Some code \<and> verify_otp otp ''s1'' code = OtpVerified"
proof -
  let ?w = "demo_verified_state"
  let ?run = "dispatch demo_otp_handler demo_input demo_spawn access_anonymous ''k'' None None Unscoped demo_code_frame ?w"
  have reg: "state_get_session ?w ''s1'' = Some (demo_session ''s1'' ''c1'')"
    by (simp add: state_get_session_def demo_verified_state_def insert_session_def app_state_new_def demo_session_def)
  have sc: "scoped_session (he_server demo_otp_handler) ''s1'' None Unscoped ?w = (Inr (Some (demo_session ''s1'' ''c1'')), ?w)"
    using demo_session_scoped [OF reg] by (simp add: demo_otp_handler_def)
  have fr: "get_str demo_code_frame ''action'' = Some ''verify_otp''" "get_str demo_code_frame ''requestId'' = Some ''r1''"
    "get_str demo_code_frame ''sessionId'' = Some ''s1''" "get_str demo_code_frame ''code'' = Some ''123456''"
    by (simp_all add: demo_code_frame_def get_str_def)
  have mem: "adapter (he_server demo_otp_handler) = memory_adapter (\<lambda>_. 0) (\<lambda>_. 0)"
    by (simp add: demo_otp_handler_def demo_handler_def Conversations.demo_env_def)
  have otp: "he_otp demo_otp_handler = Some \<lparr>send_otp = (\<lambda>_ _. Inl ''off''),
      verify_otp = (\<lambda>_ c. if c = ''123456'' then OtpVerified else OtpInvalid 2 (Some InvalidCode) ''no'')\<rparr>"
    and now: "fi_now demo_input = 7" by (simp_all add: demo_otp_handler_def demo_input_def)
  have run: "?run = (set_session_authenticated (memory_adapter (\<lambda>_. 0) (\<lambda>_. 0)) 7 ''s1'' True ?w,
      [otp_verified (fi_now_ms demo_input) ''r1'' ''Identity verified successfully.''], None)"
    by (simp add: dispatch_def fr handle_verify_otp_def sc mem otp now no_turn_def Let_def)
  have wt: "reg_sessions (snd (write_through ad now sid m w)) = reg_sessions w"
    for ad :: "tables adapter" and now sid m and w :: "tables app_state"
    by (simp add: write_through_def split: sum.split prod.split)
  have edit: "\<exists>m w1. edit_meta ''s1'' (AList.update ''otpVerified'' (JBool True)) ?w = Some (m, w1) \<and>
      (\<exists>s. reg_sessions w1 ''s1'' = Some s \<and> row_verified s)"
    by (simp add: edit_meta_def demo_verified_state_def insert_session_def app_state_new_def demo_session_def row_verified_def
        meta_record_def Let_def)
  have after: "known_verified (set_session_authenticated (memory_adapter (\<lambda>_. 0) (\<lambda>_. 0)) 7 ''s1'' True ?w) ''s1''"
    using edit by (auto simp: known_verified_def set_session_authenticated_def wt)
  have before: "\<not> known_verified ?w ''s1''" "keyed session_id (sessions (storage ?w))"
    by (simp_all add: known_verified_def demo_verified_state_def insert_session_def app_state_new_def demo_session_def
        tables_default_def row_verified_def meta_record_def keyed_def)
  from verified_only_by_code [OF mem before(2) run after before(1)] show ?thesis by blast
qed

end
