(* ===== verification/Auth.thy ===== *)
theory Auth
  imports Access_Control
begin

text \<open>
  Authentication, \<open>rust/smooth-operator/src/auth.rs\<close>: roles and principals, the verifiers that turn a
  bearer token into a principal, the cached key set of the issuer, and the choice of the verifier from
  the environment.

  The \<open>jsonwebtoken\<close>, \<open>base64\<close> and \<open>serde\<close> crates are not part of the repository: what the code calls of
  them is the record \<open>jwt_lib\<close>, an argument of every definition that uses it. A key, an algorithm and a
  JWK are values of arbitrary types. The environment is a lookup; the answer of the key-set fetcher and
  the clock readings of a call are arguments of the call.
\<close>

unbundle bit_operations_syntax

section \<open>Roles and principals\<close>

datatype auth_role = Basic | Curator | RoleAdmin

text \<open>The derived order of the enumeration.\<close>

fun role_rank :: "auth_role \<Rightarrow> nat" where
  "role_rank Basic = 0"
| "role_rank Curator = 1"
| "role_rank RoleAdmin = 2"

lemma role_rank_inj [simp]: "(role_rank r = role_rank s) = (r = s)"
  by (cases r; cases s) simp_all

instantiation auth_role :: linorder
begin

definition less_eq_auth_role :: "auth_role \<Rightarrow> auth_role \<Rightarrow> bool" where
  "less_eq_auth_role r s = (role_rank r \<le> role_rank s)"

definition less_auth_role :: "auth_role \<Rightarrow> auth_role \<Rightarrow> bool" where
  "less_auth_role r s = (role_rank r < role_rank s)"

instance
  by standard (auto simp: less_eq_auth_role_def less_auth_role_def)

end

datatype auth_error =
    Unauthenticated
  | InvalidToken string
  | MissingRole string
  | Forbidden auth_role auth_role
  | Misconfigured string

definition role_parse :: "string \<Rightarrow> auth_error + auth_role" where
  "role_parse v =
     (let s = to_ascii_lowercase (trim v) in
      if s = ''admin'' then Inr RoleAdmin
      else if s = ''curator'' then Inr Curator
      else if s = ''basic'' \<or> s = ''user'' then Inr Basic
      else Inl (MissingRole (''unknown role '' @ [CHR 0x27] @ s @ [CHR 0x27])))"

fun role_as_str :: "auth_role \<Rightarrow> string" where
  "role_as_str RoleAdmin = ''admin''"
| "role_as_str Curator = ''curator''"
| "role_as_str Basic = ''basic''"

fun auth_error_display :: "auth_error \<Rightarrow> string" where
  "auth_error_display Unauthenticated = ''missing bearer token''"
| "auth_error_display (InvalidToken m) = ''invalid token: '' @ m"
| "auth_error_display (MissingRole m) = ''missing or invalid role claim: '' @ m"
| "auth_error_display (Forbidden required actual) =
     ''forbidden: requires '' @ role_as_str required @ '', principal is '' @ role_as_str actual"
| "auth_error_display (Misconfigured m) = ''auth misconfigured: '' @ m"

record principal =
  pr_user_id :: string
  pr_org_id :: string
  pr_role :: auth_role
  pr_display_name :: "string option"
  pr_email :: "string option"
  pr_groups :: "string list"

definition principal_new :: "string \<Rightarrow> string \<Rightarrow> auth_role \<Rightarrow> string option \<Rightarrow> principal" where
  "principal_new u org r name =
     \<lparr>pr_user_id = u, pr_org_id = org, pr_role = r, pr_display_name = name, pr_email = None, pr_groups = []\<rparr>"

definition with_email :: "principal \<Rightarrow> string \<Rightarrow> principal" where
  "with_email p e = p\<lparr>pr_email := (if trim e \<noteq> [] then Some e else None)\<rparr>"

definition with_groups :: "principal \<Rightarrow> string list \<Rightarrow> principal" where
  "with_groups p gs = p\<lparr>pr_groups := gs\<rparr>"

definition has_role :: "principal \<Rightarrow> auth_role \<Rightarrow> bool" where
  "has_role p min_role = (pr_role p \<ge> min_role)"

definition principal_access_context :: "principal \<Rightarrow> access_context" where
  "principal_access_context p =
     with_organization_id (access_new (Some (pr_user_id p)) (pr_groups p)) (pr_org_id p)"

definition is_single_user_mode :: "string \<Rightarrow> bool" where
  "is_single_user_mode m = (m = ''none'' \<or> m = ''disabled'' \<or> m = ''local-token'')"

section \<open>Claims\<close>

record claims =
  cl_sub :: string
  cl_org :: "string option"
  cl_org_id :: "string option"
  cl_role :: "string option"
  cl_name :: "string option"
  cl_email :: "string option"
  cl_groups :: "string list"

definition claims_org_id :: "claims \<Rightarrow> string option" where
  "claims_org_id c = option_or (cl_org c) (cl_org_id c)"

definition into_principal :: "claims \<Rightarrow> auth_error + principal" where
  "into_principal c =
     bind_result (case cl_role c of Some r \<Rightarrow> role_parse r | None \<Rightarrow> Inl (MissingRole ''no 'role' claim'')) (\<lambda>role.
       case claims_org_id c of
         None \<Rightarrow> Inl (InvalidToken ''no 'org'/'org_id' claim'')
       | Some org \<Rightarrow>
           Inr \<lparr>pr_user_id = cl_sub c, pr_org_id = org, pr_role = role, pr_display_name = cl_name c,
                pr_email = option_filter (\<lambda>e. trim e \<noteq> []) (cl_email c), pr_groups = cl_groups c\<rparr>)"

section \<open>Token libraries\<close>

text \<open>The validation options the code sets, and the calls it makes.\<close>

record 'alg validation =
  v_algorithm :: 'alg
  v_required :: "string list"
  v_validate_aud :: bool
  v_aud :: "string set option"
  v_iss :: "string set option"

record ('k, 'alg, 'jwk) jwt_lib =
  jl_validation_new :: "'alg \<Rightarrow> 'alg validation"
  jl_hs256 :: 'alg
  jl_rs256 :: 'alg
  jl_from_secret :: "string \<Rightarrow> 'k"
  jl_from_rsa_pem :: "string \<Rightarrow> string + 'k"
  jl_decode :: "string \<Rightarrow> 'k \<Rightarrow> 'alg validation \<Rightarrow> string + claims"
  jl_decode_header :: "string \<Rightarrow> string + string option \<times> 'alg"
  jl_find :: "'jwk list \<Rightarrow> string \<Rightarrow> 'jwk option"
  jl_key_algorithm :: "'jwk \<Rightarrow> string option"
  jl_alg_from_str :: "string \<Rightarrow> 'alg option"
  jl_from_jwk :: "'jwk \<Rightarrow> string + 'k"
  jl_base64_no_pad :: "string \<Rightarrow> string + nat list"
  jl_base64_pad :: "string \<Rightarrow> string + nat list"
  jl_claims_de :: "nat list \<Rightarrow> string + claims"

fun map_err :: "('e \<Rightarrow> 'f) \<Rightarrow> 'e + 'a \<Rightarrow> 'f + 'a" where
  "map_err f (Inl e) = Inl (f e)"
| "map_err f (Inr a) = Inr a"

lemma map_err_Inr [simp]: "(map_err f r = Inr a) = (r = Inr a)"
  by (cases r) auto

definition configure_validation :: "'alg validation \<Rightarrow> string option \<Rightarrow> string option \<Rightarrow> 'alg validation" where
  "configure_validation v issuer audience =
     (let v1 = v\<lparr>v_required := [''exp'', ''sub'']\<rparr>;
          v2 = (case audience of
                  Some aud \<Rightarrow> v1\<lparr>v_validate_aud := True, v_aud := Some {aud}\<rparr>
                | None \<Rightarrow> v1\<lparr>v_validate_aud := False\<rparr>)
      in case issuer of Some iss \<Rightarrow> v2\<lparr>v_iss := Some {iss}\<rparr> | None \<Rightarrow> v2)"

section \<open>The cached key set\<close>

text \<open>
  Instants and durations are integers of one unit. The store remembers the instants at which it called
  the fetcher, an effect outside the cache itself.
\<close>

record 'jwk jwks_key_store =
  jk_set :: "'jwk list"
  jk_fetched_at :: "int option"
  jk_ttl :: int
  jk_min_refresh :: int
  jk_calls :: "int list"

text \<open>What one call reads from outside: three clock readings, and the answer of the fetcher.\<close>

record 'jwk jwks_call =
  jc_hot_at :: int
  jc_guard_at :: int
  jc_stored_at :: int
  jc_fetch :: "auth_error + 'jwk list"

definition elapsed :: "int \<Rightarrow> int \<Rightarrow> int" where
  "elapsed now t = max 0 (now - t)"

definition DEFAULT_JWKS_TTL :: int where "DEFAULT_JWKS_TTL = 300"
definition DEFAULT_JWKS_MIN_REFRESH :: int where "DEFAULT_JWKS_MIN_REFRESH = 30"

definition key_store_new :: "int \<Rightarrow> int \<Rightarrow> 'jwk jwks_key_store" where
  "key_store_new ttl min_refresh =
     \<lparr>jk_set = [], jk_fetched_at = None, jk_ttl = ttl, jk_min_refresh = min_refresh, jk_calls = []\<rparr>"

definition find_jwk :: "('k, 'alg, 'jwk) jwt_lib \<Rightarrow> 'jwk list \<Rightarrow> string option \<Rightarrow> 'jwk option" where
  "find_jwk lib keys kid =
     (case kid of
        Some k \<Rightarrow> jl_find lib keys k
      | None \<Rightarrow> if length keys = 1 then Some (hd keys) else None)"

definition maybe_refresh ::
  "'jwk jwks_call \<Rightarrow> 'jwk jwks_key_store \<Rightarrow> (auth_error + unit) \<times> 'jwk jwks_key_store" where
  "maybe_refresh jc st =
     (if (case jk_fetched_at st of Some t \<Rightarrow> elapsed (jc_guard_at jc) t < jk_min_refresh st | None \<Rightarrow> False)
      then (Inr (), st)
      else
        let st1 = st\<lparr>jk_calls := jk_calls st @ [jc_guard_at jc]\<rparr>
        in case jc_fetch jc of
             Inl e \<Rightarrow> (Inl e, st1)
           | Inr keys \<Rightarrow> (Inr (), st1\<lparr>jk_set := keys, jk_fetched_at := Some (jc_stored_at jc)\<rparr>))"

definition no_jwk_error :: "string option \<Rightarrow> auth_error" where
  "no_jwk_error kid =
     (case kid of
        Some k \<Rightarrow> InvalidToken (''no JWK matching kid '' @ [CHR 0x27] @ k @ [CHR 0x27] @ '' in issuer JWKS'')
      | None \<Rightarrow> InvalidToken ''token has no 'kid' and the issuer JWKS does not have exactly one key'')"

definition key_for ::
  "('k, 'alg, 'jwk) jwt_lib \<Rightarrow> 'jwk jwks_call \<Rightarrow> string option \<Rightarrow> 'jwk jwks_key_store
    \<Rightarrow> (auth_error + 'jwk) \<times> 'jwk jwks_key_store" where
  "key_for lib jc kid st =
     (let hot = (if (case jk_fetched_at st of Some t \<Rightarrow> elapsed (jc_hot_at jc) t < jk_ttl st | None \<Rightarrow> False)
                 then find_jwk lib (jk_set st) kid else None)
      in case hot of
           Some jwk \<Rightarrow> (Inr jwk, st)
         | None \<Rightarrow>
             (case maybe_refresh jc st of
                (Inl e, st1) \<Rightarrow> (Inl e, st1)
              | (Inr _, st1) \<Rightarrow>
                  (case find_jwk lib (jk_set st1) kid of
                     Some jwk \<Rightarrow> (Inr jwk, st1)
                   | None \<Rightarrow> (Inl (no_jwk_error kid), st1))))"

definition resolve_jwk_alg :: "('k, 'alg, 'jwk) jwt_lib \<Rightarrow> 'jwk \<Rightarrow> 'alg \<Rightarrow> auth_error + 'alg" where
  "resolve_jwk_alg lib jwk header_alg =
     (case jl_key_algorithm lib jwk of
        Some ka \<Rightarrow>
          (case jl_alg_from_str lib ka of
             Some a \<Rightarrow> Inr a
           | None \<Rightarrow> Inl (InvalidToken (''unsupported JWK algorithm '' @ [CHR 0x27] @ ka @ [CHR 0x27])))
      | None \<Rightarrow> Inr header_alg)"

section \<open>Verifiers\<close>

datatype 'k verify_key = Hs256 'k | Rs256 'k

record 'jwk jwks_verifier =
  jw_store :: "'jwk jwks_key_store"
  jw_url :: string
  jw_issuer :: "string option"
  jw_audience :: "string option"

datatype ('k, 'alg, 'jwk) jwt_backend =
    Static "'k verify_key" "'alg validation"
  | Jwks "'jwk jwks_verifier"

text \<open>The verifiers a server can run with: the implementations of \<open>AuthVerifier\<close>.\<close>

datatype ('k, 'alg, 'jwk) verifier =
    JwtVerifier "('k, 'alg, 'jwk) jwt_backend"
  | JwksVerifier "'jwk jwks_verifier"
  | SmooIdentityVerifier "('k, 'alg, 'jwk) jwt_backend"
  | NoAuthVerifier principal
  | LocalTokenVerifier string principal
  | TrustedIdentityVerifier
  | AdminDisabledVerifier

definition jwt_hs256 ::
  "('k, 'alg, 'jwk) jwt_lib \<Rightarrow> string \<Rightarrow> string option \<Rightarrow> string option \<Rightarrow> ('k, 'alg, 'jwk) jwt_backend" where
  "jwt_hs256 lib secret issuer audience =
     Static (Hs256 (jl_from_secret lib secret))
       (configure_validation (jl_validation_new lib (jl_hs256 lib)) issuer audience)"

definition jwt_rs256 ::
  "('k, 'alg, 'jwk) jwt_lib \<Rightarrow> string \<Rightarrow> string option \<Rightarrow> string option \<Rightarrow> auth_error + ('k, 'alg, 'jwk) jwt_backend" where
  "jwt_rs256 lib pem issuer audience =
     bind_result (map_err (\<lambda>e. Misconfigured (''invalid RS256 public key: '' @ e)) (jl_from_rsa_pem lib pem)) (\<lambda>key.
       Inr (Static (Rs256 key) (configure_validation (jl_validation_new lib (jl_rs256 lib)) issuer audience)))"

definition jwks_from_url :: "string \<Rightarrow> string option \<Rightarrow> string option \<Rightarrow> 'jwk jwks_verifier" where
  "jwks_from_url url issuer audience =
     \<lparr>jw_store = key_store_new DEFAULT_JWKS_TTL DEFAULT_JWKS_MIN_REFRESH, jw_url = url, jw_issuer = issuer,
      jw_audience = audience\<rparr>"

definition jwt_jwks :: "string \<Rightarrow> string option \<Rightarrow> string option \<Rightarrow> ('k, 'alg, 'jwk) jwt_backend" where
  "jwt_jwks url issuer audience = Jwks (jwks_from_url url issuer audience)"

definition jwks_decode_principal ::
  "('k, 'alg, 'jwk) jwt_lib \<Rightarrow> 'jwk jwks_call \<Rightarrow> string \<Rightarrow> 'jwk jwks_verifier
    \<Rightarrow> (auth_error + principal) \<times> 'jwk jwks_verifier" where
  "jwks_decode_principal lib jc token v =
     (if trim token = [] then (Inl Unauthenticated, v)
      else case jl_decode_header lib token of
        Inl e \<Rightarrow> (Inl (InvalidToken (''bad JWT header: '' @ e)), v)
      | Inr (kid, header_alg) \<Rightarrow>
          (case key_for lib jc kid (jw_store v) of
             (r, st) \<Rightarrow>
               (bind_result r (\<lambda>jwk.
                  bind_result (resolve_jwk_alg lib jwk header_alg) (\<lambda>alg.
                    bind_result (map_err (\<lambda>e. InvalidToken (''unusable JWK: '' @ e)) (jl_from_jwk lib jwk)) (\<lambda>key.
                      bind_result (map_err InvalidToken
                          (jl_decode lib token key
                             (configure_validation (jl_validation_new lib alg) (jw_issuer v) (jw_audience v))))
                        into_principal))),
                v\<lparr>jw_store := st\<rparr>)))"

fun verify_key_of :: "'k verify_key \<Rightarrow> 'k" where
  "verify_key_of (Hs256 k) = k"
| "verify_key_of (Rs256 k) = k"

fun decode_principal ::
  "('k, 'alg, 'jwk) jwt_lib \<Rightarrow> 'jwk jwks_call \<Rightarrow> string \<Rightarrow> ('k, 'alg, 'jwk) jwt_backend
    \<Rightarrow> (auth_error + principal) \<times> ('k, 'alg, 'jwk) jwt_backend" where
  "decode_principal lib jc token (Static key v) =
     (if trim token = [] then Inl Unauthenticated
      else bind_result (map_err InvalidToken (jl_decode lib token (verify_key_of key) v)) into_principal,
      Static key v)"
| "decode_principal lib jc token (Jwks v) =
     (case jwks_decode_principal lib jc token v of (r, v') \<Rightarrow> (r, Jwks v'))"

definition no_auth_new :: "string \<Rightarrow> ('k, 'alg, 'jwk) verifier" where
  "no_auth_new org =
     NoAuthVerifier (principal_new ''dev-admin'' org RoleAdmin (Some ''Dev Admin (AUTH_MODE=none)''))"

definition local_token_new :: "string \<Rightarrow> ('k, 'alg, 'jwk) verifier" where
  "local_token_new secret =
     LocalTokenVerifier secret (principal_new ''local'' ''local'' RoleAdmin (Some ''Local user''))"

text \<open>The byte comparison: \<open>diff |= x ^ y\<close> over the zipped bytes.\<close>

definition local_token_eq :: "8 word list \<Rightarrow> 8 word list \<Rightarrow> bool" where
  "local_token_eq a b =
     (if length a \<noteq> length b then False
      else foldl (\<lambda>diff xy. diff OR (fst xy XOR snd xy)) 0 (zip a b) = 0)"

definition as_bytes :: "string \<Rightarrow> 8 word list" where
  "as_bytes s = map of_nat (utf8_bytes s)"

definition local_verify :: "string \<Rightarrow> principal \<Rightarrow> string \<Rightarrow> auth_error + principal" where
  "local_verify secret p token =
     (if token = [] then Inl Unauthenticated
      else if local_token_eq (as_bytes token) (as_bytes secret) then Inr p
      else Inl (InvalidToken ''local token mismatch''))"

definition decode_trusted :: "('k, 'alg, 'jwk) jwt_lib \<Rightarrow> string \<Rightarrow> auth_error + principal" where
  "decode_trusted lib forwarded0 =
     (let forwarded = trim forwarded0 in
      if forwarded = [] then Inl Unauthenticated
      else
        bind_result
          (map_err (\<lambda>e. InvalidToken (''trusted identity is not valid base64url: '' @ e))
             (case jl_base64_no_pad lib forwarded of Inr bs \<Rightarrow> Inr bs | Inl _ \<Rightarrow> jl_base64_pad lib forwarded)) (\<lambda>bytes.
          bind_result
            (map_err (\<lambda>e. InvalidToken (''trusted identity is not valid claims JSON: '' @ e)) (jl_claims_de lib bytes))
            into_principal))"

fun verify ::
  "('k, 'alg, 'jwk) jwt_lib \<Rightarrow> 'jwk jwks_call \<Rightarrow> string \<Rightarrow> ('k, 'alg, 'jwk) verifier
    \<Rightarrow> (auth_error + principal) \<times> ('k, 'alg, 'jwk) verifier" where
  "verify lib jc token (JwtVerifier b) = (case decode_principal lib jc token b of (r, b') \<Rightarrow> (r, JwtVerifier b'))"
| "verify lib jc token (JwksVerifier v) = (case jwks_decode_principal lib jc token v of (r, v') \<Rightarrow> (r, JwksVerifier v'))"
| "verify lib jc token (SmooIdentityVerifier b) =
     (case decode_principal lib jc token b of (r, b') \<Rightarrow> (r, SmooIdentityVerifier b'))"
| "verify lib jc token (NoAuthVerifier p) = (Inr p, NoAuthVerifier p)"
| "verify lib jc token (LocalTokenVerifier secret p) = (local_verify secret p token, LocalTokenVerifier secret p)"
| "verify lib jc token TrustedIdentityVerifier = (decode_trusted lib token, TrustedIdentityVerifier)"
| "verify lib jc token AdminDisabledVerifier =
     (Inl (InvalidToken ''admin API disabled: set AUTH_MODE=jwt|smoo + a key, or AUTH_MODE=none for dev''),
      AdminDisabledVerifier)"

fun verifier_mode :: "('k, 'alg, 'jwk) verifier \<Rightarrow> string" where
  "verifier_mode (JwtVerifier b) = ''jwt''"
| "verifier_mode (JwksVerifier v) = ''jwks''"
| "verifier_mode (SmooIdentityVerifier b) = ''smoo''"
| "verifier_mode (NoAuthVerifier p) = ''none''"
| "verifier_mode (LocalTokenVerifier secret p) = ''local-token''"
| "verifier_mode TrustedIdentityVerifier = ''trusted''"
| "verifier_mode AdminDisabledVerifier = ''disabled''"

section \<open>The verifier the environment selects\<close>

type_synonym env = "string \<Rightarrow> string option"

definition env_nonempty :: "env \<Rightarrow> string \<Rightarrow> string option" where
  "env_nonempty env key = option_filter (\<lambda>s. s \<noteq> []) (map_option trim (env key))"

definition resolve_auth_mode :: "string option \<Rightarrow> string option \<Rightarrow> string option" where
  "resolve_auth_mode canonical alias = map_option (\<lambda>s. to_ascii_lowercase (trim s)) (option_or canonical alias)"

definition jwks_source :: "env \<Rightarrow> string option \<Rightarrow> string option" where
  "jwks_source env issuer =
     (case env_nonempty env ''AUTH_JWT_JWKS_URL'' of
        Some url \<Rightarrow> Some url
      | None \<Rightarrow> map_option (\<lambda>iss. trim_end_matches (CHR ''/'') iss @ ''/.well-known/jwks.json'') issuer)"

definition build_jwt ::
  "('k, 'alg, 'jwk) jwt_lib \<Rightarrow> env \<Rightarrow> string option \<Rightarrow> string option \<Rightarrow> auth_error + ('k, 'alg, 'jwk) jwt_backend" where
  "build_jwt lib env issuer audience =
     (case env_nonempty env ''AUTH_JWT_RS256_PUBLIC_KEY'' of
        Some pem \<Rightarrow> jwt_rs256 lib pem issuer audience
      | None \<Rightarrow>
          (case env_nonempty env ''AUTH_JWT_HS256_SECRET'' of
             Some secret \<Rightarrow> Inr (jwt_hs256 lib secret issuer audience)
           | None \<Rightarrow>
               (case jwks_source env issuer of
                  Some url \<Rightarrow> Inr (jwt_jwks url issuer audience)
                | None \<Rightarrow>
                    Inl (Misconfigured (''AUTH_MODE=jwt requires AUTH_JWT_RS256_PUBLIC_KEY, AUTH_JWT_HS256_SECRET, '' @
                      ''AUTH_JWT_JWKS_URL, or AUTH_JWT_ISSUER (to derive the JWKS URL) '' @
                      ''(refusing to fall back to no-auth)'')))))"

definition build_smoo ::
  "('k, 'alg, 'jwk) jwt_lib \<Rightarrow> env \<Rightarrow> string option \<Rightarrow> string option \<Rightarrow> auth_error + ('k, 'alg, 'jwk) verifier" where
  "build_smoo lib env issuer audience =
     (case issuer of
        None \<Rightarrow> Inl (Misconfigured ''AUTH_MODE=smoo requires AUTH_JWT_ISSUER (Smoo's issuer)'')
      | Some iss \<Rightarrow>
          (case env_nonempty env ''AUTH_JWT_RS256_PUBLIC_KEY'' of
             Some pem \<Rightarrow> bind_result (jwt_rs256 lib pem (Some iss) audience) (\<lambda>b. Inr (SmooIdentityVerifier b))
           | None \<Rightarrow>
               (case env_nonempty env ''AUTH_JWT_HS256_SECRET'' of
                  Some secret \<Rightarrow> Inr (SmooIdentityVerifier (jwt_hs256 lib secret (Some iss) audience))
                | None \<Rightarrow>
                    Inr (SmooIdentityVerifier (jwt_jwks (unwrap_or (jwks_source env (Some iss)) []) (Some iss) audience)))))"

definition auth_from_env :: "('k, 'alg, 'jwk) jwt_lib \<Rightarrow> env \<Rightarrow> auth_error + ('k, 'alg, 'jwk) verifier" where
  "auth_from_env lib env =
     (let raw_mode = resolve_auth_mode (env_nonempty env ''SMOOTH_AGENT_AUTH_MODE'') (env_nonempty env ''AUTH_MODE'');
          mode = unwrap_or raw_mode ''jwt'';
          issuer = env_nonempty env ''AUTH_JWT_ISSUER'';
          audience = env_nonempty env ''AUTH_JWT_AUDIENCE''
      in if mode = ''none'' then Inr (no_auth_new (unwrap_or (env_nonempty env ''AUTH_DEV_ORG_ID'') ''dev-org''))
         else if mode = ''trusted'' then Inr TrustedIdentityVerifier
         else if mode = ''jwt'' then
           (case build_jwt lib env issuer audience of
              Inr b \<Rightarrow> Inr (JwtVerifier b)
            | Inl (Misconfigured m) \<Rightarrow> if raw_mode = None then Inr AdminDisabledVerifier else Inl (Misconfigured m)
            | Inl e \<Rightarrow> Inl e)
         else if mode = ''smoo'' then build_smoo lib env issuer audience
         else Inl (Misconfigured (''unknown AUTH_MODE '' @ [CHR 0x27] @ mode @ [CHR 0x27] @
                '' (expected jwt | smoo | trusted | none)'')))"

section \<open>Lemmas\<close>

subsection \<open>The constant-time comparison\<close>

lemma or_eq_0_word: "((a :: 'a::len word) OR b = 0) = (a = 0 \<and> b = 0)"
  by (auto simp: bit_eq_iff bit_or_iff)

lemma xor_eq_0_word: "((a :: 'a::len word) XOR b = 0) = (a = b)"
  by (auto simp: bit_eq_iff bit_xor_iff)

lemma diff_fold_zero:
  "(foldl (\<lambda>diff xy. diff OR (fst xy XOR snd xy)) d xys = 0) = (d = 0 \<and> (\<forall>(x, y) \<in> set xys. x = (y :: 8 word)))"
  by (induction xys arbitrary: d) (auto simp: or_eq_0_word xor_eq_0_word)

lemma local_token_eq_iff: "local_token_eq a b = (a = b)"
proof -
  have "(\<forall>(x, y) \<in> set (zip a b). x = y) = (a = b)" if "length a = length b"
    using that by (induction a b rule: list_induct2) auto
  then show ?thesis by (auto simp: local_token_eq_def diff_fold_zero)
qed

lemma of_nat_byte_inj: "m < 256 \<Longrightarrow> n < 256 \<Longrightarrow> ((of_nat m :: 8 word) = of_nat n) = (m = n)"
  by (simp add: word_of_nat_eq_iff take_bit_eq_mod)

lemma as_bytes_inj: "(as_bytes s = as_bytes t) = (s = t)"
proof -
  have "inj_on (of_nat :: nat \<Rightarrow> 8 word) {0..<256}" by (auto intro!: inj_onI simp: of_nat_byte_inj)
  moreover have "set (utf8_bytes s) \<union> set (utf8_bytes t) \<subseteq> {0..<256}" using utf8_bytes_less by fastforce
  ultimately have "inj_on (of_nat :: nat \<Rightarrow> 8 word) (set (utf8_bytes s) \<union> set (utf8_bytes t))"
    by (rule inj_on_subset)
  then show ?thesis by (simp add: as_bytes_def inj_on_map_eq_map)
qed

subsection \<open>Roles and claims\<close>

lemma role_parse_as_str [simp]: "role_parse (role_as_str r) = Inr r"
  by (cases r) (simp_all add: role_parse_def trim_def trim_start_def trim_end_def is_whitespace_def
      to_ascii_lowercase_def char_to_ascii_lowercase_def)

lemma into_principal_Inr:
  "(into_principal c = Inr p) =
   (\<exists>r org. cl_role c = Some r \<and> role_parse r = Inr (pr_role p) \<and> claims_org_id c = Some org \<and>
      p = \<lparr>pr_user_id = cl_sub c, pr_org_id = org, pr_role = pr_role p, pr_display_name = cl_name c,
           pr_email = option_filter (\<lambda>e. trim e \<noteq> []) (cl_email c), pr_groups = cl_groups c\<rparr>)"
  by (auto simp: into_principal_def split: option.splits)

subsection \<open>The key store\<close>

lemma find_jwk_mem:
  assumes "\<And>ks k j. jl_find lib ks k = Some j \<Longrightarrow> j \<in> set ks" and "find_jwk lib ks kid = Some j"
  shows "j \<in> set ks"
  using assms by (auto simp: find_jwk_def length_Suc_conv split: option.splits if_splits)

lemma maybe_refresh_calls:
  "maybe_refresh jc st = (r, st') \<Longrightarrow>
     jk_ttl st' = jk_ttl st \<and> jk_min_refresh st' = jk_min_refresh st \<and>
     (jk_calls st' = jk_calls st \<and> jk_fetched_at st' = jk_fetched_at st \<and> jk_set st' = jk_set st \<or>
      jk_calls st' = jk_calls st @ [jc_guard_at jc] \<and>
      (\<forall>t. jk_fetched_at st = Some t \<longrightarrow> jk_min_refresh st \<le> elapsed (jc_guard_at jc) t) \<and>
      (case jc_fetch jc of Inl e \<Rightarrow> jk_fetched_at st' = jk_fetched_at st \<and> jk_set st' = jk_set st
       | Inr ks \<Rightarrow> jk_fetched_at st' = Some (jc_stored_at jc) \<and> jk_set st' = ks))"
  by (auto simp: maybe_refresh_def Let_def split: if_splits sum.splits option.splits)

lemma key_for_calls:
  assumes "key_for lib jc kid st = (r, st')"
  shows "jk_ttl st' = jk_ttl st \<and> jk_min_refresh st' = jk_min_refresh st \<and>
     (jk_calls st' = jk_calls st \<and> jk_fetched_at st' = jk_fetched_at st \<and> jk_set st' = jk_set st \<or>
      jk_calls st' = jk_calls st @ [jc_guard_at jc] \<and>
      (\<forall>t. jk_fetched_at st = Some t \<longrightarrow> jk_min_refresh st \<le> elapsed (jc_guard_at jc) t) \<and>
      (case jc_fetch jc of Inl e \<Rightarrow> jk_fetched_at st' = jk_fetched_at st \<and> jk_set st' = jk_set st
       | Inr ks \<Rightarrow> jk_fetched_at st' = Some (jc_stored_at jc) \<and> jk_set st' = ks))"
proof -
  obtain r1 st1 where mr: "maybe_refresh jc st = (r1, st1)" by fastforce
  with assms have "st' = st \<or> st' = st1"
    by (auto simp: key_for_def Let_def split: option.splits if_splits sum.splits)
  with maybe_refresh_calls [OF mr] show ?thesis by auto
qed

text \<open>A run of calls, one after the other.\<close>

fun key_run ::
  "('k, 'alg, 'jwk) jwt_lib \<Rightarrow> ('jwk jwks_call \<times> string option) list \<Rightarrow> 'jwk jwks_key_store \<Rightarrow> 'jwk jwks_key_store" where
  "key_run lib [] st = st"
| "key_run lib ((jc, kid) # cs) st = key_run lib cs (snd (key_for lib jc kid st))"

text \<open>The clock of a run never goes back, and every reading of a call is after the ones before it.\<close>

fun clock_ok :: "int \<Rightarrow> ('jwk jwks_call \<times> string option) list \<Rightarrow> bool" where
  "clock_ok now [] = True"
| "clock_ok now ((jc, kid) # cs) =
     (now \<le> jc_hot_at jc \<and> jc_hot_at jc \<le> jc_guard_at jc \<and> jc_guard_at jc \<le> jc_stored_at jc \<and>
      clock_ok (jc_stored_at jc) cs)"

definition spaced :: "int \<Rightarrow> int list \<Rightarrow> bool" where
  "spaced d ts = sorted_wrt (\<lambda>a b. a + d \<le> b) ts"

text \<open>What the store knows at instant \<open>now\<close>: its calls are spaced, and the last one precedes the stamp.\<close>

definition store_ok :: "int \<Rightarrow> 'jwk jwks_key_store \<Rightarrow> bool" where
  "store_ok now st =
     (0 \<le> jk_min_refresh st \<and> spaced (jk_min_refresh st) (jk_calls st) \<and>
      (case jk_fetched_at st of None \<Rightarrow> jk_calls st = [] | Some t \<Rightarrow> t \<le> now \<and> (\<forall>c \<in> set (jk_calls st). c \<le> t)))"

lemma key_for_store_ok:
  assumes ok: "store_ok now st" and "now \<le> jc_guard_at jc" and "jc_guard_at jc \<le> jc_stored_at jc"
    and fetched: "result_ok (jc_fetch jc)" and "key_for lib jc kid st = (r, st')"
  shows "store_ok (jc_stored_at jc) st'"
proof -
  obtain ks where ks: "jc_fetch jc = Inr ks" using fetched by (cases "jc_fetch jc") auto
  note k = key_for_calls [OF assms(5)]
  have far: "c + jk_min_refresh st \<le> jc_guard_at jc"
    if "c \<in> set (jk_calls st)" "\<forall>t. jk_fetched_at st = Some t \<longrightarrow> jk_min_refresh st \<le> elapsed (jc_guard_at jc) t" for c
  proof -
    from that(1) ok obtain t where t: "jk_fetched_at st = Some t" "t \<le> now" "c \<le> t"
      by (auto simp: store_ok_def split: option.splits)
    with that(2) have "jk_min_refresh st \<le> max 0 (jc_guard_at jc - t)" by (simp add: elapsed_def)
    with t ok assms(2) show ?thesis by (simp add: store_ok_def)
  qed
  show ?thesis
  proof (cases "jk_calls st' = jk_calls st \<and> jk_fetched_at st' = jk_fetched_at st")
    case True
    with ok k assms(2,3) show ?thesis by (auto simp: store_ok_def split: option.splits)
  next
    case False
    with k ks have new: "jk_calls st' = jk_calls st @ [jc_guard_at jc]" "jk_fetched_at st' = Some (jc_stored_at jc)"
      and due: "\<forall>t. jk_fetched_at st = Some t \<longrightarrow> jk_min_refresh st \<le> elapsed (jc_guard_at jc) t" by auto
    have "\<forall>c \<in> set (jk_calls st). c \<le> jc_stored_at jc"
      using far [OF _ due] ok assms(3) by (fastforce simp: store_ok_def)
    with new far [OF _ due] ok k assms(3) show ?thesis
      by (auto simp: store_ok_def spaced_def sorted_wrt_append)
  qed
qed

lemma key_run_store_ok:
  "store_ok now st \<Longrightarrow> clock_ok now cs \<Longrightarrow> list_all (\<lambda>c. result_ok (jc_fetch (fst c))) cs \<Longrightarrow>
     \<exists>now'. store_ok now' (key_run lib cs st) \<and> jk_min_refresh (key_run lib cs st) = jk_min_refresh st"
proof (induction cs arbitrary: now st)
  case (Cons c cs)
  obtain jc kid where c: "c = (jc, kid)" by fastforce
  obtain r st' where kf: "key_for lib jc kid st = (r, st')" by fastforce
  from Cons.prems c have "now \<le> jc_guard_at jc" "jc_guard_at jc \<le> jc_stored_at jc" "result_ok (jc_fetch jc)" by auto
  with kf Cons.prems(1) have "store_ok (jc_stored_at jc) st'" by (intro key_for_store_ok)
  with Cons.IH [of "jc_stored_at jc" st'] Cons.prems c kf key_for_calls [OF kf] show ?case by auto
qed auto

subsection \<open>What a verified token proves\<close>

text \<open>A principal decoded from a signed token: the token decodes under a key and options, and the
  principal is the one its claims name.\<close>

definition signed_identity ::
  "('k, 'alg, 'jwk) jwt_lib \<Rightarrow> string option \<Rightarrow> string option \<Rightarrow> string \<Rightarrow> principal \<Rightarrow> bool" where
  "signed_identity lib issuer audience token p =
     (\<exists>key v c. jl_decode lib token key v = Inr c \<and> into_principal c = Inr p \<and> v_required v = [''exp'', ''sub''] \<and>
        (\<forall>iss. issuer = Some iss \<longrightarrow> v_iss v = Some {iss}) \<and>
        (\<forall>aud. audience = Some aud \<longrightarrow> v_validate_aud v \<and> v_aud v = Some {aud}))"

lemma configure_validation_fields:
  "v_required (configure_validation v iss aud) = [''exp'', ''sub'']"
  "iss = Some i \<Longrightarrow> v_iss (configure_validation v iss aud) = Some {i}"
  "aud = Some a \<Longrightarrow> v_validate_aud (configure_validation v iss aud) \<and> v_aud (configure_validation v iss aud) = Some {a}"
  by (auto simp: configure_validation_def Let_def split: option.splits)

definition backend_for :: "string option \<Rightarrow> string option \<Rightarrow> ('k, 'alg, 'jwk) jwt_backend \<Rightarrow> bool" where
  "backend_for issuer audience b =
     (case b of
        Static key v \<Rightarrow> (\<exists>v0. v = configure_validation v0 issuer audience)
      | Jwks w \<Rightarrow> jw_issuer w = issuer \<and> jw_audience w = audience)"

lemma jwks_decode_principal_signed:
  assumes "jwks_decode_principal lib jc token w = (Inr p, w')"
  shows "signed_identity lib (jw_issuer w) (jw_audience w) token p"
proof -
  from assms obtain jwk alg key c where
    "jl_decode lib token key (configure_validation (jl_validation_new lib alg) (jw_issuer w) (jw_audience w)) = Inr c"
    "into_principal c = Inr p"
    by (auto simp: jwks_decode_principal_def split: if_splits sum.splits prod.splits)
  then show ?thesis unfolding signed_identity_def using configure_validation_fields by metis
qed

lemma jwks_decode_principal_keeps:
  "jwks_decode_principal lib jc token w = (r, w') \<Longrightarrow> jw_issuer w' = jw_issuer w \<and> jw_audience w' = jw_audience w"
  by (auto simp: jwks_decode_principal_def split: if_splits sum.splits prod.splits)

lemma decode_principal_signed:
  assumes "backend_for issuer audience b" and "decode_principal lib jc token b = (Inr p, b')"
  shows "signed_identity lib issuer audience token p"
proof (cases b)
  case (Static key v)
  with assms obtain v0 c where "v = configure_validation v0 issuer audience" "into_principal c = Inr p"
    "jl_decode lib token (verify_key_of key) v = Inr c"
    by (auto simp: backend_for_def split: if_splits)
  then show ?thesis unfolding signed_identity_def using configure_validation_fields by metis
next
  case (Jwks w)
  with assms show ?thesis
    using jwks_decode_principal_signed by (fastforce simp: backend_for_def split: prod.splits)
qed

lemma decode_principal_keeps:
  "backend_for issuer audience b \<Longrightarrow> decode_principal lib jc token b = (r, b') \<Longrightarrow> backend_for issuer audience b'"
  by (cases b) (auto simp: backend_for_def split: prod.splits dest: jwks_decode_principal_keeps)

text \<open>The verifier a server holds after any earlier verifications.\<close>

definition verify_run ::
  "('k, 'alg, 'jwk) jwt_lib \<Rightarrow> ('jwk jwks_call \<times> string) list \<Rightarrow> ('k, 'alg, 'jwk) verifier \<Rightarrow> ('k, 'alg, 'jwk) verifier" where
  "verify_run lib calls v = fold (\<lambda>(jc, token) v. snd (verify lib jc token v)) calls v"

definition verifier_for :: "string option \<Rightarrow> string option \<Rightarrow> ('k, 'alg, 'jwk) verifier \<Rightarrow> bool" where
  "verifier_for issuer audience v =
     (case v of JwtVerifier b \<Rightarrow> backend_for issuer audience b | SmooIdentityVerifier b \<Rightarrow> backend_for issuer audience b
      | AdminDisabledVerifier \<Rightarrow> True | _ \<Rightarrow> False)"

lemma verify_signed:
  assumes "verifier_for issuer audience v" and "fst (verify lib jc token v) = Inr p"
  shows "signed_identity lib issuer audience token p"
  using assms decode_principal_signed
  by (cases v) (fastforce simp: verifier_for_def split: prod.splits)+

lemma verify_keeps: "verifier_for issuer audience v \<Longrightarrow> verifier_for issuer audience (snd (verify lib jc token v))"
  by (cases v) (auto simp: verifier_for_def split: prod.splits dest: decode_principal_keeps)

lemma verify_run_keeps: "verifier_for issuer audience v \<Longrightarrow> verifier_for issuer audience (verify_run lib calls v)"
  unfolding verify_run_def by (induction calls arbitrary: v) (auto dest: verify_keeps)

lemma verify_run_fixed:
  "verify_run lib calls (NoAuthVerifier p) = NoAuthVerifier p"
  "verify_run lib calls TrustedIdentityVerifier = TrustedIdentityVerifier"
  unfolding verify_run_def by (induction calls) auto

lemma build_jwt_for: "build_jwt lib env issuer audience = Inr b \<Longrightarrow> backend_for issuer audience b"
  by (auto simp: build_jwt_def backend_for_def jwt_rs256_def jwt_hs256_def jwt_jwks_def jwks_from_url_def
      split: option.splits)

lemma build_smoo_for:
  "build_smoo lib env issuer audience = Inr v \<Longrightarrow> verifier_for issuer audience v"
  by (auto simp: build_smoo_def verifier_for_def backend_for_def jwt_rs256_def jwt_hs256_def jwt_jwks_def
      jwks_from_url_def split: option.splits)

lemma jwks_source_issuer: "jwks_source env (Some iss) \<noteq> None"
  by (simp add: jwks_source_def split: option.splits)

definition configured_mode :: "env \<Rightarrow> string option" where
  "configured_mode env =
     resolve_auth_mode (env_nonempty env ''SMOOTH_AGENT_AUTH_MODE'') (env_nonempty env ''AUTH_MODE'')"

lemma auth_from_env_cases:
  assumes "auth_from_env lib env = Inr v"
  shows "(configured_mode env = Some ''none'' \<and> (\<exists>org. v = no_auth_new org)) \<or>
         (configured_mode env = Some ''trusted'' \<and> v = TrustedIdentityVerifier) \<or>
         verifier_for (env_nonempty env ''AUTH_JWT_ISSUER'') (env_nonempty env ''AUTH_JWT_AUDIENCE'') v"
proof -
  have jwt: ?thesis if "(case build_jwt lib env (env_nonempty env ''AUTH_JWT_ISSUER'') (env_nonempty env ''AUTH_JWT_AUDIENCE'') of
      Inr b \<Rightarrow> Inr (JwtVerifier b) | Inl (Misconfigured m) \<Rightarrow> if P then Inr AdminDisabledVerifier else Inl (Misconfigured m)
      | Inl e \<Rightarrow> Inl e) = Inr v" for P
    using that by (auto simp: verifier_for_def split: sum.splits auth_error.splits if_splits dest: build_jwt_for)
  show ?thesis
  proof (cases "configured_mode env")
    case None
    with assms jwt show ?thesis by (simp add: auth_from_env_def Let_def flip: configured_mode_def)
  next
    case (Some m)
    then show ?thesis using assms jwt
      by (auto simp: auth_from_env_def Let_def build_smoo_for simp flip: configured_mode_def split: if_splits)
  qed
qed

section \<open>Properties\<close>


text \<open>Key-set fetches are rate limited. On a clock that does not go back, as long as the issuer answers,
  the fetches of a key store are at least the configured interval apart, whatever key ids the tokens
  carry.\<close>

theorem jwks_fetch_spacing:
  assumes "0 \<le> m" and "clock_ok now cs" and "list_all (\<lambda>c. result_ok (jc_fetch (fst c))) cs"
  shows "spaced m (jk_calls (key_run lib cs (key_store_new ttl m)))"
proof -
  have "store_ok now (key_store_new ttl m :: 'a jwks_key_store)"
    using assms(1) by (simp add: store_ok_def key_store_new_def spaced_def)
  from key_run_store_ok [OF this assms(2,3), of lib] show ?thesis
    by (auto simp: store_ok_def key_store_new_def)
qed

text \<open>The limit does not hold while the issuer fails: every token that arrives then causes a fetch of its
  own, however close together they are.\<close>

theorem jwks_failed_fetch_unlimited:
  assumes "list_all (\<lambda>c. \<not> result_ok (jc_fetch (fst c))) cs"
  shows "length (jk_calls (key_run lib cs (key_store_new ttl m))) = length cs"
proof -
  have "length (jk_calls (key_run lib cs st)) = length (jk_calls st) + length cs"
    if "jk_fetched_at st = None" "list_all (\<lambda>c. \<not> result_ok (jc_fetch (fst c))) cs" for st
    using that
  proof (induction cs arbitrary: st)
    case (Cons c cs)
    obtain jc kid where c: "c = (jc, kid)" by fastforce
    with Cons.prems obtain e where "jc_fetch jc = Inl e" by (cases "jc_fetch jc") auto
    with Cons.prems(1) have kf: "key_for lib jc kid st = (Inl e, st\<lparr>jk_calls := jk_calls st @ [jc_guard_at jc]\<rparr>)"
      by (simp add: key_for_def maybe_refresh_def)
    with Cons.IH [of "st\<lparr>jk_calls := jk_calls st @ [jc_guard_at jc]\<rparr>"] Cons.prems c show ?case by simp
  qed simp
  from this [of "key_store_new ttl m"] assms show ?thesis by (simp add: key_store_new_def)
qed

text \<open>The local token check accepts exactly the secret: the byte-wise comparison is equality.\<close>

theorem local_verify_exact:
  "local_verify secret p token = Inr q \<longleftrightarrow> token \<noteq> [] \<and> token = secret \<and> q = p"
  by (auto simp: local_verify_def local_token_eq_iff as_bytes_inj)

text \<open>A rotated key is found: once the interval has passed, a key id the cache lacks and the issuer now
  publishes is served from the new set.\<close>

theorem jwks_rotation_found:
  assumes "jk_fetched_at st = Some t" and "jk_min_refresh st \<le> elapsed (jc_guard_at jc) t"
    and "jl_find lib (jk_set st) k = None" and "jc_fetch jc = Inr ks" and "jl_find lib ks k = Some j"
  shows "fst (key_for lib jc (Some k) st) = Inr j \<and> jk_set (snd (key_for lib jc (Some k) st)) = ks"
  using assms by (simp add: key_for_def maybe_refresh_def find_jwk_def Let_def)

section \<open>Witnesses\<close>

text \<open>A library in which the only token is \<open>t\<close>, signed with the key \<open>k\<close>.\<close>

definition demo_claims :: claims where
  "demo_claims = \<lparr>cl_sub = ''u1'', cl_org = Some ''acme'', cl_org_id = None, cl_role = Some ''basic'', cl_name = None,
     cl_email = Some ''u@acme'', cl_groups = []\<rparr>"

definition demo_lib :: "(string, unit, string) jwt_lib" where
  "demo_lib =
     \<lparr>jl_validation_new = (\<lambda>a. \<lparr>v_algorithm = a, v_required = [], v_validate_aud = True, v_aud = None, v_iss = None\<rparr>),
      jl_hs256 = (), jl_rs256 = (), jl_from_secret = (\<lambda>s. s), jl_from_rsa_pem = (\<lambda>s. Inl ''not a key''),
      jl_decode = (\<lambda>t k v. if t = ''t'' \<and> k = ''k'' then Inr demo_claims else Inl ''bad''),
      jl_decode_header = (\<lambda>t. Inr (None, ())), jl_find = (\<lambda>ks k. find (\<lambda>j. j = k) ks),
      jl_key_algorithm = (\<lambda>j. None), jl_alg_from_str = (\<lambda>s. None), jl_from_jwk = (\<lambda>j. Inr j),
      jl_base64_no_pad = (\<lambda>s. Inl ''no''), jl_base64_pad = (\<lambda>s. Inl ''no''), jl_claims_de = (\<lambda>b. Inl ''no'')\<rparr>"

definition demo_env :: env where
  "demo_env k = (if k = ''AUTH_JWT_HS256_SECRET'' then Some ''k'' else None)"

definition demo_principal :: principal where
  "demo_principal = \<lparr>pr_user_id = ''u1'', pr_org_id = ''acme'', pr_role = Basic, pr_display_name = None,
     pr_email = Some ''u@acme'', pr_groups = []\<rparr>"

definition demo_jwks_call :: "int \<Rightarrow> auth_error + string list \<Rightarrow> string jwks_call" where
  "demo_jwks_call t r = \<lparr>jc_hot_at = t, jc_guard_at = t, jc_stored_at = t, jc_fetch = r\<rparr>"

lemma demo_env_lookup [simp]:
  "env_nonempty demo_env ''AUTH_JWT_HS256_SECRET'' = Some ''k''"
  "k \<noteq> ''AUTH_JWT_HS256_SECRET'' \<Longrightarrow> env_nonempty demo_env k = None"
  by (simp_all add: env_nonempty_def demo_env_def trim_def trim_start_def trim_end_def is_whitespace_def)

lemma demo_from_env: "auth_from_env demo_lib demo_env = Inr (JwtVerifier (jwt_hs256 demo_lib ''k'' None None))"
  by (simp add: auth_from_env_def resolve_auth_mode_def build_jwt_def Let_def)

lemma demo_verifies:
  "fst (verify demo_lib jc ''t'' (verify_run demo_lib [] (JwtVerifier (jwt_hs256 demo_lib ''k'' None None)))) = Inr demo_principal"
  by (simp add: verify_run_def jwt_hs256_def demo_lib_def demo_claims_def demo_principal_def into_principal_def
      claims_org_id_def role_parse_def trim_def trim_start_def trim_end_def is_whitespace_def to_ascii_lowercase_def
      char_to_ascii_lowercase_def)


definition demo_calls :: "auth_error + string list \<Rightarrow> (string jwks_call \<times> string option) list" where
  "demo_calls r = [(demo_jwks_call 0 r, Some ''x''), (demo_jwks_call 1 r, Some ''x''), (demo_jwks_call 40 r, Some ''x'')]"

theorem jwks_fetch_spacing_witness:
  "spaced 30 (jk_calls (key_run demo_lib (demo_calls (Inr [])) (key_store_new 300 30))) \<and>
   jk_calls (key_run demo_lib (demo_calls (Inr [])) (key_store_new 300 30)) = [0, 40]"
proof -
  have "spaced 30 (jk_calls (key_run demo_lib (demo_calls (Inr [])) (key_store_new 300 30)))"
    by (rule jwks_fetch_spacing [of _ 0]) (simp_all add: demo_calls_def demo_jwks_call_def)
  then show ?thesis
    by (simp add: demo_calls_def demo_jwks_call_def key_store_new_def key_for_def maybe_refresh_def find_jwk_def
        elapsed_def demo_lib_def Let_def)
qed

theorem jwks_failed_fetch_unlimited_witness:
  "length (jk_calls (key_run demo_lib (demo_calls (Inl Unauthenticated)) (key_store_new 300 30))) = 3"
  using jwks_failed_fetch_unlimited [of "demo_calls (Inl Unauthenticated)" demo_lib 300 30]
  by (simp add: demo_calls_def demo_jwks_call_def)

end
