(* ===== verification/Connection.thy ===== *)
theory Connection
  imports Dispatch Auth
begin

text \<open>
  Connections (\<open>rust/smooth-operator-server/src/server.rs\<close>): the access a connection is given from its
  token, the reader that routes frames and keeps the connection's turn, the writer with its gate for
  cancelled turns, and the whole server as a step relation over any number of connections and turn tasks.

  A frame is handled in one step, apart from the gate: the reader queues the answer first and writes the
  gate after that, in a step of its own, since the writer is another task and may run in between.
\<close>

section \<open>The access of a connection\<close>

record connection_auth =
  ca_access :: access_context
  ca_org_id :: "string option"
  ca_user_scope :: user_scope

definition anonymous_scope :: "('k, 'alg, 'jwk) verifier \<Rightarrow> user_scope" where
  "anonymous_scope v = (if is_single_user_mode (verifier_mode v) then Unscoped else ScopeDenied)"

definition anonymous_auth :: "('k, 'alg, 'jwk) verifier \<Rightarrow> connection_auth" where
  "anonymous_auth v = \<lparr>ca_access = access_anonymous, ca_org_id = None, ca_user_scope = anonymous_scope v\<rparr>"

definition principal_auth :: "('k, 'alg, 'jwk) verifier \<Rightarrow> principal \<Rightarrow> connection_auth" where
  "principal_auth v p =
     \<lparr>ca_access = principal_access_context p, ca_org_id = Some (pr_org_id p),
      ca_user_scope =
        (case pr_email p of
           Some e \<Rightarrow> ScopeUser e
         | None \<Rightarrow> if is_single_user_mode (verifier_mode v) then Unscoped else ScopeDenied)\<rparr>"

text \<open>The token of the query, trimmed; the verifier is returned too, since it may have refreshed its keys.\<close>

definition resolve_ws_access ::
  "('k, 'alg, 'jwk) jwt_lib \<Rightarrow> 'jwk jwks_call \<Rightarrow> bool \<Rightarrow> string option \<Rightarrow> ('k, 'alg, 'jwk) verifier
    \<Rightarrow> (unit + connection_auth) \<times> ('k, 'alg, 'jwk) verifier" where
  "resolve_ws_access lib jc strict query v =
     (case option_filter (\<lambda>t. t \<noteq> []) (map_option trim query) of
        None \<Rightarrow> (if strict then Inl () else Inr (anonymous_auth v), v)
      | Some tok \<Rightarrow>
          (case verify lib jc tok v of
             (Inr p, v') \<Rightarrow> (Inr (principal_auth v' p), v')
           | (Inl _, v') \<Rightarrow> (if strict then Inl () else Inr (anonymous_auth v'), v')))"

section \<open>The writer\<close>

text \<open>A frame is dropped when it carries the request id of the turn cancelled last, unless it is the
  \<open>cancelled\<close> event itself.\<close>

definition writer_passes :: "string option \<Rightarrow> json \<Rightarrow> bool" where
  "writer_passes gate ev =
     (get_str ev ''type'' = Some ''cancelled'' \<or>
      (case get_str ev ''requestId'' of Some r \<Rightarrow> gate \<noteq> Some r | None \<Rightarrow> True))"

section \<open>The reader\<close>

definition frame_action_and_request_id :: "('st, 'mac) handler_env \<Rightarrow> string \<Rightarrow> string option \<times> string option" where
  "frame_action_and_request_id he raw =
     (case he_from_str he raw of
        Inl _ \<Rightarrow> (None, None)
      | Inr v \<Rightarrow> (get_str v ''action'', get_str v ''requestId''))"

definition frame_session_id :: "('st, 'mac) handler_env \<Rightarrow> string \<Rightarrow> string option" where
  "frame_session_id he raw =
     (case he_from_str he raw of
        Inl _ \<Rightarrow> None
      | Inr v \<Rightarrow> option_filter (\<lambda>s. s \<noteq> []) (get_str v ''sessionId''))"

text \<open>
  A connection: its identity, the turn it tracks, the writer's gate and the write to it that the reader
  still has to make, the frames queued in its sink and those written to the socket.
\<close>

record conn =
  cn_id :: string
  cn_auth :: connection_auth
  cn_origin :: "string option"
  cn_slot :: "(string option \<times> spawned_turn) option"
  cn_gate :: "string option"
  cn_arm :: "string option option"
  cn_queue :: "json list"
  cn_sent :: "json list"
  cn_reading :: bool
  cn_writing :: bool

definition conn_new :: "string \<Rightarrow> connection_auth \<Rightarrow> string option \<Rightarrow> conn" where
  "conn_new cid a orig =
     \<lparr>cn_id = cid, cn_auth = a, cn_origin = orig, cn_slot = None, cn_gate = None, cn_arm = None, cn_queue = [],
      cn_sent = [], cn_reading = True, cn_writing = True\<rparr>"

text \<open>What a text frame does: the state, the tracked turn, the frames sent and to which sink, the gate to
  write afterwards, and the turn started.\<close>

record 'st text_result =
  tf_state :: "'st app_state"
  tf_slot :: "(string option \<times> spawned_turn) option"
  tf_sends :: "(nat \<times> json) list"
  tf_gate :: "string option option"
  tf_spawned :: "(spawned_turn \<times> turn_request) option"

text \<open>The flag first, then the abort, then the conversation is freed.\<close>

definition cancel_spawned :: "spawned_turn \<Rightarrow> 'st app_state \<Rightarrow> 'st app_state" where
  "cancel_spawned t w =
     w\<lparr>running := releaser_release (sp_releaser t)
         ((running w)\<lparr>flags := insert (sp_cancelled t) (flags (running w)),
                      aborted := insert (sp_handle t) (aborted (running w))\<rparr>)\<rparr>"

definition live_slot ::
  "(nat \<Rightarrow> bool) \<Rightarrow> (string option \<times> spawned_turn) option \<Rightarrow> (string option \<times> spawned_turn) option" where
  "live_slot finished sl = option_filter (\<lambda>(_, t). \<not> finished (sp_handle t)) sl"

definition handle_text_frame ::
  "('st, 'mac) handler_env \<Rightarrow> frame_input \<Rightarrow> spawn_input \<Rightarrow> conn \<Rightarrow> (nat \<Rightarrow> bool) \<Rightarrow> string \<Rightarrow> 'st app_state
    \<Rightarrow> 'st text_result" where
  "handle_text_frame he fi si c finished text w =
     (let own = si_sink si; a = cn_auth c; current = live_slot finished (cn_slot c) in
      case frame_action_and_request_id he text of (action, rid) \<Rightarrow>
      if action = Some ''cancel'' then
        (case current of
           Some (turn_rid, t) \<Rightarrow>
             let echo = option_or turn_rid rid in
             \<lparr>tf_state = cancel_spawned t w, tf_slot = None, tf_sends = [(own, cancelled_event (fi_now_ms fi) echo)],
              tf_gate = (case echo of Some r \<Rightarrow> Some (Some r) | None \<Rightarrow> None), tf_spawned = None\<rparr>
         | None \<Rightarrow>
             (case frame_session_id he text of
                None \<Rightarrow> \<lparr>tf_state = w, tf_slot = None, tf_sends = [], tf_gate = None, tf_spawned = None\<rparr>
              | Some sid \<Rightarrow>
                  (case cancel_conversation_turn (he_server he) (ca_org_id a) (ca_user_scope a) sid w of
                     (None, w') \<Rightarrow> \<lparr>tf_state = w', tf_slot = None, tf_sends = [], tf_gate = None, tf_spawned = None\<rparr>
                   | (Some stopped, w') \<Rightarrow>
                       let ev = cancelled_event (fi_now_ms fi) (Some (ct_request_id stopped)) in
                       \<lparr>tf_state = w', tf_slot = None,
                        tf_sends = (if ct_conn_id stopped \<noteq> cn_id c then [(ct_sink stopped, ev)] else []) @ [(own, ev)],
                        tf_gate = None, tf_spawned = None\<rparr>)))
      else if action = Some ''send_message'' \<and> current \<noteq> None then
        \<lparr>tf_state = w, tf_slot = current,
         tf_sends = [(own, error_event (fi_now_ms fi) rid ''TURN_IN_PROGRESS''
           ''a turn is already in progress on this connection; cancel it or wait for it to complete'')],
         tf_gate = None, tf_spawned = None\<rparr>
      else
        (case handle_frame he fi si (ca_access a) (cn_id c) (cn_origin c) (ca_org_id a) (ca_user_scope a) text w of
           (w', fs, Some (h, tr)) \<Rightarrow>
             \<lparr>tf_state = w', tf_slot = Some (rid, h), tf_sends = map (Pair own) fs, tf_gate = Some None,
              tf_spawned = Some (h, tr)\<rparr>
         | (w', fs, None) \<Rightarrow>
             \<lparr>tf_state = w', tf_slot = current, tf_sends = map (Pair own) fs, tf_gate = None, tf_spawned = None\<rparr>))"

section \<open>The server\<close>

text \<open>Connections by sink, the turns started so far with the sink they write to, latest first, and the
  tasks that have ended.\<close>

record 'st server =
  sv_state :: "'st app_state"
  sv_conns :: "nat \<rightharpoonup> conn"
  sv_turns :: "(nat \<times> spawned_turn \<times> turn_request) list"
  sv_done :: "nat set"

definition server_new :: "'st \<Rightarrow> 'st server" where
  "server_new st = \<lparr>sv_state = app_state_new st, sv_conns = Map.empty, sv_turns = [], sv_done = {}\<rparr>"

text \<open>Queueing one frame in a sink; a sink that is gone ignores it.\<close>

definition enqueue :: "nat \<times> json \<Rightarrow> (nat \<rightharpoonup> conn) \<Rightarrow> (nat \<rightharpoonup> conn)" where
  "enqueue se cs =
     (case cs (fst se) of
        Some c \<Rightarrow> cs(fst se \<mapsto> c\<lparr>cn_queue := cn_queue c @ [snd se]\<rparr>)
      | None \<Rightarrow> cs)"

text \<open>The reader has ended: the connection leaves the backplane and its parked creates are dropped.\<close>

definition end_reader :: "conn \<Rightarrow> 'st app_state \<Rightarrow> 'st app_state" where
  "end_reader c w = discard_pending_sessions_for_conn (cn_id c) (w\<lparr>backplane := detach (cn_id c) (backplane w)\<rparr>)"

definition binary_refused :: "int \<Rightarrow> json" where
  "binary_refused now =
     error_event now None ''VALIDATION_ERROR'' ''binary frames are not supported; send JSON text frames''"

text \<open>
  One step of the server. A label tells which connection handled a text frame. The body of a turn may do
  anything to the state but touch the registry of running turns, and may send anything anywhere.
\<close>

inductive server_step :: "('st, 'mac) handler_env \<Rightarrow> 'st server \<Rightarrow> nat option \<Rightarrow> 'st server \<Rightarrow> bool" for he where
  connect: "sv_conns s k = None \<Longrightarrow>
    server_step he s None (s\<lparr>sv_conns := (sv_conns s)(k \<mapsto> conn_new cid a orig),
      sv_state := (sv_state s)\<lparr>backplane := attach cid k (backplane (sv_state s))\<rparr>\<rparr>)"
| text_frame: "sv_conns s k = Some c \<Longrightarrow> cn_reading c \<Longrightarrow> cn_arm c = None \<Longrightarrow> si_sink si = k \<Longrightarrow>
    \<forall>(_, h, _) \<in> set (sv_turns s). sp_cancelled h \<noteq> si_flag si \<and> sp_handle h \<noteq> si_task si \<Longrightarrow>
    r = handle_text_frame he fi si c (\<lambda>h. h \<in> sv_done s) frame (sv_state s) \<Longrightarrow>
    server_step he s (Some k) (s\<lparr>sv_state := tf_state r,
      sv_conns := fold enqueue (tf_sends r) ((sv_conns s)(k \<mapsto> c\<lparr>cn_slot := tf_slot r, cn_arm := tf_gate r\<rparr>)),
      sv_turns := (case tf_spawned r of Some (h, tr) \<Rightarrow> [(k, h, tr)] | None \<Rightarrow> []) @ sv_turns s\<rparr>)"
| gate: "sv_conns s k = Some c \<Longrightarrow> cn_arm c = Some g \<Longrightarrow>
    server_step he s None (s\<lparr>sv_conns := (sv_conns s)(k \<mapsto> c\<lparr>cn_gate := g, cn_arm := None\<rparr>)\<rparr>)"
| binary: "sv_conns s k = Some c \<Longrightarrow> cn_reading c \<Longrightarrow>
    server_step he s None (s\<lparr>sv_conns := enqueue (k, binary_refused now) (sv_conns s)\<rparr>)"
| emit: "server_step he s None (s\<lparr>sv_conns := enqueue (k, ev) (sv_conns s)\<rparr>)"
| work: "running w' = running (sv_state s) \<Longrightarrow> server_step he s None (s\<lparr>sv_state := w'\<rparr>)"
| finish: "(k, h, tr) \<in> set (sv_turns s) \<Longrightarrow> sp_handle h \<notin> sv_done s \<Longrightarrow>
    finish_turn he fi mid generate raised (sp_releaser h) tr gate result (sv_state s) = (w', fs) \<Longrightarrow>
    server_step he s None (s\<lparr>sv_state := w', sv_done := insert (sp_handle h) (sv_done s),
      sv_conns := fold enqueue (map (Pair k) fs) (sv_conns s)\<rparr>)"
| dropped: "(k, h, tr) \<in> set (sv_turns s) \<Longrightarrow> sp_handle h \<notin> sv_done s \<Longrightarrow>
    server_step he s None (s\<lparr>sv_state := drop_claim (sp_releaser h) (sv_state s),
      sv_done := insert (sp_handle h) (sv_done s)\<rparr>)"
| written: "sv_conns s k = Some c \<Longrightarrow> cn_writing c \<Longrightarrow> cn_queue c = ev # q \<Longrightarrow>
    server_step he s None (s\<lparr>sv_conns := (sv_conns s)(k \<mapsto> c\<lparr>cn_queue := q,
      cn_sent := (if writer_passes (cn_gate c) ev then cn_sent c @ [ev] else cn_sent c)\<rparr>)\<rparr>)"
| client_gone: "sv_conns s k = Some c \<Longrightarrow> cn_reading c \<Longrightarrow> cn_arm c = None \<Longrightarrow>
    server_step he s None (s\<lparr>sv_state := end_reader c (sv_state s),
      sv_conns := (sv_conns s)(k \<mapsto> c\<lparr>cn_slot := None, cn_reading := False, cn_writing := False\<rparr>)\<rparr>)"
| shutdown: "sv_conns s k = Some c \<Longrightarrow> cn_reading c \<Longrightarrow> cn_arm c = None \<Longrightarrow>
    server_step he s None (s\<lparr>sv_state := end_reader c (sv_state s),
      sv_conns := (sv_conns s)(k \<mapsto> c\<lparr>cn_reading := False\<rparr>)\<rparr>)"

text \<open>The runs, with the number of text frames handled.\<close>

inductive server_reach :: "('st, 'mac) handler_env \<Rightarrow> nat \<Rightarrow> 'st server \<Rightarrow> bool" for he where
  start: "server_reach he 0 (server_new st)"
| frame: "server_reach he n s \<Longrightarrow> server_step he s (Some k) s' \<Longrightarrow> server_reach he (Suc n) s'"
| other: "server_reach he n s \<Longrightarrow> server_step he s None s' \<Longrightarrow> server_reach he n s'"

section \<open>What frames do to the running turns\<close>

lemma edit_meta_running: "edit_meta sid f w = Some (m, w') \<Longrightarrow> running w' = running w"
  by (auto simp: edit_meta_def Let_def split: if_splits option.splits)

lemma write_through_running: "running (snd (write_through ad now sid m w)) = running w"
  by (simp add: write_through_def split: sum.split prod.split)

lemma set_session_meta_key_running: "set_session_meta_key ad now sid key v w = (r, w') \<Longrightarrow> running w' = running w"
  unfolding set_session_meta_key_def
  by (auto dest!: edit_meta_running split: option.splits prod.splits) (metis snd_conv write_through_running)

lemma set_session_authenticated_running: "running (set_session_authenticated ad now sid b w) = running w"
  by (auto simp: set_session_authenticated_def write_through_running dest!: edit_meta_running split: option.split)

lemma attach_session_identity_running: "running (attach_session_identity ad now sid v w) = running w"
  by (auto simp: attach_session_identity_def Let_def write_through_running dest!: edit_meta_running split: option.split)

lemma settle_interaction_running: "settle_interaction he fi sid rid l x w = (e, w') \<Longrightarrow> running w' = running w"
  by (auto simp: settle_interaction_def resolve_interaction_def take_interaction_def send_resolution_def set_pending_interaction_def
      Let_def dest!: set_session_meta_key_running split: if_splits option.splits sum.splits prod.splits)

lemma submit_to_view_running: "running (fst (submit_to_view he fi parsed rid sid v w)) = running w"
proof -
  have effect: "running (attach_interaction_effect he fi sid k x u) = running u" for k x u
    by (simp add: attach_interaction_effect_def attach_session_identity_running split: option.split)
  show ?thesis unfolding submit_to_view_def Let_def
    by (auto simp: effect dest: settle_interaction_running split: option.split sum.split prod.split)
qed

lemma handle_submit_interaction_running: "running (fst (handle_submit_interaction he fi auth_org scope parsed rid w)) = running w"
proof -
  have durable: "durable_pending_interaction ad sid u = (r, u') \<Longrightarrow> running u' = running u" for ad sid u r u'
    by (auto simp: durable_pending_interaction_def split: sum.splits option.splits if_splits)
  show ?thesis unfolding handle_submit_interaction_def
    by (auto simp: submit_to_view_running dest!: durable scoped_session_running split: option.split sum.split prod.split)
qed

lemma handle_verify_otp_running: "running (fst (handle_verify_otp he fi auth_org scope parsed rid w)) = running w"
  unfolding handle_verify_otp_def Let_def
  by (auto simp: set_session_authenticated_running dest!: scoped_session_running
      split: option.split sum.split prod.split otp_verify_outcome.split)

lemma materialize_conversation_running: "running (snd (materialize_conversation ad b cid w)) = running w"
  unfolding materialize_conversation_def
  by (auto simp: materialize_session_running [OF prod.collapse [symmetric]] split: option.split)

lemma handle_create_session_running: "running (fst (handle_create_session env fi conn orig auth_org scope parsed rid w)) = running w"
  unfolding handle_create_session_def create_session_allowed_def Let_def defer_session_def
  by (auto simp: materialize_conversation_running split: option.split sum.split prod.split)

lemma read_handlers_running:
  "running (fst (handle_get_session env fi auth_org scope parsed rid w)) = running w"
  "running (fst (handle_get_conversation_messages env fi auth_org scope parsed rid w)) = running w"
  "running (fst (handle_list_conversations env fi auth_org scope parsed rid w)) = running w"
  "running (fst (handle_rename_conversation env fi auth_org scope parsed rid w)) = running w"
  unfolding handle_get_session_def handle_get_conversation_messages_def handle_list_conversations_def
    handle_rename_conversation_def Let_def
  by (auto dest!: scoped_session_running split: option.split sum.split prod.split)

text \<open>The claim of a frame: none, one taken and dropped again, or one handed to the turn it starts.\<close>

definition claim_effect ::
  "spawn_input \<Rightarrow> running_turns \<Rightarrow> running_turns \<Rightarrow> (spawned_turn \<times> turn_request) option \<Rightarrow> bool" where
  "claim_effect si r r' sp \<longleftrightarrow>
     (sp = None \<and> r' = r) \<or>
     (\<exists>c req conn res r1. try_reserve c req conn (si_sink si) (si_flag si) r = (Some res, r1) \<and>
        (case sp of
           None \<Rightarrow> r' = reservation_drop res r1
         | Some (h, tr) \<Rightarrow> h = \<lparr>sp_handle = si_task si, sp_cancelled = si_flag si, sp_releaser = res\<rparr> \<and>
             tr_conversation_id tr = c \<and> r' = releaser_set_abort res (si_task si) r1))"

lemma claim_effect_none: "claim_effect si r r None"
  by (simp add: claim_effect_def)

lemma start_turn_claim:
  assumes run: "start_turn he fi si acc parsed req s res w2 = (w', fs, sp)"
  shows "case sp of None \<Rightarrow> running w' = reservation_drop res (running w2)
      | Some (h, tr) \<Rightarrow> h = \<lparr>sp_handle = si_task si, sp_cancelled = si_flag si, sp_releaser = res\<rparr> \<and>
          tr_conversation_id tr = ss_conversation_id s \<and> running w' = releaser_set_abort res (si_task si) (running w2)"
proof (cases "materialize_session (adapter (he_server he)) (sr_session_id req) w2")
  case (Pair r w3)
  note same = materialize_session_running [OF this]
  have rel: "releaser res = res" by (simp add: releaser_def)
  show ?thesis
  proof (cases "\<exists>u kl. r = Inr u \<and> turn_llm he (conversation_org (adapter (he_server he)) (ss_conversation_id s) (storage w3)) = Some kl")
    case False
    with Pair run same show ?thesis
      by (auto simp: start_turn_def Let_def drop_claim_def split: sum.splits option.splits)
  next
    case True
    obtain pre w4 where p: "(if wants_confirmation he then take_pre_approval (sr_session_id req) w3 else (None, w3)) = (pre, w4)"
      by fastforce
    then have "running w4 = running w3" using take_pre_approval_running by (auto split: if_splits)
    with True Pair run p same rel show ?thesis by (auto simp: start_turn_def Let_def build_turn_def)
  qed
qed

lemma claim_effect_send:
  assumes "handle_send_message he fi si conn auth_org acc scope parsed rid w = (w', fs, sp)"
  shows "claim_effect si (running w) (running w') sp"
proof (cases "\<exists>req s w1 res r1. validate_send he fi parsed rid = Inr req \<and>
    scoped_session (he_server he) (sr_session_id req) auth_org scope w = (Inr (Some s), w1) \<and>
    try_reserve (ss_conversation_id s) (sr_request_id req) conn (si_sink si) (si_flag si) (running w1) = (Some res, r1)")
  case False
  then have "sp = None \<and> running w' = running w"
    using assms unfolding handle_send_message_def
    by (auto dest!: scoped_session_running split: sum.splits option.splits prod.splits)
  then show ?thesis by (simp add: claim_effect_none)
next
  case True
  then obtain req s w1 res r1 where v: "validate_send he fi parsed rid = Inr req"
    and sc: "scoped_session (he_server he) (sr_session_id req) auth_org scope w = (Inr (Some s), w1)"
    and t: "try_reserve (ss_conversation_id s) (sr_request_id req) conn (si_sink si) (si_flag si) (running w1) = (Some res, r1)"
    by blast
  have run: "start_turn he fi si acc parsed req s res (w1\<lparr>running := r1\<rparr>) = (w', fs, sp)"
    using assms v sc t by (simp add: handle_send_message_def)
  have claim: "try_reserve (ss_conversation_id s) (sr_request_id req) conn (si_sink si) (si_flag si) (running w) = (Some res, r1)"
    using t scoped_session_running [OF sc] by simp
  from start_turn_claim [OF run] claim show ?thesis unfolding claim_effect_def by auto
qed

lemma claim_effect_durable:
  assumes "durable_confirm_fallback he fi si conn auth_org acc scope sid approved rid w = (w', fs, sp)"
  shows "claim_effect si (running w) (running w') sp"
proof -
  have granted: "running (grant_pre_approval sid tool u) = running u" for tool and u :: "'a app_state"
    by (simp add: grant_pre_approval_def)
  have cleared: "set_pending_confirmation ad now sid v u = (r, u') \<Longrightarrow> running u' = running u" for ad now v r and u u' :: "'a app_state"
    by (auto simp: set_pending_confirmation_def dest: set_session_meta_key_running)
  from assms show ?thesis unfolding durable_confirm_fallback_def Let_def
    by (auto simp: claim_effect_none dest!: cleared claim_effect_send split: sum.splits option.splits prod.splits if_splits)
      (simp_all add: granted claim_effect_none)
qed

lemma claim_effect_confirm:
  assumes run: "handle_confirm_tool_action he fi si conn auth_org acc scope parsed rid w = (w', fs, sp)"
  shows "claim_effect si (running w) (running w') sp"
proof (cases "\<exists>sid b s w1. get_str parsed ''sessionId'' = Some sid \<and> get_bool parsed ''approved'' = Some b \<and>
    scoped_session (he_server he) sid auth_org scope w = (Inr (Some s), w1)")
  case False
  then have "sp = None \<and> running w' = running w"
    using run unfolding handle_confirm_tool_action_def
    by (auto dest!: scoped_session_running split: sum.splits option.splits prod.splits)
  then show ?thesis by (simp add: claim_effect_none)
next
  case True
  then obtain sid b s w1 where f: "get_str parsed ''sessionId'' = Some sid" "get_bool parsed ''approved'' = Some b"
    and sc: "scoped_session (he_server he) sid auth_org scope w = (Inr (Some s), w1)" by blast
  obtain ch w2 where t: "take_confirmation sid w1 = (ch, w2)" by fastforce
  have r2: "running w2 = running w"
    using t scoped_session_running [OF sc] by (auto simp: take_confirmation_def split: if_splits)
  have acked: "running (snd (set_pending_confirmation ad now sid v u)) = running u" for ad now v and u :: "'a app_state"
    unfolding set_pending_confirmation_def by (rule set_session_meta_key_running [OF prod.collapse [symmetric]])
  show ?thesis
  proof (cases "\<exists>x. ch = Some x \<and> \<not> receiver_gone w2 x")
    case True
    with run f sc t r2 show ?thesis
      by (auto simp: handle_confirm_tool_action_def send_verdict_def acked claim_effect_none)
  next
    case False
    with run f sc t have "durable_confirm_fallback he fi si conn auth_org acc scope sid b rid w2 = (w', fs, sp)"
      by (auto simp: handle_confirm_tool_action_def send_verdict_def split: option.splits)
    from claim_effect_durable [OF this] r2 show ?thesis by simp
  qed
qed

lemma claim_effect_dispatch:
  assumes run: "dispatch he fi si acc conn orig auth_org scope parsed w = (w', fs, sp)"
  shows "claim_effect si (running w) (running w') sp"
proof (cases "\<exists>a. get_str parsed ''action'' = Some a \<and> (a = ''send_message'' \<or> a = ''confirm_tool_action'')")
  case True
  with run show ?thesis unfolding dispatch_def Let_def by (auto dest: claim_effect_send claim_effect_confirm)
next
  case False
  with run have "sp = None \<and> running w' = running w"
    unfolding dispatch_def Let_def no_turn_def
    by (auto simp: read_handlers_running handle_create_session_running handle_verify_otp_running
        handle_submit_interaction_running split: option.splits if_splits)
  then show ?thesis by (simp add: claim_effect_none)
qed

lemma claim_effect_frame:
  "handle_frame he fi si acc conn orig auth_org scope raw w = (w', fs, sp) \<Longrightarrow> claim_effect si (running w) (running w') sp"
  unfolding handle_frame_def by (auto simp: claim_effect_none dest: claim_effect_dispatch split: sum.splits)

text \<open>A text frame claims as its handler does, cancels the turn the connection tracks, or cancels the turn
  of a conversation.\<close>

lemma live_slot_cases: "live_slot finished sl = None \<or> live_slot finished sl = sl"
  by (cases sl) (auto simp: live_slot_def)

lemma cancel_conversation_turn_running:
  assumes "cancel_conversation_turn env auth_org scope sid w = (ct, w1)"
  shows "running w1 = running w \<or> (\<exists>cid. running w1 = snd (cancel cid (running w)))"
proof -
  obtain q u where sc: "scoped_session env sid auth_org scope w = (q, u)" by fastforce
  from assms sc scoped_session_running [OF sc] show ?thesis
    by (auto simp: cancel_conversation_turn_def split: sum.splits option.splits prod.splits) (metis snd_conv)
qed

lemma text_effect:
  fixes w :: "'st app_state" and he :: "('st, 'mac) handler_env"
  assumes r: "r = handle_text_frame he fi si c finished frame w"
  shows "claim_effect si (running w) (running (tf_state r)) (tf_spawned r) \<or>
         (tf_spawned r = None \<and> (\<exists>q t. cn_slot c = Some (q, t) \<and> tf_state r = cancel_spawned t w)) \<or>
         (tf_spawned r = None \<and> (\<exists>cid. running (tf_state r) = snd (cancel cid (running w))))"
    and "tf_slot r = None \<or> tf_slot r = cn_slot c \<or> (\<exists>q h tr. tf_slot r = Some (q, h) \<and> tf_spawned r = Some (h, tr))"
proof -
  let ?cur = "live_slot finished (cn_slot c)" and ?a = "cn_auth c"
  obtain action rid where fr: "frame_action_and_request_id he frame = (action, rid)" by fastforce
  consider (own) q t where "action = Some ''cancel''" "?cur = Some (q, t)"
    | (elsewhere) sid where "action = Some ''cancel''" "?cur = None" "frame_session_id he frame = Some sid"
    | (idle) "action = Some ''cancel''" "?cur = None" "frame_session_id he frame = None"
    | (busy) "action = Some ''send_message''" "?cur \<noteq> None"
    | (handled) "action \<noteq> Some ''cancel''" "\<not> (action = Some ''send_message'' \<and> ?cur \<noteq> None)"
    by (metis option.exhaust surj_pair)
  then have "(claim_effect si (running w) (running (tf_state r)) (tf_spawned r) \<or>
         (tf_spawned r = None \<and> (\<exists>q t. cn_slot c = Some (q, t) \<and> tf_state r = cancel_spawned t w)) \<or>
         (tf_spawned r = None \<and> (\<exists>cid. running (tf_state r) = snd (cancel cid (running w))))) \<and>
         (tf_slot r = None \<or> tf_slot r = cn_slot c \<or> (\<exists>q h tr. tf_slot r = Some (q, h) \<and> tf_spawned r = Some (h, tr)))"
  proof cases
    case own
    then have "cn_slot c = Some (q, t)" using live_slot_cases [of finished "cn_slot c"] by auto
    with own fr show ?thesis by (simp add: r handle_text_frame_def Let_def)
  next
    case elsewhere
    obtain ct w1 where ct: "cancel_conversation_turn (he_server he) (ca_org_id ?a) (ca_user_scope ?a) sid w = (ct, w1)" by fastforce
    with elsewhere fr have "tf_state r = w1" "tf_spawned r = None" "tf_slot r = None"
      by (auto simp: r handle_text_frame_def Let_def split: option.split)
    moreover from cancel_conversation_turn_running [OF ct]
    have "claim_effect si (running w) (running w1) None \<or> (\<exists>cid. running w1 = snd (cancel cid (running w)))"
      by (auto simp: claim_effect_none)
    ultimately show ?thesis by simp blast
  next
    case idle
    with fr show ?thesis by (simp add: r handle_text_frame_def Let_def claim_effect_none)
  next
    case busy
    then have "?cur = cn_slot c" using live_slot_cases [of finished "cn_slot c"] by auto
    with busy fr show ?thesis by (simp add: r handle_text_frame_def Let_def claim_effect_none)
  next
    case handled
    obtain w' fs sp where hf: "handle_frame he fi si (ca_access ?a) (cn_id c) (cn_origin c) (ca_org_id ?a) (ca_user_scope ?a) frame w =
      (w', fs, sp)" by (rule prod_cases3)
    have "tf_state r = w' \<and> tf_spawned r = sp \<and> tf_slot r = (case sp of None \<Rightarrow> ?cur | Some (h, tr) \<Rightarrow> Some (rid, h))"
      using handled fr hf by (auto simp: r handle_text_frame_def Let_def split: option.split)
    with claim_effect_frame [OF hf] live_slot_cases [of finished "cn_slot c"] show ?thesis
      by (auto split: option.split)
  qed
  then show "claim_effect si (running w) (running (tf_state r)) (tf_spawned r) \<or>
         (tf_spawned r = None \<and> (\<exists>q t. cn_slot c = Some (q, t) \<and> tf_state r = cancel_spawned t w)) \<or>
         (tf_spawned r = None \<and> (\<exists>cid. running (tf_state r) = snd (cancel cid (running w))))"
    and "tf_slot r = None \<or> tf_slot r = cn_slot c \<or> (\<exists>q h tr. tf_slot r = Some (q, h) \<and> tf_spawned r = Some (h, tr))"
    by blast+
qed

section \<open>Turns and claims\<close>

text \<open>
  The claims of the turns started so far: distinct turns have distinct flags, tasks and claims; a
  registered turn is one of them, with its own flag; only their flags are raised; and a turn whose task
  has not ended and whose flag is down is registered.
\<close>

definition turns_inv :: "running_turns \<Rightarrow> turn_reservation list \<Rightarrow> spawned_turn set \<Rightarrow> nat set \<Rightarrow> bool" where
  "turns_inv r rs hs dn \<longleftrightarrow>
     registry_inv (r, rs) \<and> sp_releaser ` hs \<subseteq> set rs \<and>
     inj_on sp_releaser hs \<and> inj_on sp_cancelled hs \<and> inj_on sp_handle hs \<and>
     (\<forall>c t. turns r c = Some t \<longrightarrow>
        (\<exists>h \<in> hs. sp_releaser h = \<lparr>res_conversation_id = c, res_token = token t\<rparr> \<and> sp_cancelled h = cancelled t)) \<and>
     flags r \<subseteq> sp_cancelled ` hs \<and>
     (\<forall>h \<in> hs. sp_handle h \<notin> dn \<longrightarrow> sp_cancelled h \<notin> flags r \<longrightarrow> holds r (sp_releaser h))"

lemma turns_invI:
  assumes "registry_inv (r, rs)" "sp_releaser ` hs \<subseteq> set rs" "inj_on sp_releaser hs" "inj_on sp_cancelled hs" "inj_on sp_handle hs"
    and "\<And>c t. turns r c = Some t \<Longrightarrow>
        \<exists>h \<in> hs. sp_releaser h = \<lparr>res_conversation_id = c, res_token = token t\<rparr> \<and> sp_cancelled h = cancelled t"
    and "flags r \<subseteq> sp_cancelled ` hs"
    and "\<And>h. h \<in> hs \<Longrightarrow> sp_handle h \<notin> dn \<Longrightarrow> sp_cancelled h \<notin> flags r \<Longrightarrow> holds r (sp_releaser h)"
  shows "turns_inv r rs hs dn"
  using assms unfolding turns_inv_def by blast

lemma turns_invD:
  assumes "turns_inv r rs hs dn"
  shows "registry_inv (r, rs)" "sp_releaser ` hs \<subseteq> set rs" "inj_on sp_releaser hs" "inj_on sp_cancelled hs" "inj_on sp_handle hs"
    and "turns r c = Some t \<Longrightarrow>
        \<exists>h \<in> hs. sp_releaser h = \<lparr>res_conversation_id = c, res_token = token t\<rparr> \<and> sp_cancelled h = cancelled t"
    and "flags r \<subseteq> sp_cancelled ` hs"
    and "h \<in> hs \<Longrightarrow> sp_handle h \<notin> dn \<Longrightarrow> sp_cancelled h \<notin> flags r \<Longrightarrow> holds r (sp_releaser h)"
  using assms unfolding turns_inv_def by blast+

lemma turns_inv_exclusive:
  assumes inv: "turns_inv r rs hs dn" and "h \<in> hs" "h' \<in> hs" and "sp_handle h \<notin> dn" "sp_handle h' \<notin> dn"
    and "sp_cancelled h \<notin> flags r" "sp_cancelled h' \<notin> flags r"
    and "res_conversation_id (sp_releaser h) = res_conversation_id (sp_releaser h')"
  shows "h = h'"
proof -
  have "holds r (sp_releaser h)" "holds r (sp_releaser h')" using assms turns_invD(8) [OF inv] by blast+
  then have "sp_releaser h = sp_releaser h'" using assms(8) by (auto simp: holds_def)
  with turns_invD(3) [OF inv] assms(2,3) show ?thesis by (simp add: inj_on_eq_iff)
qed

text \<open>Releasing the claim of a turn leaves the registration of every other turn.\<close>

definition release_of :: "spawned_turn \<Rightarrow> running_turns \<Rightarrow> running_turns" where
  "release_of h r = registry_release (res_conversation_id (sp_releaser h)) (res_token (sp_releaser h)) r"

lemma release_of_frame [simp]: "flags (release_of h r) = flags r" "next_token (release_of h r) = next_token r"
  by (simp_all add: release_of_def registry_release_def)

lemma release_of_turns: "turns (release_of h r) c = Some t \<Longrightarrow> turns r c = Some t"
  by (auto simp: release_of_def registry_release_def split: if_splits)

lemma release_of_others: "sp_releaser h' \<noteq> sp_releaser h \<Longrightarrow> holds r (sp_releaser h') \<Longrightarrow> holds (release_of h r) (sp_releaser h')"
  by (auto simp: release_of_def holds_def registry_release_def)

lemma turns_inv_release:
  assumes inv: "turns_inv r rs hs dn" and h: "h \<in> hs"
    and rest: "\<And>h'. h' \<in> hs \<Longrightarrow> sp_handle h' \<notin> dn' \<Longrightarrow> sp_cancelled h' \<notin> flags r \<Longrightarrow> h' \<noteq> h \<and> sp_handle h' \<notin> dn"
  shows "turns_inv (release_of h r) rs hs dn'"
proof (rule turns_invI)
  show "registry_inv (release_of h r, rs)"
    using turns_invD(1) [OF inv] by (auto simp: registry_inv_def dest!: release_of_turns)
  show "holds (release_of h r) (sp_releaser h')"
    if g: "h' \<in> hs" "sp_handle h' \<notin> dn'" "sp_cancelled h' \<notin> flags (release_of h r)" for h'
  proof (rule release_of_others)
    show "sp_releaser h' \<noteq> sp_releaser h" using rest g h turns_invD(3) [OF inv] by (auto simp: inj_on_eq_iff)
    show "holds r (sp_releaser h')" using rest g turns_invD(8) [OF inv] by auto
  qed
qed (use turns_invD [OF inv] in \<open>auto dest: release_of_turns\<close>)

lemma turns_inv_cancel_spawned:
  assumes inv: "turns_inv (running w) rs hs dn" and h: "h \<in> hs"
  shows "turns_inv (running (cancel_spawned h w)) rs hs dn"
proof -
  let ?r = "(running w)\<lparr>flags := insert (sp_cancelled h) (flags (running w)), aborted := insert (sp_handle h) (aborted (running w))\<rparr>"
  have eq: "holds ?r x = holds (running w) x" for x by (simp add: holds_def)
  have reg: "registry_inv (?r, rs)" using turns_invD(1) [OF inv] by (simp add: registry_inv_def)
  have "turns_inv ?r rs hs dn"
    by (rule turns_invI) (use turns_invD [OF inv] reg h in \<open>simp_all add: eq\<close>)
  then have "turns_inv (release_of h ?r) rs hs dn" by (rule turns_inv_release) (use h in auto)
  then show ?thesis by (simp add: cancel_spawned_def releaser_release_def release_of_def)
qed

lemma turns_inv_cancel:
  assumes inv: "turns_inv r rs hs dn"
  shows "turns_inv (snd (cancel c r)) rs hs dn"
proof (cases "turns r c")
  case None
  with inv show ?thesis by (simp add: cancel_def)
next
  case (Some t)
  obtain h where h: "h \<in> hs" "sp_releaser h = \<lparr>res_conversation_id = c, res_token = token t\<rparr>" "sp_cancelled h = cancelled t"
    using turns_invD(6) [OF inv Some] by blast
  let ?r = "snd (cancel c r)"
  have parts: "turns ?r = (turns r)(c := None)" "flags ?r = insert (cancelled t) (flags r)" "next_token ?r = next_token r"
    using Some by (simp_all add: cancel_def)
  show ?thesis
  proof (rule turns_invI)
    show "registry_inv (?r, rs)" using turns_invD(1) [OF inv] by (simp add: registry_inv_def parts)
    show "holds ?r (sp_releaser h')" if g: "h' \<in> hs" "sp_handle h' \<notin> dn" "sp_cancelled h' \<notin> flags ?r" for h'
    proof -
      have held: "holds r (sp_releaser h')" using g turns_invD(8) [OF inv] parts(2) by auto
      have "h' \<noteq> h" using g(3) h(3) parts(2) by auto
      then have "sp_releaser h' \<noteq> sp_releaser h" using inj_on_eq_iff [OF turns_invD(3) [OF inv] g(1) h(1)] by simp
      moreover have "sp_releaser h' = sp_releaser h" if "res_conversation_id (sp_releaser h') = c"
        using that held Some unfolding h(2) holds_def by (cases "sp_releaser h'") simp
      ultimately have "res_conversation_id (sp_releaser h') \<noteq> c" by blast
      with held show ?thesis by (simp add: holds_def parts)
    qed
    show "\<exists>h \<in> hs. sp_releaser h = \<lparr>res_conversation_id = c', res_token = token t'\<rparr> \<and> sp_cancelled h = cancelled t'"
      if "turns ?r c' = Some t'" for c' t'
      using that turns_invD(6) [OF inv, of c' t'] by (simp add: parts split: if_splits)
    show "flags ?r \<subseteq> sp_cancelled ` hs" using turns_invD(7) [OF inv] h(1) unfolding parts(2) h(3) [symmetric] by blast
  qed (use turns_invD [OF inv] in simp_all)
qed

text \<open>A claim taken in the course of a frame, under the bound on the number of claims.\<close>

lemma fresh_claim:
  assumes "registry_inv (r, rs)" and "length rs < 2 ^ 64" and "try_reserve c req conn snk flag r = (Some res, r1)"
  shows "registry_inv (r1, res # rs)" and "res \<notin> set rs"
proof -
  show inv: "registry_inv (r1, res # rs)" using registry_step_inv [OF registry_step.reserve [OF assms(3)]] assms(1) .
  have "distinct (map res_token (res # rs))" by (rule registry_tokens_distinct [OF inv]) (use assms(2) in simp)
  then show "res \<notin> set rs" by auto
qed

lemma turns_inv_refused:
  assumes inv: "turns_inv r rs hs dn" and len: "length rs < 2 ^ 64"
    and claim: "try_reserve c req conn snk flag r = (Some res, r1)"
  shows "turns_inv (reservation_drop res r1) (res # rs) hs dn"
proof -
  have same: "turns (reservation_drop res r1) = turns r" by (rule try_reserve_dropped [OF claim])
  have fl: "flags (reservation_drop res r1) = flags r"
    using claim by (auto simp: try_reserve_def release_defs Let_def split: if_splits)
  show ?thesis
  proof (rule turns_invI)
    show "registry_inv (reservation_drop res r1, res # rs)"
      by (rule registry_step_inv [OF registry_step.drop fresh_claim(1) [OF turns_invD(1) [OF inv] len claim]]) simp
  qed (use turns_invD [OF inv] in \<open>auto simp: same fl holds_def\<close>)
qed

lemma turns_inv_started:
  assumes inv: "turns_inv r rs hs dn" and len: "length rs < 2 ^ 64"
    and claim: "try_reserve c req conn snk flag r = (Some res, r1)"
    and h: "h = \<lparr>sp_handle = task, sp_cancelled = flag, sp_releaser = res\<rparr>"
    and fresh: "\<forall>h \<in> hs. sp_cancelled h \<noteq> flag \<and> sp_handle h \<noteq> task"
  shows "turns_inv (releaser_set_abort res task r1) (res # rs) (insert h hs) dn"
proof -
  let ?t = "\<lparr>token = res_token res, request_id = req, conn_id = conn, sink = snk, cancelled = flag, abort = Some task\<rparr>"
  let ?r = "releaser_set_abort res task r1"
  have free: "turns r c = None" and res: "res = \<lparr>res_conversation_id = c, res_token = next_token r\<rparr>"
    using claim by (auto simp: try_reserve_def Let_def split: if_splits)
  have parts: "turns ?r = (turns r)(c \<mapsto> ?t)" "flags ?r = flags r"
    using claim by (auto simp: try_reserve_def releaser_set_abort_def registry_set_abort_def Let_def split: if_splits)
  note old = turns_invD [OF inv]
  note new = fresh_claim [OF old(1) len claim]
  show ?thesis
  proof (rule turns_invI)
    have "registry_inv (releaser_set_abort (releaser res) task r1, res # rs)"
      by (rule registry_step_inv [OF registry_step.spawned new(1)]) simp
    then show "registry_inv (?r, res # rs)" by (simp add: releaser_def)
    show "inj_on sp_releaser (insert h hs)" using old(2,3) new(2) h by (auto simp: inj_on_insert)
    show "inj_on sp_cancelled (insert h hs)" "inj_on sp_handle (insert h hs)" using old(4,5) fresh h by (auto simp: inj_on_insert)
    show "\<exists>h \<in> insert h hs. sp_releaser h = \<lparr>res_conversation_id = c', res_token = token t\<rparr> \<and> sp_cancelled h = cancelled t"
      if g: "turns ?r c' = Some t" for c' t
    proof (cases "c' = c")
      case True
      with g have "t = ?t" unfolding parts by simp
      with True show ?thesis by (simp add: h res)
    next
      case False
      with g have "turns r c' = Some t" unfolding parts by simp
      from old(6) [OF this] show ?thesis by blast
    qed
    show "holds ?r (sp_releaser h')" if g: "h' \<in> insert h hs" "sp_handle h' \<notin> dn" "sp_cancelled h' \<notin> flags ?r" for h'
    proof (cases "h' = h")
      case True
      then show ?thesis unfolding True h holds_def parts(1) by (simp add: res)
    next
      case False
      then have "holds r (sp_releaser h')" using g old(8) parts(2) by simp
      with free show ?thesis by (auto simp: holds_def parts)
    qed
  qed (use old h in \<open>auto simp: parts\<close>)
qed

text \<open>So a frame keeps the invariant and adds at most one claim.\<close>

lemma turns_inv_claim_effect:
  assumes inv: "turns_inv r rs hs dn" and len: "length rs < 2 ^ 64" and eff: "claim_effect si r r' sp"
    and fresh: "\<forall>h \<in> hs. sp_cancelled h \<noteq> si_flag si \<and> sp_handle h \<noteq> si_task si"
  shows "\<exists>rs'. length rs' \<le> Suc (length rs) \<and> turns_inv r' rs' (fst ` set_option sp \<union> hs) dn"
    and "sp = Some (h, tr) \<Longrightarrow> tr_conversation_id tr = res_conversation_id (sp_releaser h)"
proof -
  show "sp = Some (h, tr) \<Longrightarrow> tr_conversation_id tr = res_conversation_id (sp_releaser h)"
    using eff by (auto simp: claim_effect_def try_reserve_def Let_def split: if_splits)
  show "\<exists>rs'. length rs' \<le> Suc (length rs) \<and> turns_inv r' rs' (fst ` set_option sp \<union> hs) dn"
  proof (cases "sp = None \<and> r' = r")
    case True
    with inv show ?thesis by (intro exI [of _ rs]) simp
  next
    case False
    then obtain c req conn res r1 where claim: "try_reserve c req conn (si_sink si) (si_flag si) r = (Some res, r1)"
      and effect: "case sp of None \<Rightarrow> r' = reservation_drop res r1
         | Some (h, tr) \<Rightarrow> h = \<lparr>sp_handle = si_task si, sp_cancelled = si_flag si, sp_releaser = res\<rparr> \<and>
             tr_conversation_id tr = c \<and> r' = releaser_set_abort res (si_task si) r1"
      using eff unfolding claim_effect_def by blast
    show ?thesis
    proof (cases sp)
      case None
      with effect turns_inv_refused [OF inv len claim] show ?thesis by (intro exI [of _ "res # rs"]) simp
    next
      case (Some a)
      with effect turns_inv_started [OF inv len claim _ fresh, of "fst a"] show ?thesis
        by (intro exI [of _ "res # rs"]) (cases a, simp)
    qed
  qed
qed

section \<open>The invariant of the server\<close>

definition started :: "'st server \<Rightarrow> spawned_turn set" where
  "started s = (\<lambda>(_, h, _). h) ` set (sv_turns s)"

definition server_inv :: "nat \<Rightarrow> 'st server \<Rightarrow> bool" where
  "server_inv n s \<longleftrightarrow>
     (\<exists>rs. length rs \<le> n \<and> turns_inv (running (sv_state s)) rs (started s) (sv_done s)) \<and>
     (\<forall>k c q t. sv_conns s k = Some c \<longrightarrow> cn_slot c = Some (q, t) \<longrightarrow> t \<in> started s) \<and>
     (\<forall>(_, h, tr) \<in> set (sv_turns s). tr_conversation_id tr = res_conversation_id (sp_releaser h))"

lemma enqueue_slot: "enqueue se cs k = Some c \<Longrightarrow> \<exists>c0. cs k = Some c0 \<and> cn_slot c = cn_slot c0"
  by (auto simp: enqueue_def split: option.splits if_splits)

lemma enqueue_all_slot: "fold enqueue ses cs k = Some c \<Longrightarrow> \<exists>c0. cs k = Some c0 \<and> cn_slot c = cn_slot c0"
proof (induction ses arbitrary: cs)
  case (Cons se ses)
  then show ?case using enqueue_slot by fastforce
qed simp

definition tracked :: "(nat \<rightharpoonup> conn) \<Rightarrow> string option \<times> spawned_turn \<Rightarrow> bool" where
  "tracked cs x \<longleftrightarrow> (\<exists>k c. cs k = Some c \<and> cn_slot c = Some x)"

lemma trackedI: "cs k = Some c \<Longrightarrow> cn_slot c = Some x \<Longrightarrow> tracked cs x"
  by (auto simp: tracked_def)

lemma enqueue_tracked:
  "enqueue se cs k = Some c \<Longrightarrow> cn_slot c = Some x \<Longrightarrow> tracked cs x"
  "fold enqueue ses cs k = Some c \<Longrightarrow> cn_slot c = Some x \<Longrightarrow> tracked cs x"
  using enqueue_slot [of se cs k c] enqueue_all_slot [of ses cs k c] by (auto intro: trackedI)

text \<open>Steps that do not touch the registry, the turns or, but for emptying them, the slots.\<close>

lemma server_inv_same:
  assumes "server_inv n s" and "running (sv_state s') = running (sv_state s)" "sv_turns s' = sv_turns s" "sv_done s' = sv_done s"
    and "\<And>k c q t. sv_conns s' k = Some c \<Longrightarrow> cn_slot c = Some (q, t) \<Longrightarrow> tracked (sv_conns s) (q, t)"
  shows "server_inv n s'"
proof -
  have "started s' = started s" using assms(3) by (simp add: started_def)
  then show ?thesis using assms(1,5) unfolding server_inv_def tracked_def assms(2-4) by metis
qed

lemma end_reader_running: "running (end_reader c w) = running w"
  by (simp add: end_reader_def discard_pending_sessions_for_conn_def)

lemma server_inv_ended:
  assumes inv: "server_inv n s" and t: "(k, h, tr) \<in> set (sv_turns s)"
    and s': "running (sv_state s') = release_of h (running (sv_state s))" "sv_turns s' = sv_turns s"
      "sv_done s' = insert (sp_handle h) (sv_done s)"
      "\<And>k c q t. sv_conns s' k = Some c \<Longrightarrow> cn_slot c = Some (q, t) \<Longrightarrow> tracked (sv_conns s) (q, t)"
  shows "server_inv n s'"
proof -
  have st: "started s' = started s" "h \<in> started s" using s'(2) t by (force simp: started_def)+
  obtain rs where rs: "length rs \<le> n" "turns_inv (running (sv_state s)) rs (started s) (sv_done s)"
    using inv by (auto simp: server_inv_def)
  have "turns_inv (running (sv_state s')) rs (started s') (sv_done s')"
    unfolding s' st(1) by (rule turns_inv_release [OF rs(2) st(2)]) auto
  then show ?thesis using inv rs(1) s'(4) unfolding server_inv_def tracked_def s'(2) st(1) by metis
qed

lemma server_inv_text:
  assumes inv: "server_inv n s" and n: "n < 2 ^ 64" and c: "sv_conns s k = Some c"
    and fresh: "\<forall>(_, h, _) \<in> set (sv_turns s). sp_cancelled h \<noteq> si_flag si \<and> sp_handle h \<noteq> si_task si"
    and r: "r = handle_text_frame he fi si c fin frame (sv_state s)"
    and s': "s' = s\<lparr>sv_state := tf_state r,
      sv_conns := fold enqueue (tf_sends r) ((sv_conns s)(k \<mapsto> c\<lparr>cn_slot := tf_slot r, cn_arm := tf_gate r\<rparr>)),
      sv_turns := (case tf_spawned r of Some (h, tr) \<Rightarrow> [(k, h, tr)] | None \<Rightarrow> []) @ sv_turns s\<rparr>"
  shows "server_inv (Suc n) s'"
proof -
  obtain rs where rs: "length rs \<le> n" and ti: "turns_inv (running (sv_state s)) rs (started s) (sv_done s)"
    using inv by (auto simp: server_inv_def)
  have slot: "t \<in> started s" if "sv_conns s k' = Some c'" "cn_slot c' = Some (q, t)" for k' c' q t
    using inv that unfolding server_inv_def by blast
  have st: "started s' = fst ` set_option (tf_spawned r) \<union> started s"
    by (cases "tf_spawned r") (auto simp: s' started_def image_Un split: prod.splits)
  have fresh': "\<forall>h \<in> started s. sp_cancelled h \<noteq> si_flag si \<and> sp_handle h \<noteq> si_task si"
    using fresh by (auto simp: started_def)
  have len: "length rs < 2 ^ 64" using rs n by linarith
  have "\<exists>rs'. length rs' \<le> Suc n \<and> turns_inv (running (sv_state s')) rs' (started s') (sv_done s')"
    using text_effect(1) [OF r]
  proof (elim disjE)
    assume "claim_effect si (running (sv_state s)) (running (tf_state r)) (tf_spawned r)"
    from turns_inv_claim_effect(1) [OF ti len this fresh'] obtain rs' where
      "length rs' \<le> Suc (length rs)" "turns_inv (running (sv_state s')) rs' (started s') (sv_done s')"
      unfolding st by (auto simp: s')
    with rs show ?thesis by (intro exI [of _ rs']) simp
  next
    assume "tf_spawned r = None \<and> (\<exists>q t. cn_slot c = Some (q, t) \<and> tf_state r = cancel_spawned t (sv_state s))"
    then obtain q t where t: "tf_spawned r = None" "cn_slot c = Some (q, t)" "tf_state r = cancel_spawned t (sv_state s)" by blast
    from turns_inv_cancel_spawned [OF ti slot [OF c t(2)]] rs show ?thesis
      by (intro exI [of _ rs]) (simp add: st t(1), simp add: s' t)
  next
    assume "tf_spawned r = None \<and> (\<exists>cid. running (tf_state r) = snd (cancel cid (running (sv_state s))))"
    then obtain cid where t: "tf_spawned r = None" "running (tf_state r) = snd (cancel cid (running (sv_state s)))" by blast
    from turns_inv_cancel [OF ti, of cid] rs show ?thesis
      by (intro exI [of _ rs]) (simp add: st t(1), simp add: s' t)
  qed
  moreover have "t \<in> started s'" if g: "sv_conns s' k' = Some c'" "cn_slot c' = Some (q, t)" for k' c' q t
  proof -
    obtain c0 where c0: "((sv_conns s)(k \<mapsto> c\<lparr>cn_slot := tf_slot r, cn_arm := tf_gate r\<rparr>)) k' = Some c0" "cn_slot c0 = Some (q, t)"
      using enqueue_all_slot g by (fastforce simp: s')
    show ?thesis
    proof (cases "k' = k")
      case True
      with c0 have "tf_slot r = Some (q, t)" by auto
      with text_effect(2) [OF r] consider "cn_slot c = Some (q, t)" | tr where "tf_spawned r = Some (t, tr)" by auto
      then show ?thesis unfolding st using slot [OF c] by cases auto
    next
      case False
      with c0 slot show ?thesis unfolding st by auto
    qed
  qed
  moreover have "\<forall>(_, h, tr) \<in> set (sv_turns s'). tr_conversation_id tr = res_conversation_id (sp_releaser h)"
    using inv text_effect(1) [OF r] turns_inv_claim_effect(2) [OF ti len _ fresh']
    by (auto simp: server_inv_def s' split: option.splits)
  ultimately show ?thesis unfolding server_inv_def by blast
qed

lemma finish_turn_running:
  "finish_turn he fi mid generate raised (sp_releaser h) tr gate result w = (w', fs) \<Longrightarrow> running w' = release_of h (running w)"
  by (auto simp: finish_turn_def turn_tail_def drop_claim_def release_of_def release_defs Let_def
      split: prod.splits if_splits sum.splits)

lemma server_inv_step:
  assumes "server_step he s lab s'" and "server_inv n s" and "lab = None"
  shows "server_inv n s'"
  using assms
proof (induction rule: server_step.induct)
  case (finish k h tr s)
  from finish(4,1) show ?case
    by (rule server_inv_ended) (use finish_turn_running [OF finish(3)] in \<open>auto intro: enqueue_tracked\<close>)
next
  case (dropped k h tr s)
  from dropped(3,1) show ?case
    by (rule server_inv_ended) (auto simp: drop_claim_def release_of_def release_defs intro: trackedI)
qed (simp, (auto elim!: server_inv_same simp: end_reader_running conn_new_def dest: enqueue_tracked intro: trackedI split: if_splits;
    blast intro: trackedI)+)

lemma server_reach_inv: "server_reach he n s \<Longrightarrow> n \<le> 2 ^ 64 \<Longrightarrow> server_inv n s"
proof (induction rule: server_reach.induct)
  case (start st)
  show ?case
    by (auto simp: server_inv_def server_new_def started_def app_state_new_def running_turns_default_def turns_inv_def registry_inv_def)
next
  case (frame n s k s')
  have "server_inv n s" using frame by simp
  from frame(2) show ?case
  proof cases
    case (text_frame c si r fi frame)
    from server_inv_text [OF \<open>server_inv n s\<close> _ text_frame(2,6,7) text_frame(1)] frame(4) show ?thesis by simp
  qed
next
  case (other n s s')
  then show ?case using server_inv_step by blast
qed

section \<open>After a cancel\<close>

text \<open>What can still be written once the gate is armed: the frames queued, and those anybody sends later.\<close>

definition silenced :: "string \<Rightarrow> json \<Rightarrow> bool" where
  "silenced r ev \<longleftrightarrow> get_str ev ''requestId'' = Some r \<and> get_str ev ''type'' \<noteq> Some ''cancelled''"

lemma armed_writer: "writer_passes (Some r) ev = (\<not> silenced r ev)"
  by (auto simp: writer_passes_def silenced_def split: option.splits)

text \<open>A frame that starts no turn on a connection without one leaves the gate alone.\<close>

lemma text_keeps_gate:
  assumes r: "r = handle_text_frame he fi si c finished frame w" and none: "cn_slot c = None" "tf_slot r = None"
  shows "tf_gate r = None"
proof -
  obtain action rid where fr: "frame_action_and_request_id he frame = (action, rid)" by fastforce
  have cur: "live_slot finished (cn_slot c) = None" by (simp add: none live_slot_def)
  let ?a = "cn_auth c"
  obtain w' fs sp where hf: "handle_frame he fi si (ca_access ?a) (cn_id c) (cn_origin c) (ca_org_id ?a) (ca_user_scope ?a) frame w =
      (w', fs, sp)" by (rule prod_cases3)
  show ?thesis
  proof (cases "action = Some ''cancel''")
    case True
    with fr cur show ?thesis by (simp add: r handle_text_frame_def Let_def split: option.split prod.split)
  next
    case False
    with fr cur hf none(2) show ?thesis by (auto simp: r handle_text_frame_def Let_def split: option.splits prod.splits)
  qed
qed

text \<open>A connection seen on its own: what a step of the server may do to it.\<close>

inductive conn_move :: "conn \<Rightarrow> conn \<Rightarrow> bool" where
  queued: "conn_move c (c\<lparr>cn_queue := q\<rparr>)"
| handled: "cn_arm c = None \<Longrightarrow> (cn_slot c = None \<Longrightarrow> sl = None \<Longrightarrow> g = None) \<Longrightarrow>
    conn_move c (c\<lparr>cn_slot := sl, cn_arm := g, cn_queue := q\<rparr>)"
| armed: "cn_arm c = Some g \<Longrightarrow> conn_move c (c\<lparr>cn_gate := g, cn_arm := None\<rparr>)"
| sent: "cn_queue c = ev # q \<Longrightarrow>
    conn_move c (c\<lparr>cn_queue := q, cn_sent := (if writer_passes (cn_gate c) ev then cn_sent c @ [ev] else cn_sent c)\<rparr>)"
| ended: "cn_arm c = None \<Longrightarrow> sl = None \<or> sl = cn_slot c \<Longrightarrow> conn_move c (c\<lparr>cn_slot := sl, cn_reading := False, cn_writing := b\<rparr>)"

lemma enqueue_same: "enqueue se cs k = (case cs k of Some c \<Rightarrow> Some (c\<lparr>cn_queue := cn_queue c @ (if fst se = k then [snd se] else [])\<rparr>) | None \<Rightarrow> None)"
  by (auto simp: enqueue_def split: option.split)

lemma enqueue_all_same: "\<exists>q. fold enqueue ses cs k = map_option (\<lambda>c. c\<lparr>cn_queue := cn_queue c @ q\<rparr>) (cs k)"
proof (induction ses arbitrary: cs)
  case Nil
  show ?case by (intro exI [of _ "[]"]) (simp add: option.map_ident)
next
  case (Cons se ses)
  obtain q where "fold enqueue ses (enqueue se cs) k = map_option (\<lambda>c. c\<lparr>cn_queue := cn_queue c @ q\<rparr>) (enqueue se cs k)"
    using Cons.IH by blast
  then have "fold enqueue (se # ses) cs k =
      map_option (\<lambda>c. c\<lparr>cn_queue := cn_queue c @ (if fst se = k then [snd se] else []) @ q\<rparr>) (cs k)"
    by (cases "cs k") (simp_all add: enqueue_same [of se cs k])
  then show ?case by blast
qed

lemma step_conn:
  assumes step: "server_step he s lab s'" and c: "sv_conns s k = Some c"
  shows "\<exists>c'. sv_conns s' k = Some c' \<and> conn_move c c'"
proof -
  have stay: "conn_move c c" using queued [of c "cn_queue c"] by simp
  have queue: "\<exists>c'. fold enqueue ses (sv_conns s) k = Some c' \<and> conn_move c c'" for ses
    using enqueue_all_same [of ses "sv_conns s" k] c queued by auto
  note one = queue [of "[x]" for x, simplified]
  from step show ?thesis
  proof cases
    case (text_frame k0 c0 si r fi frame)
    let ?cs = "(sv_conns s)(k0 \<mapsto> c0\<lparr>cn_slot := tf_slot r, cn_arm := tf_gate r\<rparr>)"
    obtain q where q: "fold enqueue (tf_sends r) ?cs k = map_option (\<lambda>c. c\<lparr>cn_queue := cn_queue c @ q\<rparr>) (?cs k)"
      using enqueue_all_same by blast
    show ?thesis
    proof (cases "k = k0")
      case True
      with c text_frame(3) have "c0 = c" by simp
      with True q text_frame(2) have "sv_conns s' k = Some (c\<lparr>cn_slot := tf_slot r, cn_arm := tf_gate r, cn_queue := cn_queue c @ q\<rparr>)"
        by simp
      moreover have "conn_move c (c\<lparr>cn_slot := tf_slot r, cn_arm := tf_gate r, cn_queue := cn_queue c @ q\<rparr>)"
        using text_frame(5) text_keeps_gate [OF text_frame(8)] unfolding \<open>c0 = c\<close> by (intro handled)
      ultimately show ?thesis by blast
    next
      case False
      with q c text_frame(2) queued show ?thesis by simp
    qed
  next
    case (gate k0 c0 g)
    with c stay armed show ?thesis by (cases "k = k0") auto
  next
    case (written k0 c0 ev q)
    show ?thesis
    proof (cases "k = k0")
      case True
      with c written(3) have "c0 = c" by simp
      with True written(2,5) sent [of c ev q] show ?thesis by (auto split: if_splits)
    qed (use written c stay in simp)
  next
    case (client_gone k0 c0)
    with c stay ended [of c None] show ?thesis by (cases "k = k0") auto
  next
    case (shutdown k0 c0)
    with c stay ended [of c "cn_slot c" "cn_writing c"] show ?thesis by (cases "k = k0") auto
  next
    case (connect k0 cid a orig)
    with c stay show ?thesis by (cases "k = k0") auto
  qed (use c stay one queue in simp_all)
qed

text \<open>
  A cancel in progress, and carried out: the connection tracks no turn, and its gate is or will be the
  cancelled request; \<open>before\<close> is what had been written when the gate was armed.
\<close>

definition arming :: "string \<Rightarrow> conn \<Rightarrow> bool" where
  "arming r c \<longleftrightarrow> cn_slot c = None \<and> (cn_arm c = Some (Some r) \<or> cn_arm c = None \<and> cn_gate c = Some r)"

definition gagged :: "string \<Rightarrow> json list \<Rightarrow> conn \<Rightarrow> bool" where
  "gagged r before c \<longleftrightarrow>
     cn_slot c = None \<and> cn_arm c = None \<and> cn_gate c = Some r \<and>
     (\<exists>later. cn_sent c = before @ later \<and> list_all (\<lambda>ev. \<not> silenced r ev) later)"

lemma arming_move: "conn_move c c' \<Longrightarrow> arming r c \<Longrightarrow> cn_slot c' = None \<Longrightarrow> arming r c'"
  by (induction rule: conn_move.induct) (auto simp: arming_def)

lemma gagged_move: "conn_move c c' \<Longrightarrow> gagged r before c \<Longrightarrow> cn_slot c' = None \<Longrightarrow> gagged r before c'"
  by (induction rule: conn_move.induct) (auto simp: gagged_def armed_writer)

text \<open>A run in which a connection tracks no turn.\<close>

definition turnless :: "('st, 'mac) handler_env \<Rightarrow> nat \<Rightarrow> 'st server \<Rightarrow> 'st server \<Rightarrow> bool" where
  "turnless he k = (\<lambda>s s'. (\<exists>lab. server_step he s lab s') \<and> (\<forall>c. sv_conns s' k = Some c \<longrightarrow> cn_slot c = None))\<^sup>*\<^sup>*"

lemma turnless_induct:
  assumes "turnless he k s s'" and "sv_conns s k = Some c" and "P c"
    and move: "\<And>c c'. conn_move c c' \<Longrightarrow> P c \<Longrightarrow> cn_slot c' = None \<Longrightarrow> P c'"
  shows "\<exists>c'. sv_conns s' k = Some c' \<and> P c'"
  using assms(1) unfolding turnless_def
proof (induction rule: rtranclp_induct)
  case base
  with assms(2,3) show ?case by blast
next
  case (step u v)
  then obtain lab c where "server_step he u lab v" "sv_conns u k = Some c" "P c" by blast
  moreover from step_conn [OF this(1,2)] obtain c' where "sv_conns v k = Some c'" "conn_move c c'" by blast
  moreover have "cn_slot c' = None" using step.hyps(2) \<open>sv_conns v k = Some c'\<close> by blast
  ultimately show ?case using move by blast
qed

text \<open>The frame that ends a live turn of the connection is the cancel.\<close>

lemma cancel_arms:
  assumes step: "server_step he s (Some k) s1" and c: "sv_conns s k = Some c"
    and slot: "cn_slot c = Some (Some r, t)" "sp_handle t \<notin> sv_done s"
    and c1: "sv_conns s1 k = Some c1" "cn_slot c1 = None"
  shows "arming r c1 \<and> cn_sent c1 = cn_sent c \<and>
    (\<exists>now. cn_queue c1 = cn_queue c @ [cancelled_event now (Some r)]) \<and> sp_cancelled t \<in> flags (running (sv_state s1))"
  using step
proof cases
  case (text_frame c0 si res fi frame)
  have same: "c0 = c" "si_sink si = k" using text_frame c by simp_all
  obtain action rid where fr: "frame_action_and_request_id he frame = (action, rid)" by fastforce
  have cur: "live_slot (\<lambda>h. h \<in> sv_done s) (cn_slot c) = Some (Some r, t)" using slot by (simp add: live_slot_def)
  have res: "res = handle_text_frame he fi si c (\<lambda>h. h \<in> sv_done s) frame (sv_state s)" using text_frame same by simp
  let ?a = "cn_auth c"
  obtain w' fs sp where hf: "handle_frame he fi si (ca_access ?a) (cn_id c) (cn_origin c) (ca_org_id ?a) (ca_user_scope ?a) frame (sv_state s) =
      (w', fs, sp)" by (rule prod_cases3)
  have none: "tf_slot res = None"
    using enqueue_all_slot c1 unfolding text_frame(1) by fastforce
  have "action = Some ''cancel''"
  proof (rule ccontr)
    assume "action \<noteq> Some ''cancel''"
    with fr cur hf have "tf_slot res \<noteq> None"
      unfolding res handle_text_frame_def Let_def by (auto split: option.split)
    with none show False by simp
  qed
  with fr cur have "tf_state res = cancel_spawned t (sv_state s)" "tf_gate res = Some (Some r)"
      "tf_sends res = [(k, cancelled_event (fi_now_ms fi) (Some r))]"
    by (simp_all add: res handle_text_frame_def Let_def same)
  with none c1 show ?thesis unfolding text_frame(1)
    by (auto simp: same enqueue_def arming_def cancel_spawned_def releaser_release_def registry_release_def)
qed

section \<open>Properties\<close>

text \<open>C25. One turn per conversation, over the whole server: whatever connections come and go, whatever frames they send
  and however turn tasks, cancels and disconnects interleave, two turns that have neither ended nor been
  cancelled run on different conversations, and the conversation of each is marked as running. The tokens
  that tell turns apart are 64 bits wide, so the bound is on the number of frames handled.\<close>

theorem server_one_turn_per_conversation:
  assumes "server_reach he n s" and "n \<le> 2 ^ 64"
    and "(k, h, tr) \<in> set (sv_turns s)" and "sp_handle h \<notin> sv_done s" and "sp_cancelled h \<notin> flags (running (sv_state s))"
    and "(k', h', tr') \<in> set (sv_turns s)" and "sp_handle h' \<notin> sv_done s" and "sp_cancelled h' \<notin> flags (running (sv_state s))"
  shows "is_running (running (sv_state s)) (tr_conversation_id tr) \<and>
         (tr_conversation_id tr = tr_conversation_id tr' \<longrightarrow> h = h')"
proof -
  have inv: "server_inv n s" using assms(1,2) by (rule server_reach_inv)
  then obtain rs where ti: "turns_inv (running (sv_state s)) rs (started s) (sv_done s)" by (auto simp: server_inv_def)
  have mem: "h \<in> started s" "h' \<in> started s" using assms(3,6) by (force simp: started_def)+
  have conv: "tr_conversation_id tr = res_conversation_id (sp_releaser h)" "tr_conversation_id tr' = res_conversation_id (sp_releaser h')"
    using inv assms(3,6) unfolding server_inv_def by blast+
  have "holds (running (sv_state s)) (sp_releaser h)" using turns_invD(8) [OF ti mem(1)] assms(4,5) by blast
  then have "is_running (running (sv_state s)) (tr_conversation_id tr)" unfolding conv by (auto simp: holds_def is_running_def)
  with turns_inv_exclusive [OF ti mem assms(4,7,5,8)] conv show ?thesis by simp
qed


text \<open>Access fails closed: a connection is given an identity only by a token the verifier accepts, and then the
  identity of that principal; without one it is refused in strict mode and otherwise reads as an anonymous
  stranger that may list nothing, except on a single-user server. Nobody is unscoped on a multi-user server.\<close>

theorem ws_access_fails_closed:
  assumes "fst (resolve_ws_access lib jc strict query v) = Inr a"
  shows "((\<exists>q p. query = Some q \<and> trim q \<noteq> [] \<and> fst (verify lib jc (trim q) v) = Inr p \<and>
             ca_access a = principal_access_context p \<and> ca_org_id a = Some (pr_org_id p) \<and>
             (\<forall>e. ca_user_scope a = ScopeUser e \<longrightarrow> pr_email p = Some e)) \<or>
          (\<not> strict \<and> ca_access a = access_anonymous \<and> ca_org_id a = None \<and> (\<forall>e. ca_user_scope a \<noteq> ScopeUser e))) \<and>
         (ca_user_scope a = Unscoped \<longrightarrow> is_single_user_mode (verifier_mode v))"
proof -
  have mode: "verifier_mode v' = verifier_mode v" if "verify lib jc tok v = (x, v')" for tok x v'
    using that by (cases v) (auto split: prod.splits)
  have "ca_user_scope a = Unscoped \<longrightarrow> is_single_user_mode (verifier_mode v)"
    using assms by (auto simp: resolve_ws_access_def anonymous_auth_def anonymous_scope_def principal_auth_def
      dest: mode split: option.splits prod.splits sum.splits if_splits)
  moreover have "(\<exists>q p. query = Some q \<and> trim q \<noteq> [] \<and> fst (verify lib jc (trim q) v) = Inr p \<and>
             ca_access a = principal_access_context p \<and> ca_org_id a = Some (pr_org_id p) \<and>
             (\<forall>e. ca_user_scope a = ScopeUser e \<longrightarrow> pr_email p = Some e)) \<or>
          (\<not> strict \<and> ca_access a = access_anonymous \<and> ca_org_id a = None \<and> (\<forall>e. ca_user_scope a \<noteq> ScopeUser e))"
    using assms by (cases query) (auto simp: resolve_ws_access_def anonymous_auth_def anonymous_scope_def principal_auth_def
      split: option.splits prod.splits sum.splits if_splits)
  ultimately show ?thesis by blast
qed

section \<open>Where a cancel is not final\<close>

text \<open>The gate is armed after the \<open>cancelled\<close> event is queued, and the writer is another task: a frame of the
  turn that is queued in between can follow the event on the socket.\<close>

lemma frame_slips_after_cancelled:
  fixes fi :: frame_input
  assumes c: "sv_conns s k = Some c" "cn_reading c" "cn_writing c" "cn_arm c = None" "cn_queue c = []" "cn_gate c \<noteq> Some r"
    and slot: "cn_slot c = Some (Some r, t)" "sp_handle t \<notin> sv_done s"
    and frame: "he_from_str he frame = Inr v" "get_str v ''action'' = Some ''cancel''"
    and ev: "silenced r ev"
  shows "\<exists>s' c'. (\<lambda>u u'. \<exists>lab. server_step he u lab u')\<^sup>*\<^sup>* s s' \<and> sv_conns s' k = Some c' \<and>
    cn_sent c' = cn_sent c @ [cancelled_event (fi_now_ms fi) (Some r), ev]"
proof -
  let ?ce = "cancelled_event (fi_now_ms fi) (Some r)"
  let ?step = "\<lambda>u u'. \<exists>lab. server_step he u lab u'"
  have fin: "finite ((sp_cancelled \<circ> fst \<circ> snd) ` set (sv_turns s) \<union> (sp_handle \<circ> fst \<circ> snd) ` set (sv_turns s))" by simp
  obtain x where x: "x \<notin> (sp_cancelled \<circ> fst \<circ> snd) ` set (sv_turns s) \<union> (sp_handle \<circ> fst \<circ> snd) ` set (sv_turns s)"
    using ex_new_if_finite [OF infinite_UNIV_nat fin] by blast
  define si where "si = \<lparr>si_sink = k, si_flag = x, si_task = x\<rparr>"
  define res where "res = handle_text_frame he fi si c (\<lambda>h. h \<in> sv_done s) frame (sv_state s)"
  have cur: "live_slot (\<lambda>h. h \<in> sv_done s) (cn_slot c) = Some (Some r, t)" using slot by (simp add: live_slot_def)
  have res: "tf_sends res = [(k, ?ce)]" "tf_slot res = None" "tf_gate res = Some (Some r)" "tf_spawned res = None"
    using frame cur by (simp_all add: res_def handle_text_frame_def frame_action_and_request_id_def Let_def si_def)
  define c1 where "c1 = c\<lparr>cn_slot := None, cn_arm := Some (Some r), cn_queue := [?ce]\<rparr>"
  define c2 where "c2 = c1\<lparr>cn_queue := [?ce, ev]\<rparr>"
  define c3 where "c3 = c2\<lparr>cn_queue := [ev], cn_sent := cn_sent c @ [?ce]\<rparr>"
  define c4 where "c4 = c3\<lparr>cn_queue := [], cn_sent := cn_sent c @ [?ce, ev]\<rparr>"
  define s1 where "s1 = s\<lparr>sv_state := tf_state res, sv_conns := (sv_conns s)(k \<mapsto> c1)\<rparr>"
  define s2 where "s2 = s1\<lparr>sv_conns := (sv_conns s)(k \<mapsto> c2)\<rparr>"
  define s3 where "s3 = s2\<lparr>sv_conns := (sv_conns s)(k \<mapsto> c3)\<rparr>"
  define s4 where "s4 = s3\<lparr>sv_conns := (sv_conns s)(k \<mapsto> c4)\<rparr>"
  have fresh: "\<forall>(_, h, _) \<in> set (sv_turns s). sp_cancelled h \<noteq> si_flag si \<and> sp_handle h \<noteq> si_task si"
    using x by (force simp: si_def)
  have "server_step he s (Some k) s1"
    using server_step.text_frame [OF c(1,2,4) _ fresh res_def] res c(5) by (simp add: s1_def c1_def si_def enqueue_def)
  moreover have "server_step he s1 None s2"
    using server_step.emit [of he s1 k ev] by (simp add: s1_def s2_def c2_def c1_def enqueue_def)
  moreover have "server_step he s2 None s3"
  proof -
    have "writer_passes (cn_gate c2) ?ce" by (simp add: writer_passes_def cancelled_event_def get_str_def set_request_id_def)
    then show ?thesis using server_step.written [of s2 k c2 ?ce "[ev]" he] c(3)
      by (simp add: s2_def s3_def c3_def c2_def c1_def)
  qed
  moreover have "server_step he s3 None s4"
  proof -
    have "writer_passes (cn_gate c3) ev" using ev c(6) by (simp add: writer_passes_def silenced_def c3_def c2_def c1_def)
    then show ?thesis using server_step.written [of s3 k c3 ev "[]" he] c(3)
      by (simp add: s3_def s4_def c4_def c3_def c2_def c1_def)
  qed
  ultimately have "?step\<^sup>*\<^sup>* s s4"
    by (intro rtranclp.rtrancl_into_rtrancl [OF rtranclp.rtrancl_into_rtrancl [OF rtranclp.rtrancl_into_rtrancl
      [OF rtranclp.rtrancl_into_rtrancl [OF rtranclp.rtrancl_refl]]]]) blast+
  moreover have "sv_conns s4 k = Some c4" "cn_sent c4 = cn_sent c @ [?ce, ev]" by (simp_all add: s4_def c4_def)
  ultimately show ?thesis by blast
qed

text \<open>A cancel that reaches the turn through its session arms no gate, neither its own nor that of the
  connection the turn was started on.\<close>

lemma cancel_elsewhere_unarmed:
  assumes "live_slot finished (cn_slot c) = None" and "he_from_str he frame = Inr v" and "get_str v ''action'' = Some ''cancel''"
  shows "tf_gate (handle_text_frame he fi si c finished frame w) = None"
  using assms by (simp add: handle_text_frame_def frame_action_and_request_id_def Let_def split: option.split prod.split)

text \<open>A confirmation can start the turn of its durable record while the connection tracks another turn: the slot is
  overwritten, and the turn it held is neither cancelled nor tracked any more.\<close>

lemma confirmation_replaces_tracked_turn:
  assumes "he_from_str he frame = Inr v" and "get_str v ''action'' = Some ''confirm_tool_action''"
    and "handle_frame he fi si (ca_access (cn_auth c)) (cn_id c) (cn_origin c) (ca_org_id (cn_auth c)) (ca_user_scope (cn_auth c)) frame w =
      (w', fs, Some (h, tr))"
  shows "tf_slot (handle_text_frame he fi si c finished frame w) = Some (get_str v ''requestId'', h) \<and>
         tf_state (handle_text_frame he fi si c finished frame w) = w'"
  using assms by (simp add: handle_text_frame_def frame_action_and_request_id_def Let_def)

section \<open>Witnesses\<close>

text \<open>A client that sends a message over a fresh connection.\<close>

definition demo_text :: "string \<Rightarrow> json" where
  "demo_text a = JObj [(''action'', JStr a), (''requestId'', JStr ''r1''), (''sessionId'', JStr ''s1''), (''message'', JStr ''hi'')]"

definition demo_ws :: "(tables, unit) handler_env" where
  "demo_ws = demo_handler\<lparr>he_from_str := (\<lambda>t. Inr (demo_text t))\<rparr>"

definition demo_conn :: conn where
  "demo_conn = conn_new ''k'' \<lparr>ca_access = access_anonymous, ca_org_id = None, ca_user_scope = Unscoped\<rparr> None"

definition demo_open :: "tables server" where
  "demo_open = \<lparr>sv_state = demo_live, sv_conns = [0 \<mapsto> demo_conn], sv_turns = [], sv_done = {}\<rparr>"

lemma demo_open_reach: "server_reach demo_ws 0 demo_open"
proof -
  let ?s0 = "server_new (storage demo_live)"
  let ?s1 = "?s0\<lparr>sv_conns := (sv_conns ?s0)(0 \<mapsto> demo_conn),
      sv_state := (sv_state ?s0)\<lparr>backplane := attach ''k'' 0 (backplane (sv_state ?s0))\<rparr>\<rparr>"
  have "server_step demo_ws ?s0 None ?s1" unfolding demo_conn_def by (rule server_step.connect) (simp add: server_new_def)
  with server_reach.start have r1: "server_reach demo_ws 0 ?s1" by (rule server_reach.other)
  have "server_step demo_ws ?s1 None (?s1\<lparr>sv_state := demo_live\<rparr>)"
    by (rule server_step.work) (simp add: server_new_def demo_live_def Conversations.demo_store_def app_state_new_def)
  with r1 have "server_reach demo_ws 0 (?s1\<lparr>sv_state := demo_live\<rparr>)" by (rule server_reach.other)
  then show ?thesis by (simp add: demo_open_def server_new_def)
qed

lemma demo_frame_starts:
  "\<exists>w' tr. handle_frame demo_ws demo_input demo_spawn access_anonymous ''k'' None None Unscoped ''send_message'' demo_live =
     (w', [processing_ack demo_input ''r1''],
      Some (\<lparr>sp_handle = 2, sp_cancelled = 1, sp_releaser = \<lparr>res_conversation_id = ''c1'', res_token = 0\<rparr>\<rparr>, tr)) \<and> flags (running w') = {}"
proof -
  have v: "validate_send demo_ws demo_input (demo_text ''send_message'') (Some ''r1'') =
      Inr \<lparr>sr_session_id = ''s1'', sr_request_id = ''r1'', sr_message = ''hi'', sr_images = [], sr_files = [], sr_skill_section = None\<rparr>"
    by code_simp
  have s: "scoped_session (he_server demo_ws) ''s1'' None Unscoped demo_live = (Inr (Some (demo_session ''s1'' ''c1'')), demo_live)"
    by (simp add: scoped_session_def load_session_def state_get_session_def demo_live_def Conversations.demo_store_def insert_session_def
        app_state_new_def demo_session_def same_org_def may_read_conversation_def)
  have m: "materialize_session ad ''s1'' (demo_live\<lparr>running := r\<rparr>) = (Inr (), demo_live\<lparr>running := r\<rparr>)" for ad r
    by (simp add: materialize_session_def demo_live_def Conversations.demo_store_def insert_session_def app_state_new_def)
  have k: "turn_llm demo_ws org = Some (Some ''k'', llm_config_with_key demo_config ''k'')" for org
    by (simp add: turn_llm_def resolve_gateway_key_def demo_ws_def demo_handler_def)
  have c: "wants_confirmation demo_ws" by (simp add: wants_confirmation_def demo_ws_def demo_handler_def)
  have p: "take_pre_approval ''s1'' (demo_live\<lparr>running := r\<rparr>) = (None, demo_live\<lparr>running := r\<rparr>)" for r
    by (simp add: take_pre_approval_def demo_live_def Conversations.demo_store_def app_state_new_def insert_session_def fun_upd_idem)
  have r: "running demo_live = running_turns_default"
    by (simp add: demo_live_def Conversations.demo_store_def app_state_new_def)
  have f: "get_str (demo_text ''send_message'') ''action'' = Some ''send_message''" "get_str (demo_text ''send_message'') ''requestId'' = Some ''r1''"
    "he_from_str demo_ws ''send_message'' = Inr (demo_text ''send_message'')"
    by (simp_all add: demo_text_def get_str_def demo_ws_def)
  have cid: "ss_conversation_id (demo_session ''s1'' ''c1'') = ''c1''" by (simp add: demo_session_def)
  show ?thesis
    unfolding handle_frame_def f sum.case dispatch_def handle_send_message_def v start_turn_def
    by (simp add: f v s r m k c p cid try_reserve_def running_turns_default_def Let_def demo_spawn_def releaser_def
        releaser_set_abort_def registry_set_abort_def)
qed

definition demo_running :: "spawned_turn" where
  "demo_running = \<lparr>sp_handle = 2, sp_cancelled = 1, sp_releaser = \<lparr>res_conversation_id = ''c1'', res_token = 0\<rparr>\<rparr>"

text \<open>The connection once its turn runs and the gate is open, and the acknowledgement is still queued.\<close>

definition demo_turn_conn :: conn where
  "demo_turn_conn = demo_conn\<lparr>cn_slot := Some (Some ''r1'', demo_running), cn_queue := [processing_ack demo_input ''r1'']\<rparr>"

lemma demo_running_reach:
  "\<exists>w tr. server_reach demo_ws 1 \<lparr>sv_state = w, sv_conns = [0 \<mapsto> demo_turn_conn], sv_turns = [(0, demo_running, tr)], sv_done = {}\<rparr> \<and>
     flags (running w) = {}"
proof -
  obtain w tr where hf: "handle_frame demo_ws demo_input demo_spawn access_anonymous ''k'' None None Unscoped ''send_message'' demo_live =
      (w, [processing_ack demo_input ''r1''], Some (demo_running, tr))" and fl: "flags (running w) = {}"
    using demo_frame_starts unfolding demo_running_def by blast
  define res where "res = handle_text_frame demo_ws demo_input demo_spawn demo_conn (\<lambda>h. h \<in> sv_done demo_open) ''send_message'' (sv_state demo_open)"
  have fr: "frame_action_and_request_id demo_ws ''send_message'' = (Some ''send_message'', Some ''r1'')"
    by (simp add: frame_action_and_request_id_def demo_ws_def demo_text_def get_str_def)
  have res: "tf_state res = w" "tf_slot res = Some (Some ''r1'', demo_running)" "tf_sends res = [(0, processing_ack demo_input ''r1'')]"
      "tf_gate res = Some None" "tf_spawned res = Some (demo_running, tr)"
    using hf by (simp_all add: res_def handle_text_frame_def fr Let_def live_slot_def demo_conn_def conn_new_def demo_open_def demo_spawn_def)
  let ?s1 = "\<lparr>sv_state = w, sv_conns = [0 \<mapsto> demo_turn_conn\<lparr>cn_arm := Some None\<rparr>], sv_turns = [(0, demo_running, tr)], sv_done = {}\<rparr>"
  have "server_step demo_ws demo_open (Some 0) ?s1"
    using server_step.text_frame [OF _ _ _ _ _ res_def, of 0] res
    by (simp add: demo_open_def demo_spawn_def enqueue_def demo_turn_conn_def demo_conn_def conn_new_def)
  with demo_open_reach have "server_reach demo_ws (Suc 0) ?s1" by (rule server_reach.frame)
  moreover have "server_step demo_ws ?s1 None \<lparr>sv_state = w, sv_conns = [0 \<mapsto> demo_turn_conn], sv_turns = [(0, demo_running, tr)], sv_done = {}\<rparr>"
    using server_step.gate [of ?s1 0 "demo_turn_conn\<lparr>cn_arm := Some None\<rparr>" None]
    by (simp add: demo_turn_conn_def demo_conn_def conn_new_def)
  ultimately show ?thesis using fl server_reach.other by fastforce
qed

theorem server_one_turn_per_conversation_witness:
  "\<exists>s tr. server_reach demo_ws 1 s \<and> (0, demo_running, tr) \<in> set (sv_turns s) \<and>
     is_running (running (sv_state s)) (tr_conversation_id tr)"
proof -
  obtain w tr where r: "server_reach demo_ws 1 \<lparr>sv_state = w, sv_conns = [0 \<mapsto> demo_turn_conn], sv_turns = [(0, demo_running, tr)], sv_done = {}\<rparr>"
    and fl: "flags (running w) = {}" using demo_running_reach by blast
  show ?thesis
    using server_one_turn_per_conversation [OF r, of 0 demo_running tr 0 demo_running tr] fl r by force
qed


theorem ws_access_fails_closed_witness:
  "ca_user_scope (anonymous_auth (TrustedIdentityVerifier :: (string, unit, string) verifier)) \<noteq> Unscoped"
  using ws_access_fails_closed [where lib = demo_lib and jc = "demo_jwks_call 0 (Inr [])" and strict = False and query = None and
      v = TrustedIdentityVerifier and a = "anonymous_auth TrustedIdentityVerifier"]
  by (auto simp: resolve_ws_access_def is_single_user_mode_def)

end
