(* ===== verification/Admin.thy ===== *)
theory Admin
  imports Conversations Server_Config Auth Ingestion
begin

text \<open>
  The admin HTTP API (\<open>rust/smooth-operator-server/src/admin.rs\<close>): the role gate every route but two runs
  first, and the handlers behind it, over the stores of the server.

  A request is given with its path, query and body decoded; the framework answers one that does not decode
  itself, after the role gate. Parameters are the derived serialisers, the time format, the conversion of
  a JSON number to a float, the live connectors, and the engine's knowledge base and embedder. The id, the
  clock readings of a request and the answer of the model gateway are inputs of it.
\<close>

section \<open>The stores and the seams\<close>

record ('st, 'e, 'kb) admin_world =
  aw_state :: "'st app_state"
  aw_configs :: connector_store
  aw_settings :: settings_store
  aw_runs :: "'e run_store"
  aw_kb :: 'kb
  aw_embed_calls :: nat
  aw_model_costs :: "json option"
  aw_pushed :: "(nat \<times> json) list"

datatype github_auth = GithubToken string | GithubUnauthenticated

datatype github_visibility = GithubPublic | GithubPrivate

record github_source =
  gh_owner :: string
  gh_repo :: string
  gh_auth :: github_auth
  gh_visibility :: github_visibility
  gh_ref :: "string option"

datatype live_connector = LiveWeb string | LiveFile string | LiveGithub github_source

record ('st, 'dt, 'e, 'kb) admin_env =
  ae_adapter :: "'st adapter"
  ae_config :: server_config
  ae_default_prompt :: string
  ae_env :: "string \<Rightarrow> string option"
  ae_bucket :: "connector_config \<Rightarrow> nat"
  ae_conn_bucket :: "string \<Rightarrow> nat"
  ae_time :: "int \<Rightarrow> json"
  ae_principal_ser :: "principal \<Rightarrow> json"
  ae_message_ser :: "message \<Rightarrow> json"
  ae_run_error :: "'e ingest_error \<Rightarrow> string"
  ae_as_f64 :: "json_number \<Rightarrow> 64 word option"
  ae_pull :: "live_connector \<Rightarrow> int option \<Rightarrow> string + raw_document list"
  ae_documentation :: 'dt
  ae_engine :: "'dt engine"
  ae_kb_ingest :: "access_context \<Rightarrow> document \<Rightarrow> 'kb \<Rightarrow> ('e + unit) \<times> 'kb"
  ae_embedder :: "string list \<Rightarrow> string + 32 word list list"
  ae_dim :: nat
  ae_parse_rfc3339 :: "string \<Rightarrow> int option"

text \<open>What one request reads from outside.\<close>

record request_input =
  ri_now_ms :: int
  ri_now :: int
  ri_finished :: int
  ri_uuid :: string
  ri_gateway :: "string + json"

section \<open>Replies\<close>

record http_reply =
  hr_status :: nat
  hr_body :: "json option"

definition json_reply :: "nat \<Rightarrow> json \<Rightarrow> http_reply" where
  "json_reply st body = \<lparr>hr_status = st, hr_body = Some body\<rparr>"

fun auth_status :: "auth_error \<Rightarrow> nat \<times> string" where
  "auth_status Unauthenticated = (401, ''UNAUTHENTICATED'')"
| "auth_status (InvalidToken _) = (401, ''INVALID_TOKEN'')"
| "auth_status (MissingRole _) = (401, ''MISSING_ROLE'')"
| "auth_status (Forbidden _ _) = (403, ''FORBIDDEN'')"
| "auth_status (Misconfigured _) = (500, ''AUTH_MISCONFIGURED'')"

definition auth_rejection :: "request_input \<Rightarrow> auth_error \<Rightarrow> http_reply" where
  "auth_rejection ri e =
     json_reply (fst (auth_status e)) (error_event (ri_now_ms ri) None (snd (auth_status e)) (auth_error_display e))"

record admin_error =
  err_status :: nat
  err_message :: string
  err_code :: string

definition admin_internal :: "string \<Rightarrow> admin_error" where
  "admin_internal m = \<lparr>err_status = 500, err_message = m, err_code = ''INTERNAL_ERROR''\<rparr>"

definition admin_forbidden :: "string \<Rightarrow> admin_error" where
  "admin_forbidden m = \<lparr>err_status = 403, err_message = m, err_code = ''FORBIDDEN''\<rparr>"

definition admin_not_found :: "string \<Rightarrow> admin_error" where
  "admin_not_found m = \<lparr>err_status = 404, err_message = m, err_code = ''NOT_FOUND''\<rparr>"

definition admin_validation :: "string \<Rightarrow> admin_error" where
  "admin_validation m = \<lparr>err_status = 400, err_message = m, err_code = ''VALIDATION_ERROR''\<rparr>"

definition admin_error_reply :: "request_input \<Rightarrow> admin_error \<Rightarrow> http_reply" where
  "admin_error_reply ri e = json_reply (err_status e) (error_event (ri_now_ms ri) None (err_code e) (err_message e))"

definition json_option :: "('a \<Rightarrow> json) \<Rightarrow> 'a option \<Rightarrow> json" where
  "json_option f x = (case x of Some a \<Rightarrow> f a | None \<Rightarrow> JNull)"

section \<open>The role gate\<close>

definition rank_role :: "nat \<Rightarrow> auth_role" where
  "rank_role m = (if m = 0 then Basic else if m = 1 then Curator else RoleAdmin)"

text \<open>The \<open>Authorization\<close> header, when there is one and it is text.\<close>

definition bearer_token :: "string option \<Rightarrow> string option" where
  "bearer_token header =
     Option.bind header (\<lambda>value.
       Option.bind (option_or (strip_prefix value ''Bearer '') (strip_prefix value ''bearer '')) (\<lambda>rest.
         if trim rest = [] then None else Some (trim rest)))"

definition require_role ::
  "('k, 'alg, 'jwk) jwt_lib \<Rightarrow> 'jwk jwks_call \<Rightarrow> string option \<Rightarrow> nat \<Rightarrow> ('k, 'alg, 'jwk) verifier
    \<Rightarrow> (auth_error + principal) \<times> ('k, 'alg, 'jwk) verifier" where
  "require_role lib jc header m v =
     (case bearer_token header of
        None \<Rightarrow> (Inl Unauthenticated, v)
      | Some tok \<Rightarrow>
          (case verify lib jc tok v of
             (Inl e, v') \<Rightarrow> (Inl e, v')
           | (Inr p, v') \<Rightarrow>
               (if role_rank (pr_role p) < m then Inl (Forbidden (rank_role m) (pr_role p)) else Inr p, v')))"

section \<open>Conversations\<close>

definition conversation_owned_by :: "'st adapter \<Rightarrow> 'st \<Rightarrow> string \<Rightarrow> string \<Rightarrow> bool" where
  "conversation_owned_by ad st cid uid =
     (case ad_list_participants ad st cid of
        Inr parts \<Rightarrow> list_ex (\<lambda>p. pt_type p = User \<and> pt_external_id p = Some uid) parts
      | Inl _ \<Rightarrow> False)"

definition visible_conversations :: "'st adapter \<Rightarrow> 'st \<Rightarrow> principal \<Rightarrow> conversation list \<Rightarrow> conversation list" where
  "visible_conversations ad st p all =
     (if pr_role p \<ge> Curator then all else filter (\<lambda>c. conversation_owned_by ad st (conv_id c) (pr_user_id p)) all)"

text \<open>The page and the cursor of the next one.\<close>

definition conversations_page :: "nat option \<Rightarrow> nat option \<Rightarrow> conversation list \<Rightarrow> conversation list \<times> nat option" where
  "conversations_page limit cur visible =
     (let n = max 1 (min 200 (unwrap_or limit 50)); off = unwrap_or cur 0;
          page = take n (drop off visible); next = off + length page
      in (page, if next < length visible then Some next else None))"

fun platform_lower :: "platform \<Rightarrow> string" where
  "platform_lower Web = ''web''"
| "platform_lower Messenger = ''messenger''"
| "platform_lower Instagram = ''instagram''"
| "platform_lower platform.Email = ''email''"
| "platform_lower Discord = ''discord''"
| "platform_lower platform.Phone = ''phone''"
| "platform_lower Sms = ''sms''"
| "platform_lower Slack = ''slack''"
| "platform_lower Whatsapp = ''whatsapp''"
| "platform_lower Tiktok = ''tiktok''"

definition conversation_row :: "(int \<Rightarrow> json) \<Rightarrow> conversation \<Rightarrow> json" where
  "conversation_row time c =
     JObj [(''id'', JStr (conv_id c)), (''name'', JStr (conv_name c)), (''platform'', JStr (platform_lower (conv_platform c))),
           (''createdAt'', time (conv_created_at c)), (''updatedAt'', time (conv_updated_at c))]"

definition admin_list_conversations ::
  "('st, 'dt, 'e, 'kb) admin_env \<Rightarrow> principal \<Rightarrow> nat option \<Rightarrow> nat option \<Rightarrow> 'st \<Rightarrow> admin_error + json" where
  "admin_list_conversations ae p limit cur st =
     (case ad_list_conversations (ae_adapter ae) st (pr_org_id p) of
        Inl e \<Rightarrow> Inl (admin_internal (''list conversations failed: '' @ e))
      | Inr all \<Rightarrow>
          (case conversations_page limit cur (visible_conversations (ae_adapter ae) st p all) of (page, next) \<Rightarrow>
             Inr (JObj [(''conversations'', JArr (map (conversation_row (ae_time ae)) page)),
                        (''nextCursor'', json_option json_u64 next)])))"

definition admin_conversation_messages ::
  "('st, 'dt, 'e, 'kb) admin_env \<Rightarrow> principal \<Rightarrow> string \<Rightarrow> 'st \<Rightarrow> admin_error + json" where
  "admin_conversation_messages ae p cid st =
     (let ad = ae_adapter ae; missing = admin_not_found (''conversation '' @ quoted cid @ '' not found'') in
      case ad_get_conversation ad cid st of
        Inl e \<Rightarrow> Inl (admin_internal (''get conversation failed: '' @ e))
      | Inr None \<Rightarrow> Inl missing
      | Inr (Some conv) \<Rightarrow>
          if conv_organization_id conv \<noteq> pr_org_id p then Inl missing
          else if pr_role p < Curator \<and> \<not> conversation_owned_by ad st cid (pr_user_id p)
          then Inl (admin_forbidden ''you do not have access to this conversation'')
          else case ad_list_messages ad st (message_query_new cid 200) of
            Inl e \<Rightarrow> Inl (admin_internal (''list messages failed: '' @ e))
          | Inr page \<Rightarrow>
              Inr (JObj [(''conversationId'', JStr cid), (''messages'', JArr (map (ae_message_ser ae) (page_messages page))),
                         (''nextCursor'', json_opt_str (next_cursor page))]))"

section \<open>Indexing runs and document sets\<close>

fun run_status_lower :: "indexing_run_status \<Rightarrow> string" where
  "run_status_lower Running = ''running''"
| "run_status_lower Succeeded = ''succeeded''"
| "run_status_lower Failed = ''failed''"

text \<open>A run is reported under the display name of its connector.\<close>

definition run_json :: "('st, 'dt, 'e, 'kb) admin_env \<Rightarrow> string \<Rightarrow> 'e indexing_run \<Rightarrow> json" where
  "run_json ae name r =
     JObj [(''id'', JStr (run_id r)), (''connectorName'', JStr name), (''status'', JStr (run_status_lower (run_status r))),
           (''startedAt'', ae_time ae (started_at r)), (''finishedAt'', json_option (ae_time ae) (finished_at r)),
           (''documentsSeen'', json_u64 (documents_seen r)), (''chunksIndexed'', json_u64 (chunks_indexed r)),
           (''documentsSkipped'', json_u64 (run_documents_skipped r)), (''cursor'', json_option (ae_time ae) (cursor r)),
           (''error'', json_option (\<lambda>e. JStr (ae_run_error ae e)) (run_error r))]"

definition admin_indexing_runs :: "('st, 'dt, 'e, 'kb) admin_env \<Rightarrow> principal \<Rightarrow> ('st, 'e, 'kb) admin_world \<Rightarrow> json" where
  "admin_indexing_runs ae p w =
     JObj [(''runs'', JArr (concat (map (\<lambda>name.
        map (run_json ae name) (list_runs (aw_runs w) (scoped_connector_key (pr_org_id p) name)))
          (connectors (aw_state w) (pr_org_id p)))))]"

definition admin_document_sets :: "principal \<Rightarrow> 'st app_state \<Rightarrow> json" where
  "admin_document_sets p w =
     JObj [(''documentSets'', JArr (map (\<lambda>(n, k). JObj [(''name'', JStr n), (''documentCount'', json_u64 k)])
        (App_State.document_sets w (pr_org_id p))))]"

section \<open>Model costs\<close>

definition model_info_entry :: "(json_number \<Rightarrow> 64 word option) \<Rightarrow> json option \<Rightarrow> json" where
  "model_info_entry as_f64 info =
     (let field = (\<lambda>k. Option.bind info (\<lambda>i. jget i k));
          cost = (\<lambda>k. json_option json_f64 (Option.bind (field k) (\<lambda>v. case v of JNum n \<Rightarrow> as_f64 n | _ \<Rightarrow> None)))
      in JObj [(''inputCostPerToken'', cost ''input_cost_per_token''), (''outputCostPerToken'', cost ''output_cost_per_token''),
               (''tier'', json_opt_str (Option.bind (field ''model_tier'') as_str)),
               (''useCases'', JArr (unwrap_or (Option.bind (field ''use_cases'') as_array) [])),
               (''maxOutputTokens'', json_option json_u64 (Option.bind (field ''max_output_tokens'') as_u64))])"

definition map_model_info :: "(json_number \<Rightarrow> 64 word option) \<Rightarrow> json \<Rightarrow> json" where
  "map_model_info as_f64 payload =
     JObj (fold (\<lambda>entry out.
         (case get_str entry ''model_name'' of
            None \<Rightarrow> out
          | Some name \<Rightarrow> obj_insert name (model_info_entry as_f64 (jget entry ''model_info'')) out))
       (unwrap_or (Option.bind (jget payload ''data'') as_array) []) [])"

definition fetch_model_costs :: "('st, 'dt, 'e, 'kb) admin_env \<Rightarrow> request_input \<Rightarrow> string + json" where
  "fetch_model_costs ae ri = map_sum (\<lambda>e. e) (map_model_info (ae_as_f64 ae)) (ri_gateway ri)"

definition model_costs ::
  "('st, 'dt, 'e, 'kb) admin_env \<Rightarrow> request_input \<Rightarrow> ('st, 'e, 'kb) admin_world \<Rightarrow> json \<times> ('st, 'e, 'kb) admin_world" where
  "model_costs ae ri w =
     (case aw_model_costs w of
        Some cached \<Rightarrow> (cached, w)
      | None \<Rightarrow>
          (case fetch_model_costs ae ri of
             Inr m \<Rightarrow> (m, w\<lparr>aw_model_costs := Some m\<rparr>)
           | Inl _ \<Rightarrow> (JObj [], w)))"

definition model_output_ceiling ::
  "('st, 'dt, 'e, 'kb) admin_env \<Rightarrow> request_input \<Rightarrow> string \<Rightarrow> ('st, 'e, 'kb) admin_world
    \<Rightarrow> nat option \<times> ('st, 'e, 'kb) admin_world" where
  "model_output_ceiling ae ri m w =
     (let read = (\<lambda>v. option_filter (\<lambda>n. n > 0) (option_filter (\<lambda>n. n < 2 ^ 32)
                        (Option.bind (Option.bind (jget v m) (\<lambda>x. jget x ''maxOutputTokens'')) as_u64)))
      in case aw_model_costs w of
           Some cached \<Rightarrow> (read cached, w)
         | None \<Rightarrow>
             (case fetch_model_costs ae ri of
                Inl _ \<Rightarrow> (None, w)
              | Inr v \<Rightarrow> (read v, w\<lparr>aw_model_costs := Some v\<rparr>)))"

section \<open>Connectors\<close>

record connector_write =
  cw_name :: string
  cw_kind :: string
  cw_config :: json
  cw_enabled :: bool

definition connector_fields :: "(int \<Rightarrow> json) \<Rightarrow> connector_config \<Rightarrow> json" where
  "connector_fields time c =
     JObj [(''id'', JStr (cc_id c)), (''name'', JStr (cc_name c)), (''kind'', JStr (connector_kind_as_str (cc_kind c))),
           (''config'', cc_config c), (''enabled'', JBool (cc_enabled c)), (''createdAt'', time (cc_created_at c)),
           (''updatedAt'', time (cc_updated_at c))]"

definition connector_json :: "(int \<Rightarrow> json) \<Rightarrow> connector_config \<Rightarrow> json" where
  "connector_json time c = JObj [(''connector'', connector_fields time c)]"

fun connector_required :: "connector_kind \<Rightarrow> string list" where
  "connector_required Github = [''owner'', ''repo'']"
| "connector_required WebPage = [''url'']"
| "connector_required LocalFile = [''path'']"

definition validate_connector :: "connector_kind \<Rightarrow> json \<Rightarrow> admin_error + unit" where
  "validate_connector kind config =
     (case find (\<lambda>f. get_str config f = None) (connector_required kind) of
        Some f \<Rightarrow> Inl (admin_validation (connector_kind_as_str kind @ '' connector config requires a '' @ quoted f @ '' field''))
      | None \<Rightarrow> Inr ())"

definition connector_missing :: "string \<Rightarrow> admin_error" where
  "connector_missing i = admin_not_found (''connector '' @ quoted i @ '' not found'')"

definition parse_write :: "connector_write \<Rightarrow> admin_error + connector_kind" where
  "parse_write body =
     (case connector_kind_parse (cw_kind body) of
        Inl bad \<Rightarrow> Inl (admin_validation (''unknown connector kind '' @ quoted bad))
      | Inr kind \<Rightarrow> bind_result (validate_connector kind (cw_config body)) (\<lambda>_. Inr kind))"

definition list_connectors :: "('st, 'dt, 'e, 'kb) admin_env \<Rightarrow> principal \<Rightarrow> ('st, 'e, 'kb) admin_world \<Rightarrow> json" where
  "list_connectors ae p w =
     JObj [(''connectors'', JArr (map (connector_fields (ae_time ae)) (connector_list (ae_bucket ae) (aw_configs w) (pr_org_id p))))]"

definition get_connector ::
  "('st, 'dt, 'e, 'kb) admin_env \<Rightarrow> principal \<Rightarrow> string \<Rightarrow> ('st, 'e, 'kb) admin_world \<Rightarrow> admin_error + json" where
  "get_connector ae p i w =
     (case connector_get (aw_configs w) (pr_org_id p) i of
        None \<Rightarrow> Inl (connector_missing i)
      | Some c \<Rightarrow> Inr (connector_json (ae_time ae) c))"

text \<open>Storing a configuration, and listing its name for the organization.\<close>

definition store_connector :: "principal \<Rightarrow> connector_config \<Rightarrow> ('st, 'e, 'kb) admin_world \<Rightarrow> ('st, 'e, 'kb) admin_world" where
  "store_connector p c w =
     w\<lparr>aw_configs := connector_upsert c (aw_configs w), aw_state := record_connector (pr_org_id p) (cc_name c) (aw_state w)\<rparr>"

definition create_connector ::
  "('st, 'dt, 'e, 'kb) admin_env \<Rightarrow> request_input \<Rightarrow> principal \<Rightarrow> connector_write \<Rightarrow> ('st, 'e, 'kb) admin_world
    \<Rightarrow> (admin_error + json) \<times> ('st, 'e, 'kb) admin_world" where
  "create_connector ae ri p body w =
     (case parse_write body of
        Inl e \<Rightarrow> (Inl e, w)
      | Inr kind \<Rightarrow>
          let c = \<lparr>cc_id = ri_uuid ri, cc_org_id = pr_org_id p, cc_name = cw_name body, cc_kind = kind,
                   cc_config = cw_config body, cc_enabled = cw_enabled body, cc_created_at = ri_now ri,
                   cc_updated_at = ri_now ri\<rparr>
          in (Inr (connector_json (ae_time ae) c), store_connector p c w))"

definition update_connector ::
  "('st, 'dt, 'e, 'kb) admin_env \<Rightarrow> request_input \<Rightarrow> principal \<Rightarrow> string \<Rightarrow> connector_write \<Rightarrow> ('st, 'e, 'kb) admin_world
    \<Rightarrow> (admin_error + json) \<times> ('st, 'e, 'kb) admin_world" where
  "update_connector ae ri p i body w =
     (case connector_get (aw_configs w) (pr_org_id p) i of
        None \<Rightarrow> (Inl (connector_missing i), w)
      | Some existing \<Rightarrow>
          (case parse_write body of
             Inl e \<Rightarrow> (Inl e, w)
           | Inr kind \<Rightarrow>
               let c = \<lparr>cc_id = cc_id existing, cc_org_id = cc_org_id existing, cc_name = cw_name body, cc_kind = kind,
                        cc_config = cw_config body, cc_enabled = cw_enabled body, cc_created_at = cc_created_at existing,
                        cc_updated_at = ri_now ri\<rparr>
               in (Inr (connector_json (ae_time ae) c), store_connector p c w)))"

definition delete_connector ::
  "principal \<Rightarrow> string \<Rightarrow> ('st, 'e, 'kb) admin_world \<Rightarrow> (admin_error + unit) \<times> ('st, 'e, 'kb) admin_world" where
  "delete_connector p i w =
     (case connector_delete (pr_org_id p) i (aw_configs w) of (gone, cs) \<Rightarrow>
        (if gone then Inr () else Inl (connector_missing i), w\<lparr>aw_configs := cs\<rparr>))"

definition resolve_github_auth ::
  "(string \<Rightarrow> string option) \<Rightarrow> connector_config \<Rightarrow> github_visibility \<Rightarrow> admin_error + github_auth" where
  "resolve_github_auth env c vis =
     (case auth_ref c of
        Some name \<Rightarrow>
          (case option_filter (\<lambda>t. trim t \<noteq> []) (env name) of
             Some tok \<Rightarrow> Inr (GithubToken tok)
           | None \<Rightarrow> Inl (admin_validation (''github connector auth_ref '' @ quoted name @
               '' did not resolve to a token (set the named secret/env var); refusing to index'')))
      | None \<Rightarrow>
          (case vis of
             GithubPublic \<Rightarrow> Inr GithubUnauthenticated
           | GithubPrivate \<Rightarrow> Inl (admin_validation (''github connector for a private repo requires an '' @ quoted ''auth_ref'' @
               '' naming a token secret''))))"

definition require_field :: "json \<Rightarrow> string \<Rightarrow> string \<Rightarrow> admin_error + string" where
  "require_field config f msg = (case get_str config f of Some v \<Rightarrow> Inr v | None \<Rightarrow> Inl (admin_validation msg))"

definition build_connector :: "(string \<Rightarrow> string option) \<Rightarrow> connector_config \<Rightarrow> admin_error + live_connector" where
  "build_connector env c =
     (let config = cc_config c in
      case cc_kind c of
        WebPage \<Rightarrow> bind_result (require_field config ''url'' (''web connector requires a '' @ quoted ''url'')) (\<lambda>u. Inr (LiveWeb u))
      | LocalFile \<Rightarrow> bind_result (require_field config ''path'' (''file connector requires a '' @ quoted ''path'')) (\<lambda>f. Inr (LiveFile f))
      | Github \<Rightarrow>
          bind_result (require_field config ''owner'' (''github connector requires an '' @ quoted ''owner'')) (\<lambda>owner.
          bind_result (require_field config ''repo'' (''github connector requires a '' @ quoted ''repo'')) (\<lambda>repo.
            let vis = (if get_str config ''visibility'' = Some ''private'' then GithubPrivate else GithubPublic) in
            bind_result (resolve_github_auth env c vis) (\<lambda>auth.
              Inr (LiveGithub \<lparr>gh_owner = owner, gh_repo = repo, gh_auth = auth, gh_visibility = vis,
                               gh_ref = get_str config ''ref''\<rparr>)))))"

definition index_connector ::
  "('st, 'dt, 'e, 'kb) admin_env \<Rightarrow> request_input \<Rightarrow> principal \<Rightarrow> string \<Rightarrow> ('st, 'e, 'kb) admin_world
    \<Rightarrow> (admin_error + json) \<times> ('st, 'e, 'kb) admin_world" where
  "index_connector ae ri p i w =
     (case connector_get (aw_configs w) (pr_org_id p) i of
        None \<Rightarrow> (Inl (connector_missing i), w)
      | Some c \<Rightarrow>
          (case build_connector (ae_env ae) c of
             Inl e \<Rightarrow> (Inl e, w)
           | Inr src \<Rightarrow>
               let tick = run_once record_run latest_cursor (ae_engine ae)
                     (ae_kb_ingest ae (with_organization_id access_anonymous (pr_org_id p))) (ae_embedder ae) (ae_dim ae)
                     (ae_parse_rfc3339 ae) (scoped_connector_key (pr_org_id p) (cc_name c)) (ae_pull ae src)
                     chunker_default (ri_uuid ri) (ri_now ri) (ri_finished ri)
                     (service_new (ae_documentation ae) (pr_org_id p)) (aw_runs w) (aw_embed_calls w) (aw_kb w)
               in (Inr (JObj [(''run'', run_json ae (cc_name c) (tk_run tick))]),
                   w\<lparr>aw_runs := tk_store tick, aw_kb := tk_kb tick, aw_embed_calls := tk_calls tick,
                     aw_state := record_connector (pr_org_id p) (cc_name c) (aw_state w)\<rparr>)))"

section \<open>Settings and publishing\<close>

record settings_write =
  sw_model :: "string option"
  sw_system_prompt :: string
  sw_persona :: "string option"
  sw_default_tools :: "string list"

definition settings_json :: "(int \<Rightarrow> json) \<Rightarrow> agent_settings \<Rightarrow> json" where
  "settings_json time s =
     JObj [(''settings'', JObj [(''orgId'', JStr (set_org_id s)), (''model'', json_opt_str (set_model s)),
       (''systemPrompt'', JStr (set_system_prompt s)), (''persona'', json_opt_str (set_persona s)),
       (''defaultTools'', JArr (map JStr (set_default_tools s))), (''updatedAt'', time (set_updated_at s))])]"

definition get_settings :: "('st, 'dt, 'e, 'kb) admin_env \<Rightarrow> request_input \<Rightarrow> principal \<Rightarrow> ('st, 'e, 'kb) admin_world \<Rightarrow> json" where
  "get_settings ae ri p w =
     settings_json (ae_time ae) (settings_get (ae_default_prompt ae) (ri_now ri) (aw_settings w) (pr_org_id p))"

definition put_settings ::
  "('st, 'dt, 'e, 'kb) admin_env \<Rightarrow> request_input \<Rightarrow> principal \<Rightarrow> settings_write \<Rightarrow> ('st, 'e, 'kb) admin_world
    \<Rightarrow> json \<times> ('st, 'e, 'kb) admin_world" where
  "put_settings ae ri p body w =
     (let s = \<lparr>set_org_id = pr_org_id p, set_model = sw_model body, set_system_prompt = sw_system_prompt body,
               set_persona = sw_persona body, set_default_tools = sw_default_tools body, set_updated_at = ri_now ri\<rparr>
      in (settings_json (ae_time ae) s, w\<lparr>aw_settings := settings_put s (aw_settings w)\<rparr>))"

definition publish_event ::
  "('st, 'dt, 'e, 'kb) admin_env \<Rightarrow> target \<Rightarrow> json \<Rightarrow> ('st, 'e, 'kb) admin_world \<Rightarrow> json \<times> ('st, 'e, 'kb) admin_world" where
  "publish_event ae t ev w =
     (let sent = publish (ae_conn_bucket ae) t ev (backplane (aw_state w)) in
      (JObj [(''delivered'', json_u64 (length sent))], w\<lparr>aw_pushed := aw_pushed w @ sent\<rparr>))"

section \<open>The routes\<close>

datatype admin_request =
    Health
  | Me
  | Conversations "nat option" "nat option"
  | Messages string
  | IndexingRuns
  | DocumentSets
  | ModelCosts
  | ListConnectors
  | CreateConnector connector_write
  | GetConnector string
  | UpdateConnector string connector_write
  | DeleteConnector string
  | IndexConnector string
  | GetSettings
  | PutSettings settings_write
  | Publish target json

fun min_rank :: "admin_request \<Rightarrow> nat option" where
  "min_rank Health = None"
| "min_rank Me = Some 0"
| "min_rank (Conversations _ _) = Some 0"
| "min_rank (Messages _) = Some 0"
| "min_rank IndexingRuns = Some 1"
| "min_rank DocumentSets = Some 1"
| "min_rank ModelCosts = None"
| "min_rank ListConnectors = Some 1"
| "min_rank (CreateConnector _) = Some 2"
| "min_rank (GetConnector _) = Some 1"
| "min_rank (UpdateConnector _ _) = Some 2"
| "min_rank (DeleteConnector _) = Some 2"
| "min_rank (IndexConnector _) = Some 1"
| "min_rank GetSettings = Some 1"
| "min_rank (PutSettings _) = Some 2"
| "min_rank (Publish _ _) = Some 2"

definition reply_of :: "request_input \<Rightarrow> nat \<Rightarrow> admin_error + json \<Rightarrow> http_reply" where
  "reply_of ri st r = (case r of Inr body \<Rightarrow> json_reply st body | Inl e \<Rightarrow> admin_error_reply ri e)"

text \<open>What a route does for a principal its gate has let through.\<close>

fun admin_route ::
  "('st, 'dt, 'e, 'kb) admin_env \<Rightarrow> request_input \<Rightarrow> principal \<Rightarrow> admin_request \<Rightarrow> ('st, 'e, 'kb) admin_world
    \<Rightarrow> http_reply \<times> ('st, 'e, 'kb) admin_world" where
  "admin_route ae ri p Health w = (json_reply 200 (JObj [(''status'', JStr ''ok'')]), w)"
| "admin_route ae ri p Me w = (json_reply 200 (ae_principal_ser ae p), w)"
| "admin_route ae ri p (Conversations limit cur) w =
     (reply_of ri 200 (admin_list_conversations ae p limit cur (storage (aw_state w))), w)"
| "admin_route ae ri p (Messages cid) w = (reply_of ri 200 (admin_conversation_messages ae p cid (storage (aw_state w))), w)"
| "admin_route ae ri p IndexingRuns w = (json_reply 200 (admin_indexing_runs ae p w), w)"
| "admin_route ae ri p DocumentSets w = (json_reply 200 (admin_document_sets p (aw_state w)), w)"
| "admin_route ae ri p ModelCosts w = (case model_costs ae ri w of (v, w') \<Rightarrow> (json_reply 200 v, w'))"
| "admin_route ae ri p ListConnectors w = (json_reply 200 (list_connectors ae p w), w)"
| "admin_route ae ri p (CreateConnector body) w =
     (case create_connector ae ri p body w of (r, w') \<Rightarrow> (reply_of ri 201 r, w'))"
| "admin_route ae ri p (GetConnector i) w = (reply_of ri 200 (get_connector ae p i w), w)"
| "admin_route ae ri p (UpdateConnector i body) w =
     (case update_connector ae ri p i body w of (r, w') \<Rightarrow> (reply_of ri 200 r, w'))"
| "admin_route ae ri p (DeleteConnector i) w =
     (case delete_connector p i w of
        (Inr _, w') \<Rightarrow> (\<lparr>hr_status = 204, hr_body = None\<rparr>, w')
      | (Inl e, w') \<Rightarrow> (admin_error_reply ri e, w'))"
| "admin_route ae ri p (IndexConnector i) w =
     (case index_connector ae ri p i w of (r, w') \<Rightarrow> (reply_of ri 200 r, w'))"
| "admin_route ae ri p GetSettings w = (json_reply 200 (get_settings ae ri p w), w)"
| "admin_route ae ri p (PutSettings body) w = (case put_settings ae ri p body w of (v, w') \<Rightarrow> (json_reply 200 v, w'))"
| "admin_route ae ri p (Publish t ev) w = (case publish_event ae t ev w of (v, w') \<Rightarrow> (json_reply 200 v, w'))"

text \<open>The public routes have no principal; the value they are given is not read.\<close>

definition nobody :: principal where
  "nobody = principal_new [] [] Basic None"

definition admin_serve ::
  "('k, 'alg, 'jwk) jwt_lib \<Rightarrow> 'jwk jwks_call \<Rightarrow> ('st, 'dt, 'e, 'kb) admin_env \<Rightarrow> request_input \<Rightarrow> string option
    \<Rightarrow> admin_request \<Rightarrow> ('k, 'alg, 'jwk) verifier \<times> ('st, 'e, 'kb) admin_world
    \<Rightarrow> http_reply \<times> ('k, 'alg, 'jwk) verifier \<times> ('st, 'e, 'kb) admin_world" where
  "admin_serve lib jc ae ri header req vw =
     (case vw of (v, w) \<Rightarrow>
        (case min_rank req of
           None \<Rightarrow> (case admin_route ae ri nobody req w of (rep, w') \<Rightarrow> (rep, v, w'))
         | Some m \<Rightarrow>
             (case require_role lib jc header m v of
                (Inl e, v') \<Rightarrow> (auth_rejection ri e, v', w)
              | (Inr p, v') \<Rightarrow> (case admin_route ae ri p req w of (rep, w') \<Rightarrow> (rep, v', w')))))"

section \<open>Isolation of organizations\<close>

text \<open>What two worlds share of one organization: its connectors, settings, sets, names and runs, and what the
  storage adapter answers about its conversations.\<close>

definition own_conversation :: "string \<Rightarrow> string + conversation option \<Rightarrow> string + conversation option" where
  "own_conversation org r =
     (case r of
        Inr (Some c) \<Rightarrow> if conv_organization_id c = org then r else Inr None
      | _ \<Rightarrow> r)"

definition same_conversations :: "'st adapter \<Rightarrow> string \<Rightarrow> 'st \<Rightarrow> 'st \<Rightarrow> bool" where
  "same_conversations ad org st st' \<longleftrightarrow>
     ad_list_conversations ad st org = ad_list_conversations ad st' org \<and>
     (\<forall>cid. own_conversation org (ad_get_conversation ad cid st) = own_conversation org (ad_get_conversation ad cid st')) \<and>
     (\<forall>cid c. ad_get_conversation ad cid st = Inr (Some c) \<and> conv_organization_id c = org \<or>
            (\<exists>cs. ad_list_conversations ad st org = Inr cs \<and> c \<in> set cs \<and> cid = conv_id c) \<longrightarrow>
        ad_list_participants ad st cid = ad_list_participants ad st' cid \<and>
        ad_list_messages ad st (message_query_new cid 200) = ad_list_messages ad st' (message_query_new cid 200))"

definition same_records :: "('st, 'dt, 'e, 'kb) admin_env \<Rightarrow> string \<Rightarrow> ('st, 'e, 'kb) admin_world \<Rightarrow> ('st, 'e, 'kb) admin_world \<Rightarrow> bool" where
  "same_records ae org w w' \<longleftrightarrow>
     (\<forall>i. connector_get (aw_configs w) org i = connector_get (aw_configs w') org i) \<and>
     connector_list (ae_bucket ae) (aw_configs w) org = connector_list (ae_bucket ae) (aw_configs w') org \<and>
     (\<forall>dflt now. settings_get dflt now (aw_settings w) org = settings_get dflt now (aw_settings w') org) \<and>
     App_State.document_sets (aw_state w) org = App_State.document_sets (aw_state w') org \<and>
     connectors (aw_state w) org = connectors (aw_state w') org \<and>
     (\<forall>name. list_runs (aw_runs w) (scoped_connector_key org name) = list_runs (aw_runs w') (scoped_connector_key org name))"

lemma same_records_refl [simp]: "same_records ae org w w"
  by (simp add: same_records_def)

lemma record_connector_frame:
  "storage (record_connector org name w) = storage w" "backplane (record_connector org name w) = backplane w"
  "App_State.document_sets (record_connector org name w) org' = App_State.document_sets w org'"
  "org' \<noteq> org \<Longrightarrow> connectors (record_connector org name w) org' = connectors w org'"
  by (auto simp: record_connector_def App_State.document_sets_def connectors_def Let_def update_conv')

lemma filter_update_other:
  assumes "\<forall>(k', x) \<in> set xs. k' = k \<longrightarrow> \<not> P x" and "\<not> P c"
  shows "filter P (map snd (AList.update k c xs)) = filter P (map snd xs)"
  using assms by (induction xs) auto

lemma filter_delete_other:
  assumes "\<forall>(k', x) \<in> set xs. k' = k \<longrightarrow> \<not> P x"
  shows "filter P (map snd (AList.delete k xs)) = filter P (map snd xs)"
  using assms by (induction xs) (auto simp: AList.delete_eq)

lemma connector_list_other:
  assumes keyed: "rows_keyed st" and other: "connector_op_org op \<noteq> org"
  shows "connector_list b (connector_step op st) org = connector_list b st org"
proof -
  have keys: "\<forall>(k', x) \<in> set (cc_rows st). k' = (o', i) \<longrightarrow> \<not> cc_org_id x = org" if "o' \<noteq> org" for o' i
    using keyed that by (auto simp: rows_keyed_def)
  have "filter (\<lambda>c. cc_org_id c = org) (map snd (cc_rows (connector_step op st))) =
      filter (\<lambda>c. cc_org_id c = org) (map snd (cc_rows st))"
    using other keys by (cases op) (simp_all add: connector_upsert_def connector_delete_def filter_update_other filter_delete_other)
  moreover have "cc_poisoned (connector_step op st) = cc_poisoned st"
    by (cases op) (simp_all add: connector_upsert_def connector_delete_def)
  ultimately show ?thesis by (simp add: connector_list_def hash_order_def filter_sort)
qed

lemma connector_get_other:
  "rows_keyed st \<Longrightarrow> connector_op_org op \<noteq> org \<Longrightarrow> connector_get (connector_step op st) org i = connector_get st org i"
  using connector_step_frame [of st op org i] connector_step_keyed [of st op] by (simp add: connector_get_def rows_keyed_def)

lemma list_runs_record:
  "connector_name r \<noteq> key \<Longrightarrow> \<forall>x \<in> set rs. run_id x = run_id r \<longrightarrow> connector_name x \<noteq> key \<Longrightarrow>
   list_runs (record_run r rs) key = list_runs rs key"
  by (induction rs) (auto simp: list_runs_def)

lemma scoped_key_apart:
  "CHR 0x01 \<notin> set org \<Longrightarrow> CHR 0x01 \<notin> set org' \<Longrightarrow> org \<noteq> org' \<Longrightarrow> scoped_connector_key org name \<noteq> scoped_connector_key org' name'"
  by (simp add: scoped_connector_key_inj)

lemma store_connector_other:
  assumes "rows_keyed (aw_configs w)" and "cc_org_id c \<noteq> org" and "pr_org_id p \<noteq> org"
  shows "same_records ae org w (store_connector p c w) \<and> storage (aw_state (store_connector p c w)) = storage (aw_state w)"
  using connector_list_other [OF assms(1), of "Upsert c" org] connector_get_other [OF assms(1), of "Upsert c" org] assms(2,3)
  by (simp add: same_records_def store_connector_def record_connector_frame)

text \<open>A request handled for a principal leaves the records of every other organization, and storage, as they are.\<close>

lemma admin_route_other:
  assumes run: "admin_route ae ri p req w = (rep, w')" and keyed: "rows_keyed (aw_configs w)" and org: "pr_org_id p \<noteq> org"
    and fresh: "\<forall>x \<in> set (aw_runs w). run_id x \<noteq> ri_uuid ri"
    and sep: "CHR 0x01 \<notin> set (pr_org_id p)" "CHR 0x01 \<notin> set org"
  shows "same_records ae org w w' \<and> storage (aw_state w') = storage (aw_state w)"
proof (cases req)
  case (CreateConnector body)
  then show ?thesis using run org keyed
    by (auto simp: create_connector_def Let_def store_connector_other split: sum.splits)
next
  case (UpdateConnector i body)
  have "cc_org_id c = pr_org_id p" if "connector_get (aw_configs w) (pr_org_id p) i = Some c" for c
    using that keyed by (auto simp: connector_get_def rows_keyed_def dest!: map_of_SomeD)
  with UpdateConnector show ?thesis using run org keyed
    by (auto simp: update_connector_def Let_def store_connector_other split: sum.splits option.splits)
next
  case (DeleteConnector i)
  have "w' = w\<lparr>aw_configs := connector_step (Delete (pr_org_id p) i) (aw_configs w)\<rparr>"
    using run DeleteConnector by (auto simp: delete_connector_def split: prod.splits sum.splits if_splits)
  with org connector_list_other [OF keyed, of "Delete (pr_org_id p) i" org] connector_get_other [OF keyed, of "Delete (pr_org_id p) i" org]
  show ?thesis by (simp add: same_records_def)
next
  case (IndexConnector i)
  have keys: "scoped_connector_key (pr_org_id p) n \<noteq> scoped_connector_key org n'" for n n'
    using scoped_key_apart [OF sep org] by simp
  have tick: "list_runs (tk_store t) (scoped_connector_key org n') = list_runs (aw_runs w) (scoped_connector_key org n')"
    if "t = run_once record_run latest eng kb_ingest embedder dim parse (scoped_connector_key (pr_org_id p) n) pull ck (ri_uuid ri) started
        finished sv (aw_runs w) calls kb" for t latest eng kb_ingest embedder dim parse n pull ck started finished sv calls kb n'
    using run_once_facts [OF that] keys [THEN not_sym] fresh by (auto intro!: list_runs_record)
  show ?thesis using run IndexConnector org
    by (auto simp: index_connector_def Let_def same_records_def record_connector_frame tick [OF refl] split: option.splits sum.splits)
next
  case (PutSettings body)
  then show ?thesis using run org by (auto simp: put_settings_def settings_put_def settings_get_def same_records_def Let_def)
next
  case ModelCosts
  then show ?thesis using run by (auto simp: model_costs_def same_records_def split: option.splits sum.splits)
next
  case (Publish t ev)
  then show ?thesis using run by (auto simp: publish_event_def same_records_def Let_def)
qed (use run in auto)

text \<open>What a principal is told depends on the records of its own organization only.\<close>

lemma owned_same:
  assumes "same_conversations ad org st st'" and "ad_get_conversation ad cid st = Inr (Some c)" "conv_organization_id c = org"
  shows "conversation_owned_by ad st cid uid = conversation_owned_by ad st' cid uid"
    and "ad_list_messages ad st (message_query_new cid 200) = ad_list_messages ad st' (message_query_new cid 200)"
  using assms by (auto simp: same_conversations_def conversation_owned_by_def)

lemma admin_list_conversations_same:
  assumes "same_conversations (ae_adapter ae) (pr_org_id p) st st'"
  shows "admin_list_conversations ae p limit cur st = admin_list_conversations ae p limit cur st'"
proof -
  have "visible_conversations (ae_adapter ae) st p cs = visible_conversations (ae_adapter ae) st' p cs"
    if "ad_list_conversations (ae_adapter ae) st (pr_org_id p) = Inr cs" for cs
    using that assms
    by (auto simp: visible_conversations_def same_conversations_def conversation_owned_by_def intro!: filter_cong)
  with assms show ?thesis by (auto simp: admin_list_conversations_def same_conversations_def split: sum.split)
qed

lemma admin_conversation_messages_same:
  assumes same: "same_conversations (ae_adapter ae) (pr_org_id p) st st'"
  shows "admin_conversation_messages ae p cid st = admin_conversation_messages ae p cid st'"
proof -
  let ?ad = "ae_adapter ae"
  have own: "own_conversation (pr_org_id p) (ad_get_conversation ?ad cid st) = own_conversation (pr_org_id p) (ad_get_conversation ?ad cid st')"
    using same by (simp add: same_conversations_def)
  have via: "admin_conversation_messages ae p cid u =
      (case own_conversation (pr_org_id p) (ad_get_conversation ?ad cid u) of
         Inr (Some c) \<Rightarrow> admin_conversation_messages ae p cid u
       | Inr None \<Rightarrow> Inl (admin_not_found (''conversation '' @ quoted cid @ '' not found''))
       | Inl e \<Rightarrow> Inl (admin_internal (''get conversation failed: '' @ e)))" for u
    by (auto simp: admin_conversation_messages_def own_conversation_def Let_def split: sum.splits option.splits)
  show ?thesis
  proof (cases "\<exists>c. own_conversation (pr_org_id p) (ad_get_conversation ?ad cid st) = Inr (Some c)")
    case True
    then obtain c where c: "ad_get_conversation ?ad cid st = Inr (Some c)" "conv_organization_id c = pr_org_id p"
      "ad_get_conversation ?ad cid st' = Inr (Some c)"
      using own by (auto simp: own_conversation_def split: sum.splits option.splits if_splits)
    with owned_same [OF same c(1,2)] show ?thesis by (simp add: admin_conversation_messages_def Let_def)
  next
    case False
    then show ?thesis using via [of st] via [of st'] own by (auto split: sum.splits option.splits)
  qed
qed

text \<open>A tick reads the run store only through the cursor of its own connector.\<close>

lemma latest_cursor_runs: "latest_cursor rs key = iter_max (filter_map cursor (filter (\<lambda>r. run_status r = Succeeded) (list_runs rs key)))"
  by (simp add: latest_cursor_def list_runs_def conj_commute)

lemma run_once_same:
  assumes "latest s name = latest' s' name"
  shows "tk_run (run_once rec latest eng kb_ingest embedder dim parse name pull ck rid started finished sv s calls kb) =
         tk_run (run_once rec' latest' eng kb_ingest embedder dim parse name pull ck rid started finished sv s' calls kb)"
  unfolding run_once_def Let_def assms
  by (auto simp: record_failed_def Let_def split: sum.split prod.split)

lemma index_connector_same:
  assumes "same_records ae (pr_org_id p) w u" and "aw_kb w = aw_kb u" "aw_embed_calls w = aw_embed_calls u"
  shows "fst (index_connector ae ri p i w) = fst (index_connector ae ri p i u)"
proof -
  have "latest_cursor (aw_runs w) (scoped_connector_key (pr_org_id p) n) = latest_cursor (aw_runs u) (scoped_connector_key (pr_org_id p) n)" for n
    using assms(1) by (simp add: latest_cursor_runs same_records_def)
  note tick = run_once_same [where latest = latest_cursor and latest' = latest_cursor and s = "aw_runs w" and s' = "aw_runs u", OF this]
  show ?thesis using assms
    by (auto simp: index_connector_def same_records_def Let_def run_json_def intro!: arg_cong2 [of _ _ _ _ "run_json ae"]
        split: option.split sum.split) (simp_all add: tick [where rec = record_run and rec' = record_run])
qed

definition same_view :: "('st, 'dt, 'e, 'kb) admin_env \<Rightarrow> string \<Rightarrow> ('st, 'e, 'kb) admin_world \<Rightarrow> ('st, 'e, 'kb) admin_world \<Rightarrow> bool" where
  "same_view ae org w u \<longleftrightarrow>
     same_records ae org w u \<and> same_conversations (ae_adapter ae) org (storage (aw_state w)) (storage (aw_state u)) \<and>
     aw_kb w = aw_kb u \<and> aw_embed_calls w = aw_embed_calls u \<and> aw_model_costs w = aw_model_costs u \<and>
     backplane (aw_state w) = backplane (aw_state u)"

lemma admin_route_same:
  assumes "same_view ae (pr_org_id p) w u"
  shows "fst (admin_route ae ri p req w) = fst (admin_route ae ri p req u)"
proof (cases req)
  case (Conversations limit cur)
  then show ?thesis using assms admin_list_conversations_same [of ae p "storage (aw_state w)" "storage (aw_state u)"]
    by (simp add: same_view_def)
next
  case (Messages cid)
  then show ?thesis using assms admin_conversation_messages_same [of ae p "storage (aw_state w)" "storage (aw_state u)"]
    by (simp add: same_view_def)
next
  case (IndexConnector i)
  have "fst (index_connector ae ri p i w) = fst (index_connector ae ri p i u)"
    using assms by (intro index_connector_same) (simp_all add: same_view_def)
  with IndexConnector show ?thesis by (auto split: prod.split)
next
  case (DeleteConnector i)
  have found: "fst (connector_delete org i st) = (connector_get st org i \<noteq> None)" for org st
    by (simp add: connector_delete_def connector_get_def)
  have "fst (delete_connector p i w) = fst (delete_connector p i u)"
    using assms found by (simp add: delete_connector_def same_view_def same_records_def split: prod.split) (metis fst_conv)
  with DeleteConnector show ?thesis by (auto split: prod.split sum.split)
qed (use assms in \<open>auto simp: same_view_def same_records_def admin_indexing_runs_def admin_document_sets_def model_costs_def
    list_connectors_def get_connector_def get_settings_def create_connector_def update_connector_def put_settings_def publish_event_def
    fetch_model_costs_def Let_def split: option.splits sum.splits prod.splits\<close>)

section \<open>Paging\<close>

text \<open>A console that follows the cursors of the conversation list until there is none.\<close>

partial_function (option) follow_pages :: "nat option \<Rightarrow> nat option \<Rightarrow> conversation list \<Rightarrow> conversation list option" where
  "follow_pages limit cur visible =
     (case conversations_page limit cur visible of
        (page, None) \<Rightarrow> Some page
      | (page, Some n) \<Rightarrow> Option.bind (follow_pages limit (Some n) visible) (\<lambda>rest. Some (page @ rest)))"

lemma follow_pages_from: "follow_pages limit cur visible = Some (drop (unwrap_or cur 0) visible)"
proof (induction "length visible - unwrap_or cur 0" arbitrary: cur rule: less_induct)
  case less
  let ?n = "max 1 (min 200 (unwrap_or limit 50))" and ?off = "unwrap_or cur 0"
  let ?page = "take ?n (drop ?off visible)"
  show ?case
  proof (cases "?off + length ?page < length visible")
    case False
    then have "?page = drop ?off visible" by (simp add: min_def split: if_splits)
    moreover have "conversations_page limit cur visible = (?page, None)"
      unfolding conversations_page_def Let_def using False by (simp only: if_False)
    ultimately show ?thesis by (subst follow_pages.simps) simp
  next
    case True
    then have len: "length ?page = ?n" by (auto simp: min_def split: if_splits)
    have rest: "follow_pages limit (Some (?off + ?n)) visible = Some (drop (?off + ?n) visible)"
    proof -
      have "0 < ?n" by simp
      with True len have "length visible - (?off + ?n) < length visible - ?off" by linarith
      then show ?thesis using less [of "Some (?off + ?n)"] by simp
    qed
    have "conversations_page limit cur visible = (?page, Some (?off + ?n))"
      unfolding conversations_page_def Let_def using True by (simp only: if_True len)
    moreover have "?page @ drop (?off + ?n) visible = drop ?off visible"
      by (metis append_take_drop_id drop_drop add.commute)
    ultimately show ?thesis using rest by (subst follow_pages.simps) (simp del: take_drop)
  qed
qed

section \<open>Properties\<close>

text \<open>C27. Nothing happens without authority: unless the request carries a bearer token the verifier accepts, for a
  principal of at least the rank of the route, the reply is an error and the stores are as they were. Only the liveness
  probe and the price list, which caches the gateway's answer, are open.\<close>

theorem admin_requires_authority:
  assumes "admin_serve lib jc ae ri header req (v, w) = (rep, v', w')"
  shows "(min_rank req = None \<longrightarrow> req = Health \<or> req = ModelCosts) \<and>
         (min_rank req = None \<longrightarrow> w' = w\<lparr>aw_model_costs := aw_model_costs w'\<rparr>) \<and>
         (\<forall>m. min_rank req = Some m \<longrightarrow>
            (\<exists>tok p. bearer_token header = Some tok \<and> fst (verify lib jc tok v) = Inr p \<and> m \<le> role_rank (pr_role p) \<and>
                     (rep, w') = admin_route ae ri p req w) \<or>
            (w' = w \<and> 400 \<le> hr_status rep))"
proof (intro conjI)
  have status: "400 \<le> hr_status (auth_rejection ri e)" for e
    by (cases e) (simp_all add: auth_rejection_def json_reply_def)
  show "min_rank req = None \<longrightarrow> req = Health \<or> req = ModelCosts" by (cases req) simp_all
  then show "min_rank req = None \<longrightarrow> w' = w\<lparr>aw_model_costs := aw_model_costs w'\<rparr>"
    using assms by (auto simp: admin_serve_def model_costs_def split: option.splits sum.splits)
  show "\<forall>m. min_rank req = Some m \<longrightarrow>
            (\<exists>tok p. bearer_token header = Some tok \<and> fst (verify lib jc tok v) = Inr p \<and> m \<le> role_rank (pr_role p) \<and>
                     (rep, w') = admin_route ae ri p req w) \<or>
            (w' = w \<and> 400 \<le> hr_status rep)"
    using assms status by (auto simp: admin_serve_def require_role_def split: prod.splits sum.splits option.splits if_splits)
qed


text \<open>C32. Following the cursors of the conversation list ends, whatever page size is asked for, and shows every visible
  conversation once, in order.\<close>

theorem admin_paging_ends: "follow_pages limit None visible = Some visible"
  by (simp add: follow_pages_from)

text \<open>A created connector is read back as it was acknowledged, by any later reader of the organization, and by nobody
  else: its kind is the one parsed, and it carries every field its kind needs.\<close>

theorem created_connector_read_back:
  assumes "create_connector ae ri p body w = (Inr v, w')" and "\<not> cc_poisoned (aw_configs w)"
  shows "get_connector ae p (ri_uuid ri) w' = Inr v \<and>
         (\<exists>kind. connector_kind_parse (cw_kind body) = Inr kind \<and>
            list_all (\<lambda>f. get_str (cw_config body) f \<noteq> None) (connector_required kind)) \<and>
         (pr_org_id p' \<noteq> pr_org_id p \<longrightarrow> get_connector ae p' (ri_uuid ri) w' = get_connector ae p' (ri_uuid ri) w)"
proof -
  obtain kind where k: "connector_kind_parse (cw_kind body) = Inr kind" "validate_connector kind (cw_config body) = Inr ()"
    using assms(1) by (auto simp: create_connector_def parse_write_def split: sum.splits)
  have "list_all (\<lambda>f. get_str (cw_config body) f \<noteq> None) (connector_required kind)"
    using k(2) by (auto simp: validate_connector_def list_all_iff find_None_iff split: option.splits)
  moreover have "get_connector ae p (ri_uuid ri) w' = Inr v"
    "pr_org_id p' \<noteq> pr_org_id p \<longrightarrow> get_connector ae p' (ri_uuid ri) w' = get_connector ae p' (ri_uuid ri) w"
    using assms by (auto simp: create_connector_def get_connector_def store_connector_def connector_get_def connector_upsert_def
        update_conv' Let_def split: sum.splits)
  ultimately show ?thesis using k(1) by blast
qed

section \<open>Where a basic caller stands\<close>

text \<open>The rows a session is created with never give the user participant an external id, and the external id is what makes
  a conversation a basic caller's own: a conversation whose participants are these two rows is owned by nobody.\<close>

lemma basic_owns_no_created_conversation:
  assumes "ad_list_participants ad st cid = Inr parts"
    and "\<forall>x \<in> set parts. \<exists>fi org aid scope parsed resume. x = row_user (build_rows fi org aid scope parsed resume) \<or>
           x = row_agent (build_rows fi org aid scope parsed resume)"
  shows "\<not> conversation_owned_by ad st cid uid"
proof -
  have "pt_external_id x = None" if "x \<in> set parts" for x
    using assms(2) that by (fastforce simp: build_rows_def Let_def)
  with assms(1) show ?thesis by (auto simp: conversation_owned_by_def list_ex_iff)
qed

text \<open>The message route reads one page of 200 from the start, whatever cursor it announced before: two conversations that
  agree on this page look the same, however long they are.\<close>

lemma messages_beyond_first_page_unreachable:
  assumes "ad_get_conversation (ae_adapter ae) cid st = ad_get_conversation (ae_adapter ae) cid st'"
    and "ad_list_participants (ae_adapter ae) st cid = ad_list_participants (ae_adapter ae) st' cid"
    and "ad_list_messages (ae_adapter ae) st (message_query_new cid 200) = ad_list_messages (ae_adapter ae) st' (message_query_new cid 200)"
  shows "admin_conversation_messages ae p cid st = admin_conversation_messages ae p cid st'"
  unfolding admin_conversation_messages_def conversation_owned_by_def Let_def assms by (rule refl)

section \<open>Witnesses\<close>

definition demo_admin :: principal where
  "demo_admin = principal_new ''u1'' ''acme'' RoleAdmin None"

definition demo_gate :: "(string, unit, string) verifier" where
  "demo_gate = LocalTokenVerifier ''t'' demo_admin"

definition demo_admin_env :: "(tables, unit, string, string list) admin_env" where
  "demo_admin_env =
     \<lparr>ae_adapter = memory_adapter (\<lambda>_. 0) (\<lambda>_. 0), ae_config = config_from_env (\<lambda>_. None), ae_default_prompt = [],
      ae_env = (\<lambda>_. None), ae_bucket = (\<lambda>_. 0), ae_conn_bucket = (\<lambda>_. 0), ae_time = json_i64,
      ae_principal_ser = (\<lambda>p. JStr (pr_user_id p)), ae_message_ser = (\<lambda>m. JStr (msg_id m)), ae_run_error = (\<lambda>_. ''failed''),
      ae_as_f64 = (\<lambda>_. None), ae_pull = (\<lambda>_ _. Inr []), ae_documentation = (), ae_engine = demo_engine,
      ae_kb_ingest = (\<lambda>_. keep_kb), ae_embedder = (\<lambda>ts. Inr (map (\<lambda>_. []) ts)), ae_dim = 0,
      ae_parse_rfc3339 = (\<lambda>_. None)\<rparr>"

definition demo_request :: request_input where
  "demo_request = \<lparr>ri_now_ms = 7, ri_now = 7, ri_finished = 8, ri_uuid = ''n1'', ri_gateway = Inl ''down''\<rparr>"

definition demo_admin_world :: "(tables, string, string list) admin_world" where
  "demo_admin_world =
     \<lparr>aw_state = app_state_new tables_default, aw_configs = \<lparr>cc_rows = [], cc_poisoned = False\<rparr>,
      aw_settings = \<lparr>settings_rows = Map.empty, settings_poisoned = False\<rparr>, aw_runs = [], aw_kb = [], aw_embed_calls = 0,
      aw_model_costs = None, aw_pushed = []\<rparr>"

definition demo_connector :: connector_write where
  "demo_connector = \<lparr>cw_name = ''site'', cw_kind = ''web'', cw_config = JObj [(''url'', JStr ''u'')], cw_enabled = True\<rparr>"

lemma demo_gate_passes:
  "m \<le> 2 \<Longrightarrow> require_role demo_lib (demo_jwks_call 0 (Inr [])) (Some ''Bearer t'') m demo_gate = (Inr demo_admin, demo_gate)"
  by (simp add: require_role_def bearer_token_def demo_gate_def demo_admin_def principal_new_def local_verify_def strip_prefix_def
      starts_with_def local_token_eq_iff trim_def trim_start_def trim_end_def is_whitespace_def)

theorem admin_requires_authority_witness:
  "snd (snd (admin_serve demo_lib (demo_jwks_call 0 (Inr [])) demo_admin_env demo_request None (DeleteConnector ''x'')
     (demo_gate, demo_admin_world))) = demo_admin_world \<and>
   400 \<le> hr_status (fst (admin_serve demo_lib (demo_jwks_call 0 (Inr [])) demo_admin_env demo_request None (DeleteConnector ''x'')
     (demo_gate, demo_admin_world)))"
proof -
  obtain rep v' w' where r: "admin_serve demo_lib (demo_jwks_call 0 (Inr [])) demo_admin_env demo_request None (DeleteConnector ''x'')
     (demo_gate, demo_admin_world) = (rep, v', w')" by (rule prod_cases3)
  from admin_requires_authority [OF r] have "w' = demo_admin_world \<and> 400 \<le> hr_status rep"
    by (simp add: bearer_token_def)
  with r show ?thesis by simp
qed


theorem created_connector_read_back_witness:
  "\<exists>v. fst (create_connector demo_admin_env demo_request demo_admin demo_connector demo_admin_world) = Inr v \<and>
       get_connector demo_admin_env demo_admin ''n1''
         (snd (create_connector demo_admin_env demo_request demo_admin demo_connector demo_admin_world)) = Inr v"
proof -
  have ok: "parse_write demo_connector = Inr WebPage"
    using connector_kind_roundtrip [of WebPage]
    by (simp add: parse_write_def demo_connector_def validate_connector_def get_str_def)
  then obtain v w' where r: "create_connector demo_admin_env demo_request demo_admin demo_connector demo_admin_world = (Inr v, w')"
    by (simp add: create_connector_def Let_def)
  have "\<not> cc_poisoned (aw_configs demo_admin_world)" by (simp add: demo_admin_world_def)
  from created_connector_read_back [OF r this] r show ?thesis by (simp add: demo_request_def)
qed

end
