(* ===== verification/Parking.thy ===== *)
theory Parking
  imports Turn_Start
begin

text \<open>
  What a turn leaves parked, from \<open>rust/smooth-operator-server/src/runner.rs\<close>: the two bridges between the
  engine's tools and the client (write confirmations and rich interactions), their durable records, the
  teardown of a turn that ends, fails or is aborted, and the approver of a host's own hook.

  A turn and its tasks are a step relation. The bridges are tasks of their own: they read a channel that the
  engine fills, and they outlive a turn that is dropped. The durable records are written by tasks the handler
  spawns, one per write; a parameter says whether these land in the order they were spawned.
\<close>

section \<open>The bridges\<close>

text \<open>What the engine's hook asks of a human.\<close>

datatype human_request = Confirm string json string | Input

text \<open>What the bridges of a turn are given: whether confirmations are configured and whether a bridge serves
  them, whether parks are recorded durably, the session, the request and the two reply channels.\<close>

record bridge_env =
  be_confirmation :: bool
  be_patterns :: bool
  be_persist :: bool
  be_session :: string
  be_request :: string
  be_responder :: nat
  be_outcome :: nat

datatype park_kind = ConfirmationPark | InteractionPark

datatype turn_phase = PhaseRunning | PhaseReturned | PhaseConfirmationCleared | PhaseFinished | PhaseDropped

text \<open>A turn and its tasks: the shared state, how far the turn has come, the two channels, what the
  confirmation bridge may still approve itself, whether each bridge runs and has a record outstanding, the
  writes spawned and not landed, the requests taken, the verdicts the bridge gave itself and the frames sent.\<close>

record 'st turn_tasks =
  tt_state :: "'st app_state"
  tt_phase :: turn_phase
  tt_requests :: "human_request list"
  tt_raises :: "interaction_raise list"
  tt_pre_approved :: "string option"
  tt_confirming :: bool
  tt_interacting :: bool
  tt_confirmation_record :: bool
  tt_interaction_record :: bool
  tt_writes :: "(park_kind \<times> json option) list"
  tt_taken :: "human_request list"
  tt_given :: "human_response list"
  tt_sent :: "json list"

definition turn_tasks_new :: "bridge_env \<Rightarrow> string option \<Rightarrow> 'st app_state \<Rightarrow> 'st turn_tasks" where
  "turn_tasks_new b pre w =
     \<lparr>tt_state = w, tt_phase = PhaseRunning, tt_requests = [], tt_raises = [], tt_pre_approved = pre,
      tt_confirming = be_patterns b, tt_interacting = True, tt_confirmation_record = False, tt_interaction_record = False,
      tt_writes = [], tt_taken = [], tt_given = [], tt_sent = []\<rparr>"

text \<open>The bridge's own answer to the hook.\<close>

definition give_verdict :: "bridge_env \<Rightarrow> human_response \<Rightarrow> 'st turn_tasks \<Rightarrow> 'st turn_tasks" where
  "give_verdict b v t =
     t\<lparr>tt_state := snd (send_verdict (be_responder b) v (tt_state t)), tt_given := tt_given t @ [v]\<rparr>"

definition confirmation_record :: "int \<Rightarrow> string \<Rightarrow> json \<Rightarrow> string \<Rightarrow> json" where
  "confirmation_record unix tool args prompt =
     JObj [(''tool'', JStr tool), (''arguments'', args), (''prompt'', JStr prompt), (''requestedAt'', json_i64 unix)]"

text \<open>One request: a pre-approved tool is approved once, any other confirmation is recorded, registered and
  announced, in this order, and a free-form question is declined.\<close>

fun confirm_step :: "bridge_env \<Rightarrow> int \<Rightarrow> int \<Rightarrow> human_request \<Rightarrow> 'st turn_tasks \<Rightarrow> 'st turn_tasks" where
  "confirm_step b ms unix (Confirm tool args prompt) t =
     (if tt_pre_approved t = Some tool then give_verdict b Approved (t\<lparr>tt_pre_approved := None\<rparr>)
      else
        let t1 = (if be_persist b
                  then t\<lparr>tt_writes := tt_writes t @ [(ConfirmationPark, Some (confirmation_record unix tool args prompt))],
                         tt_confirmation_record := True\<rparr>
                  else t)
        in t1\<lparr>tt_state := register_confirmation (be_session b) (be_responder b) (tt_state t1),
              tt_sent := tt_sent t1 @ [write_confirmation_required ms (be_request b) tool prompt]\<rparr>)"
| "confirm_step b ms unix Input t =
     give_verdict b (DeniedBecause ''free-form human input is not supported on this channel'') t"

definition interaction_record :: "interaction_raise \<Rightarrow> json" where
  "interaction_record r =
     JObj [(''interactionId'', JStr (raise_id r)), (''kind'', JStr (req_kind (raise_request r))),
           (''spec'', req_spec (raise_request r))]"

definition raise_step :: "bridge_env \<Rightarrow> int \<Rightarrow> interaction_raise \<Rightarrow> 'st turn_tasks \<Rightarrow> 'st turn_tasks" where
  "raise_step b ms r t =
     (let req = raise_request r;
          t1 = (if be_persist b
                then t\<lparr>tt_writes := tt_writes t @ [(InteractionPark, Some (interaction_record r))], tt_interaction_record := True\<rparr>
                else t)
      in t1\<lparr>tt_state := register_interaction (be_session b)
               \<lparr>pi_interaction_id = raise_id r, pi_kind = req_kind req, pi_spec = req_spec req, pi_responder = be_outcome b\<rparr>
               (tt_state t1),
            tt_sent := tt_sent t1 @ [interaction_required ms (be_request b) (raise_id r) (req_kind req) (req_spec req)
               (req_reason req)]\<rparr>)"

text \<open>A bridge whose channel has closed retires its record.\<close>

definition end_confirm_bridge :: "bridge_env \<Rightarrow> 'st turn_tasks \<Rightarrow> 'st turn_tasks" where
  "end_confirm_bridge b t =
     t\<lparr>tt_confirming := False,
       tt_writes := tt_writes t @ (if tt_confirmation_record t \<and> be_persist b then [(ConfirmationPark, None)] else [])\<rparr>"

definition end_interaction_bridge :: "bridge_env \<Rightarrow> 'st turn_tasks \<Rightarrow> 'st turn_tasks" where
  "end_interaction_bridge b t =
     t\<lparr>tt_interacting := False,
       tt_writes := tt_writes t @ (if tt_interaction_record t \<and> be_persist b then [(InteractionPark, None)] else [])\<rparr>"

section \<open>The teardown\<close>

text \<open>The guards. They run where the turn drops them, and also when the turn itself is dropped.\<close>

definition drop_confirmation_guard :: "bridge_env \<Rightarrow> 'st turn_tasks \<Rightarrow> 'st turn_tasks" where
  "drop_confirmation_guard b t =
     (if be_confirmation b then t\<lparr>tt_state := clear_confirmation (be_session b) (tt_state t)\<rparr> else t)"

definition drop_interaction_guard :: "bridge_env \<Rightarrow> 'st turn_tasks \<Rightarrow> 'st turn_tasks" where
  "drop_interaction_guard b t = t\<lparr>tt_state := clear_interaction (be_session b) (tt_state t)\<rparr>"

definition land_write :: "'st adapter \<Rightarrow> int \<Rightarrow> bridge_env \<Rightarrow> park_kind \<times> json option \<Rightarrow> 'st app_state \<Rightarrow> 'st app_state" where
  "land_write ad now b kv w =
     (case kv of
        (ConfirmationPark, v) \<Rightarrow> snd (set_pending_confirmation ad now (be_session b) v w)
      | (InteractionPark, v) \<Rightarrow> snd (set_pending_interaction ad now (be_session b) v w))"

definition remove_nth :: "nat \<Rightarrow> 'a list \<Rightarrow> 'a list" where
  "remove_nth i xs = take i xs @ drop (Suc i) xs"

text \<open>What other tasks may do to the session meanwhile: take what is registered, clear the records.\<close>

definition outside_ok :: "bridge_env \<Rightarrow> 'st app_state \<Rightarrow> 'st app_state \<Rightarrow> bool" where
  "outside_ok b w w' \<longleftrightarrow>
     poisoned w' = poisoned w \<and>
     pending_confirmations w' (be_session b) \<in> {pending_confirmations w (be_session b), None} \<and>
     pending_interactions w' (be_session b) \<in> {pending_interactions w (be_session b), None} \<and>
     (\<forall>key \<in> {''pendingConfirmation'', ''pendingInteraction''}.
        session_meta w' (be_session b) key \<in> {session_meta w (be_session b) key, None})"

text \<open>Tools ask while the turn runs. A turn that returns waits for each bridge before it drops that bridge's
  guard; one that fails or is aborted drops both guards at once and leaves the bridges to themselves.\<close>

inductive park_step :: "'st adapter \<Rightarrow> bool \<Rightarrow> bridge_env \<Rightarrow> 'st turn_tasks \<Rightarrow> 'st turn_tasks \<Rightarrow> bool" for ad ordered b where
  asks: "tt_phase t = PhaseRunning \<Longrightarrow> tt_confirming t \<Longrightarrow> park_step ad ordered b t (t\<lparr>tt_requests := tt_requests t @ [r]\<rparr>)"
| raises: "tt_phase t = PhaseRunning \<Longrightarrow> park_step ad ordered b t (t\<lparr>tt_raises := tt_raises t @ [x]\<rparr>)"
| takes_request: "tt_confirming t \<Longrightarrow> tt_requests t = r # rs \<Longrightarrow>
    park_step ad ordered b t (confirm_step b ms unix r (t\<lparr>tt_requests := rs, tt_taken := tt_taken t @ [r]\<rparr>))"
| takes_raise: "tt_interacting t \<Longrightarrow> tt_raises t = x # xs \<Longrightarrow> park_step ad ordered b t (raise_step b ms x (t\<lparr>tt_raises := xs\<rparr>))"
| confirm_bridge_ends: "tt_phase t \<noteq> PhaseRunning \<Longrightarrow> tt_confirming t \<Longrightarrow> tt_requests t = [] \<Longrightarrow>
    park_step ad ordered b t (end_confirm_bridge b t)"
| interaction_bridge_ends: "tt_phase t \<noteq> PhaseRunning \<Longrightarrow> tt_interacting t \<Longrightarrow> tt_raises t = [] \<Longrightarrow>
    park_step ad ordered b t (end_interaction_bridge b t)"
| returns: "tt_phase t = PhaseRunning \<Longrightarrow> park_step ad ordered b t (t\<lparr>tt_phase := PhaseReturned\<rparr>)"
| confirmation_cleared: "tt_phase t = PhaseReturned \<Longrightarrow> \<not> tt_confirming t \<Longrightarrow>
    park_step ad ordered b t ((drop_confirmation_guard b t)\<lparr>tt_phase := PhaseConfirmationCleared\<rparr>)"
| finishes: "tt_phase t = PhaseConfirmationCleared \<Longrightarrow> \<not> tt_interacting t \<Longrightarrow>
    park_step ad ordered b t ((drop_interaction_guard b t)\<lparr>tt_phase := PhaseFinished\<rparr>)"
| dropped: "tt_phase t = PhaseRunning \<Longrightarrow>
    park_step ad ordered b t ((drop_interaction_guard b (drop_confirmation_guard b t))\<lparr>tt_phase := PhaseDropped\<rparr>)"
| lands: "i < length (tt_writes t) \<Longrightarrow> ordered \<longrightarrow> i = 0 \<Longrightarrow>
    park_step ad ordered b t (t\<lparr>tt_state := land_write ad now b (tt_writes t ! i) (tt_state t), tt_writes := remove_nth i (tt_writes t)\<rparr>)"
| outside: "outside_ok b (tt_state t) w' \<Longrightarrow> park_step ad ordered b t (t\<lparr>tt_state := w'\<rparr>)"

inductive park_reach :: "'st adapter \<Rightarrow> bool \<Rightarrow> bridge_env \<Rightarrow> 'st turn_tasks \<Rightarrow> 'st turn_tasks \<Rightarrow> bool" for ad ordered b t0 where
  here: "park_reach ad ordered b t0 t0"
| further: "park_reach ad ordered b t0 t \<Longrightarrow> park_step ad ordered b t t' \<Longrightarrow> park_reach ad ordered b t0 t'"

section \<open>The approver of a host's hook\<close>

text \<open>The turn that shows prompts. There is one slot for the whole process.\<close>

record turn_target =
  tg_sink :: nat
  tg_request :: string
  tg_session :: string

record host_approver =
  ha_current :: "turn_target option"
  ha_poisoned :: bool
  ha_draining :: bool
  ha_response :: nat

definition approver_new :: "nat \<Rightarrow> host_approver" where
  "approver_new response = \<lparr>ha_current = None, ha_poisoned = False, ha_draining = False, ha_response = response\<rparr>"

definition approver_activate :: "turn_target \<Rightarrow> host_approver \<Rightarrow> host_approver" where
  "approver_activate tg ha =
     (if ha_poisoned ha then ha else ha\<lparr>ha_current := Some tg\<rparr>)\<lparr>ha_draining := True\<rparr>"

definition approver_deactivate :: "host_approver \<Rightarrow> host_approver" where
  "approver_deactivate ha = (if ha_poisoned ha then ha else ha\<lparr>ha_current := None\<rparr>)"

text \<open>One request read by the drain task: the frame and the sink it goes to, when it is shown.\<close>

fun drain_step :: "int \<Rightarrow> host_approver \<Rightarrow> human_request \<Rightarrow> 'st app_state \<Rightarrow> 'st app_state \<times> (nat \<times> json) list" where
  "drain_step ms ha (Confirm tool args prompt) w =
     (case (if ha_poisoned ha then None else ha_current ha) of
        Some tg \<Rightarrow>
          (register_confirmation (tg_session tg) (ha_response ha) w,
           [(tg_sink tg, write_confirmation_required ms (tg_request tg) tool prompt)])
      | None \<Rightarrow> (snd (send_verdict (ha_response ha) (DeniedBecause ''no client is connected to approve this action'') w), []))"
| "drain_step ms ha Input w =
     (snd (send_verdict (ha_response ha) (DeniedBecause ''free-form input is not supported over chat'') w), [])"

section \<open>Lemmas\<close>

lemma land_write_frame [simp]:
  "pending_confirmations (land_write ad now b kv w) = pending_confirmations w"
  "pending_interactions (land_write ad now b kv w) = pending_interactions w"
  "poisoned (land_write ad now b kv w) = poisoned w"
proof -
  have set: "pending_confirmations (snd (set_session_meta_key ad now sid key v w)) = pending_confirmations w \<and>
      pending_interactions (snd (set_session_meta_key ad now sid key v w)) = pending_interactions w \<and>
      poisoned (snd (set_session_meta_key ad now sid key v w)) = poisoned w" for sid key v
    by (auto simp: set_session_meta_key_def edit_meta_def write_through_def Let_def split: option.splits sum.splits if_splits prod.splits)
  show "pending_confirmations (land_write ad now b kv w) = pending_confirmations w"
    "pending_interactions (land_write ad now b kv w) = pending_interactions w"
    "poisoned (land_write ad now b kv w) = poisoned w"
    using set by (auto simp: land_write_def set_pending_confirmation_def set_pending_interaction_def split: prod.split park_kind.split)
qed

lemma send_verdict_frame [simp]:
  "pending_confirmations (snd (send_verdict ch v w)) = pending_confirmations w"
  "pending_interactions (snd (send_verdict ch v w)) = pending_interactions w"
  "poisoned (snd (send_verdict ch v w)) = poisoned w"
  "session_meta (snd (send_verdict ch v w)) = session_meta w"
  by (auto simp: send_verdict_def session_meta_def state_get_session_def fun_eq_iff)

lemmas park_defs = give_verdict_def raise_step_def end_confirm_bridge_def end_interaction_bridge_def
  drop_confirmation_guard_def drop_interaction_guard_def Let_def

text \<open>What holds of the registrations and the channels at every step.\<close>

definition park_inv :: "bridge_env \<Rightarrow> 'st turn_tasks \<Rightarrow> bool" where
  "park_inv b t \<longleftrightarrow>
     (tt_confirming t \<longrightarrow> be_confirmation b) \<and>
     (\<not> tt_confirming t \<longrightarrow> tt_requests t = []) \<and>
     (\<not> tt_interacting t \<longrightarrow> tt_raises t = []) \<and>
     (poisoned (tt_state t) ConfirmationsLock \<or> \<not> be_confirmation b \<or> tt_phase t \<in> {PhaseConfirmationCleared, PhaseFinished} \<longrightarrow>
        pending_confirmations (tt_state t) (be_session b) = None) \<and>
     (poisoned (tt_state t) InteractionsLock \<or> tt_phase t = PhaseFinished \<longrightarrow>
        pending_interactions (tt_state t) (be_session b) = None) \<and>
     (tt_phase t \<in> {PhaseConfirmationCleared, PhaseFinished} \<longrightarrow> \<not> tt_confirming t) \<and>
     (tt_phase t = PhaseFinished \<longrightarrow> \<not> tt_interacting t) \<and>
     (tt_phase t = PhaseRunning \<longrightarrow> tt_interacting t)"

lemma park_inv_step:
  assumes "park_step ad ordered b t t'" and inv: "park_inv b t"
  shows "park_inv b t'"
  using assms
proof cases
  case (takes_request r rs ms unix)
  then show ?thesis using inv
    by (cases r) (auto simp: park_inv_def park_defs register_confirmation_def)
next
  case (takes_raise x xs ms)
  then show ?thesis using inv by (auto simp: park_inv_def park_defs register_interaction_def)
next
  case (confirmation_cleared)
  then show ?thesis using inv by (auto simp: park_inv_def park_defs clear_confirmation_def)
next
  case finishes
  then show ?thesis using inv by (auto simp: park_inv_def park_defs clear_interaction_def)
next
  case dropped
  then show ?thesis using inv by (auto simp: park_inv_def park_defs clear_interaction_def clear_confirmation_def)
next
  case (outside w')
  then have "poisoned w' = poisoned (tt_state t)"
    "pending_confirmations w' (be_session b) = pending_confirmations (tt_state t) (be_session b) \<or>
       pending_confirmations w' (be_session b) = None"
    "pending_interactions w' (be_session b) = pending_interactions (tt_state t) (be_session b) \<or>
       pending_interactions w' (be_session b) = None"
    by (auto simp: outside_ok_def)
  with outside inv show ?thesis unfolding park_inv_def by (simp, metis)
qed (use inv in \<open>auto simp: park_inv_def park_defs\<close>)

text \<open>What the client is shown, and what it should be: every confirmation but the first of the pre-approved tool.\<close>

definition shown_confirmation :: "json \<Rightarrow> (string \<times> string) option" where
  "shown_confirmation f =
     (if frame_type f = ''write_confirmation_required''
      then Option.bind (Option.bind (jget f ''data'') (\<lambda>d. jget d ''data'')) (\<lambda>x.
        Option.bind (get_str x ''toolId'') (\<lambda>tool. map_option (Pair tool) (get_str x ''actionDescription'')))
      else None)"

fun asked_confirmation :: "human_request \<Rightarrow> (string \<times> string) option" where
  "asked_confirmation (Confirm tool args prompt) = Some (tool, prompt)"
| "asked_confirmation Input = None"

definition remove_first :: "('a \<Rightarrow> bool) \<Rightarrow> 'a list \<Rightarrow> 'a list" where
  "remove_first P xs = takeWhile (\<lambda>x. \<not> P x) xs @ tl (dropWhile (\<lambda>x. \<not> P x) xs)"

definition must_show :: "string option \<Rightarrow> human_request list \<Rightarrow> (string \<times> string) list" where
  "must_show pre rs = remove_first (\<lambda>(tool, _). pre = Some tool) (filter_map asked_confirmation rs)"

definition waived :: "string option \<Rightarrow> human_request list \<Rightarrow> bool" where
  "waived pre rs \<longleftrightarrow> (\<exists>x \<in> set (filter_map asked_confirmation rs). pre = Some (fst x))"

lemma remove_first_snoc:
  "remove_first P (xs @ [x]) =
     (if \<exists>y \<in> set xs. P y then remove_first P xs @ [x] else if P x then xs else xs @ [x])"
proof (cases "\<exists>y \<in> set xs. P y")
  case True
  then show ?thesis by (auto simp: remove_first_def dropWhile_append takeWhile_append tl_append dropWhile_eq_Nil_conv split: list.split)
next
  case False
  then show ?thesis by (auto simp: remove_first_def dropWhile_append takeWhile_append)
qed

lemma remove_first_none: "\<not> (\<exists>y \<in> set xs. P y) \<Longrightarrow> remove_first P xs = xs"
  by (simp add: remove_first_def dropWhile_eq_Nil_conv [THEN iffD2])

lemma filter_map_append [simp]: "filter_map f (xs @ ys) = filter_map f xs @ filter_map f ys"
  by (induction xs) (auto split: option.split)

lemma must_show_snoc:
  "must_show pre (rs @ [Confirm tool args prompt]) =
     (if pre = Some tool \<and> \<not> waived pre rs then must_show pre rs else must_show pre rs @ [(tool, prompt)])"
  "must_show pre (rs @ [Input]) = must_show pre rs"
  "waived pre (rs @ [Confirm tool args prompt]) \<longleftrightarrow> waived pre rs \<or> pre = Some tool"
  "waived pre (rs @ [Input]) \<longleftrightarrow> waived pre rs"
  by (auto simp: must_show_def waived_def remove_first_snoc remove_first_none split_beta)

lemma shown_frames [simp]:
  "shown_confirmation (write_confirmation_required ms rid tool prompt) = Some (tool, prompt)"
  "shown_confirmation (interaction_required ms rid iid kind spec reason) = None"
  by (simp_all add: shown_confirmation_def frame_type_def get_str_def event_defs)

definition bridge_inv :: "bridge_env \<Rightarrow> string option \<Rightarrow> 'st turn_tasks \<Rightarrow> bool" where
  "bridge_inv b pre t \<longleftrightarrow>
     tt_pre_approved t = (if waived pre (tt_taken t) then None else pre) \<and>
     count_list (tt_given t) Approved = (if waived pre (tt_taken t) then 1 else 0) \<and>
     filter_map shown_confirmation (tt_sent t) = must_show pre (tt_taken t) \<and>
     list_all (envelope_ok (Some (be_request b))) (tt_sent t)"

lemma count_list_snoc: "count_list (xs @ [x]) y = count_list xs y + (if x = y then 1 else 0)"
  by simp

lemma bridge_inv_confirm:
  assumes "bridge_inv b pre t"
  shows "bridge_inv b pre (confirm_step b ms unix r (t\<lparr>tt_requests := rs, tt_taken := tt_taken t @ [r]\<rparr>))"
  using assms by (cases r) (auto simp: bridge_inv_def give_verdict_def must_show_snoc count_list_snoc envelopes_ok Let_def)

lemma bridge_inv_step: "park_step ad ordered b t t' \<Longrightarrow> bridge_inv b pre t \<Longrightarrow> bridge_inv b pre t'"
proof (induction rule: park_step.induct)
  case (takes_request t r rs ms unix)
  then show ?case by (simp add: bridge_inv_confirm)
next
  case (takes_raise t x xs ms)
  then show ?case by (auto simp: bridge_inv_def raise_step_def envelopes_ok Let_def)
qed (auto simp: bridge_inv_def park_defs)

lemma reach_inv:
  assumes "park_reach ad ordered b t0 t" and "I t0" and "\<And>u u'. park_step ad ordered b u u' \<Longrightarrow> I u \<Longrightarrow> I u'"
  shows "I t"
  using assms(1) by induction (use assms(2,3) in auto)

text \<open>The durable records, when the writes land in order.\<close>

fun record_key :: "park_kind \<Rightarrow> string" where
  "record_key ConfirmationPark = ''pendingConfirmation''"
| "record_key InteractionPark = ''pendingInteraction''"

lemma map_of_unwrap: "map_of (unwrap_or m []) k = Option.bind m (\<lambda>m. map_of m k)"
  by (cases m) simp_all

lemma write_through_meta: "session_meta (snd (write_through ad now sid m w)) = session_meta w"
  by (auto simp: fun_eq_iff write_through_def session_meta_def state_get_session_def split: sum.split)

lemma set_session_meta_key_meta:
  "session_meta (snd (set_session_meta_key ad now sid key v w)) sid key' =
     (if key = key' then (if state_get_session w sid = None then None else v) else session_meta w sid key')"
proof (cases "state_get_session w sid")
  case None
  then show ?thesis
    by (auto simp: set_session_meta_key_def edit_meta_def session_meta_def state_get_session_def split: if_splits)
next
  case (Some s)
  then show ?thesis
    by (auto simp: set_session_meta_key_def edit_meta_def write_through_meta Let_def state_get_session_def split: if_splits)
      (auto simp: session_meta_def state_get_session_def update_conv' delete_conv' map_of_unwrap split: option.splits)
qed

lemma land_write_meta:
  "session_meta (land_write ad now b (k, v) w) (be_session b) (record_key k') =
     (if k = k' then (if state_get_session w (be_session b) = None then None else v)
      else session_meta w (be_session b) (record_key k'))"
  by (cases k; cases k')
    (simp_all add: land_write_def set_pending_confirmation_def set_pending_interaction_def set_session_meta_key_meta)

definition spawned_writes :: "park_kind \<Rightarrow> 'st turn_tasks \<Rightarrow> json option list" where
  "spawned_writes k t = map snd (filter (\<lambda>x. fst x = k) (tt_writes t))"

text \<open>The record once everything spawned has landed.\<close>

definition final_record :: "bridge_env \<Rightarrow> park_kind \<Rightarrow> 'st turn_tasks \<Rightarrow> json option" where
  "final_record b k t =
     (if spawned_writes k t = [] then session_meta (tt_state t) (be_session b) (record_key k) else last (spawned_writes k t))"

fun outstanding :: "park_kind \<Rightarrow> 'st turn_tasks \<Rightarrow> bool" where
  "outstanding ConfirmationPark t = (tt_confirmation_record t \<and> tt_confirming t)"
| "outstanding InteractionPark t = (tt_interaction_record t \<and> tt_interacting t)"

definition record_inv :: "bridge_env \<Rightarrow> 'st turn_tasks \<Rightarrow> bool" where
  "record_inv b t \<longleftrightarrow>
     (\<forall>k. \<not> outstanding k t \<longrightarrow> final_record b k t = None) \<and>
     (\<not> be_persist b \<longrightarrow> \<not> tt_confirmation_record t \<and> \<not> tt_interaction_record t)"

lemma record_inv_final:
  assumes "record_inv b t" and "\<And>k. outstanding k t' = outstanding k t"
    and "\<And>k. final_record b k t' = final_record b k t \<or> final_record b k t' = None"
    and "tt_confirmation_record t' = tt_confirmation_record t" "tt_interaction_record t' = tt_interaction_record t"
  shows "record_inv b t'"
  using assms(1) unfolding record_inv_def assms(2,4,5) using assms(3) by metis

lemma record_inv_same:
  assumes "record_inv b t" and "tt_writes t' = tt_writes t" and "session_meta (tt_state t') = session_meta (tt_state t)"
    and "tt_confirming t' = tt_confirming t" "tt_interacting t' = tt_interacting t"
    and "tt_confirmation_record t' = tt_confirmation_record t" "tt_interaction_record t' = tt_interaction_record t"
  shows "record_inv b t'"
proof -
  have "outstanding k t' = outstanding k t" for k using assms by (cases k) simp_all
  moreover have "final_record b k t' = final_record b k t" for k using assms by (simp add: final_record_def spawned_writes_def)
  ultimately show ?thesis using assms(1,6,7) by (simp add: record_inv_def)
qed

lemma registry_meta [simp]:
  "session_meta (register_confirmation sid r w) = session_meta w"
  "session_meta (register_interaction sid p w) = session_meta w"
  "session_meta (clear_confirmation sid w) = session_meta w"
  "session_meta (clear_interaction sid w) = session_meta w"
  by (auto simp: fun_eq_iff session_meta_def state_get_session_def register_confirmation_def register_interaction_def
      clear_confirmation_def clear_interaction_def)

lemma spawned_writes_simps:
  "tt_writes t = [] \<Longrightarrow> spawned_writes k t = []"
  "tt_writes t' = tt_writes t @ [(k', v)] \<Longrightarrow> spawned_writes k t' = spawned_writes k t @ (if k = k' then [v] else [])"
  by (auto simp: spawned_writes_def)

lemma record_inv_spawn:
  assumes "record_inv b t" and "tt_writes t' = tt_writes t @ [(k', v)]"
    and "session_meta (tt_state t') = session_meta (tt_state t)"
    and "v = None \<or> outstanding k' t'"
    and "k' = ConfirmationPark \<Longrightarrow> outstanding InteractionPark t' = outstanding InteractionPark t"
    and "k' = InteractionPark \<Longrightarrow> outstanding ConfirmationPark t' = outstanding ConfirmationPark t"
    and "be_persist b"
  shows "record_inv b t'"
proof -
  have "outstanding k t' = outstanding k t" if "k \<noteq> k'" for k using assms(5,6) that by (cases k; cases k') auto
  then show ?thesis using assms by (auto simp: record_inv_def final_record_def spawned_writes_simps(2) [OF assms(2)])
qed

lemma record_inv_land:
  assumes inv: "record_inv b t" and w: "tt_writes t = (k, v) # rest"
  shows "record_inv b (t\<lparr>tt_state := land_write ad now b (k, v) (tt_state t), tt_writes := rest\<rparr>)"
proof -
  let ?t = "t\<lparr>tt_state := land_write ad now b (k, v) (tt_state t), tt_writes := rest\<rparr>"
  have "outstanding k' ?t = outstanding k' t" for k' by (cases k') simp_all
  moreover have "final_record b k' ?t = None" if "final_record b k' t = None" for k'
    using that w by (auto simp: final_record_def spawned_writes_def land_write_meta split: if_splits)
  ultimately show ?thesis using inv by (simp add: record_inv_def)
qed

lemma record_inv_raise:
  assumes "record_inv b t" "tt_interacting t"
  shows "record_inv b (raise_step b ms x (t\<lparr>tt_raises := xs\<rparr>))" (is "record_inv b ?t'")
proof (cases "be_persist b")
  case True
  with assms show ?thesis
    by (intro record_inv_spawn [OF assms(1), of ?t' InteractionPark "Some (interaction_record x)"]) (simp_all add: raise_step_def Let_def)
next
  case False
  with assms show ?thesis by (intro record_inv_same [OF assms(1)]) (simp_all add: raise_step_def Let_def)
qed

lemma record_inv_ends:
  assumes "record_inv b t"
  shows "record_inv b (end_confirm_bridge b t)" "record_inv b (end_interaction_bridge b t)"
proof -
  have off: "be_persist b \<or> \<not> tt_confirmation_record t" "be_persist b \<or> \<not> tt_interaction_record t"
    using assms by (auto simp: record_inv_def)
  show "record_inv b (end_confirm_bridge b t)"
  proof (cases "tt_confirmation_record t \<and> be_persist b")
    case True
    then show ?thesis
      by (intro record_inv_spawn [OF assms, of _ ConfirmationPark None]) (simp_all add: end_confirm_bridge_def)
  next
    case False
    with off(1) have "outstanding k (end_confirm_bridge b t) = outstanding k t" for k
      by (cases k) (auto simp: end_confirm_bridge_def)
    moreover have "final_record b k (end_confirm_bridge b t) = final_record b k t" for k
      using False by (auto simp: final_record_def spawned_writes_def end_confirm_bridge_def)
    ultimately show ?thesis by (intro record_inv_final [OF assms]) (auto simp: end_confirm_bridge_def)
  qed
  show "record_inv b (end_interaction_bridge b t)"
  proof (cases "tt_interaction_record t \<and> be_persist b")
    case True
    then show ?thesis
      by (intro record_inv_spawn [OF assms, of _ InteractionPark None]) (simp_all add: end_interaction_bridge_def)
  next
    case False
    with off(2) have "outstanding k (end_interaction_bridge b t) = outstanding k t" for k
      by (cases k) (auto simp: end_interaction_bridge_def)
    moreover have "final_record b k (end_interaction_bridge b t) = final_record b k t" for k
      using False by (auto simp: final_record_def spawned_writes_def end_interaction_bridge_def)
    ultimately show ?thesis by (intro record_inv_final [OF assms]) (auto simp: end_interaction_bridge_def)
  qed
qed

lemma record_inv_step:
  assumes "park_step ad True b t t'" and "record_inv b t"
  shows "record_inv b t'"
  using assms
proof cases
  case (takes_request r rs ms unix)
  show ?thesis
  proof (cases "\<exists>tool args prompt. r = Confirm tool args prompt \<and> be_persist b \<and> tt_pre_approved t \<noteq> Some tool")
    case True
    then obtain v where "tt_writes t' = tt_writes t @ [(ConfirmationPark, v)]" "outstanding ConfirmationPark t'"
        "session_meta (tt_state t') = session_meta (tt_state t)" "outstanding InteractionPark t' = outstanding InteractionPark t"
      using takes_request by (elim exE) (simp add: Let_def)
    with True assms(2) show ?thesis by (intro record_inv_spawn [of b t t' ConfirmationPark v]) auto
  next
    case False
    with takes_request have "tt_writes t' = tt_writes t" "session_meta (tt_state t') = session_meta (tt_state t)"
      "tt_confirming t' = tt_confirming t" "tt_interacting t' = tt_interacting t"
      "tt_confirmation_record t' = tt_confirmation_record t" "tt_interaction_record t' = tt_interaction_record t"
      by (cases r; simp add: give_verdict_def Let_def)+
    with assms(2) show ?thesis by (rule record_inv_same)
  qed
next
  case (takes_raise x xs ms)
  then show ?thesis using record_inv_raise [OF assms(2), of ms x xs] by simp
next
  case confirm_bridge_ends
  then show ?thesis using record_inv_ends(1) [OF assms(2)] by simp
next
  case interaction_bridge_ends
  then show ?thesis using record_inv_ends(2) [OF assms(2)] by simp
next
  case (lands i now)
  then obtain k v rest where w: "tt_writes t = (k, v) # rest" by (cases "tt_writes t") auto
  with lands have "t' = t\<lparr>tt_state := land_write ad now b (k, v) (tt_state t), tt_writes := rest\<rparr>"
    by (simp add: remove_nth_def)
  with record_inv_land [OF assms(2) w] show ?thesis by simp
next
  case (outside w')
  have "outstanding k t' = outstanding k t" for k using outside by (cases k) simp_all
  moreover have "session_meta w' (be_session b) (record_key k) = session_meta (tt_state t) (be_session b) (record_key k) \<or>
      session_meta w' (be_session b) (record_key k) = None" for k
    using outside by (cases k) (auto simp: outside_ok_def)
  then have "final_record b k t' = final_record b k t \<or> final_record b k t' = None" for k
    using outside(1) by (simp add: final_record_def spawned_writes_def)
  ultimately show ?thesis using outside(1) by (intro record_inv_final [OF assms(2)]) simp_all
qed (intro record_inv_same [OF assms(2)]; simp add: park_defs)+

lemma turn_tasks_new_inv:
  assumes "be_patterns b \<Longrightarrow> be_confirmation b"
    and "pending_confirmations w (be_session b) = None" "pending_interactions w (be_session b) = None"
  shows "park_inv b (turn_tasks_new b pre w)"
  using assms by (auto simp: park_inv_def turn_tasks_new_def)

lemma turn_tasks_new_bridge: "bridge_inv b pre (turn_tasks_new b pre w)"
  by (simp add: bridge_inv_def turn_tasks_new_def waived_def must_show_def remove_first_def)

lemma turn_tasks_new_record:
  assumes "\<And>k. session_meta w (be_session b) (record_key k) = None"
  shows "record_inv b (turn_tasks_new b pre w)"
  using assms by (simp add: record_inv_def final_record_def spawned_writes_def turn_tasks_new_def)

section \<open>What the teardown does not reach\<close>

lemma park_reach_trans: "park_reach ad ordered b t1 t2 \<Longrightarrow> park_reach ad ordered b t0 t1 \<Longrightarrow> park_reach ad ordered b t0 t2"
  by (induction rule: park_reach.induct) (auto intro: park_reach.further)

lemma writes_drain:
  "\<exists>w'. park_reach ad ordered b t (t\<lparr>tt_state := w', tt_writes := []\<rparr>) \<and>
        pending_confirmations w' = pending_confirmations (tt_state t)"
proof (induction "tt_writes t" arbitrary: t)
  case Nil
  have "t\<lparr>tt_state := tt_state t, tt_writes := []\<rparr> = t" using Nil by (cases t) simp
  then show ?case by (metis park_reach.here)
next
  case (Cons x xs)
  let ?t = "t\<lparr>tt_state := land_write ad 0 b x (tt_state t), tt_writes := xs\<rparr>"
  have "park_step ad ordered b t ?t"
    using park_step.lands [of 0 t ordered ad b 0] Cons.hyps(2) [symmetric] by (simp add: remove_nth_def)
  then have "park_reach ad ordered b t ?t" by (intro park_reach.further [OF park_reach.here])
  moreover obtain w' where "park_reach ad ordered b ?t (?t\<lparr>tt_state := w', tt_writes := []\<rparr>)"
      "pending_confirmations w' = pending_confirmations (tt_state ?t)"
    using Cons.hyps(1) [of ?t] by auto
  ultimately show ?case by (intro exI [of _ w']) (auto intro: park_reach_trans)
qed

text \<open>A confirmation still in the channel when the turn is aborted is registered after the guard has cleared the
  session: the registration outlives the turn, although every task of it has ended.\<close>

lemma registration_survives_abort:
  assumes "be_patterns b" and "\<not> poisoned w ConfirmationsLock"
  shows "\<exists>t. park_reach ad ordered b (turn_tasks_new b None w) t \<and> tt_phase t = PhaseDropped \<and> \<not> tt_confirming t \<and>
             \<not> tt_interacting t \<and> tt_writes t = [] \<and> pending_confirmations (tt_state t) (be_session b) = Some (be_responder b)"
proof -
  let ?r = "Confirm ''pay'' JNull ''p''"
  define t0 where "t0 = turn_tasks_new b None w"
  define t1 where "t1 = t0\<lparr>tt_requests := tt_requests t0 @ [?r]\<rparr>"
  define t2 where "t2 = (drop_interaction_guard b (drop_confirmation_guard b t1))\<lparr>tt_phase := PhaseDropped\<rparr>"
  define t3 where "t3 = confirm_step b 0 0 ?r (t2\<lparr>tt_requests := [], tt_taken := tt_taken t2 @ [?r]\<rparr>)"
  define t4 where "t4 = end_confirm_bridge b t3"
  define t5 where "t5 = end_interaction_bridge b t4"
  note defs = t0_def t1_def t2_def t3_def t4_def t5_def turn_tasks_new_def park_defs clear_confirmation_def
    clear_interaction_def register_confirmation_def
  have running: "tt_phase t0 = PhaseRunning" "tt_phase t1 = PhaseRunning" "tt_confirming t0" using assms by (simp_all add: defs)
  have taken: "tt_confirming t2" "tt_requests t2 = [?r]" using assms by (simp_all add: defs)
  have over: "tt_phase t3 \<noteq> PhaseRunning" "tt_confirming t3" "tt_requests t3 = []" "tt_phase t4 \<noteq> PhaseRunning" "tt_interacting t4"
    "tt_raises t4 = []" using assms by (simp_all add: defs)
  have left: "tt_phase t5 = PhaseDropped" "\<not> tt_confirming t5" "\<not> tt_interacting t5"
    "pending_confirmations (tt_state t5) (be_session b) = Some (be_responder b)" using assms by (simp_all add: defs)
  have "park_step ad ordered b t0 t1" unfolding t1_def by (rule park_step.asks [OF running(1,3)])
  moreover have "park_step ad ordered b t1 t2" unfolding t2_def by (rule park_step.dropped [OF running(2)])
  moreover have "park_step ad ordered b t2 t3" unfolding t3_def by (rule park_step.takes_request [OF taken])
  moreover have "park_step ad ordered b t3 t4" unfolding t4_def by (rule park_step.confirm_bridge_ends [OF over(1-3)])
  moreover have "park_step ad ordered b t4 t5" unfolding t5_def by (rule park_step.interaction_bridge_ends [OF over(4-6)])
  ultimately have "park_reach ad ordered b t0 t5" by (meson park_reach.intros)
  moreover obtain w' where "park_reach ad ordered b t5 (t5\<lparr>tt_state := w', tt_writes := []\<rparr>)"
    "pending_confirmations w' = pending_confirmations (tt_state t5)" using writes_drain by blast
  ultimately show ?thesis using left
    by (intro exI [of _ "t5\<lparr>tt_state := w', tt_writes := []\<rparr>"]) (auto simp: t0_def intro: park_reach_trans)
qed

text \<open>The record and its retirement are written by two tasks. When the second one lands first, the record outlives
  a turn that ended in good order, and a later confirmation would act on it.\<close>

lemma record_survives_turn:
  assumes "be_patterns b" "be_persist b" and "state_get_session w (be_session b) = Some s"
  shows "\<exists>t. park_reach ad False b (turn_tasks_new b None w) t \<and> tt_phase t = PhaseFinished \<and> tt_writes t = [] \<and>
             session_meta (tt_state t) (be_session b) ''pendingConfirmation'' = Some (confirmation_record 0 ''pay'' JNull ''p'')"
proof -
  let ?r = "Confirm ''pay'' JNull ''p''"
  define t0 where "t0 = turn_tasks_new b None w"
  define t1 where "t1 = t0\<lparr>tt_requests := tt_requests t0 @ [?r]\<rparr>"
  define t2 where "t2 = confirm_step b 0 0 ?r (t1\<lparr>tt_requests := [], tt_taken := tt_taken t1 @ [?r]\<rparr>)"
  define t3 where "t3 = t2\<lparr>tt_phase := PhaseReturned\<rparr>"
  define t4 where "t4 = end_confirm_bridge b t3"
  define t5 where "t5 = t4\<lparr>tt_state := land_write ad 0 b (tt_writes t4 ! 1) (tt_state t4), tt_writes := remove_nth 1 (tt_writes t4)\<rparr>"
  define t6 where "t6 = t5\<lparr>tt_state := land_write ad 0 b (tt_writes t5 ! 0) (tt_state t5), tt_writes := remove_nth 0 (tt_writes t5)\<rparr>"
  define t7 where "t7 = (drop_confirmation_guard b t6)\<lparr>tt_phase := PhaseConfirmationCleared\<rparr>"
  define t8 where "t8 = end_interaction_bridge b t7"
  define t9 where "t9 = (drop_interaction_guard b t8)\<lparr>tt_phase := PhaseFinished\<rparr>"
  note early = t0_def t1_def t2_def t3_def t4_def turn_tasks_new_def Let_def end_confirm_bridge_def
  note late = t5_def t6_def t7_def t8_def t9_def remove_nth_def drop_confirmation_guard_def drop_interaction_guard_def end_interaction_bridge_def
  have writes: "tt_writes t4 = [(ConfirmationPark, Some (confirmation_record 0 ''pay'' JNull ''p'')), (ConfirmationPark, None)]"
    using assms by (simp add: early)
  have guards: "tt_phase t0 = PhaseRunning" "tt_confirming t0" "tt_confirming t1" "tt_requests t1 = [?r]" "tt_phase t2 = PhaseRunning"
    "tt_phase t3 \<noteq> PhaseRunning" "tt_confirming t3" "tt_requests t3 = []" using assms by (simp_all add: early)
  have shape: "tt_phase t4 = PhaseReturned" "\<not> tt_confirming t4" "tt_interacting t4" "tt_raises t4 = []"
    "\<not> tt_interaction_record t4" using assms by (simp_all add: early)
  have ends: "1 < length (tt_writes t4)" "0 < length (tt_writes t5)" "tt_phase t6 = PhaseReturned" "\<not> tt_confirming t6"
    "tt_phase t7 \<noteq> PhaseRunning" "tt_interacting t7" "tt_raises t7 = []" "tt_phase t8 = PhaseConfirmationCleared" "\<not> tt_interacting t8"
    "tt_phase t9 = PhaseFinished" "tt_writes t9 = []"
    using writes shape by (simp_all add: late)
  have kept: "state_get_session (land_write ad 0 b x u) sid = None \<longleftrightarrow> state_get_session u sid = None" for x u sid
    by (cases x) (auto simp: land_write_def set_pending_confirmation_def set_pending_interaction_def set_session_meta_key_def
        edit_meta_def write_through_def state_get_session_def Let_def split: park_kind.split option.splits sum.splits prod.splits)
  have "state_get_session (tt_state t4) (be_session b) \<noteq> None"
    using assms by (auto simp: early state_get_session_def register_confirmation_def split: if_splits)
  then have meta: "session_meta (tt_state t6) (be_session b) ''pendingConfirmation'' = Some (confirmation_record 0 ''pay'' JNull ''p'')"
    using writes land_write_meta [of ad 0 b ConfirmationPark _ _ ConfirmationPark] by (simp add: t5_def t6_def remove_nth_def kept)
  have "park_step ad False b t0 t1" unfolding t1_def by (rule park_step.asks [OF guards(1,2)])
  moreover have "park_step ad False b t1 t2" unfolding t2_def by (rule park_step.takes_request [OF guards(3,4)])
  moreover have "park_step ad False b t2 t3" unfolding t3_def by (rule park_step.returns [OF guards(5)])
  moreover have "park_step ad False b t3 t4" unfolding t4_def by (rule park_step.confirm_bridge_ends [OF guards(6-8)])
  moreover have "park_step ad False b t4 t5" unfolding t5_def by (rule park_step.lands [OF ends(1)]) simp
  moreover have "park_step ad False b t5 t6" unfolding t6_def by (rule park_step.lands [OF ends(2)]) simp
  moreover have "park_step ad False b t6 t7" unfolding t7_def by (rule park_step.confirmation_cleared [OF ends(3,4)])
  moreover have "park_step ad False b t7 t8" unfolding t8_def by (rule park_step.interaction_bridge_ends [OF ends(5-7)])
  moreover have "park_step ad False b t8 t9" unfolding t9_def by (rule park_step.finishes [OF ends(8,9)])
  ultimately have "park_reach ad False b t0 t9" by (meson park_reach.intros)
  with ends(10,11) meta show ?thesis
    by (intro exI [of _ t9]) (auto simp: t0_def t7_def t8_def t9_def drop_confirmation_guard_def drop_interaction_guard_def end_interaction_bridge_def)
qed

text \<open>One slot serves all turns of the process: a prompt of one turn is shown to whichever turn activated last, under
  that turn's session, and the end of any turn takes the slot from the others.\<close>

lemma approval_shown_to_latest_turn:
  "\<not> ha_poisoned ha \<Longrightarrow>
     snd (drain_step ms (approver_activate tg' (approver_activate tg ha)) (Confirm tool args prompt) w) =
       [(tg_sink tg', write_confirmation_required ms (tg_request tg') tool prompt)] \<and>
     snd (drain_step ms (approver_deactivate (approver_activate tg' (approver_activate tg ha))) (Confirm tool args prompt) w) = []"
  by (simp add: approver_activate_def approver_deactivate_def)

text \<open>A turn whose tools have nothing more to ask can end in good order, with everything landed.\<close>

lemma turn_can_finish:
  assumes "tt_phase t = PhaseRunning" "tt_requests t = []" "tt_raises t = []" "tt_interacting t"
  shows "\<exists>t'. park_reach ad ordered b t t' \<and> tt_phase t' = PhaseFinished \<and> \<not> tt_confirming t' \<and> \<not> tt_interacting t' \<and>
              tt_writes t' = []"
proof -
  define t1 where "t1 = t\<lparr>tt_phase := PhaseReturned\<rparr>"
  define t2 where "t2 = (if tt_confirming t then end_confirm_bridge b t1 else t1)"
  define t3 where "t3 = (drop_confirmation_guard b t2)\<lparr>tt_phase := PhaseConfirmationCleared\<rparr>"
  define t4 where "t4 = end_interaction_bridge b t3"
  define t5 where "t5 = (drop_interaction_guard b t4)\<lparr>tt_phase := PhaseFinished\<rparr>"
  note defs = t1_def t2_def t3_def t4_def t5_def park_defs
  have "park_step ad ordered b t t1" unfolding t1_def by (rule park_step.returns [OF assms(1)])
  then have "park_reach ad ordered b t t1" by (rule park_reach.further [OF park_reach.here])
  moreover have "t2 = t1 \<or> park_step ad ordered b t1 t2"
    using park_step.confirm_bridge_ends [of t1 ad ordered b] assms by (auto simp: t2_def t1_def)
  ultimately have "park_reach ad ordered b t t2" by (auto intro: park_reach.further)
  moreover have "park_step ad ordered b t2 t3" unfolding t3_def by (rule park_step.confirmation_cleared) (simp_all add: defs)
  moreover have "park_step ad ordered b t3 t4"
    unfolding t4_def by (rule park_step.interaction_bridge_ends) (use assms in \<open>simp_all add: defs\<close>)
  moreover have "park_step ad ordered b t4 t5" unfolding t5_def by (rule park_step.finishes) (simp_all add: defs)
  ultimately have "park_reach ad ordered b t t5" by (meson park_reach.intros)
  moreover obtain w' where "park_reach ad ordered b t5 (t5\<lparr>tt_state := w', tt_writes := []\<rparr>)" using writes_drain by blast
  ultimately have "park_reach ad ordered b t (t5\<lparr>tt_state := w', tt_writes := []\<rparr>)" by (blast intro: park_reach_trans)
  moreover have "tt_phase t5 = PhaseFinished" "\<not> tt_confirming t5" "\<not> tt_interacting t5" by (simp_all add: defs)
  ultimately show ?thesis by (intro exI [of _ "t5\<lparr>tt_state := w', tt_writes := []\<rparr>"]) simp
qed

section \<open>Properties\<close>


text \<open>C22. No write slips past the client. At every moment of a turn the confirmations shown are exactly the ones
  the tools asked for, in order, but for the first request of the one tool a verdict has already approved; the
  bridge itself approves that one request and no other; and every frame it sends carries the turn's request id.\<close>

theorem every_confirmation_shown:
  assumes "park_reach ad ordered b (turn_tasks_new b pre w) t"
  shows "filter_map shown_confirmation (tt_sent t) = must_show pre (tt_taken t) \<and>
         count_list (tt_given t) Approved = (if waived pre (tt_taken t) then 1 else 0) \<and>
         list_all (envelope_ok (Some (be_request b))) (tt_sent t)"
proof -
  have "bridge_inv b pre t" by (rule reach_inv [where I = "bridge_inv b pre", OF assms turn_tasks_new_bridge bridge_inv_step])
  then show ?thesis by (simp add: bridge_inv_def)
qed

text \<open>When the spawned writes land in the order they were spawned, a turn that is over, finished or aborted, has
  retired its durable records: once its bridges have ended and its writes have landed, the session carries neither
  a pending confirmation nor a pending interaction.\<close>

theorem ordered_writes_retire_records:
  assumes "park_reach ad True b (turn_tasks_new b pre w) t" and "\<not> tt_confirming t" "\<not> tt_interacting t" "tt_writes t = []"
    and "session_meta w (be_session b) ''pendingConfirmation'' = None" "session_meta w (be_session b) ''pendingInteraction'' = None"
  shows "session_meta (tt_state t) (be_session b) ''pendingConfirmation'' = None \<and>
         session_meta (tt_state t) (be_session b) ''pendingInteraction'' = None"
proof -
  have start: "session_meta w (be_session b) (record_key k) = None" for k using assms(5,6) by (cases k) simp_all
  have inv: "record_inv b t" by (rule reach_inv [where I = "record_inv b", OF assms(1) turn_tasks_new_record [OF start] record_inv_step])
  then have "final_record b k t = None" for k using assms(2,3) by (cases k) (simp_all add: record_inv_def)
  from this [of ConfirmationPark] this [of InteractionPark] assms(4) show ?thesis
    by (simp add: final_record_def spawned_writes_def)
qed

section \<open>Witnesses\<close>

definition demo_bridge :: bridge_env where
  "demo_bridge =
     \<lparr>be_confirmation = True, be_patterns = True, be_persist = True, be_session = ''s1'', be_request = ''r1'', be_responder = 1,
      be_outcome = 2\<rparr>"

definition demo_tasks :: "tables turn_tasks" where
  "demo_tasks = turn_tasks_new demo_bridge (Some ''pay'') (app_state_new tables_default)"

text \<open>The pre-approved tool asks twice, and the turn is aborted.\<close>

definition demo_asked :: "tables turn_tasks" where
  "demo_asked = demo_tasks\<lparr>tt_requests := [Confirm ''pay'' JNull ''p'', Confirm ''pay'' JNull ''q'']\<rparr>"

definition demo_taken :: "tables turn_tasks" where
  "demo_taken =
     confirm_step demo_bridge 0 0 (Confirm ''pay'' JNull ''q'')
       ((confirm_step demo_bridge 0 0 (Confirm ''pay'' JNull ''p'')
          (demo_asked\<lparr>tt_requests := [Confirm ''pay'' JNull ''q''], tt_taken := tt_taken demo_asked @ [Confirm ''pay'' JNull ''p'']\<rparr>))
        \<lparr>tt_requests := [], tt_taken := [Confirm ''pay'' JNull ''p'', Confirm ''pay'' JNull ''q'']\<rparr>)"

lemmas demo_park_defs = demo_tasks_def demo_asked_def demo_taken_def demo_bridge_def turn_tasks_new_def park_defs

lemma demo_taken_reached: "park_reach (memory_adapter (\<lambda>_. 0) (\<lambda>_. 0)) ordered demo_bridge demo_tasks demo_taken"
proof -
  let ?ad = "memory_adapter (\<lambda>_. 0) (\<lambda>_. 0)"
  let ?a = "demo_tasks\<lparr>tt_requests := tt_requests demo_tasks @ [Confirm ''pay'' JNull ''p'']\<rparr>"
  let ?b = "?a\<lparr>tt_requests := tt_requests ?a @ [Confirm ''pay'' JNull ''q'']\<rparr>"
  let ?c = "confirm_step demo_bridge 0 0 (Confirm ''pay'' JNull ''p'')
          (demo_asked\<lparr>tt_requests := [Confirm ''pay'' JNull ''q''], tt_taken := tt_taken demo_asked @ [Confirm ''pay'' JNull ''p'']\<rparr>)"
  have b: "?b = demo_asked" by (simp add: demo_park_defs)
  have "park_step ?ad ordered demo_bridge demo_tasks ?a" by (rule park_step.asks) (simp_all add: demo_park_defs)
  moreover have "park_step ?ad ordered demo_bridge ?a demo_asked"
    unfolding b [symmetric] by (rule park_step.asks) (simp_all add: demo_park_defs)
  moreover have "park_step ?ad ordered demo_bridge demo_asked ?c"
    by (rule park_step.takes_request) (simp_all add: demo_park_defs)
  moreover have "park_step ?ad ordered demo_bridge ?c demo_taken"
  proof -
    have "tt_confirming ?c" "tt_requests ?c = [Confirm ''pay'' JNull ''q'']" "tt_taken ?c = [Confirm ''pay'' JNull ''p'']"
      by (simp_all add: demo_park_defs)
    from park_step.takes_request [OF this(1,2), of ?ad ordered demo_bridge 0 0] this(3) show ?thesis
      by (simp add: demo_taken_def del: confirm_step.simps)
  qed
  ultimately show ?thesis by (meson park_reach.intros)
qed

theorem every_confirmation_shown_witness:
  "filter_map shown_confirmation (tt_sent demo_taken) = [(''pay'', ''q'')] \<and> tt_given demo_taken = [Approved]"
  using every_confirmation_shown [OF demo_taken_reached [unfolded demo_tasks_def]]
  by (auto simp: must_show_def remove_first_def demo_park_defs)

lemma demo_finishes:
  obtains t where "park_reach (memory_adapter (\<lambda>_. 0) (\<lambda>_. 0)) True demo_bridge demo_tasks t" "tt_phase t = PhaseFinished"
    "\<not> tt_confirming t" "\<not> tt_interacting t" "tt_writes t = []"
proof -
  let ?ad = "memory_adapter (\<lambda>_. 0) (\<lambda>_. 0)"
  obtain t where t: "park_reach ?ad True demo_bridge demo_taken t"
    "tt_phase t = PhaseFinished \<and> \<not> tt_confirming t \<and> \<not> tt_interacting t \<and> tt_writes t = []"
    using turn_can_finish [of demo_taken ?ad True demo_bridge] by (auto simp: demo_park_defs)
  from park_reach_trans [OF t(1) demo_taken_reached] t(2) that show thesis by blast
qed


theorem ordered_writes_retire_records_witness:
  "\<exists>t. park_reach (memory_adapter (\<lambda>_. 0) (\<lambda>_. 0)) True demo_bridge demo_tasks t \<and> tt_writes t = [] \<and>
       session_meta (tt_state t) ''s1'' ''pendingConfirmation'' = None"
proof -
  obtain t where t: "park_reach (memory_adapter (\<lambda>_. 0) (\<lambda>_. 0)) True demo_bridge demo_tasks t"
    "\<not> tt_confirming t" "\<not> tt_interacting t" "tt_writes t = []"
    by (rule demo_finishes)
  have "session_meta (app_state_new tables_default) (be_session demo_bridge) k = None" for k
    by (simp add: session_meta_def state_get_session_def app_state_new_def)
  from ordered_writes_retire_records [OF t(1) [unfolded demo_tasks_def] t(2-4) this this] t show ?thesis
    by (auto simp: demo_bridge_def)
qed

end
