(* ===== verification/Telemetry.thy ===== *)
theory Telemetry
  imports Protocol
begin

text \<open>
  What a turn records about itself, \<open>rust/smooth-operator/src/telemetry.rs\<close>: the attributes of the usage of a
  turn, the key names of a tool call's arguments, and the redaction kept for hosts that log arguments.

  Parameters: the JSON parser and printer, and the ellipsis, which lies outside the modelled characters. The
  installation of the exporter is start-up code of the tracing library and is left out.
\<close>

section \<open>Usage\<close>

datatype attribute_value = AttrNat nat | AttrFloat "64 word" | AttrText string

definition f64_positive :: "64 word \<Rightarrow> bool" where
  "f64_positive w = (w \<noteq> 0 \<and> unat w < 2 ^ 63)"

definition record_turn_usage :: "turn_usage \<Rightarrow> (string \<times> attribute_value) list" where
  "record_turn_usage u =
     (if usage_estimated u then []
      else [(''gen_ai.usage.input_tokens'', AttrNat (prompt_tokens u)),
            (''gen_ai.usage.output_tokens'', AttrNat (completion_tokens u))]) @
     (case response_id u of
        Some i \<Rightarrow> if i = [] then [] else [(''gen_ai.response.id'', AttrText i)]
      | None \<Rightarrow> []) @
     (if f64_positive (cost_usd u) \<and> f64_finite (cost_usd u)
      then [(''gen_ai.usage.cost_usd'', AttrFloat (cost_usd u)),
            (''gen_ai.usage.cost_source'', AttrText (if cost_estimated u then ''estimated'' else ''gateway''))]
      else [(''smooai.gen_ai.cost_unavailable'', AttrText ''unpriced'')])"

section \<open>Tool arguments\<close>

fun argument_keys :: "json \<Rightarrow> string" where
  "argument_keys (JObj kvs) = join_str '','' (sort (map fst kvs))"
| "argument_keys JNull = []"
| "argument_keys (JArr _) = ''<array>''"
| "argument_keys _ = ''<scalar>''"

definition tool_argument_keys :: "(string \<Rightarrow> string + json) \<Rightarrow> string \<Rightarrow> string" where
  "tool_argument_keys from_str args =
     (if trim args = [] then []
      else case from_str args of Inr v \<Rightarrow> argument_keys v | Inl _ \<Rightarrow> ''<unparsed>'')"

definition secret_needles :: "string list" where
  "secret_needles =
     [''secret'', ''token'', ''password'', ''api_key'', ''apikey'', ''authorization'', ''bearer'', ''credential'',
      ''access_key'', ''private_key'']"

definition is_secret_key :: "string \<Rightarrow> bool" where
  "is_secret_key key = list_ex (contains_str (to_ascii_lowercase key)) secret_needles"

fun redact_json :: "json \<Rightarrow> json" where
  "redact_json (JObj kvs) = JObj (map (\<lambda>(k, v). (k, if is_secret_key k then JStr ''[REDACTED]'' else redact_json v)) kvs)"
| "redact_json (JArr vs) = JArr (map redact_json vs)"
| "redact_json v = v"

definition MAX_TOOL_ARGS_LEN :: nat where "MAX_TOOL_ARGS_LEN = 2048"

text \<open>The longest prefix of at most so many bytes: stepping back from a byte index to a character boundary.\<close>

fun take_bytes :: "nat \<Rightarrow> string \<Rightarrow> string" where
  "take_bytes n [] = []"
| "take_bytes n (c # cs) = (if length (utf8_char c) \<le> n then c # take_bytes (n - length (utf8_char c)) cs else [])"

definition truncate_bytes :: "string \<Rightarrow> string \<Rightarrow> nat \<Rightarrow> string" where
  "truncate_bytes ellipsis s n = (if length (utf8_bytes s) \<le> n then s else take_bytes n s @ ellipsis)"

definition redact_tool_arguments :: "(string \<Rightarrow> string + json) \<Rightarrow> (json \<Rightarrow> string) \<Rightarrow> string \<Rightarrow> string \<Rightarrow> string" where
  "redact_tool_arguments from_str print ellipsis args =
     truncate_bytes ellipsis (case from_str args of Inr v \<Rightarrow> print (redact_json v) | Inl _ \<Rightarrow> args) MAX_TOOL_ARGS_LEN"

section \<open>Lemmas\<close>

text \<open>Two values that differ at most below secret keys.\<close>

fun agree_public :: "json \<Rightarrow> json \<Rightarrow> bool" where
  "agree_public (JObj kvs) (JObj kvs') =
     list_all2 (\<lambda>(k, v) (k', v'). k = k' \<and> (is_secret_key k \<or> agree_public v v')) kvs kvs'"
| "agree_public (JArr vs) (JArr vs') = list_all2 agree_public vs vs'"
| "agree_public v v' = (v = v')"

lemma redact_agree: "agree_public v v' \<Longrightarrow> redact_json v = redact_json v'"
proof (induction v v' rule: agree_public.induct)
  case (1 kvs kvs')
  let ?f = "\<lambda>(k, v). (k, if is_secret_key k then JStr ''[REDACTED]'' else redact_json v)"
  have "list_all2 (\<lambda>x y. ?f x = ?f y) kvs kvs'"
    by (rule list.rel_mono_strong [OF 1(2) [unfolded agree_public.simps]]) (use 1(1) in \<open>force split: prod.splits\<close>)
  then show ?case by (simp add: list_all2_conv_all_nth list_eq_iff_nth_eq)
next
  case (2 vs vs')
  then show ?case by (auto simp: list_all2_conv_all_nth list_eq_iff_nth_eq)
qed simp_all

lemma redact_agrees_itself: "agree_public v (redact_json v)"
proof (induction v rule: redact_json.induct)
  case (1 kvs)
  then show ?case by (auto simp: list_all2_map2 split_beta intro!: list.rel_refl_strong)
next
  case (2 vs)
  then show ?case by (auto simp: list_all2_map2 intro!: list.rel_refl_strong)
qed auto

lemma take_bytes_bound: "length (utf8_bytes (take_bytes n s)) \<le> n"
  by (induction n s rule: take_bytes.induct) (auto simp: utf8_bytes_def)

lemma take_bytes_prefix: "prefix (take_bytes n s) s"
  by (induction n s rule: take_bytes.induct) auto

text \<open>The cap holds for the kept text; the ellipsis comes on top of it.\<close>

lemma truncate_bytes_bound:
  "length (utf8_bytes (truncate_bytes ellipsis s n)) \<le> n + length (utf8_bytes ellipsis)"
  using take_bytes_bound [of n s] by (auto simp: truncate_bytes_def utf8_bytes_def)

text \<open>A tool span carries nothing of the argument values: calls with the same top-level keys are recorded alike.\<close>

lemma argument_keys_values: "map fst kvs = map fst kvs' \<Longrightarrow> argument_keys (JObj kvs) = argument_keys (JObj kvs')"
  by simp

section \<open>Properties\<close>


text \<open>Usage is measured or absent: token counts appear exactly when they were measured, a cost exactly when it is a
  positive finite number, with its source beside it, and a turn without such a cost says so instead.\<close>

theorem usage_measured_or_absent:
  "((''gen_ai.usage.input_tokens'', AttrNat n) \<in> set (record_turn_usage u) \<longleftrightarrow> \<not> usage_estimated u \<and> n = prompt_tokens u) \<and>
   ((\<exists>c. (''gen_ai.usage.cost_usd'', AttrFloat c) \<in> set (record_turn_usage u)) \<longleftrightarrow>
      f64_positive (cost_usd u) \<and> f64_finite (cost_usd u)) \<and>
   ((\<exists>c. (''gen_ai.usage.cost_usd'', c) \<in> set (record_turn_usage u)) \<longleftrightarrow>
      (\<exists>s. (''gen_ai.usage.cost_source'', s) \<in> set (record_turn_usage u))) \<and>
   ((\<exists>c. (''gen_ai.usage.cost_usd'', c) \<in> set (record_turn_usage u)) \<longleftrightarrow>
      (''smooai.gen_ai.cost_unavailable'', AttrText ''unpriced'') \<notin> set (record_turn_usage u)) \<and>
   distinct (map fst (record_turn_usage u))"
  by (auto simp: record_turn_usage_def split: option.split)

section \<open>Witnesses\<close>


end
