(* ===== verification/Streaming.thy ===== *)
theory Streaming
  imports Parking Telemetry
begin

text \<open>
  The streaming turn of the service, \<open>rust/smooth-operator-server/src/runner.rs\<close>: how the engine's events
  become frames, how the agent of a turn is put together (prompt, history, tools, hooks), and what the turn
  persists and hands back. The demo tool is \<open>demo_tools.rs\<close>, the context given to a host's tools
  \<open>tool_provider.rs\<close>.

  The engine is third-party code. A turn sees of it the events it sends, the searches it made, the tool calls
  that reached the auth gate and its last message or its failure: an arbitrary function of the agent it was
  given. Its tool registry is a parameter with the documented laws \<open>registry_ok\<close>. The bridges of a parked turn
  are in \<open>Parking\<close>; the frames below are those of the translator.
\<close>

section \<open>The executor\<close>

definition durable_requested :: "string option \<Rightarrow> bool" where
  "durable_requested v = (map_option (\<lambda>s. to_ascii_lowercase (trim s)) v \<in> Some ` set [''1'', ''true'', ''on'', ''yes''])"

text \<open>The executor of a turn, and whether the request for a durable one is reported as unmet.\<close>

datatype 'x executor = Injected 'x | InProcess

definition turn_executor :: "'x option \<Rightarrow> string option \<Rightarrow> 'x executor \<times> bool" where
  "turn_executor injected env =
     (case injected of Some x \<Rightarrow> (Injected x, False) | None \<Rightarrow> (InProcess, durable_requested env))"

section \<open>The translator\<close>

datatype agent_event =
    TokenDelta string
  | ReasoningDelta string
  | ToolCallStart nat string string
  | ToolCallComplete nat string string bool nat
  | PhaseStart string
  | Completed turn_usage
  | OtherEvent

record tool_span_record =
  ts_tool_name :: string
  ts_arguments :: string
  ts_duration_ms :: nat
  ts_is_error :: bool
  ts_error :: "string option"

record translator =
  tl_invoked_search :: bool
  tl_usage :: "turn_usage option"
  tl_pending_args :: "nat \<times> string \<rightharpoonup> string"
  tl_tool_records :: "tool_span_record list"
  tl_suppressor :: marker_suppressor
  tl_reply :: string
  tl_reasoning :: string
  tl_answer_started :: bool

definition translator_new :: translator where
  "translator_new =
     \<lparr>tl_invoked_search = False, tl_usage = None, tl_pending_args = Map.empty, tl_tool_records = [],
      tl_suppressor = suppressor_new, tl_reply = [], tl_reasoning = [], tl_answer_started = False\<rparr>"

definition token_frames :: "int \<Rightarrow> string \<Rightarrow> string \<Rightarrow> json list" where
  "token_frames ms rid safe = (if safe = [] then [] else [stream_token ms rid safe])"

definition raw_response :: "string \<Rightarrow> (string \<times> json) list \<Rightarrow> json" where
  "raw_response key body = JObj [(''rawResponse'', JObj [(key, JObj body)])]"

fun translate :: "int \<Rightarrow> string \<Rightarrow> agent_event \<Rightarrow> translator \<Rightarrow> translator \<times> json list" where
  "translate ms rid (TokenDelta content) t =
     (case suppressor_push content (tl_suppressor t) of (safe, m) \<Rightarrow>
        (t\<lparr>tl_answer_started := True, tl_reply := tl_reply t @ content, tl_suppressor := m\<rparr>, token_frames ms rid safe))"
| "translate ms rid (ReasoningDelta content) t =
     (if content = [] then (t, [])
      else (t\<lparr>tl_reasoning := tl_reasoning t @ content\<rparr>, [stream_reasoning ms rid content]))"
| "translate ms rid (ToolCallStart it tool args) t =
     (t\<lparr>tl_invoked_search := (tl_invoked_search t \<or> tool = ''knowledge_search''),
        tl_pending_args := (tl_pending_args t)((it, tool) \<mapsto> args)\<rparr>,
      [stream_chunk ms rid tool (raw_response ''toolCall'' [(''name'', JStr tool), (''arguments'', JStr args)])])"
| "translate ms rid (ToolCallComplete it tool res is_error duration) t =
     (t\<lparr>tl_pending_args := (tl_pending_args t)((it, tool) := None),
        tl_tool_records := tl_tool_records t @
          [\<lparr>ts_tool_name = tool, ts_arguments = unwrap_or (tl_pending_args t (it, tool)) [], ts_duration_ms = duration,
            ts_is_error = is_error, ts_error = (if is_error then Some res else None)\<rparr>]\<rparr>,
      [stream_chunk ms rid tool
         (raw_response ''toolResult'' [(''name'', JStr tool), (''isError'', JBool is_error), (''result'', JStr res)])])"
| "translate ms rid (PhaseStart phase) t = (t, [stream_chunk ms rid phase (JObj [])])"
| "translate ms rid (Completed u) t = (t\<lparr>tl_usage := Some u\<rparr>, [])"
| "translate ms rid OtherEvent t = (t, [])"

fun translate_all :: "string \<Rightarrow> (int \<times> agent_event) list \<Rightarrow> translator \<Rightarrow> translator \<times> json list" where
  "translate_all rid [] t = (t, [])"
| "translate_all rid ((ms, e) # es) t =
     (case translate ms rid e t of (t1, fs) \<Rightarrow> case translate_all rid es t1 of (t2, gs) \<Rightarrow> (t2, fs @ gs))"

text \<open>The channel has closed: the held-back text goes out unless it was the trailer.\<close>

definition translator_run :: "string \<Rightarrow> int \<Rightarrow> (int \<times> agent_event) list \<Rightarrow> translator \<times> json list" where
  "translator_run rid ms es =
     (case translate_all rid es translator_new of (t, fs) \<Rightarrow>
        (t, fs @ token_frames ms rid (suppressor_finish (tl_suppressor t))))"

section \<open>The preamble\<close>

definition PREAMBLE_MAX_TOKENS :: nat where "PREAMBLE_MAX_TOKENS = 64"

definition preamble_llm :: "bool \<Rightarrow> string option \<Rightarrow> llm_config \<Rightarrow> llm_config option" where
  "preamble_llm provider_injected env llm =
     (if provider_injected then None
      else map_option (\<lambda>m. llm\<lparr>llm_model := m, llm_max_tokens := PREAMBLE_MAX_TOKENS\<rparr>)
             (option_filter (\<lambda>m. m \<noteq> []) (map_option trim env)))"

text \<open>What the fast model answered, and whether the answer proper had started by then.\<close>

definition preamble_frames :: "int \<Rightarrow> string \<Rightarrow> string + string \<Rightarrow> bool \<Rightarrow> json list" where
  "preamble_frames ms rid resp answer_started =
     (case resp of
        Inr content \<Rightarrow> if trim content \<noteq> [] \<and> \<not> answer_started then [stream_preamble ms rid (trim content)] else []
      | Inl _ \<Rightarrow> [])"

section \<open>Spans\<close>

record tool_span =
  span_tool :: string
  span_argument_keys :: string
  span_duration_ms :: nat
  span_is_error :: bool
  span_status_message :: "string option"

definition tool_spans :: "(string \<Rightarrow> string + json) \<Rightarrow> string set \<Rightarrow> tool_span_record list \<Rightarrow> tool_span list" where
  "tool_spans from_str self_traced recs =
     map (\<lambda>r. \<lparr>span_tool = ts_tool_name r, span_argument_keys = tool_argument_keys from_str (ts_arguments r),
               span_duration_ms = ts_duration_ms r, span_is_error = ts_is_error r, span_status_message = ts_error r\<rparr>)
       (filter (\<lambda>r. ts_tool_name r \<notin> self_traced) recs)"

section \<open>Prompts\<close>

text \<open>The two built-in prompts are the host's texts; the sections are put in order by the composer.\<close>

definition render_workflow_prompt_section :: "string \<Rightarrow> conversation_workflow \<Rightarrow> string option \<Rightarrow> string" where
  "render_workflow_prompt_section dash w cur =
     (case workflow_prompt_section w cur of
        None \<Rightarrow> []
      | Some (aim, number, of_n, s) \<Rightarrow>
          ''<ConversationWorkflow>'' @ newline @ ''GOAL: '' @ aim @ newline @ newline @
          ''CURRENT STEP ('' @ show_nat number @ ''/'' @ show_nat of_n @ ''): '' @ step_id s @ newline @
          ''INTENT: '' @ intent s @ newline @ ''CRITERIA: '' @ criteria s @ newline @ newline @
          ''Focus this turn on the CURRENT STEP: pursue the INTENT directly in this reply '' @ dash @
          '' ask the step'' @ [CHR 0x27] @ ''s question now. The user has already agreed to be here; never re-ask for '' @
          ''permission, re-confirm readiness, or repeat a question they have already answered '' @ dash @
          '' acknowledge briefly and move forward. Stay conversational; the workflow advances once the CRITERIA are met.'' @
          newline @ ''</ConversationWorkflow>'')"

section \<open>Tools\<close>

text \<open>The demo write tool.\<close>

definition issue_refund :: "string \<Rightarrow> json \<Rightarrow> string" where
  "issue_refund dash args =
     ''Refund issued for order '' @
     unwrap_or (option_filter (\<lambda>s. s \<noteq> []) (map_option trim (get_str args ''order_id''))) ''your order'' @
     ''. It will appear in 3'' @ dash @ ''5 business days.''"

text \<open>What a host's tool provider is told.\<close>

record tool_provider_context =
  tc_org_id :: "string option"
  tc_access :: access_context
  tc_conversation_id :: "string option"
  tc_gateway_key :: "string option"
  tc_tool_specific_config :: "string \<rightharpoonup> json"
  tc_directive_sink :: bool
  tc_images :: "user_image list"
  tc_files :: "user_file list"

definition tool_context_new :: "string option \<Rightarrow> access_context \<Rightarrow> tool_provider_context" where
  "tool_context_new org acc =
     \<lparr>tc_org_id = org, tc_access = acc, tc_conversation_id = None, tc_gateway_key = None, tc_tool_specific_config = Map.empty,
      tc_directive_sink = False, tc_images = [], tc_files = []\<rparr>"

definition turn_tool_context :: "turn_request \<Rightarrow> tool_provider_context" where
  "turn_tool_context tr =
     (tool_context_new (Some (tr_org_id tr)) (tr_access tr))
       \<lparr>tc_conversation_id := Some (tr_conversation_id tr), tc_directive_sink := True, tc_images := tr_images tr,
        tc_files := tr_files tr, tc_gateway_key := tr_gateway_key tr, tc_tool_specific_config := tr_tool_configs tr\<rparr>"

datatype turn_hook = HostHook nat | AuthGate auth_gate_hook | ConfirmationHook "string list"

text \<open>The engine's registry: tools by name, eager or deferred, and hooks in the order they are asked.\<close>

record 'r registry_lib =
  rl_new :: 'r
  rl_register :: "string \<Rightarrow> 'r \<Rightarrow> 'r"
  rl_register_deferred :: "string \<Rightarrow> 'r \<Rightarrow> 'r"
  rl_retain :: "(string \<Rightarrow> bool) \<Rightarrow> 'r \<Rightarrow> 'r"
  rl_add_hook :: "turn_hook \<Rightarrow> 'r \<Rightarrow> 'r"
  rl_eager :: "'r \<Rightarrow> string set"
  rl_deferred :: "'r \<Rightarrow> string set"
  rl_hooks :: "'r \<Rightarrow> turn_hook list"

definition registry_ok :: "'r registry_lib \<Rightarrow> bool" where
  "registry_ok lib \<longleftrightarrow>
     rl_eager lib (rl_new lib) = {} \<and> rl_deferred lib (rl_new lib) = {} \<and> rl_hooks lib (rl_new lib) = [] \<and>
     (\<forall>n r. rl_eager lib (rl_register lib n r) = insert n (rl_eager lib r) \<and>
            rl_deferred lib (rl_register lib n r) = rl_deferred lib r \<and> rl_hooks lib (rl_register lib n r) = rl_hooks lib r) \<and>
     (\<forall>n r. rl_eager lib (rl_register_deferred lib n r) = rl_eager lib r \<and>
            rl_deferred lib (rl_register_deferred lib n r) = insert n (rl_deferred lib r) \<and>
            rl_hooks lib (rl_register_deferred lib n r) = rl_hooks lib r) \<and>
     (\<forall>p r. rl_eager lib (rl_retain lib p r) = {n \<in> rl_eager lib r. p n} \<and>
            rl_deferred lib (rl_retain lib p r) = rl_deferred lib r \<and> rl_hooks lib (rl_retain lib p r) = rl_hooks lib r) \<and>
     (\<forall>h r. rl_eager lib (rl_add_hook lib h r) = rl_eager lib r \<and> rl_deferred lib (rl_add_hook lib h r) = rl_deferred lib r \<and>
            rl_hooks lib (rl_add_hook lib h r) = rl_hooks lib r @ [h])"

text \<open>The agent the engine is given, and what the turn sees of its run.\<close>

record 'r agent_setup =
  as_prompt :: string
  as_llm :: llm_config
  as_max_iterations :: nat
  as_access :: access_context
  as_prior :: "engine_message list"
  as_model_ceiling :: "nat option"
  as_metadata :: "(string \<times> json) list option"
  as_memory :: bool
  as_user_images :: "(string \<times> string option) list"
  as_tools :: 'r
  as_user_message :: string

record 'st engine_turn =
  et_events :: "(int \<times> agent_event) list"
  et_searches :: "json list"
  et_gated_calls :: "string list"
  et_directive :: json
  et_effect :: "'st \<Rightarrow> 'st"
  et_answer :: "string + string option"

text \<open>The seams of the runner. The prompts and the trailer section are texts of the server; \<open>rv_extensions\<close> lists the eager
  and the deferred tools of the extensions loaded for the turn.\<close>

record ('st, 'e, 'r) runner_env =
  rv_adapter :: "'st adapter"
  rv_knowledge :: "access_context \<Rightarrow> string \<Rightarrow> nat \<Rightarrow> 'e + knowledge_result list"
  rv_memory :: "access_context \<Rightarrow> bool"
  rv_reranker :: "rerank_fn option"
  rv_kinds :: interaction_registry
  rv_host_kind_tool :: "interaction_kind \<Rightarrow> string"
  rv_tool_provider :: "(tool_provider_context \<Rightarrow> string list) option"
  rv_traces_own :: bool
  rv_tool_hooks :: nat
  rv_extensions :: "(string list \<times> string list) option"
  rv_registry :: "'r registry_lib"
  rv_agent :: "'r agent_setup \<Rightarrow> 'st engine_turn"
  rv_judge :: "judge_provider \<Rightarrow> string \<Rightarrow> string + string"
  rv_composer :: "(prompt_sections \<Rightarrow> string list) option"
  rv_chat_prompt :: string
  rv_demo_prompt :: string
  rv_trailer_section :: string
  rv_suggestions_de :: "string \<Rightarrow> json list option"
  rv_from_str :: "string \<Rightarrow> string + json"
  rv_model_ceiling :: "nat option"
  rv_dash :: string
  rv_ellipsis :: string

text \<open>The name of a kind's raise tool: the two kinds of the repository, or a host's own.\<close>

definition raise_tool_name :: "('st, 'e, 'r) runner_env \<Rightarrow> interaction_kind \<Rightarrow> string" where
  "raise_tool_name rv k =
     (if ik_kind k = ''identity_intake'' then ''request_identity_intake''
      else if ik_kind k = ''choices'' then ''request_choices'' else rv_host_kind_tool rv k)"

definition interaction_tools :: "('st, 'e, 'r) runner_env \<Rightarrow> string list \<Rightarrow> string list" where
  "interaction_tools rv capabilities =
     map (raise_tool_name rv) (rv_kinds rv) @
     (if list_ex (\<lambda>k. ik_capability k \<notin> set capabilities) (rv_kinds rv) then [''submit_interaction''] else [])"

text \<open>The tools of a turn in the order they are registered, and those a host traces itself.\<close>

definition eager_tools :: "('st, 'e, 'r) runner_env \<Rightarrow> turn_request \<Rightarrow> string list" where
  "eager_tools rv tr =
     [''knowledge_search''] @ (if tr_demo_tools tr then [''issue_refund''] else []) @
     interaction_tools rv (tr_capabilities tr) @
     (case rv_tool_provider rv of Some provide \<Rightarrow> provide (turn_tool_context tr) | None \<Rightarrow> []) @
     (case rv_extensions rv of Some (eager, _) \<Rightarrow> eager | None \<Rightarrow> [])"

definition self_traced_tools :: "('st, 'e, 'r) runner_env \<Rightarrow> turn_request \<Rightarrow> string set" where
  "self_traced_tools rv tr =
     (case rv_tool_provider rv of
        Some provide \<Rightarrow> if rv_traces_own rv then set (provide (turn_tool_context tr)) else {}
      | None \<Rightarrow> {}) -
     (case rv_extensions rv of Some (eager, _) \<Rightarrow> set eager | None \<Rightarrow> {})"

definition deferred_tools :: "('st, 'e, 'r) runner_env \<Rightarrow> turn_request \<Rightarrow> string list" where
  "deferred_tools rv tr =
     (case rv_extensions rv of
        Some (_, deferred) \<Rightarrow>
          filter (\<lambda>n. case tr_enabled_tools tr of None \<Rightarrow> True | Some ids \<Rightarrow> n \<in> set ids) deferred
      | None \<Rightarrow> [])"

definition turn_hooks :: "('st, 'e, 'r) runner_env \<Rightarrow> turn_request \<Rightarrow> turn_hook list" where
  "turn_hooks rv tr =
     map HostHook [0..<rv_tool_hooks rv] @
     (case tr_auth_gate tr of Some g \<Rightarrow> [AuthGate g] | None \<Rightarrow> []) @
     (case tr_confirmation tr of
        Some cf \<Rightarrow> if cf_tool_patterns cf \<noteq> [] then [ConfirmationHook (cf_tool_patterns cf)] else []
      | None \<Rightarrow> [])"

definition turn_registry :: "('st, 'e, 'r) runner_env \<Rightarrow> turn_request \<Rightarrow> 'r" where
  "turn_registry rv tr =
     (let lib = rv_registry rv;
          r1 = fold (rl_register lib) (eager_tools rv tr) (rl_new lib);
          r2 = fold (rl_register_deferred lib) (deferred_tools rv tr) r1;
          r3 = (case tr_enabled_tools tr of Some ids \<Rightarrow> rl_retain lib (\<lambda>n. n \<in> set ids) r2 | None \<Rightarrow> r2)
      in fold (rl_add_hook lib) (turn_hooks rv tr) r3)"

section \<open>History and prompt\<close>

definition load_prior :: "'st adapter \<Rightarrow> string \<Rightarrow> 'st \<Rightarrow> string + engine_message list" where
  "load_prior ad cid st =
     (case ad_list_messages ad st (message_query_new cid MAX_PRIOR_MESSAGES) of
        Inl e \<Rightarrow> Inl e
      | Inr page \<Rightarrow> Inr (prior_messages_for_replay (page_messages page)))"

definition persist_runner_message ::
  "'st adapter \<Rightarrow> string \<Rightarrow> int \<Rightarrow> string \<Rightarrow> direction \<Rightarrow> string \<Rightarrow> string list \<Rightarrow> 'st \<Rightarrow> string + message \<times> 'st" where
  "persist_runner_message ad i now cid d body urls st =
     ad_append_message ad (new_message i now cid d
       (if urls = [] then content_from_text body else content_from_text_and_images body urls)) st"

definition turn_prompt :: "('st, 'e, 'r) runner_env \<Rightarrow> turn_request \<Rightarrow> engine_message list \<Rightarrow> prompt_sections" where
  "turn_prompt rv tr prior =
     \<lparr>sec_base = unwrap_or (tr_system_prompt tr) (if tr_demo_tools tr then rv_demo_prompt rv else rv_chat_prompt rv),
      sec_base_source = tr_base_source tr,
      sec_greeting = (if prior = [] then tr_greeting_section tr else None),
      sec_workflow =
        map_option (\<lambda>ws. render_workflow_prompt_section (rv_dash rv) (ws_workflow ws) (ws_current_step_id ws)) (tr_workflow tr),
      sec_skill = tr_skill_section tr, sec_suggested_replies = rv_trailer_section rv, sec_agent = tr_agent tr,
      sec_access = tr_access tr, sec_session_authenticated = tr_session_authenticated tr,
      sec_conversation_id = tr_conversation_id tr\<rparr>"

definition turn_agent :: "('st, 'e, 'r) runner_env \<Rightarrow> turn_request \<Rightarrow> engine_message list \<Rightarrow> 'r agent_setup" where
  "turn_agent rv tr prior =
     \<lparr>as_prompt = prompt_render (rv_composer rv) (turn_prompt rv tr prior), as_llm = tr_llm tr,
      as_max_iterations = tr_max_iterations tr, as_access = tr_access tr, as_prior = prior,
      as_model_ceiling = rv_model_ceiling rv, as_metadata = tr_request_metadata tr,
      as_memory = rv_memory rv (tr_access tr), as_user_images = map (\<lambda>i. (ui_url i, ui_detail i)) (tr_images tr),
      as_tools = turn_registry rv tr, as_user_message = tr_message tr\<rparr>"

section \<open>The turn\<close>

text \<open>The search tool of the turn, over the requester's reader.\<close>

definition turn_search_tool :: "('st, 'e, 'r) runner_env \<Rightarrow> turn_request \<Rightarrow> 'e search_tool_state" where
  "turn_search_tool rv tr =
     (let t = with_result_sink (tool_new (rv_knowledge rv (tr_access tr))) \<lparr>sink_results = [], sink_poisoned = False\<rparr>
      in case rv_reranker rv of Some r \<Rightarrow> with_reranker t r | None \<Rightarrow> t)"

definition turn_citations :: "('st, 'e, 'r) runner_env \<Rightarrow> turn_request \<Rightarrow> json list \<Rightarrow> citation list" where
  "turn_citations rv tr calls =
     collect_citations (rv_ellipsis rv)
       (case rv_knowledge rv (tr_access tr) (tr_message tr) AUTO_CONTEXT_LIMIT of Inr rs \<Rightarrow> rs | Inl _ \<Rightarrow> [])
       (case tool_sink (run_searches calls (turn_search_tool rv tr)) of Some s \<Rightarrow> sink_results s | None \<Rightarrow> [])"

definition final_text :: "string option \<Rightarrow> translator \<Rightarrow> string" where
  "final_text last_content t =
     (case option_filter (\<lambda>c. trim c \<noteq> []) last_content of
        Some c \<Rightarrow> c
      | None \<Rightarrow> if trim (tl_reply t) \<noteq> [] then tl_reply t else tl_reasoning t)"

definition turn_chips :: "workflow_start option \<Rightarrow> string list \<Rightarrow> string list" where
  "turn_chips ws suggested =
     (case Option.bind ws (\<lambda>w. Option.bind (resolve_current_step (ws_workflow w) (ws_current_step_id w)) suggested_replies) of
        Some chips \<Rightarrow> if chips \<noteq> [] then chips else suggested
      | None \<Rightarrow> suggested)"

text \<open>The gate after the calls that reached it: the refused tool is what the end of the turn offers a code for.\<close>

definition gate_after :: "auth_gate_hook option \<Rightarrow> string list \<Rightarrow> auth_gate_hook option" where
  "gate_after gate calls = map_option (\<lambda>g. gate_run g calls) gate"

record 'st turn_run =
  run_result :: "string + streamed_turn"
  run_store :: 'st
  run_frames :: "json list"
  run_invoked_search :: bool
  run_usage_attributes :: "(string \<times> attribute_value) list"
  run_tool_spans :: "tool_span list"
  run_gate :: "auth_gate_hook option"

definition turn_failed :: "string \<Rightarrow> 'st \<Rightarrow> json list \<Rightarrow> auth_gate_hook option \<Rightarrow> 'st turn_run" where
  "turn_failed e st fs gate =
     \<lparr>run_result = Inl e, run_store = st, run_frames = fs, run_invoked_search = False, run_usage_attributes = [],
      run_tool_spans = [], run_gate = gate\<rparr>"

text \<open>
  After the agent has answered: the spans, the reply without its trailer, its record when it is not empty, and
  the result. A reply that cannot be persisted fails the turn.
\<close>

definition complete_turn ::
  "('st, 'e, 'r) runner_env \<Rightarrow> turn_request \<Rightarrow> turn_stamps \<Rightarrow> 'st engine_turn \<Rightarrow> string option \<Rightarrow> translator \<Rightarrow> json list
    \<Rightarrow> 'st \<Rightarrow> 'st turn_run" where
  "complete_turn rv tr stamps et last_content t fs st =
     (let usage_attributes = (case tl_usage t of Some u \<Rightarrow> record_turn_usage u | None \<Rightarrow> []);
          spans = tool_spans (rv_from_str rv) (self_traced_tools rv tr) (tl_tool_records t)
      in case extract_suggested_replies (rv_suggestions_de rv) (final_text last_content t) of
        (answer_text, suggested) \<Rightarrow>
          let chips = turn_chips (tr_workflow tr) suggested;
              next_step = map_option (\<lambda>w. judge_next_step (map_option (rv_judge rv) (tr_judge tr)) (ws_workflow w)
                                             (ws_current_step_id w) (tr_message tr) answer_text) (tr_workflow tr);
              turn_over = (\<lambda>mid st. \<lparr>run_result = Inr \<lparr>st_message_id = mid, st_reply = answer_text,
                                st_suggested_next_actions = chips, st_citations = turn_citations rv tr (et_searches et),
                                st_usage = tl_usage t, st_directive = (if et_directive et = JNull then None else Some (et_directive et)),
                                st_next_step_id = next_step\<rparr>,
                              run_store = st, run_frames = fs, run_invoked_search = tl_invoked_search t,
                              run_usage_attributes = usage_attributes, run_tool_spans = spans,
                              run_gate = gate_after (tr_auth_gate tr) (et_gated_calls et)\<rparr>)
          in if answer_text = [] then turn_over (outbound_id stamps) st
             else case persist_runner_message (rv_adapter rv) (outbound_id stamps) (outbound_at stamps) (tr_conversation_id tr)
                         Outbound answer_text [] st of
                    Inl e \<Rightarrow> (turn_failed e st fs (gate_after (tr_auth_gate tr) (et_gated_calls et)))
                             \<lparr>run_usage_attributes := usage_attributes, run_tool_spans := spans\<rparr>
                  | Inr (m, st') \<Rightarrow> turn_over (msg_id m) st')"

text \<open>
  The whole turn. History is loaded before the user's message is stored, so it is exactly what came before. A
  failed agent ends the turn with its error. The translator has its frames sent either way, but on that path it is
  not awaited, so the code does not fix their order to the error frame.
\<close>

definition run_streaming_turn ::
  "('st, 'e, 'r) runner_env \<Rightarrow> turn_request \<Rightarrow> turn_stamps \<Rightarrow> int \<Rightarrow> 'st \<Rightarrow> 'st turn_run" where
  "run_streaming_turn rv tr stamps ms st =
     (case load_prior (rv_adapter rv) (tr_conversation_id tr) st of
        Inl e \<Rightarrow> turn_failed e st [] (tr_auth_gate tr)
      | Inr prior \<Rightarrow>
          (case persist_runner_message (rv_adapter rv) (inbound_id stamps) (inbound_at stamps) (tr_conversation_id tr)
                  Inbound (tr_message tr) (map ui_url (tr_images tr)) st of
             Inl e \<Rightarrow> turn_failed e st [] (tr_auth_gate tr)
           | Inr (_, st1) \<Rightarrow>
               let et = rv_agent rv (turn_agent rv tr prior);
                   (t, fs) = translator_run (tr_request_id tr) ms (et_events et);
                   st2 = et_effect et st1
               in case et_answer et of
                    Inl e \<Rightarrow> turn_failed e st2 fs (gate_after (tr_auth_gate tr) (et_gated_calls et))
                  | Inr last_content \<Rightarrow> complete_turn rv tr stamps et last_content t fs st2))"

text \<open>The task the handler spawns: the run, then the tail with the gate as the run left it.\<close>

definition turn_task ::
  "('st, 'mac) handler_env \<Rightarrow> ('st, 'e, 'r) runner_env \<Rightarrow> frame_input \<Rightarrow> turn_stamps \<Rightarrow> string \<Rightarrow> (string \<Rightarrow> string option)
    \<Rightarrow> (tail_point \<Rightarrow> bool) \<Rightarrow> turn_reservation \<Rightarrow> turn_request \<Rightarrow> 'st app_state \<Rightarrow> 'st app_state \<times> json list" where
  "turn_task he rv fi stamps mid generate raised res tr w =
     (let run = run_streaming_turn rv tr stamps (fi_now_ms fi) (storage w) in
      case finish_turn he fi mid generate raised res tr (run_gate run) (run_result run) (w\<lparr>storage := run_store run\<rparr>) of
        (w', fs) \<Rightarrow> (w', run_frames run @ fs))"

section \<open>Lemmas: the translator\<close>

text \<open>The text a frame of one type shows, and the text a delta carries.\<close>

definition frame_token :: "string \<Rightarrow> json \<Rightarrow> string option" where
  "frame_token ty f = (if get_str f ''type'' = Some ty then get_str f ''token'' else None)"

fun answer_delta :: "agent_event \<Rightarrow> string option" where
  "answer_delta (TokenDelta c) = Some c"
| "answer_delta _ = None"

fun reasoning_delta :: "agent_event \<Rightarrow> string option" where
  "reasoning_delta (ReasoningDelta c) = Some c"
| "reasoning_delta _ = None"

definition shown :: "string \<Rightarrow> json list \<Rightarrow> string" where
  "shown ty fs = concat (filter_map (frame_token ty) fs)"

lemma shown_append [simp]: "shown ty (fs @ gs) = shown ty fs @ shown ty gs"
  by (simp add: shown_def filter_map_append)

lemma frame_tokens:
  "frame_token ty (stream_token ms rid s) = (if ty = ''stream_token'' then Some s else None)"
  "frame_token ty (stream_reasoning ms rid s) = (if ty = ''stream_reasoning'' then Some s else None)"
  "ty \<noteq> ''stream_chunk'' \<Longrightarrow> frame_token ty (stream_chunk ms rid n x) = None"
  by (auto simp: frame_token_def get_str_def stream_token_def stream_reasoning_def stream_chunk_def)

lemma stream_frames_shown [simp]:
  "shown ''stream_token'' (token_frames ms rid s) = s"
  "shown ''stream_reasoning'' (token_frames ms rid s) = []"
  "shown ''stream_token'' [stream_reasoning ms rid s] = []"
  "shown ''stream_reasoning'' [stream_reasoning ms rid s] = s"
  "shown ''stream_token'' [stream_chunk ms rid n x] = []"
  "shown ''stream_reasoning'' [stream_chunk ms rid n x] = []"
  "shown ty [] = []"
  by (simp_all add: shown_def token_frames_def frame_tokens)

lemma translator_new_simps [simp]:
  "tl_reply translator_new = []" "tl_reasoning translator_new = []" "tl_suppressor translator_new = suppressor_new"
  by (simp_all add: translator_new_def)

text \<open>One event: what it shows, what it adds to the two accumulated texts, and that its frames carry the request.\<close>

lemma translate_answer:
  assumes "translate ms rid e t = (t', fs)"
  shows "shown ''stream_token'' fs = (case answer_delta e of Some d \<Rightarrow> fst (suppressor_push d (tl_suppressor t)) | None \<Rightarrow> [])"
    and "tl_suppressor t' = (case answer_delta e of Some d \<Rightarrow> snd (suppressor_push d (tl_suppressor t)) | None \<Rightarrow> tl_suppressor t)"
    and "tl_reply t' = tl_reply t @ unwrap_or (answer_delta e) []"
  by (insert assms, cases e, auto split: prod.splits if_splits)+

lemma translate_reasoning:
  assumes "translate ms rid e t = (t', fs)"
  shows "shown ''stream_reasoning'' fs = unwrap_or (reasoning_delta e) []"
    and "tl_reasoning t' = tl_reasoning t @ unwrap_or (reasoning_delta e) []"
  by (insert assms, cases e, auto split: prod.splits if_splits)+

lemma token_frames_enveloped [simp]: "list_all (envelope_ok (Some rid)) (token_frames ms rid s)"
  by (simp add: token_frames_def request_events_ok)

lemma translate_enveloped: "translate ms rid e t = (t', fs) \<Longrightarrow> list_all (envelope_ok (Some rid)) fs"
  by (cases e) (auto simp: request_events_ok split: prod.splits if_splits)

lemma translate_all_shown:
  assumes "translate_all rid es t = (t', fs)"
  shows "shown ''stream_token'' fs @ suppressor_finish (tl_suppressor t') =
           suppress_stream (filter_map answer_delta (map snd es)) (tl_suppressor t)"
  using assms
proof (induction es arbitrary: t fs)
  case (Cons x es)
  obtain ms e where x: "x = (ms, e)" by fastforce
  obtain t1 f1 where h: "translate ms rid e t = (t1, f1)" by fastforce
  obtain t2 f2 where r: "translate_all rid es t1 = (t2, f2)" by fastforce
  from Cons.prems x h r have out: "t' = t2" "fs = f1 @ f2" by simp_all
  from Cons.IH [OF r [folded out(1)]] translate_answer(1,2) [OF h] show ?case
    by (auto simp: out(2) x split: option.splits prod.splits)
qed simp

lemma translate_all_texts:
  assumes "translate_all rid es t = (t', fs)"
  shows "tl_reply t' = tl_reply t @ concat (filter_map answer_delta (map snd es)) \<and>
         shown ''stream_reasoning'' fs = concat (filter_map reasoning_delta (map snd es)) \<and>
         tl_reasoning t' = tl_reasoning t @ concat (filter_map reasoning_delta (map snd es)) \<and>
         list_all (envelope_ok (Some rid)) fs"
  using assms
proof (induction es arbitrary: t fs)
  case (Cons x es)
  obtain ms e where x: "x = (ms, e)" by fastforce
  obtain t1 f1 where h: "translate ms rid e t = (t1, f1)" by fastforce
  obtain t2 f2 where r: "translate_all rid es t1 = (t2, f2)" by fastforce
  from Cons.prems x h r have out: "t' = t2" "fs = f1 @ f2" by simp_all
  have step: "concat (filter_map g (map snd (x # es))) = unwrap_or (g e) [] @ concat (filter_map g (map snd es))" for g
    by (simp add: x split: option.split)
  from Cons.IH [OF r [folded out(1)]] translate_answer(3) [OF h] translate_reasoning [OF h] translate_enveloped [OF h]
  show ?case unfolding step by (simp add: out(2))
qed simp

section \<open>Properties: the stream\<close>

text \<open>C13. The live stream is exact. Whatever events the engine sends and however it cuts its answer, the answer
  frames of the turn spell the answer up to the suggested-replies trailer, with no character lost, repeated or
  shown of the trailer; reasoning is shown in full and only on its own frames; the text kept for the final
  response is the whole answer; and every frame carries the turn's request id.\<close>

theorem streamed_answer_exact:
  "case translator_run rid ms es of (t, fs) \<Rightarrow>
     shown ''stream_token'' fs = before_marker (concat (filter_map answer_delta (map snd es))) \<and>
     shown ''stream_reasoning'' fs = concat (filter_map reasoning_delta (map snd es)) \<and>
     tl_reply t = concat (filter_map answer_delta (map snd es)) \<and>
     tl_reasoning t = shown ''stream_reasoning'' fs \<and>
     list_all (envelope_ok (Some rid)) fs"
proof -
  obtain t fs where run: "translate_all rid es translator_new = (t, fs)" by fastforce
  have "clear_before MARKER_OPEN [] []" by (simp add: clear_before_def MARKER_OPEN_def)
  from suppress_stream_from [OF this] have
    "shown ''stream_token'' fs @ suppressor_finish (tl_suppressor t) =
       before_marker (concat (filter_map answer_delta (map snd es)))"
    using translate_all_shown [OF run] by (simp add: suppressor_new_def)
  then show ?thesis
    using translate_all_texts [OF run] by (simp add: translator_run_def run)
qed

section \<open>Lemmas: tools\<close>

definition tool_allowed :: "turn_request \<Rightarrow> string \<Rightarrow> bool" where
  "tool_allowed tr n = (case tr_enabled_tools tr of None \<Rightarrow> True | Some ids \<Rightarrow> n \<in> set ids)"

lemma fold_register:
  assumes "registry_ok lib"
  shows "rl_eager lib (fold (rl_register lib) ns r) = rl_eager lib r \<union> set ns"
    and "rl_deferred lib (fold (rl_register lib) ns r) = rl_deferred lib r"
    and "rl_hooks lib (fold (rl_register lib) ns r) = rl_hooks lib r"
    and "rl_eager lib (fold (rl_register_deferred lib) ns r) = rl_eager lib r"
    and "rl_deferred lib (fold (rl_register_deferred lib) ns r) = rl_deferred lib r \<union> set ns"
    and "rl_hooks lib (fold (rl_register_deferred lib) ns r) = rl_hooks lib r"
  by (induction ns arbitrary: r) (use assms in \<open>simp_all add: registry_ok_def\<close>)

lemma fold_hooks:
  assumes "registry_ok lib"
  shows "rl_eager lib (fold (rl_add_hook lib) hs r) = rl_eager lib r"
    and "rl_deferred lib (fold (rl_add_hook lib) hs r) = rl_deferred lib r"
    and "rl_hooks lib (fold (rl_add_hook lib) hs r) = rl_hooks lib r @ hs"
  by (induction hs arbitrary: r) (use assms in \<open>simp_all add: registry_ok_def\<close>)

text \<open>C14. The agent's allow-list is authoritative. Whatever the host's provider and the loaded extensions contribute, the
  engine is given exactly the registered tools the agent enables, deferred ones included; without an allow-list, all
  of them. Every call is put first to the host's hooks, then to the agent's auth gate, then to the confirmation hook.\<close>

theorem turn_tools_enabled:
  assumes "registry_ok (rv_registry rv)"
  shows "rl_eager (rv_registry rv) (turn_registry rv tr) = {n \<in> set (eager_tools rv tr). tool_allowed tr n} \<and>
         rl_deferred (rv_registry rv) (turn_registry rv tr) =
           {n. (\<exists>eager deferred. rv_extensions rv = Some (eager, deferred) \<and> n \<in> set deferred) \<and> tool_allowed tr n} \<and>
         rl_hooks (rv_registry rv) (turn_registry rv tr) =
           map HostHook [0..<rv_tool_hooks rv] @ map AuthGate (opt_list (tr_auth_gate tr)) @
           (case tr_confirmation tr of
              Some cf \<Rightarrow> if cf_tool_patterns cf \<noteq> [] then [ConfirmationHook (cf_tool_patterns cf)] else []
            | None \<Rightarrow> [])"
proof -
  let ?lib = "rv_registry rv"
  have new: "rl_eager ?lib (rl_new ?lib) = {}" "rl_deferred ?lib (rl_new ?lib) = {}" "rl_hooks ?lib (rl_new ?lib) = []"
    and retain: "rl_eager ?lib (rl_retain ?lib p r) = {n \<in> rl_eager ?lib r. p n}"
      "rl_deferred ?lib (rl_retain ?lib p r) = rl_deferred ?lib r" "rl_hooks ?lib (rl_retain ?lib p r) = rl_hooks ?lib r" for p r
    using assms by (simp_all add: registry_ok_def)
  note regs = fold_register [OF assms] fold_hooks [OF assms] new retain
  have "rl_eager ?lib (turn_registry rv tr) = {n \<in> set (eager_tools rv tr). tool_allowed tr n}"
    by (auto simp: turn_registry_def Let_def regs tool_allowed_def split: option.split)
  moreover have "rl_deferred ?lib (turn_registry rv tr) = set (deferred_tools rv tr)"
    by (simp add: turn_registry_def Let_def regs split: option.split)
  moreover have "set (deferred_tools rv tr) =
      {n. (\<exists>eager deferred. rv_extensions rv = Some (eager, deferred) \<and> n \<in> set deferred) \<and> tool_allowed tr n}"
    by (cases "rv_extensions rv"; cases "tr_enabled_tools tr") (auto simp: deferred_tools_def tool_allowed_def)
  moreover have "rl_hooks ?lib (turn_registry rv tr) = turn_hooks rv tr"
    by (simp add: turn_registry_def Let_def regs split: option.split)
  ultimately show ?thesis by (simp add: turn_hooks_def split: option.split)
qed

section \<open>Lemmas: citations\<close>

context bound_reader
begin

text \<open>What a turn over a bound reader cites, with its own query and the searches of its agent.\<close>

lemma cited_sources_visible:
  assumes auto: "auto = [] \<or> query q n = Inr auto"
    and tool: "knowledge t = query" "reranker_ok (tool_reranker t)" "tool_sink t = Some s" "sink_results s = []"
  shows "list_all visible (map cite_id (collect_citations el auto
           (case tool_sink (run_searches calls t) of Some s \<Rightarrow> sink_results s | None \<Rightarrow> [])))"
proof -
  obtain s' where s': "tool_sink (run_searches calls t) = Some s'" "list_all (\<lambda>r. visible (document_id r)) (sink_results s')"
    using run_searches_sink [OF tool(1-3), of calls] tool(4) by auto
  have "visible (document_id r)" if "r \<in> set auto \<union> set (sink_results s')" for r
    using that s'(2) query_sound [of q n auto r] auto by (auto simp: list_all_iff)
  moreover have "cite_id ` set (collect_citations el auto (sink_results s')) \<subseteq> document_id ` (set auto \<union> set (sink_results s'))"
    using collect_citations_props by blast
  ultimately show ?thesis unfolding s'(1) list_all_iff by auto
qed

end

lemma run_streaming_citations:
  assumes "run_result (run_streaming_turn rv tr stamps ms st) = Inr out"
  obtains calls where "st_citations out = turn_citations rv tr calls"
  using assms
  by (auto simp: run_streaming_turn_def complete_turn_def turn_failed_def Let_def split: sum.splits prod.splits if_splits)

text \<open>C15. A streamed turn cites only what its requester may see: over the access-controlled reader, with no reranker or
  either of the repository's, every citation of the answer, from the injected context or from the agent's searches,
  is of a document the requester is entitled to; citations are distinct and at most eight.\<close>

theorem streamed_citations_entitled:
  assumes run: "run_result (run_streaming_turn rv tr stamps ms st) = Inr out"
    and reader: "rv_knowledge rv = reader_query kb_query ks"
    and rr: "rv_reranker rv = None \<or> rv_reranker rv = Some noop_rerank \<or>
             (\<exists>ops bucket lr. rv_reranker rv = Some (lexical_rerank ops bucket lr))"
  shows "list_all (entitled (acls ks) (tr_access tr)) (map cite_id (st_citations out)) \<and>
         distinct (map cite_id (st_citations out)) \<and> length (st_citations out) \<le> 8"
proof -
  obtain calls where cites: "st_citations out = turn_citations rv tr calls" using run by (rule run_streaming_citations)
  have "reranker_ok (rv_reranker rv)"
    using rr noop.reranker_axioms lexical.reranker_axioms by (auto simp: reranker_ok_def)
  then have tool: "knowledge (turn_search_tool rv tr) = reader_query kb_query ks (tr_access tr)"
    "reranker_ok (tool_reranker (turn_search_tool rv tr))"
    "tool_sink (turn_search_tool rv tr) = Some \<lparr>sink_results = [], sink_poisoned = False\<rparr>"
    by (cases "rv_reranker rv";
        simp add: turn_search_tool_def with_result_sink_def with_reranker_def tool_new_def reader reranker_ok_def Let_def)+
  let ?auto = "case rv_knowledge rv (tr_access tr) (tr_message tr) AUTO_CONTEXT_LIMIT of Inr rs \<Rightarrow> rs | Inl _ \<Rightarrow> []"
  have "?auto = [] \<or> reader_query kb_query ks (tr_access tr) (tr_message tr) AUTO_CONTEXT_LIMIT = Inr ?auto"
    by (simp add: reader split: sum.split)
  from acl_reader.cited_sources_visible [OF this tool] show ?thesis
    using collect_citations_props by (simp add: cites turn_citations_def)
qed

section \<open>Lemmas: what a turn remembers\<close>

definition stored_content :: "string \<Rightarrow> string list \<Rightarrow> message_content" where
  "stored_content body urls = (if urls = [] then content_from_text body else content_from_text_and_images body urls)"

lemma persist_memory:
  "persist_runner_message (memory_adapter cb pb) i now c d body urls (storage_run b ops tables_default) =
     Inr (new_message i now c d (stored_content body urls),
          storage_run b (ops @ [AppendMessage (new_message i now c d (stored_content body urls))]) tables_default)"
proof -
  have "\<not> tables_poisoned (storage_run b ops tables_default)"
    using storage_run_ok [OF tables_default_ok] by (simp add: tables_ok_def)
  then show ?thesis
    by (simp add: persist_runner_message_def stored_content_def memory_adapter_def append_message_def locked_def
        storage_run_def after_op_def Let_def)
qed

lemma load_prior_memory:
  assumes "distinct (map msg_id (filter_map message_op ops))"
  shows "load_prior (memory_adapter cb pb) c (storage_run b ops tables_default) =
           Inr (prior_messages_for_replay (take 50 (filter_map (appended c) ops)))"
  using first_page [OF assms, of b c 50]
  by (auto simp: load_prior_def memory_adapter_def MAX_PRIOR_MESSAGES_def)

lemma image_items [simp]: "filter_map item_url (map content_image urls) = urls"
  by (induction urls) (simp_all add: content_image_def)

lemma stored_message_texts:
  "raw_text (new_message i now c d (stored_content body urls)) = body"
  "image_urls (new_message i now c Outbound x) = []"
  "image_urls (new_message i now c Inbound (stored_content body urls)) = filter (\<lambda>u. u \<noteq> []) urls"
  "\<not> is_turn_error (new_message i now c d x)"
  by (simp_all add: raw_text_def stored_content_def content_from_text_def content_from_text_and_images_def new_message_def
      image_urls_def content_text_def content_image_def is_turn_error_def comp_def)

text \<open>The newest exchange is always replayed in full, images included.\<close>

lemma replay_ends_with:
  assumes "\<not> is_turn_error u" "\<not> is_turn_error a" "raw_text u \<noteq> []" "raw_text a \<noteq> []" "image_urls a = []"
  shows "\<exists>prior. prior_messages_for_replay (ms @ [u, a]) =
           prior @ [engine_of u (raw_text u) (image_urls u), engine_of a (raw_text a) []]"
proof -
  let ?n = "length ms" and ?keep = "keep_images_from (ms @ [u, a])"
  have en: "enumerate 0 (ms @ [u, a]) = enumerate 0 ms @ [(?n, u), (Suc ?n, a)]"
    by (simp add: enumerate_append_eq)
  have "image_urls u \<noteq> [] \<Longrightarrow> ?n \<in> set ?keep"
    using assms(5) by (simp add: keep_images_from_def MAX_REPLAYED_IMAGE_MESSAGES_def en)
  then have "replay_message ?keep (?n, u) = Some (engine_of u (raw_text u) (image_urls u))"
    using assms by (simp add: replay_message_def Let_def)
  moreover have "replay_message ?keep (Suc ?n, a) = Some (engine_of a (raw_text a) [])"
    using assms by (simp add: replay_message_def Let_def)
  ultimately show ?thesis by (simp add: prior_messages_for_replay_def en filter_map_append)
qed

text \<open>The store a finished turn leaves, over the in-memory adapter and an engine that appends no message itself.\<close>

lemma streaming_turn_log:
  assumes adapter: "rv_adapter rv = memory_adapter cb pb"
    and engine: "\<And>a. \<exists>ops'. et_effect (rv_agent rv a) = storage_run b ops' \<and> filter_map message_op ops' = []"
    and run: "run_result (run_streaming_turn rv tr stamps ms (storage_run b ops tables_default)) = Inr out"
    and reply: "st_reply out \<noteq> []"
  obtains ops' where "filter_map message_op ops' = []"
    "run_store (run_streaming_turn rv tr stamps ms (storage_run b ops tables_default)) =
       storage_run b (ops @
         [AppendMessage (new_message (inbound_id stamps) (inbound_at stamps) (tr_conversation_id tr) Inbound
            (stored_content (tr_message tr) (map ui_url (tr_images tr))))] @ ops' @
         [AppendMessage (new_message (outbound_id stamps) (outbound_at stamps) (tr_conversation_id tr) Outbound
            (stored_content (st_reply out) []))]) tables_default"
proof -
  let ?t = "storage_run b ops tables_default"
  let ?u = "AppendMessage (new_message (inbound_id stamps) (inbound_at stamps) (tr_conversation_id tr) Inbound
            (stored_content (tr_message tr) (map ui_url (tr_images tr))))"
  obtain prior where prior: "load_prior (memory_adapter cb pb) (tr_conversation_id tr) ?t = Inr prior"
    using run by (auto simp: run_streaming_turn_def adapter turn_failed_def split: sum.splits)
  let ?et = "rv_agent rv (turn_agent rv tr prior)"
  obtain ops' where eff: "et_effect ?et = storage_run b ops'" "filter_map message_op ops' = []" using engine by blast
  have mid: "et_effect ?et (storage_run b (ops @ [?u]) tables_default) = storage_run b (ops @ [?u] @ ops') tables_default"
    by (simp add: eff(1) storage_run_def)
  obtain t fs where tr: "translator_run (tr_request_id tr) ms (et_events ?et) = (t, fs)" by fastforce
  have whole: "run_streaming_turn rv tr stamps ms ?t =
      (case et_answer ?et of Inl e \<Rightarrow> turn_failed e (storage_run b (ops @ [?u] @ ops') tables_default) fs (gate_after (tr_auth_gate tr) (et_gated_calls ?et))
       | Inr l \<Rightarrow> complete_turn rv tr stamps ?et l t fs (storage_run b (ops @ [?u] @ ops') tables_default))"
    by (simp only: run_streaming_turn_def adapter prior persist_memory tr mid Let_def sum.case prod.case)
  then obtain l where l: "run_streaming_turn rv tr stamps ms ?t =
      complete_turn rv tr stamps ?et l t fs (storage_run b (ops @ [?u] @ ops') tables_default)"
    using run by (auto simp: turn_failed_def split: sum.splits)
  have "run_store (run_streaming_turn rv tr stamps ms ?t) =
      storage_run b ((ops @ [?u] @ ops') @ [AppendMessage (new_message (outbound_id stamps) (outbound_at stamps)
        (tr_conversation_id tr) Outbound (stored_content (st_reply out) []))]) tables_default"
    using run reply unfolding l complete_turn_def Let_def adapter persist_memory
    by (auto split: prod.splits if_splits)
  with eff(2) that show thesis by simp
qed


section \<open>Lemmas: the whole task\<close>

lemma run_gate_after:
  assumes "run_result (run_streaming_turn rv tr stamps ms st) = Inr out"
  obtains prior where "load_prior (rv_adapter rv) (tr_conversation_id tr) st = Inr prior"
    "run_gate (run_streaming_turn rv tr stamps ms st) =
       gate_after (tr_auth_gate tr) (et_gated_calls (rv_agent rv (turn_agent rv tr prior)))"
  using assms
  by (auto simp: run_streaming_turn_def complete_turn_def turn_failed_def Let_def split: sum.splits prod.splits if_splits)

lemma turn_task_frames:
  "snd (turn_task he rv fi stamps mid generate raised res tr w) =
     run_frames (run_streaming_turn rv tr stamps (fi_now_ms fi) (storage w)) @
     snd (turn_tail he fi mid generate raised tr (run_gate (run_streaming_turn rv tr stamps (fi_now_ms fi) (storage w)))
       (run_result (run_streaming_turn rv tr stamps (fi_now_ms fi) (storage w)))
       (w\<lparr>storage := run_store (run_streaming_turn rv tr stamps (fi_now_ms fi) (storage w))\<rparr>))"
  by (simp add: turn_task_def finish_turn_def Let_def split: prod.split)

lemma terminal_stream [simp]:
  "\<not> terminal (stream_token ms rid s)" "\<not> terminal (stream_reasoning ms rid s)" "\<not> terminal (stream_chunk ms rid n x)"
  by (simp_all add: terminal_def frame_type_def error_code_def stream_token_def stream_reasoning_def stream_chunk_def get_str_def)

lemma translate_not_terminal: "translate ms rid e t = (t', fs) \<Longrightarrow> filter terminal fs = []"
  by (cases e) (auto simp: token_frames_def split: prod.splits if_splits)

lemma translate_all_not_terminal: "translate_all rid es t = (t', fs) \<Longrightarrow> filter terminal fs = []"
proof (induction es arbitrary: t fs)
  case (Cons x es)
  then show ?case by (cases x) (force simp: translate_not_terminal split: prod.splits)
qed simp

lemma run_frames_not_terminal: "filter terminal (run_frames (run_streaming_turn rv tr stamps ms st)) = []"
proof -
  have "filter terminal (snd (translator_run rid m es)) = []" for rid m es
    using translate_all_not_terminal [of rid es translator_new] 
    by (auto simp: translator_run_def token_frames_def split: prod.split)
  then have *: "filter terminal fs = []" if "translator_run rid m es = (t, fs)" for rid m es t fs
    using that by (metis snd_conv)
  show ?thesis
    by (auto simp: run_streaming_turn_def complete_turn_def turn_failed_def Let_def dest: * split: sum.split prod.split)
qed

section \<open>Properties: the whole task\<close>



section \<open>Witnesses\<close>

text \<open>A registry with the documented laws: two sets of names and the hooks in order.\<close>

definition set_registry :: "(string set \<times> string set \<times> turn_hook list) registry_lib" where
  "set_registry =
     \<lparr>rl_new = ({}, {}, []), rl_register = (\<lambda>n (e, d, h). (insert n e, d, h)),
      rl_register_deferred = (\<lambda>n (e, d, h). (e, insert n d, h)),
      rl_retain = (\<lambda>p (e, d, h). ({n \<in> e. p n}, d, h)), rl_add_hook = (\<lambda>x (e, d, h). (e, d, h @ [x])),
      rl_eager = fst, rl_deferred = (\<lambda>r. fst (snd r)), rl_hooks = (\<lambda>r. snd (snd r))\<rparr>"

lemma set_registry_ok: "registry_ok set_registry"
  by (auto simp: registry_ok_def set_registry_def)

definition demo_engine_turn :: "tables engine_turn" where
  "demo_engine_turn =
     \<lparr>et_events = [(5, TokenDelta ''o''), (6, TokenDelta ''k'')], et_searches = [JObj [(''query'', JStr ''q'')]],
      et_gated_calls = [''knowledge_search'', ''pay''], et_directive = JNull, et_effect = (\<lambda>t. t), et_answer = Inr (Some ''ok'')\<rparr>"

text \<open>A host with one hook, a provider of two tools and an extension with one eager and two deferred tools.\<close>

definition demo_runner :: "(tables, kb_error, string set \<times> string set \<times> turn_hook list) runner_env" where
  "demo_runner =
     \<lparr>rv_adapter = memory_adapter (\<lambda>_. 0) (\<lambda>_. 0), rv_knowledge = reader_query list_kb_query (acl_store_new [''a'', ''b'']),
      rv_memory = (\<lambda>_. False), rv_reranker = None, rv_kinds = [], rv_host_kind_tool = (\<lambda>_. []),
      rv_tool_provider = Some (\<lambda>_. [''lookup'', ''pay'']), rv_traces_own = True, rv_tool_hooks = 1,
      rv_extensions = Some ([''shell''], [''pay_later'', ''wipe'']), rv_registry = set_registry,
      rv_agent = (\<lambda>_. demo_engine_turn), rv_judge = (\<lambda>_ _. Inr []), rv_composer = None, rv_chat_prompt = [],
      rv_demo_prompt = [], rv_trailer_section = [], rv_suggestions_de = (\<lambda>_. None), rv_from_str = (\<lambda>_. Inl []),
      rv_model_ceiling = None, rv_dash = ''-'', rv_ellipsis = []\<rparr>"

definition demo_tool_gate :: auth_gate_hook where
  "demo_tool_gate = auth_gate_new [''pay'' \<mapsto> EndUser] Public False {''pay''}"

definition demo_tool_turn :: turn_request where
  "demo_tool_turn = demo_turn\<lparr>tr_conversation_id := ''c1'', tr_message := ''hi'', tr_images := [], tr_access := access_anonymous,
     tr_workflow := None, tr_demo_tools := False, tr_auth_gate := Some demo_tool_gate, tr_confirmation := None,
     tr_session_id := ''s1'', tr_request_id := ''r1'',
     tr_enabled_tools := Some [''knowledge_search'', ''pay'', ''pay_later'']\<rparr>"

theorem turn_tools_enabled_witness:
  "rl_eager set_registry (turn_registry demo_runner demo_tool_turn) = {''knowledge_search'', ''pay''} \<and>
   rl_deferred set_registry (turn_registry demo_runner demo_tool_turn) = {''pay_later''} \<and>
   rl_hooks set_registry (turn_registry demo_runner demo_tool_turn) = [HostHook 0, AuthGate demo_tool_gate]"
proof -
  have lib: "rv_registry demo_runner = set_registry" by (simp add: demo_runner_def)
  note facts = turn_tools_enabled [of demo_runner demo_tool_turn, unfolded lib, OF set_registry_ok]
  have "{n \<in> set (eager_tools demo_runner demo_tool_turn). tool_allowed demo_tool_turn n} = {''knowledge_search'', ''pay''}"
    by (auto simp: eager_tools_def demo_runner_def demo_tool_turn_def interaction_tools_def tool_allowed_def)
  moreover have "{n. (\<exists>eager deferred. rv_extensions demo_runner = Some (eager, deferred) \<and> n \<in> set deferred) \<and>
      tool_allowed demo_tool_turn n} = {''pay_later''}"
    by (auto simp: demo_runner_def demo_tool_turn_def tool_allowed_def)
  ultimately show ?thesis using facts by (simp add: demo_runner_def demo_tool_turn_def)
qed

lemma plain_reply: "extract_suggested_replies (\<lambda>_. None) ''ok'' = (''ok'', [])"
  by code_simp

lemma demo_runner_simps [simp]:
  "rv_adapter demo_runner = memory_adapter (\<lambda>_. 0) (\<lambda>_. 0)" "rv_agent demo_runner a = demo_engine_turn"
  "rv_suggestions_de demo_runner = (\<lambda>_. None)" "tr_conversation_id demo_tool_turn = ''c1''" "tr_message demo_tool_turn = ''hi''"
  "tr_images demo_tool_turn = []" "et_answer demo_engine_turn = Inr (Some ''ok'')" "et_effect demo_engine_turn = (\<lambda>t. t)"
  by (simp_all add: demo_runner_def demo_tool_turn_def demo_engine_turn_def)

lemma demo_citations: "map cite_id (turn_citations demo_runner demo_tool_turn (et_searches demo_engine_turn)) = [''a'', ''b'']"
  by (simp add: turn_citations_def demo_runner_def demo_tool_turn_def demo_engine_turn_def turn_search_tool_def list_kb_defs run_searches_def
      search_execute_def with_result_sink_def tool_new_def json_simps search_limit_def DEFAULT_LIMIT_def
      apply_optional_rerank_def sink_extend_def collect_citations_def from_knowledge_result_def MAX_CITATIONS_def
      AUTO_CONTEXT_LIMIT_def Let_def)

definition demo_run :: "int \<Rightarrow> tables turn_run" where
  "demo_run ms = run_streaming_turn demo_runner demo_tool_turn demo_stamps ms (storage_run (\<lambda>_. 0) [] tables_default)"

lemma demo_prior: "load_prior (memory_adapter (\<lambda>_. 0) (\<lambda>_. 0)) ''c1'' (storage_run (\<lambda>_. 0) [] tables_default) = Inr (prior_messages_for_replay [])"
  using load_prior_memory [of "[]"] by simp

lemma demo_streams:
  obtains out where "run_result (demo_run ms) = Inr out" "st_reply out = ''ok''" "map cite_id (st_citations out) = [''a'', ''b'']"
proof -
  obtain t fs where tr: "translator_run (tr_request_id demo_tool_turn) ms (et_events demo_engine_turn) = (t, fs)" by fastforce
  obtain st where run: "demo_run ms =
      complete_turn demo_runner demo_tool_turn demo_stamps demo_engine_turn (Some ''ok'') t fs (storage_run (\<lambda>_. 0) st tables_default)"
    unfolding demo_run_def run_streaming_turn_def by (simp add: demo_prior persist_memory tr)
  have "final_text (Some ''ok'') t = ''ok''" by (simp add: final_text_def trim_def trim_start_def trim_end_def is_whitespace_def)
  then have "\<exists>out. run_result (demo_run ms) = Inr out \<and> st_reply out = ''ok'' \<and>
      st_citations out = turn_citations demo_runner demo_tool_turn (et_searches demo_engine_turn)"
    unfolding run complete_turn_def by (simp add: plain_reply persist_memory Let_def)
  then show thesis using that demo_citations by auto
qed

theorem streamed_citations_entitled_witness:
  "list_all (entitled (acls (acl_store_new [''a'', ''b''])) access_anonymous) [''a'', ''b'']"
proof -
  obtain out where run: "run_result (demo_run 7) = Inr out" and ids: "map cite_id (st_citations out) = [''a'', ''b'']"
    by (rule demo_streams)
  have "rv_knowledge demo_runner = reader_query list_kb_query (acl_store_new [''a'', ''b''])" "rv_reranker demo_runner = None"
    by (simp_all add: demo_runner_def)
  with streamed_citations_entitled [OF run [unfolded demo_run_def], where kb_query = list_kb_query and ks = "acl_store_new [''a'', ''b'']"] ids
  show ?thesis by (simp add: demo_tool_turn_def)
qed


text \<open>A state that holds the conversation for the turn and knows the user's address.\<close>

definition demo_serving :: "tables app_state" where
  "demo_serving = (insert_session ((demo_session ''s1'' ''c1'')\<lparr>ss_metadata := Some [(''contactEmail'', JStr ''u@x.y'')]\<rparr>)
       (app_state_new (storage_run (\<lambda>_. 0) [] tables_default)))
     \<lparr>running := snd (try_reserve ''c1'' ''r1'' ''k'' 0 1 running_turns_default)\<rparr>"

definition demo_mailer :: otp_service where
  "demo_mailer = \<lparr>send_otp = (\<lambda>_ _. Inl ''down''), verify_otp = (\<lambda>_ _. OtpVerified)\<rparr>"

lemma demo_serving_facts:
  "holds (running demo_serving) \<lparr>res_conversation_id = ''c1'', res_token = 0\<rparr>"
  "storage demo_serving = storage_run (\<lambda>_. 0) [] tables_default"
  "session_contact demo_serving ''s1'' = \<lparr>contact_email = Some ''u@x.y'', contact_phone = None\<rparr>"
  by (simp_all add: demo_serving_def holds_def try_reserve_def running_turns_default_def Let_def insert_session_def app_state_new_def
      session_contact_def session_meta_def state_get_session_def demo_session_def)



end
