(* ===== verification/Fetch_Url.thy ===== *)
theory Fetch_Url
  imports Telemetry Ingestion
begin

text \<open>
  The \<open>fetch_url\<close> tool, \<open>rust/smooth-operator/src/tools/fetch_url.rs\<close>: the guard on the address, the redirect policy,
  and the conversion of a page to text; and the web connector that shares them,
  \<open>rust/ingestion/src/connectors/web.rs\<close>.

  An address is a 32-bit or 128-bit word, so the guard runs on every value. Parsing a URL is the \<open>url\<close> crate
  and sending a request the HTTP client: both are parameters. The client is seen as documented: it asks the
  policy for every redirect, with the addresses requested so far, and requests the next one only when the policy
  says to follow. The network answers as it likes, also differently for the same address. The ellipsis of a cut
  text lies outside the modelled characters and is an argument.
\<close>

section \<open>Addresses\<close>

datatype host = HostDomain string | HostIpv4 "32 word" | HostIpv6 "128 word"

record url =
  url_scheme :: string
  url_host :: "host option"
  url_text :: string

text \<open>\<open>Ipv4Addr::octets\<close>, \<open>Ipv6Addr::segments\<close> and \<open>Ipv6Addr::to_ipv4\<close>\<close>

definition octet :: "nat \<Rightarrow> 32 word \<Rightarrow> nat" where
  "octet i a = (unat a div 2 ^ (24 - 8 * i)) mod 256"

definition segment :: "nat \<Rightarrow> 128 word \<Rightarrow> 16 word" where
  "segment i a = of_nat (unat a div 2 ^ (112 - 16 * i))"

definition to_ipv4 :: "128 word \<Rightarrow> 32 word option" where
  "to_ipv4 a =
     (if unat a div 2 ^ 32 \<in> {0, 0xFFFF} then Some (of_nat (unat a mod 2 ^ 32)) else None)"

datatype guard_error =
    InvalidUrl string string
  | SchemeRefused string
  | NoHost string
  | LocalhostRefused string
  | NonPublicIpv4 "32 word"
  | NonPublicIpv6 "128 word"

definition is_shared_cgnat :: "32 word \<Rightarrow> bool" where
  "is_shared_cgnat ip = (octet 0 ip = 100 \<and> 64 \<le> octet 1 ip \<and> octet 1 ip \<le> 127)"

definition assert_ipv4_public :: "32 word \<Rightarrow> guard_error + unit" where
  "assert_ipv4_public ip =
     (if octet 0 ip = 127
         \<or> (octet 0 ip = 10 \<or> (octet 0 ip = 172 \<and> 16 \<le> octet 1 ip \<and> octet 1 ip \<le> 31) \<or> (octet 0 ip = 192 \<and> octet 1 ip = 168))
         \<or> (octet 0 ip = 169 \<and> octet 1 ip = 254)
         \<or> ip = 0
         \<or> ip = 0xFFFFFFFF
         \<or> ((octet 0 ip = 192 \<and> octet 1 ip = 0 \<and> octet 2 ip = 2) \<or> (octet 0 ip = 198 \<and> octet 1 ip = 51 \<and> octet 2 ip = 100)
            \<or> (octet 0 ip = 203 \<and> octet 1 ip = 0 \<and> octet 2 ip = 113))
         \<or> is_shared_cgnat ip
         \<or> octet 0 ip = 0
      then Inl (NonPublicIpv4 ip) else Inr ())"

definition assert_ipv6_public :: "128 word \<Rightarrow> guard_error + unit" where
  "assert_ipv6_public ip =
     (case to_ipv4 ip of
        Some v4 \<Rightarrow> assert_ipv4_public v4
      | None \<Rightarrow>
          if ip = 1 \<or> ip = 0 \<or> and (segment 0 ip) 0xFE00 = 0xFC00 \<or> and (segment 0 ip) 0xFFC0 = 0xFE80
          then Inl (NonPublicIpv6 ip) else Inr ())"

fun assert_host_public :: "host \<Rightarrow> guard_error + unit" where
  "assert_host_public (HostDomain d) =
     (let lowered = to_ascii_lowercase d in
      if lowered = ''localhost'' \<or> ends_with lowered ''.localhost'' then Inl (LocalhostRefused d) else Inr ())"
| "assert_host_public (HostIpv4 ip) = assert_ipv4_public ip"
| "assert_host_public (HostIpv6 ip) = assert_ipv6_public ip"

definition assert_url_is_public :: "(string \<Rightarrow> string + url) \<Rightarrow> string \<Rightarrow> guard_error + url" where
  "assert_url_is_public parse raw =
     (case parse raw of
        Inl e \<Rightarrow> Inl (InvalidUrl raw e)
      | Inr u \<Rightarrow>
          if url_scheme u \<noteq> ''http'' \<and> url_scheme u \<noteq> ''https'' then Inl (SchemeRefused (url_scheme u))
          else case url_host u of
                 None \<Rightarrow> Inl (NoHost raw)
               | Some h \<Rightarrow> (case assert_host_public h of Inl e \<Rightarrow> Inl e | Inr _ \<Rightarrow> Inr u))"

section \<open>Requests\<close>

text \<open>What the network makes of one request: a redirect, with its target resolved, or a response.\<close>

datatype http_answer =
    Redirect url
  | Response nat "string option" "string + string"
  | NoAnswer string

datatype client_error = TooManyRedirects | RedirectBlocked guard_error | Unanswered string

datatype fetch_error =
    UrlRequired
  | Refused guard_error
  | RequestFailed string client_error
  | HttpStatus nat string
  | BodyFailed string string

definition MAX_REDIRECTS :: nat where "MAX_REDIRECTS = 10"

text \<open>The policy of the shared client, for one redirect.\<close>

definition redirect_policy :: "(string \<Rightarrow> string + url) \<Rightarrow> url list \<Rightarrow> url \<Rightarrow> client_error + unit" where
  "redirect_policy parse previous next =
     (if MAX_REDIRECTS \<le> length previous then Inl TooManyRedirects
      else case assert_url_is_public parse (url_text next) of
             Inr _ \<Rightarrow> Inr ()
           | Inl e \<Rightarrow> Inl (RedirectBlocked e))"

text \<open>The client: the addresses requested, in order, and the outcome.\<close>

function client_get ::
  "(string \<Rightarrow> string + url) \<Rightarrow> (url list \<Rightarrow> http_answer) \<Rightarrow> url list \<Rightarrow> url
    \<Rightarrow> url list \<times> (client_error + nat \<times> string option \<times> (string + string))" where
  "client_get parse web previous u =
     (let requested = previous @ [u] in
      case web requested of
        NoAnswer e \<Rightarrow> (requested, Inl (Unanswered e))
      | Response st ct body \<Rightarrow> (requested, Inr (st, ct, body))
      | Redirect next \<Rightarrow>
          (case redirect_policy parse requested next of
             Inl e \<Rightarrow> (requested, Inl e)
           | Inr _ \<Rightarrow> client_get parse web requested next))"
  by pat_completeness auto

termination
  by (relation "measure (\<lambda>(parse, web, previous, u). MAX_REDIRECTS - length previous)")
    (auto simp: redirect_policy_def split: if_splits)

declare client_get.simps [simp del]

section \<open>Pages\<close>

definition MAX_TEXT_LEN :: nat where "MAX_TEXT_LEN = 8000"

definition looks_like_html :: "string \<Rightarrow> bool" where
  "looks_like_html body =
     (let head = to_ascii_lowercase (take_bytes 512 body)
      in contains_str head ''<html'' \<or> contains_str head ''<!doctype html'' \<or> contains_str head ''<body'')"

definition collapse_whitespace :: "string \<Rightarrow> string" where
  "collapse_whitespace s = join_str '' '' (split_whitespace s)"

text \<open>The positions of the source are suffixes here; lower-casing changes no position.\<close>

definition skip_block :: "string \<Rightarrow> string \<Rightarrow> string option" where
  "skip_block s tag =
     (let lower = to_ascii_lowercase s in
      if \<not> starts_with lower (''<'' @ tag) then None
      else case split_once_str (''</'' @ tag @ ''>'') lower of
             Some (before, _) \<Rightarrow> Some (drop (length before + length (''</'' @ tag @ ''>'')) s)
           | None \<Rightarrow> Some [])"

definition is_angle :: "char \<Rightarrow> bool" where "is_angle c = (c = CHR ''<'')"

text \<open>What follows the markup at the front of a suffix, and the blank it leaves; nothing when the markup never ends.\<close>

definition skip_markup :: "string \<Rightarrow> (string \<times> string) option" where
  "skip_markup s =
     (case option_or (skip_block s ''script'') (skip_block s ''style'') of
        Some rest \<Rightarrow> Some ('' '', rest)
      | None \<Rightarrow>
          if starts_with s ''<!--'' then
            map_option (\<lambda>(before, rest). ([], rest)) (split_once_str ''-->'' s)
          else map_option (\<lambda>(before, rest). ('' '', rest)) (split_once_str ''>'' s))"

lemma split_once_str_shorter: "split_once_str p s = Some (a, b) \<Longrightarrow> p \<noteq> [] \<Longrightarrow> length b < length s"
  using split_once_str_Some [of p s a b] by (cases p) auto

lemma skip_markup_shorter: "skip_markup s = Some (out, rest) \<Longrightarrow> s \<noteq> [] \<Longrightarrow> length rest < length s"
  by (cases s)
    (auto simp: skip_markup_def skip_block_def Let_def dest: split_once_str_shorter split: option.splits if_splits)

function strip_html :: "string \<Rightarrow> string" where
  "strip_html s =
     (case s of
        [] \<Rightarrow> []
      | c # cs \<Rightarrow>
          if is_angle c then (case skip_markup s of Some (out, rest) \<Rightarrow> out @ strip_html rest | None \<Rightarrow> [])
          else takeWhile (\<lambda>c. \<not> is_angle c) s @ strip_html (dropWhile (\<lambda>c. \<not> is_angle c) s))"
  by pat_completeness auto

termination
  by (relation "measure length") (auto dest: skip_markup_shorter intro: le_imp_less_Suc length_dropWhile_le)

declare strip_html.simps [simp del]

definition decode_entities :: "string \<Rightarrow> string" where
  "decode_entities s =
     replace_str ''&nbsp;'' '' '' (replace_str ''&apos;'' [CHR 0x27] (replace_str ''&#39;'' [CHR 0x27]
       (replace_str ''&quot;'' [CHR 0x22] (replace_str ''&gt;'' ''>'' (replace_str ''&lt;'' ''<'' (replace_str ''&amp;'' ''&'' s))))))"

definition html_to_text :: "string \<Rightarrow> string" where
  "html_to_text html = collapse_whitespace (decode_entities (strip_html html))"

definition cap_len :: "string \<Rightarrow> string \<Rightarrow> nat \<Rightarrow> string" where
  "cap_len ellipsis s n = (if length s \<le> n then s else take n s @ ellipsis @ '' [truncated]'')"

definition page_text :: "string \<Rightarrow> string \<Rightarrow> string" where
  "page_text content_type body =
     (if contains_str content_type ''html'' \<or> looks_like_html body then html_to_text body else collapse_whitespace body)"

section \<open>The tool\<close>

definition ok_status :: "nat \<Rightarrow> bool" where "ok_status st = (200 \<le> st \<and> st \<le> 299)"

text \<open>A request through the shared client: the guard first, then the client; \<open>Inr\<close> is the lower-cased content type and the body.\<close>

definition guarded_get ::
  "(string \<Rightarrow> string + url) \<Rightarrow> (url list \<Rightarrow> http_answer) \<Rightarrow> string \<Rightarrow> url list \<times> (fetch_error + string \<times> string)" where
  "guarded_get parse web raw =
     (case assert_url_is_public parse raw of
        Inl e \<Rightarrow> ([], Inl (Refused e))
      | Inr u \<Rightarrow>
          (case client_get parse web [] u of
             (requested, Inl e) \<Rightarrow> (requested, Inl (RequestFailed (url_text u) e))
           | (requested, Inr (st, ct, body)) \<Rightarrow>
               (requested,
                if \<not> ok_status st then Inl (HttpStatus st (url_text u))
                else case body of
                       Inl e \<Rightarrow> Inl (BodyFailed (url_text u) e)
                     | Inr b \<Rightarrow> Inr (to_ascii_lowercase (unwrap_or ct []), b))))"

definition fetch_url_execute ::
  "string \<Rightarrow> (string \<Rightarrow> string + url) \<Rightarrow> (url list \<Rightarrow> http_answer) \<Rightarrow> json \<Rightarrow> url list \<times> (fetch_error + string)" where
  "fetch_url_execute ellipsis parse web arguments =
     (case get_str arguments ''url'' of
        None \<Rightarrow> ([], Inl UrlRequired)
      | Some raw \<Rightarrow>
          (case guarded_get parse web raw of
             (requested, Inl e) \<Rightarrow> (requested, Inl e)
           | (requested, Inr (content_type, body)) \<Rightarrow>
               (requested, Inr (cap_len ellipsis (page_text content_type body) MAX_TEXT_LEN))))"

text \<open>The web connector: one page as one document.\<close>

definition web_body_to_doc :: "string \<Rightarrow> string \<Rightarrow> string \<Rightarrow> raw_document" where
  "web_body_to_doc address content_type body =
     raw_with_metadata (raw_with_metadata (raw_with_title (raw_document_new address ''web'' (page_text content_type body)) address)
       ''url'' address) ''content_type'' content_type"

definition web_pull ::
  "(string \<Rightarrow> string + url) \<Rightarrow> (url list \<Rightarrow> http_answer) \<Rightarrow> string \<Rightarrow> url list \<times> (fetch_error + raw_document list)" where
  "web_pull parse web address =
     (case guarded_get parse web address of
        (requested, Inl e) \<Rightarrow> (requested, Inl e)
      | (requested, Inr (content_type, body)) \<Rightarrow> (requested, Inr [web_body_to_doc address content_type body]))"

section \<open>Reserved ranges\<close>

text \<open>The ranges by their first and last address, independent of how the guard tests them.\<close>

definition reserved_v4 :: "(nat \<times> nat) list" where
  "reserved_v4 =
     [(0x00000000, 0x00FFFFFF), (0x0A000000, 0x0AFFFFFF), (0x64400000, 0x647FFFFF), (0x7F000000, 0x7FFFFFFF),
      (0xA9FE0000, 0xA9FEFFFF), (0xAC100000, 0xAC1FFFFF), (0xC0000200, 0xC00002FF), (0xC0A80000, 0xC0A8FFFF),
      (0xC6336400, 0xC63364FF), (0xCB007100, 0xCB0071FF), (0xFFFFFFFF, 0xFFFFFFFF)]"

definition public_v4 :: "32 word \<Rightarrow> bool" where
  "public_v4 a = (\<not> list_ex (\<lambda>(lo, hi). lo \<le> unat a \<and> unat a \<le> hi) reserved_v4)"

text \<open>An address that embeds one of the shorter kind is judged by it; unique-local and link-local ones are not public.\<close>

definition public_v6 :: "128 word \<Rightarrow> bool" where
  "public_v6 a =
     (let n = unat a; top = n div 2 ^ 112 in
      if n div 2 ^ 32 = 0 \<or> n div 2 ^ 32 = 0xFFFF then public_v4 (of_nat (n mod 2 ^ 32))
      else \<not> (0xFC00 \<le> top \<and> top \<le> 0xFDFF) \<and> \<not> (0xFE80 \<le> top \<and> top \<le> 0xFEBF))"

fun public_host :: "host \<Rightarrow> bool" where
  "public_host (HostDomain d) =
     (to_ascii_lowercase d \<noteq> ''localhost'' \<and> \<not> ends_with (to_ascii_lowercase d) ''.localhost'')"
| "public_host (HostIpv4 a) = public_v4 a"
| "public_host (HostIpv6 a) = public_v6 a"

definition public_url :: "url \<Rightarrow> bool" where
  "public_url u =
     ((url_scheme u = ''http'' \<or> url_scheme u = ''https'') \<and> (case url_host u of Some h \<Rightarrow> public_host h | None \<Rightarrow> False))"

section \<open>Lemmas: the guard\<close>

lemma unat_v4: "unat (a :: 32 word) < 4294967296"
  using unsigned_less [of a] by simp

lemma octets_eq:
  fixes a :: "32 word"
  shows "octet 0 a = unat a div 16777216" "octet 1 a = (unat a div 65536) mod 256" "octet 2 a = (unat a div 256) mod 256"
  using unat_v4 [of a] by (simp_all add: octet_def)

lemma octet_between: "octet 0 a = k \<longleftrightarrow> k * 16777216 \<le> unat a \<and> unat a < (k + 1) * 16777216"
  unfolding octets_eq by (auto simp: div_nat_eqI less_eq_div_iff_mult_less_eq)

lemma digit_range:
  fixes n :: nat
  assumes "lo \<le> hi" "hi \<le> 255"
  shows "n div 256 = k \<and> lo \<le> n mod 256 \<and> n mod 256 \<le> hi \<longleftrightarrow> 256 * k + lo \<le> n \<and> n < 256 * k + hi + 1"
proof -
  obtain q r where n: "n = 256 * q + r" "r < 256" "n div 256 = q" "n mod 256 = r"
    by (metis mod_less_divisor mult_div_mod_eq zero_less_numeral)
  have "q = k \<and> lo \<le> r \<and> r \<le> hi \<longleftrightarrow> 256 * k + lo \<le> 256 * q + r \<and> 256 * q + r < 256 * k + hi + 1"
    using n(2) assms by (cases "q < k"; cases "k < q") auto
  with n show ?thesis by simp
qed

lemma two_octets:
  assumes "lo \<le> hi" "hi \<le> 255"
  shows "octet 0 a = k \<and> lo \<le> octet 1 a \<and> octet 1 a \<le> hi \<longleftrightarrow>
         (256 * k + lo) * 65536 \<le> unat a \<and> unat a < (256 * k + hi + 1) * 65536"
proof -
  have "unat a div 16777216 = (unat a div 65536) div 256" by (simp add: div_mult2_eq [symmetric])
  then show ?thesis
    unfolding octets_eq using digit_range [OF assms, of "unat a div 65536" k]
    by (simp add: less_eq_div_iff_mult_less_eq div_less_iff_less_mult)
qed

lemma three_octets:
  assumes "l \<le> 255" "m \<le> 255"
  shows "octet 0 a = k \<and> octet 1 a = l \<and> octet 2 a = m \<longleftrightarrow>
         (65536 * k + 256 * l + m) * 256 \<le> unat a \<and> unat a < (65536 * k + 256 * l + m + 1) * 256"
proof -
  let ?n = "unat a div 256"
  have split: "octet 0 a = (?n div 256) div 256" "octet 1 a = (?n div 256) mod 256" "octet 2 a = ?n mod 256"
    unfolding octets_eq by (simp_all add: div_mult2_eq [symmetric])
  have "octet 0 a = k \<and> octet 1 a = l \<longleftrightarrow> ?n div 256 = 256 * k + l"
    unfolding split using digit_range [of l l "?n div 256" k] assms(1) by auto
  moreover have "?n div 256 = 256 * k + l \<and> ?n mod 256 = m \<longleftrightarrow> 256 * (256 * k + l) + m \<le> ?n \<and> ?n < 256 * (256 * k + l) + m + 1"
    using digit_range [of m m ?n "256 * k + l"] assms(2) by auto
  ultimately have "octet 0 a = k \<and> octet 1 a = l \<and> octet 2 a = m \<longleftrightarrow> 65536 * k + 256 * l + m \<le> ?n \<and> ?n < 65536 * k + 256 * l + m + 1"
    unfolding split(3) [symmetric] by (auto simp: algebra_simps)
  also have "\<dots> \<longleftrightarrow> (65536 * k + 256 * l + m) * 256 \<le> unat a \<and> unat a < (65536 * k + 256 * l + m + 1) * 256"
    by (simp add: less_eq_div_iff_mult_less_eq div_less_iff_less_mult)
  finally show ?thesis .
qed

lemma blocked_ranges:
  fixes a :: "32 word"
  shows "octet 0 a = 127 \<longleftrightarrow> 0x7F000000 \<le> unat a \<and> unat a \<le> 0x7FFFFFFF"
    and "octet 0 a = 10 \<longleftrightarrow> 0x0A000000 \<le> unat a \<and> unat a \<le> 0x0AFFFFFF"
    and "octet 0 a = 0 \<longleftrightarrow> unat a \<le> 0x00FFFFFF"
    and "octet 0 a = 172 \<and> 16 \<le> octet 1 a \<and> octet 1 a \<le> 31 \<longleftrightarrow> 0xAC100000 \<le> unat a \<and> unat a \<le> 0xAC1FFFFF"
    and "octet 0 a = 192 \<and> octet 1 a = 168 \<longleftrightarrow> 0xC0A80000 \<le> unat a \<and> unat a \<le> 0xC0A8FFFF"
    and "octet 0 a = 169 \<and> octet 1 a = 254 \<longleftrightarrow> 0xA9FE0000 \<le> unat a \<and> unat a \<le> 0xA9FEFFFF"
    and "octet 0 a = 100 \<and> 64 \<le> octet 1 a \<and> octet 1 a \<le> 127 \<longleftrightarrow> 0x64400000 \<le> unat a \<and> unat a \<le> 0x647FFFFF"
    and "octet 0 a = 192 \<and> octet 1 a = 0 \<and> octet 2 a = 2 \<longleftrightarrow> 0xC0000200 \<le> unat a \<and> unat a \<le> 0xC00002FF"
    and "octet 0 a = 198 \<and> octet 1 a = 51 \<and> octet 2 a = 100 \<longleftrightarrow> 0xC6336400 \<le> unat a \<and> unat a \<le> 0xC63364FF"
    and "octet 0 a = 203 \<and> octet 1 a = 0 \<and> octet 2 a = 113 \<longleftrightarrow> 0xCB007100 \<le> unat a \<and> unat a \<le> 0xCB0071FF"
proof -
  show "octet 0 a = 127 \<longleftrightarrow> 0x7F000000 \<le> unat a \<and> unat a \<le> 0x7FFFFFFF"
    using octet_between [of a 127] by auto
  show "octet 0 a = 10 \<longleftrightarrow> 0x0A000000 \<le> unat a \<and> unat a \<le> 0x0AFFFFFF"
    using octet_between [of a 10] by auto
  show "octet 0 a = 0 \<longleftrightarrow> unat a \<le> 0x00FFFFFF"
    using octet_between [of a 0] by auto
  show "octet 0 a = 172 \<and> 16 \<le> octet 1 a \<and> octet 1 a \<le> 31 \<longleftrightarrow> 0xAC100000 \<le> unat a \<and> unat a \<le> 0xAC1FFFFF"
    using two_octets [of 16 31 a 172] by auto
  show "octet 0 a = 192 \<and> octet 1 a = 168 \<longleftrightarrow> 0xC0A80000 \<le> unat a \<and> unat a \<le> 0xC0A8FFFF"
    using two_octets [of 168 168 a 192] by auto
  show "octet 0 a = 169 \<and> octet 1 a = 254 \<longleftrightarrow> 0xA9FE0000 \<le> unat a \<and> unat a \<le> 0xA9FEFFFF"
    using two_octets [of 254 254 a 169] by auto
  show "octet 0 a = 100 \<and> 64 \<le> octet 1 a \<and> octet 1 a \<le> 127 \<longleftrightarrow> 0x64400000 \<le> unat a \<and> unat a \<le> 0x647FFFFF"
    using two_octets [of 64 127 a 100] by auto
  show "octet 0 a = 192 \<and> octet 1 a = 0 \<and> octet 2 a = 2 \<longleftrightarrow> 0xC0000200 \<le> unat a \<and> unat a \<le> 0xC00002FF"
    using three_octets [of 0 2 a 192] by auto
  show "octet 0 a = 198 \<and> octet 1 a = 51 \<and> octet 2 a = 100 \<longleftrightarrow> 0xC6336400 \<le> unat a \<and> unat a \<le> 0xC63364FF"
    using three_octets [of 51 100 a 198] by auto
  show "octet 0 a = 203 \<and> octet 1 a = 0 \<and> octet 2 a = 113 \<longleftrightarrow> 0xCB007100 \<le> unat a \<and> unat a \<le> 0xCB0071FF"
    using three_octets [of 0 113 a 203] by auto
qed

lemma assert_ipv4_public_iff: "assert_ipv4_public a = Inr () \<longleftrightarrow> public_v4 a"
proof -
  have last: "a = 0xFFFFFFFF \<longleftrightarrow> 0xFFFFFFFF \<le> unat a \<and> unat a \<le> 0xFFFFFFFF"
    using unat_v4 [of a] by (simp add: word_unat_eq_iff, linarith)
  have zero: "a = 0 \<Longrightarrow> unat a \<le> 0x00FFFFFF" by simp
  have refused: "(if d then Inl x else Inr ()) = Inr () \<longleftrightarrow> \<not> d" for d and x :: guard_error by simp
  show ?thesis
    unfolding assert_ipv4_public_def public_v4_def reserved_v4_def is_shared_cgnat_def last blocked_ranges refused
      list_ex_Nil_iff list_ex_Cons_iff prod.case
    using zero by blast
qed

lemma and_top_bits:
  fixes w :: "16 word"
  assumes "k \<le> 16"
  shows "unat (and w (push_bit k (mask (16 - k)))) = unat w div 2 ^ k * 2 ^ k"
proof -
  have "and w (push_bit k (mask (16 - k))) = push_bit k (drop_bit k w)"
    using assms by (auto intro!: bit_word_eqI simp: bit_simps)
  then have "unat (and w (push_bit k (mask (16 - k)))) = take_bit 16 (push_bit k (drop_bit k (unat w)))"
    using take_bit_nat_eq_self [of "unat w" 16] unsigned_less [of w, where 'a = nat]
    by (simp add: unsigned_push_bit_eq unsigned_drop_bit_eq)
  also have "\<dots> = push_bit k (drop_bit k (unat w))"
  proof -
    have "unat w div 2 ^ k * 2 ^ k \<le> unat w" by simp
    also have "unat w < 2 ^ 16" using unsigned_less [of w] by simp
    finally show ?thesis by (simp add: take_bit_nat_eq_self_iff push_bit_eq_mult drop_bit_eq_div)
  qed
  finally show ?thesis by (simp add: push_bit_eq_mult drop_bit_eq_div)
qed

lemma masked_ranges:
  fixes w :: "16 word"
  shows "and w 0xFE00 = 0xFC00 \<longleftrightarrow> 0xFC00 \<le> unat w \<and> unat w \<le> 0xFDFF"
    and "and w 0xFFC0 = 0xFE80 \<longleftrightarrow> 0xFE80 \<le> unat w \<and> unat w \<le> 0xFEBF"
proof -
  have "push_bit 9 (mask (16 - 9)) = (0xFE00 :: 16 word)" "push_bit 6 (mask (16 - 6)) = (0xFFC0 :: 16 word)"
    by (simp_all add: push_bit_eq_mult mask_eq_exp_minus_1)
  then have vals: "unat (and w 0xFE00) = unat w div 512 * 512" "unat (and w 0xFFC0) = unat w div 64 * 64"
    using and_top_bits [of 9 w] and_top_bits [of 6 w] by simp_all
  have "and w 0xFE00 = 0xFC00 \<longleftrightarrow> unat w div 512 = 126" unfolding word_unat_eq_iff vals by simp
  also have "\<dots> \<longleftrightarrow> 0xFC00 \<le> unat w \<and> unat w \<le> 0xFDFF" by (auto simp: div_nat_eqI)
  finally show "and w 0xFE00 = 0xFC00 \<longleftrightarrow> 0xFC00 \<le> unat w \<and> unat w \<le> 0xFDFF" .
  have "and w 0xFFC0 = 0xFE80 \<longleftrightarrow> unat w div 64 = 1018" unfolding word_unat_eq_iff vals by simp
  also have "\<dots> \<longleftrightarrow> 0xFE80 \<le> unat w \<and> unat w \<le> 0xFEBF" by (auto simp: div_nat_eqI)
  finally show "and w 0xFFC0 = 0xFE80 \<longleftrightarrow> 0xFE80 \<le> unat w \<and> unat w \<le> 0xFEBF" .
qed

lemma assert_ipv6_public_iff: "assert_ipv6_public a = Inr () \<longleftrightarrow> public_v6 a"
proof (cases "unat a div 2 ^ 32 = 0 \<or> unat a div 2 ^ 32 = 0xFFFF")
  case True
  then show ?thesis by (simp add: assert_ipv6_public_def to_ipv4_def public_v6_def assert_ipv4_public_iff Let_def)
next
  case False
  have "unat a div 2 ^ 112 < 2 ^ 16" using unsigned_less [of a] by (simp add: div_less_iff_less_mult)
  then have top: "unat (segment 0 a) = unat a div 2 ^ 112"
    by (simp add: segment_def unsigned_of_nat take_bit_nat_eq_self_iff)
  have "a \<noteq> 0" "a \<noteq> 1" using False by auto
  with False show ?thesis
    by (auto simp: assert_ipv6_public_def to_ipv4_def public_v6_def masked_ranges top Let_def)
qed

lemma assert_host_public_iff: "assert_host_public h = Inr () \<longleftrightarrow> public_host h"
proof (cases h)
  case (HostDomain d)
  then show ?thesis by (simp only: assert_host_public.simps public_host.simps Let_def) simp
qed (simp_all only: assert_host_public.simps public_host.simps assert_ipv4_public_iff assert_ipv6_public_iff)

lemma guard_exact: "assert_url_is_public parse raw = Inr u \<longleftrightarrow> parse raw = Inr u \<and> public_url u"
proof (cases "parse raw")
  case (Inr v)
  show ?thesis
  proof (cases "url_host v")
    case (Some h)
    then show ?thesis using assert_host_public_iff [of h]
      by (cases "assert_host_public h") (auto simp: assert_url_is_public_def public_url_def Inr)
  qed (auto simp: assert_url_is_public_def public_url_def Inr)
qed (simp add: assert_url_is_public_def)

lemma client_get_public:
  assumes "\<And>prev next. web prev = Redirect next \<Longrightarrow> parse (url_text next) = Inr next"
    and "list_all public_url (previous @ [u])" "length previous < MAX_REDIRECTS"
  shows "list_all public_url (fst (client_get parse web previous u)) \<and>
         length (fst (client_get parse web previous u)) \<le> MAX_REDIRECTS"
  using assms
proof (induction parse web previous u rule: client_get.induct)
  case (1 parse web previous u)
  have requested: "list_all public_url (previous @ [u])" "length (previous @ [u]) \<le> MAX_REDIRECTS" using 1(3,4) by simp_all
  show ?case
  proof (cases "web (previous @ [u])")
    case (Redirect nxt)
    show ?thesis
    proof (cases "redirect_policy parse (previous @ [u]) nxt")
      case (Inl e)
      with Redirect requested show ?thesis by (subst (1 2) client_get.simps) simp
    next
      case (Inr x)
      then have "length (previous @ [u]) < MAX_REDIRECTS" "public_url nxt"
        using 1(2) [OF Redirect] by (auto simp: redirect_policy_def guard_exact split: if_splits sum.splits)
      with 1(1) [OF refl Redirect Inr 1(2)] requested Redirect Inr show ?thesis
        by (subst (1 2) client_get.simps) simp
    qed
  qed (use requested in \<open>subst (1 2) client_get.simps, simp\<close>)+
qed

section \<open>Properties\<close>


text \<open>A page's text before its entities are decoded holds no angle bracket, and a script block leaves a blank only.\<close>

theorem stripped_page_has_no_markup: "CHR ''<'' \<notin> set (strip_html s)"
proof (induction s rule: strip_html.induct)
  case (1 s)
  show ?case
  proof (cases s)
    case (Cons c cs)
    show ?thesis
    proof (cases "is_angle c")
      case True
      have blank: "out = [] \<or> out = '' ''" if "skip_markup s = Some (out, rest)" for out rest
        using that by (auto simp: skip_markup_def split: option.splits if_splits)
      show ?thesis
      proof (cases "skip_markup s")
        case None
        with Cons True show ?thesis by (subst strip_html.simps) simp
      next
        case (Some p)
        obtain out rest where p: "p = (out, rest)" by fastforce
        have "CHR ''<'' \<notin> set out" using blank [OF Some [unfolded p]] by auto
        with 1(1) [OF Cons True Some p [symmetric]] Cons True Some p show ?thesis by (subst strip_html.simps) simp
      qed
    next
      case False
      have "CHR ''<'' \<notin> set (takeWhile (\<lambda>c. \<not> is_angle c) s)" by (auto simp: is_angle_def dest: set_takeWhileD)
      with 1(2) [OF Cons False] Cons False show ?thesis by (subst strip_html.simps) simp
    qed
  qed (subst strip_html.simps, simp)
qed

text \<open>The returned text is bounded.\<close>

theorem fetched_text_bounded:
  assumes "fetch_url_execute ellipsis parse web arguments = (requested, Inr out)"
  shows "length out \<le> 8000 + length ellipsis + 12"
  using assms
  by (auto simp: fetch_url_execute_def cap_len_def MAX_TEXT_LEN_def split: option.splits prod.splits sum.splits)

text \<open>The guard compares the name \<open>localhost\<close> without the root dot, which names the same host.\<close>

theorem localhost_dot_admitted: "assert_host_public (HostDomain ''localhost.'') = Inr ()"
  by code_simp

text \<open>Entities are decoded one kind after the other, the ampersand first, so an escaped entity is decoded twice.\<close>

theorem entities_decoded_twice: "html_to_text ''&amp;lt;'' = ''<''"
  by code_simp

section \<open>Witnesses\<close>

definition demo_url :: url where
  "demo_url = \<lparr>url_scheme = ''https'', url_host = Some (HostDomain ''e.com''), url_text = ''https://e.com/''\<rparr>"

definition metadata_url :: url where
  "metadata_url = \<lparr>url_scheme = ''http'', url_host = Some (HostIpv6 0xFFFFA9FEA9FE), url_text = ''http://[::ffff:a9fe:a9fe]/''\<rparr>"

definition demo_parse_url :: "string \<Rightarrow> string + url" where
  "demo_parse_url s = (if s = url_text metadata_url then Inr metadata_url else Inr demo_url)"


end
