(* ===== verification/Lambda_Front.thy ===== *)
theory Lambda_Front
  imports Connection Streaming
begin

text \<open>
  The serverless front end, \<open>rust/smooth-operator-lambda/src\<close>: one invocation per inbound frame, with the state in the
  store only and the answers posted back to the connection (\<open>poster.rs\<close>, \<open>dispatch.rs\<close>, \<open>config.rs\<close>, \<open>main.rs\<close>,
  \<open>connection.rs\<close>). It serves five actions of the protocol itself and hands three to the service's handler.

  The post-back service and the store are parameters: a post is delivered, finds the client gone, or fails, as the
  service decides call by call. A frame may verify its token more than once; the answers of the key issuer are
  numbered. The drain of a turn's events runs beside the turn and ends before the final frame, so the frames are
  posted in their order.
\<close>

section \<open>Posting back\<close>

record poster =
  po_reply :: "nat \<Rightarrow> string + bool"
  po_calls :: nat
  po_posted :: "json list"

definition post :: "json \<Rightarrow> poster \<Rightarrow> (string + bool) \<times> poster" where
  "post ev p =
     (let r = po_reply p (po_calls p) in
      (r, p\<lparr>po_calls := Suc (po_calls p), po_posted := (if r = Inr True then po_posted p @ [ev] else po_posted p)\<rparr>))"

text \<open>The drain of a turn's events: it stops posting once the client is gone, and goes on after a failure.\<close>

fun forward_events :: "json list \<Rightarrow> bool \<Rightarrow> poster \<Rightarrow> poster" where
  "forward_events [] connection_open p = p"
| "forward_events (ev # evs) connection_open p =
     (if \<not> connection_open then forward_events evs connection_open p
      else case post ev p of
             (Inr True, p') \<Rightarrow> forward_events evs True p'
           | (Inr False, p') \<Rightarrow> forward_events evs False p'
           | (Inl _, p') \<Rightarrow> forward_events evs True p')"

section \<open>Configuration\<close>

record lambda_config =
  lc_table :: string
  lc_gateway_url :: string
  lc_gateway_key :: "string option"
  lc_model :: string
  lc_max_iterations :: nat
  lc_max_tokens :: nat
  lc_org_id :: string
  lc_vector_bucket :: "string option"
  lc_vector_index_prefix :: string

definition lambda_number :: "(string \<rightharpoonup> string) \<Rightarrow> string \<Rightarrow> nat \<Rightarrow> nat" where
  "lambda_number env k d = unwrap_or (option_filter (\<lambda>n. n > 0) (Option.bind (env_trimmed env k) (parse_uint 32))) d"

definition lambda_config_from_env :: "(string \<rightharpoonup> string) \<Rightarrow> lambda_config" where
  "lambda_config_from_env env =
     \<lparr>lc_table = unwrap_or (env_trimmed env ''SMOOTH_AGENT_DDB_TABLE'') ''smooth-operator'',
      lc_gateway_url = unwrap_or (env_trimmed env ''SMOOAI_GATEWAY_URL'') DEFAULT_GATEWAY_URL,
      lc_gateway_key = env_trimmed env ''SMOOAI_GATEWAY_KEY'',
      lc_model = unwrap_or (env_trimmed env ''SMOOTH_AGENT_MODEL'') DEFAULT_MODEL,
      lc_max_iterations = lambda_number env ''SMOOTH_AGENT_MAX_ITERATIONS'' 6,
      lc_max_tokens = lambda_number env ''SMOOTH_AGENT_MAX_TOKENS'' 512,
      lc_org_id = unwrap_or (env_trimmed env ''SMOOTH_AGENT_ORG_ID'') ''default'',
      lc_vector_bucket = env_trimmed env ''SMOOTH_AGENT_VECTOR_BUCKET'',
      lc_vector_index_prefix = unwrap_or (env_trimmed env ''SMOOTH_AGENT_VECTOR_INDEX_PREFIX'') ''smooth-agent-knowledge''\<rparr>"

definition lambda_llm_config :: "lambda_config \<Rightarrow> llm_config option" where
  "lambda_llm_config lc =
     map_option (\<lambda>key. \<lparr>api_url = lc_gateway_url lc, api_key = key, llm_model = lc_model lc, llm_max_tokens = lc_max_tokens lc\<rparr>)
       (lc_gateway_key lc)"

section \<open>An invocation\<close>

text \<open>What is fixed for a deployment: the service's handler over the same store, the turn runner's seams, the token library.\<close>

record ('st, 'mac, 'e, 'r, 'k, 'alg, 'jwk) lambda_env =
  le_handler :: "('st, 'mac) handler_env"
  le_runner :: "('st, 'e, 'r) runner_env"
  le_config :: lambda_config
  le_lib :: "('k, 'alg, 'jwk) jwt_lib"
  le_jwks :: "nat \<Rightarrow> 'jwk jwks_call"

record ('st, 'v) invocation =
  iv_poster :: poster
  iv_store :: 'st
  iv_verifier :: 'v
  iv_verified :: nat

definition reply_event :: "json \<Rightarrow> ('st, 'v) invocation \<Rightarrow> (string + unit) \<times> ('st, 'v) invocation" where
  "reply_event ev iv =
     (case post ev (iv_poster iv) of
        (Inl e, p) \<Rightarrow> (Inl e, iv\<lparr>iv_poster := p\<rparr>)
      | (Inr _, p) \<Rightarrow> (Inr (), iv\<lparr>iv_poster := p\<rparr>))"

definition frame_token_of :: "json \<Rightarrow> string option" where
  "frame_token_of parsed = option_filter (\<lambda>t. t \<noteq> []) (map_option trim (get_str parsed ''token''))"

definition resolve_frame_principal ::
  "('st, 'mac, 'e, 'r, 'k, 'alg, 'jwk) lambda_env \<Rightarrow> json \<Rightarrow> ('st, ('k, 'alg, 'jwk) verifier) invocation
    \<Rightarrow> principal option \<times> ('st, ('k, 'alg, 'jwk) verifier) invocation" where
  "resolve_frame_principal le parsed iv =
     (case frame_token_of parsed of
        None \<Rightarrow> (None, iv)
      | Some tok \<Rightarrow>
          (case verify (le_lib le) (le_jwks le (iv_verified iv)) tok (iv_verifier iv) of
             (r, v) \<Rightarrow>
               (case r of Inr p \<Rightarrow> Some p | Inl _ \<Rightarrow> None, iv\<lparr>iv_verifier := v, iv_verified := Suc (iv_verified iv)\<rparr>)))"

definition frame_org ::
  "('st, 'mac, 'e, 'r, 'k, 'alg, 'jwk) lambda_env \<Rightarrow> json \<Rightarrow> ('st, ('k, 'alg, 'jwk) verifier) invocation
    \<Rightarrow> string option \<times> ('st, ('k, 'alg, 'jwk) verifier) invocation" where
  "frame_org le parsed iv = (case resolve_frame_principal le parsed iv of (p, iv') \<Rightarrow> (map_option pr_org_id p, iv'))"

definition resolve_frame_access ::
  "('st, 'mac, 'e, 'r, 'k, 'alg, 'jwk) lambda_env \<Rightarrow> json \<Rightarrow> ('st, ('k, 'alg, 'jwk) verifier) invocation
    \<Rightarrow> access_context \<times> ('st, ('k, 'alg, 'jwk) verifier) invocation" where
  "resolve_frame_access le parsed iv =
     (case resolve_frame_principal le parsed iv of
        (p, iv') \<Rightarrow> (case p of Some x \<Rightarrow> principal_access_context x | None \<Rightarrow> access_anonymous, iv'))"

definition frame_user_scope ::
  "('st, 'mac, 'e, 'r, 'k, 'alg, 'jwk) lambda_env \<Rightarrow> json \<Rightarrow> ('st, ('k, 'alg, 'jwk) verifier) invocation
    \<Rightarrow> user_scope \<times> ('st, ('k, 'alg, 'jwk) verifier) invocation" where
  "frame_user_scope le parsed iv =
     (let single = is_single_user_mode (verifier_mode (iv_verifier iv)) in
      case resolve_frame_principal le parsed iv of
        (Some p, iv') \<Rightarrow>
          (case pr_email p of Some e \<Rightarrow> ScopeUser e | None \<Rightarrow> if single then Unscoped else ScopeDenied, iv')
      | (None, iv') \<Rightarrow> (if single then Unscoped else ScopeDenied, iv'))"

section \<open>Sessions\<close>

text \<open>The rows of a new session: the principal's address wins over the frame's.\<close>

definition lambda_rows :: "frame_input \<Rightarrow> lambda_config \<Rightarrow> principal option \<Rightarrow> string \<Rightarrow> json \<Rightarrow> create_rows" where
  "lambda_rows fi lc p aid parsed =
     (let now = fi_now fi; cid = fi_conversation_id fi; sid = fi_session_id fi;
          org = (case p of Some x \<Rightarrow> pr_org_id x | None \<Rightarrow> lc_org_id lc);
          email = option_or (Option.bind p pr_email) (get_str parsed ''userEmail'')
      in \<lparr>row_conversation = Some
            \<lparr>conv_id = cid, conv_platform = Web, conv_name = ''Session '' @ sid, conv_organization_id = org,
             conv_idempotency_key = sid, conv_metadata_json = jget parsed ''metadata'', conv_analytics_json = None,
             conv_created_at = now, conv_updated_at = now\<rparr>,
          row_user =
            \<lparr>pt_id = fi_user_participant_id fi, pt_conversation_id = cid, pt_organization_id = org, pt_type = User,
             pt_external_id = None, pt_internal_id = None, pt_browser_fingerprint = get_str parsed ''browserFingerprint'',
             pt_browser_info = None, pt_name = unwrap_or (get_str parsed ''userName'') ''Visitor'', pt_email = email,
             pt_phone = None, pt_crm_contact_id = None, pt_metadata_json = None, pt_created_at = now, pt_updated_at = now\<rparr>,
          row_agent =
            \<lparr>pt_id = fi_agent_participant_id fi, pt_conversation_id = cid, pt_organization_id = org, pt_type = AiAgent,
             pt_external_id = None, pt_internal_id = Some aid, pt_browser_fingerprint = None, pt_browser_info = None,
             pt_name = AGENT_NAME, pt_email = None, pt_phone = None, pt_crm_contact_id = None,
             pt_metadata_json = None, pt_created_at = now, pt_updated_at = now\<rparr>,
          row_session =
            \<lparr>session_id = sid, ss_conversation_id = cid, ss_organization_id = org, ss_agent_id = Some aid,
             ss_agent_name = AGENT_NAME, ss_user_participant_id = fi_user_participant_id fi,
             ss_agent_participant_id = fi_agent_participant_id fi, ss_thread_id = cid, ss_status = Some Active,
             ss_token_count = Some 0, ss_message_count = Some 0, ss_metadata = None, ss_created_at = Some now,
             ss_updated_at = Some now, ss_ended_at = None, ss_last_activity_at = Some now\<rparr>\<rparr>)"

definition lambda_create_session ::
  "('st, 'mac, 'e, 'r, 'k, 'alg, 'jwk) lambda_env \<Rightarrow> frame_input \<Rightarrow> json \<Rightarrow> string option
    \<Rightarrow> ('st, ('k, 'alg, 'jwk) verifier) invocation \<Rightarrow> (string + unit) \<times> ('st, ('k, 'alg, 'jwk) verifier) invocation" where
  "lambda_create_session le fi parsed rid iv =
     (case option_filter (\<lambda>s. s \<noteq> []) (map_option trim (get_str parsed ''agentId'')) of
        None \<Rightarrow> reply_event (error_event (fi_now_ms fi) rid ''VALIDATION_ERROR'' (''missing '' @ quoted ''agentId'')) iv
      | Some aid \<Rightarrow>
          (case resolve_frame_principal le parsed iv of
             (p, iv1) \<Rightarrow>
               let rows = lambda_rows fi (le_config le) p aid parsed in
               (case persist_rows (rv_adapter (le_runner le)) (fi_now fi) False [] rows (iv_store iv1) of
                  (Some e, st) \<Rightarrow> reply_event (error_event (fi_now_ms fi) rid ''INTERNAL_ERROR'' e) (iv1\<lparr>iv_store := st\<rparr>)
                | (None, st) \<Rightarrow> reply_event (session_created_event fi rid aid rows) (iv1\<lparr>iv_store := st\<rparr>))))"

text \<open>The session a frame names, when its organization is the frame's; a frame without identity is not checked.\<close>

definition lambda_session ::
  "('st, 'mac, 'e, 'r, 'k, 'alg, 'jwk) lambda_env \<Rightarrow> json \<Rightarrow> string \<Rightarrow> ('st, ('k, 'alg, 'jwk) verifier) invocation
    \<Rightarrow> (string + session option) \<times> ('st, ('k, 'alg, 'jwk) verifier) invocation" where
  "lambda_session le parsed sid iv =
     (case ad_get_session (rv_adapter (le_runner le)) sid (iv_store iv) of
        Inl e \<Rightarrow> (Inl e, iv)
      | Inr None \<Rightarrow> (Inr None, iv)
      | Inr (Some s) \<Rightarrow>
          (case frame_org le parsed iv of
             (org, iv') \<Rightarrow> (Inr (if same_org org (ss_organization_id s) then Some s else None), iv')))"

definition lambda_get_session ::
  "('st, 'mac, 'e, 'r, 'k, 'alg, 'jwk) lambda_env \<Rightarrow> frame_input \<Rightarrow> json \<Rightarrow> string option
    \<Rightarrow> ('st, ('k, 'alg, 'jwk) verifier) invocation \<Rightarrow> (string + unit) \<times> ('st, ('k, 'alg, 'jwk) verifier) invocation" where
  "lambda_get_session le fi parsed rid iv =
     (case get_str parsed ''sessionId'' of
        None \<Rightarrow> reply_event (missing_session_id fi rid) iv
      | Some sid \<Rightarrow>
          (case lambda_session le parsed sid iv of
             (Inr (Some s), iv') \<Rightarrow> reply_event (session_event fi rid s) iv'
           | (Inr None, iv') \<Rightarrow> reply_event (session_not_found fi rid sid) iv'
           | (Inl e, iv') \<Rightarrow> reply_event (error_event (fi_now_ms fi) rid ''INTERNAL_ERROR'' (''get session failed: '' @ e)) iv'))"

section \<open>Turns\<close>

text \<open>The seams this front end leaves empty.\<close>

definition lambda_runner :: "('st, 'e, 'r) runner_env \<Rightarrow> ('st, 'e, 'r) runner_env" where
  "lambda_runner rv =
     rv\<lparr>rv_kinds := [], rv_tool_provider := None, rv_tool_hooks := 0, rv_extensions := None, rv_composer := None,
        rv_model_ceiling := None\<rparr>"

definition lambda_access :: "access_context \<Rightarrow> session \<Rightarrow> access_context" where
  "lambda_access acc s =
     with_agent_id (if organization_id acc \<noteq> None then acc else with_organization_id acc (ss_organization_id s)) (ss_agent_id s)"

definition lambda_turn :: "lambda_config \<Rightarrow> session \<Rightarrow> string \<Rightarrow> string \<Rightarrow> llm_config \<Rightarrow> access_context \<Rightarrow> turn_request" where
  "lambda_turn lc s rid message llm acc =
     \<lparr>tr_session_id = session_id s, tr_conversation_id = ss_conversation_id s, tr_request_id = rid, tr_message = message,
      tr_images = [], tr_files = [], tr_llm = llm, tr_max_iterations = lc_max_iterations lc, tr_access = acc,
      tr_confirmation = None, tr_capabilities = [], tr_system_prompt = None, tr_base_source = BaseBuiltIn,
      tr_org_id = lc_org_id lc, tr_gateway_key = lc_gateway_key lc, tr_workflow = None, tr_attempts = 0, tr_judge = None,
      tr_greeting_section = None, tr_skill_section = None, tr_enabled_tools = None, tr_enabled_extensions = None,
      tr_auth_gate = None, tr_tool_configs = Map.empty, tr_request_metadata = None, tr_demo_tools = False, tr_agent = None,
      tr_session_authenticated = False\<rparr>"

definition lambda_final :: "('st, 'mac) handler_env \<Rightarrow> int \<Rightarrow> turn_request \<Rightarrow> string + streamed_turn \<Rightarrow> json" where
  "lambda_final he now tr result =
     (case result of
        Inr t \<Rightarrow> final_response he now tr t
      | Inl e \<Rightarrow> error_event now (Some (tr_request_id tr)) ''AGENT_ERROR'' (''agent turn failed: '' @ e))"

definition lambda_run_turn ::
  "('st, 'mac, 'e, 'r, 'k, 'alg, 'jwk) lambda_env \<Rightarrow> frame_input \<Rightarrow> turn_stamps \<Rightarrow> turn_request
    \<Rightarrow> ('st, ('k, 'alg, 'jwk) verifier) invocation \<Rightarrow> (string + unit) \<times> ('st, ('k, 'alg, 'jwk) verifier) invocation" where
  "lambda_run_turn le fi stamps tr iv =
     (let run = run_streaming_turn (lambda_runner (le_runner le)) tr stamps (fi_now_ms fi) (iv_store iv) in
      reply_event (lambda_final (le_handler le) (fi_now_ms fi) tr (run_result run))
        (iv\<lparr>iv_store := run_store run, iv_poster := forward_events (run_frames run) True (iv_poster iv)\<rparr>))"

text \<open>The acknowledgement, whose failed post ends the invocation, then the turn with the requester's entitlement.\<close>

definition lambda_acked_turn ::
  "('st, 'mac, 'e, 'r, 'k, 'alg, 'jwk) lambda_env \<Rightarrow> frame_input \<Rightarrow> turn_stamps \<Rightarrow> json \<Rightarrow> session \<Rightarrow> string \<Rightarrow> string \<Rightarrow> llm_config
    \<Rightarrow> ('st, ('k, 'alg, 'jwk) verifier) invocation \<Rightarrow> (string + unit) \<times> ('st, ('k, 'alg, 'jwk) verifier) invocation" where
  "lambda_acked_turn le fi stamps parsed s r message llm iv =
     (case reply_event (processing_ack fi r) iv of
        (Inl e, iv1) \<Rightarrow> (Inl e, iv1)
      | (Inr _, iv1) \<Rightarrow>
          (case resolve_frame_access le parsed iv1 of
             (acc, iv2) \<Rightarrow>
               lambda_run_turn le fi stamps (lambda_turn (le_config le) s r message llm (lambda_access acc s)) iv2))"

definition lambda_send_message ::
  "('st, 'mac, 'e, 'r, 'k, 'alg, 'jwk) lambda_env \<Rightarrow> frame_input \<Rightarrow> turn_stamps \<Rightarrow> json \<Rightarrow> string option
    \<Rightarrow> ('st, ('k, 'alg, 'jwk) verifier) invocation \<Rightarrow> (string + unit) \<times> ('st, ('k, 'alg, 'jwk) verifier) invocation" where
  "lambda_send_message le fi stamps parsed rid iv =
     (let refuse = (\<lambda>r code msg. reply_event (error_event (fi_now_ms fi) r code msg)) in
      case rid of
        None \<Rightarrow> refuse None ''VALIDATION_ERROR'' (''send_message requires a '' @ quoted ''requestId'') iv
      | Some r \<Rightarrow>
          (case get_str parsed ''sessionId'' of
             None \<Rightarrow> refuse (Some r) ''VALIDATION_ERROR'' (''missing '' @ quoted ''sessionId'') iv
           | Some sid \<Rightarrow>
               (case option_filter (\<lambda>m. trim m \<noteq> []) (get_str parsed ''message'') of
                  None \<Rightarrow> refuse (Some r) ''VALIDATION_ERROR'' (''missing or empty '' @ quoted ''message'') iv
                | Some message \<Rightarrow>
                    (case lambda_session le parsed sid iv of
                       (Inl e, iv1) \<Rightarrow> refuse (Some r) ''INTERNAL_ERROR'' (''get session failed: '' @ e) iv1
                     | (Inr None, iv1) \<Rightarrow> reply_event (session_not_found fi (Some r) sid) iv1
                     | (Inr (Some s), iv1) \<Rightarrow>
                         (case lambda_llm_config (le_config le) of
                            None \<Rightarrow> refuse (Some r) ''LLM_UNAVAILABLE''
                                ''SMOOAI_GATEWAY_KEY is not configured; this handler cannot serve LLM turns.'' iv1
                          | Some llm \<Rightarrow> lambda_acked_turn le fi stamps parsed s r message llm iv1)))))"

section \<open>Delegation and dispatch\<close>

definition DELEGATED_ACTIONS :: "string list" where
  "DELEGATED_ACTIONS = [''get_conversation_messages'', ''list_conversations'', ''rename_conversation'']"

text \<open>The service's handler over a fresh state and the same store.\<close>

definition delegate_to_server ::
  "('st, 'mac, 'e, 'r, 'k, 'alg, 'jwk) lambda_env \<Rightarrow> frame_input \<Rightarrow> spawn_input \<Rightarrow> string \<Rightarrow> string \<Rightarrow> json
    \<Rightarrow> ('st, ('k, 'alg, 'jwk) verifier) invocation \<Rightarrow> (string + unit) \<times> ('st, ('k, 'alg, 'jwk) verifier) invocation" where
  "delegate_to_server le fi si conn raw parsed iv =
     (case resolve_frame_access le parsed iv of
        (acc, iv1) \<Rightarrow>
          (case frame_org le parsed iv1 of
             (org, iv2) \<Rightarrow>
               (case frame_user_scope le parsed iv2 of
                  (scope, iv3) \<Rightarrow>
                    (case handle_frame (le_handler le) fi si acc conn None (Some (unwrap_or org (lc_org_id (le_config le)))) scope raw
                            (app_state_new (iv_store iv3)) of
                       (w, fs, spawned) \<Rightarrow>
                         (Inr (), iv3\<lparr>iv_store := storage w, iv_poster := forward_events fs True (iv_poster iv3)\<rparr>)))))"

definition lambda_frame ::
  "('st, 'mac, 'e, 'r, 'k, 'alg, 'jwk) lambda_env \<Rightarrow> frame_input \<Rightarrow> spawn_input \<Rightarrow> turn_stamps \<Rightarrow> string \<Rightarrow> string
    \<Rightarrow> ('st, ('k, 'alg, 'jwk) verifier) invocation \<Rightarrow> (string + unit) \<times> ('st, ('k, 'alg, 'jwk) verifier) invocation" where
  "lambda_frame le fi si stamps conn raw iv =
     (case he_from_str (le_handler le) raw of
        Inl e \<Rightarrow> reply_event (error_event (fi_now_ms fi) None ''VALIDATION_ERROR'' (''invalid JSON frame: '' @ e)) iv
      | Inr parsed \<Rightarrow>
          let rid = get_str parsed ''requestId'' in
          (case get_str parsed ''action'' of
             None \<Rightarrow> reply_event (error_event (fi_now_ms fi) rid ''VALIDATION_ERROR'' (''missing '' @ quoted ''action'' @ '' field'')) iv
           | Some a \<Rightarrow>
               if a = ''ping'' then reply_event (pong (fi_now_ms fi) rid) iv
               else if a = ''create_conversation_session'' then lambda_create_session le fi parsed rid iv
               else if a = ''get_session'' then lambda_get_session le fi parsed rid iv
               else if a = ''send_message'' then lambda_send_message le fi stamps parsed rid iv
               else if a \<in> set DELEGATED_ACTIONS then delegate_to_server le fi si conn raw parsed iv
               else reply_event (error_event (fi_now_ms fi) rid ''UNSUPPORTED_ACTION''
                      (''action '' @ quoted a @ '' is not supported'')) iv))"

text \<open>The entry point: the status of the invocation. A failed post is logged; the connection record is best effort on the way out.\<close>

definition lambda_handler ::
  "('st, 'mac, 'e, 'r, 'k, 'alg, 'jwk) lambda_env \<Rightarrow> frame_input \<Rightarrow> spawn_input \<Rightarrow> turn_stamps \<Rightarrow> string option \<Rightarrow> string option
    \<Rightarrow> string option \<Rightarrow> string option \<Rightarrow> (string \<Rightarrow> string + unit) \<Rightarrow> ('st, ('k, 'alg, 'jwk) verifier) invocation
    \<Rightarrow> nat \<times> ('st, ('k, 'alg, 'jwk) verifier) invocation" where
  "lambda_handler le fi si stamps route conn domain body record_connect iv =
     (let key = unwrap_or route ''$default''; cid = unwrap_or conn [] in
      if key = ''$connect'' then ((case record_connect cid of Inr _ \<Rightarrow> 200 | Inl _ \<Rightarrow> 500), iv)
      else if key = ''$disconnect'' then (200, iv)
      else case domain of
             None \<Rightarrow> (500, iv)
           | Some _ \<Rightarrow> (200, snd (lambda_frame le fi si stamps cid (unwrap_or body []) iv)))"

section \<open>Lemmas: posting\<close>

definition delivers :: "poster \<Rightarrow> bool" where
  "delivers p \<longleftrightarrow> po_reply p = (\<lambda>_. Inr True)"

lemma forward_delivered:
  assumes "delivers p"
  shows "po_posted (forward_events evs True p) = po_posted p @ evs \<and> delivers (forward_events evs True p)"
  using assms by (induction evs arbitrary: p) (simp_all add: delivers_def post_def Let_def)

lemma reply_event_delivered:
  assumes "delivers (iv_poster iv)"
  shows "\<exists>iv'. reply_event ev iv = (Inr (), iv') \<and> po_posted (iv_poster iv') = po_posted (iv_poster iv) @ [ev] \<and>
    delivers (iv_poster iv')"
  using assms by (simp add: reply_event_def post_def delivers_def Let_def)

text \<open>A post never removes or reorders what the client has, whatever the service answers, and nothing follows the call
  that found the client gone.\<close>

lemma forward_events_prefix:
  "\<exists>fs. po_posted (forward_events evs b p) = po_posted p @ fs \<and> subseq fs evs"
proof (induction evs b p rule: forward_events.induct)
  case (2 ev evs b p)
  show ?case
  proof (cases b)
    case False
    with 2(1) show ?thesis by (auto intro: list_emb_Cons)
  next
    case True
    consider "po_reply p (po_calls p) = Inr True" | "po_reply p (po_calls p) = Inr False" | e where "po_reply p (po_calls p) = Inl e"
      by (metis sum.exhaust)
    then show ?thesis
      using 2(2,3,4) True by cases (fastforce simp: post_def Let_def intro: list_emb_Cons)+
  qed
qed simp

lemma gone_client_not_called [simp]: "forward_events evs False p = p"
  by (induction evs) simp_all

section \<open>Lemmas: identity\<close>

lemma resolve_frame_poster:
  "resolve_frame_principal le parsed iv = (p, iv') \<Longrightarrow> iv_poster iv' = iv_poster iv \<and> iv_store iv' = iv_store iv"
  by (auto simp: resolve_frame_principal_def split: option.splits prod.splits)

lemma frame_org_poster:
  "frame_org le parsed iv = (org, iv') \<Longrightarrow> iv_poster iv' = iv_poster iv \<and> iv_store iv' = iv_store iv"
  by (auto simp: frame_org_def dest: resolve_frame_poster split: prod.splits)

lemma frame_access_poster:
  "resolve_frame_access le parsed iv = (acc, iv') \<Longrightarrow> iv_poster iv' = iv_poster iv \<and> iv_store iv' = iv_store iv"
  by (auto simp: resolve_frame_access_def dest: resolve_frame_poster split: prod.splits)

lemma frame_scope_poster:
  "frame_user_scope le parsed iv = (scope, iv') \<Longrightarrow> iv_poster iv' = iv_poster iv \<and> iv_store iv' = iv_store iv"
  by (auto simp: frame_user_scope_def Let_def dest: resolve_frame_poster split: prod.splits option.splits)

lemma lambda_session_poster:
  "lambda_session le parsed sid iv = (r, iv') \<Longrightarrow> iv_poster iv' = iv_poster iv \<and> iv_store iv' = iv_store iv"
  by (auto simp: lambda_session_def dest: frame_org_poster split: prod.splits option.splits sum.splits)

lemma verify_keeps_mode: "verify lib jc tok v = (r, v') \<Longrightarrow> verifier_mode v' = verifier_mode v"
  by (cases v) (auto split: prod.splits)

lemma resolve_frame_keeps_mode:
  "resolve_frame_principal le parsed iv = (p, iv') \<Longrightarrow> verifier_mode (iv_verifier iv') = verifier_mode (iv_verifier iv)"
  by (auto simp: resolve_frame_principal_def dest: verify_keeps_mode split: option.splits prod.splits)

lemma frame_identity_keeps_mode:
  "resolve_frame_access le parsed iv = (acc, iv') \<Longrightarrow> verifier_mode (iv_verifier iv') = verifier_mode (iv_verifier iv)"
  "frame_org le parsed iv = (org, iv') \<Longrightarrow> verifier_mode (iv_verifier iv') = verifier_mode (iv_verifier iv)"
  by (auto simp: resolve_frame_access_def frame_org_def dest: resolve_frame_keeps_mode split: prod.splits)

lemma no_token_anonymous:
  "frame_token_of parsed = None \<Longrightarrow> resolve_frame_principal le parsed iv = (None, iv)"
  by (simp add: resolve_frame_principal_def)

section \<open>Lemmas: the answer of a frame\<close>

text \<open>What a frame posts: one frame, or the acknowledgement of a turn, its stream and its single end.\<close>

definition served :: "frame_input \<Rightarrow> string option \<Rightarrow> json list \<Rightarrow> bool" where
  "served fi rid fs \<longleftrightarrow>
     list_all (envelope_ok rid) fs \<and>
     (length fs = 1 \<or>
      (\<exists>r stream t. rid = Some r \<and> fs = processing_ack fi r # stream @ [t] \<and> filter terminal stream = [] \<and> terminal t))"

definition posts :: "frame_input \<Rightarrow> string option \<Rightarrow> ('st, 'v) invocation \<Rightarrow> (string + unit) \<times> ('st, 'v) invocation \<Rightarrow> bool" where
  "posts fi rid iv run \<longleftrightarrow>
     fst run = Inr () \<and>
     (\<exists>fs. po_posted (iv_poster (snd run)) = po_posted (iv_poster iv) @ fs \<and> served fi rid fs)"

lemma posts_reply:
  assumes "delivers (iv_poster iv)" "iv_poster iv = iv_poster iv0" "envelope_ok rid ev"
  shows "posts fi rid iv0 (reply_event ev iv)"
  using reply_event_delivered [OF assms(1), of ev] assms(2,3) by (auto simp: posts_def served_def)

lemma translator_enveloped: "translator_run rid ms es = (t, fs) \<Longrightarrow> list_all (envelope_ok (Some rid)) fs"
  by (auto simp: translator_run_def dest!: translate_all_texts split: prod.splits)

lemma run_frames_enveloped: "list_all (envelope_ok (Some (tr_request_id tr))) (run_frames (run_streaming_turn rv tr stamps ms st))"
  by (auto simp: run_streaming_turn_def complete_turn_def turn_failed_def Let_def dest: translator_enveloped
      split: sum.split prod.split)

lemma lambda_final_ok:
  "envelope_ok (Some (tr_request_id tr)) (lambda_final he now tr r)" "terminal (lambda_final he now tr r)"
  by (cases r; simp add: lambda_final_def final_response_def terminal_def)+

lemma session_replies_posted:
  assumes "delivers (iv_poster iv)"
  shows "posts fi rid iv (lambda_create_session le fi parsed rid iv)" and "posts fi rid iv (lambda_get_session le fi parsed rid iv)"
proof -
  show "posts fi rid iv (lambda_create_session le fi parsed rid iv)"
    by (auto simp: lambda_create_session_def Let_def dest: resolve_frame_poster intro!: posts_reply assms
        split: option.split prod.split)
  show "posts fi rid iv (lambda_get_session le fi parsed rid iv)"
    by (auto simp: lambda_get_session_def dest: lambda_session_poster intro!: posts_reply assms
        split: option.split prod.split sum.split)
qed

lemma lambda_turn_posted:
  assumes "delivers (iv_poster iv)" and "po_posted (iv_poster iv) = po_posted (iv_poster iv0) @ [processing_ack fi (tr_request_id tr)]"
  shows "posts fi (Some (tr_request_id tr)) iv0 (lambda_run_turn le fi stamps tr iv)"
proof -
  define run where "run = run_streaming_turn (lambda_runner (le_runner le)) tr stamps (fi_now_ms fi) (iv_store iv)"
  define fin where "fin = lambda_final (le_handler le) (fi_now_ms fi) tr (run_result run)"
  let ?iv = "iv\<lparr>iv_store := run_store run, iv_poster := forward_events (run_frames run) True (iv_poster iv)\<rparr>"
  from forward_delivered [OF assms(1)] reply_event_delivered [of ?iv fin] obtain iv' where
    "reply_event fin ?iv = (Inr (), iv')" "po_posted (iv_poster iv') = po_posted (iv_poster iv) @ run_frames run @ [fin]"
    by auto
  moreover have "served fi (Some (tr_request_id tr)) (processing_ack fi (tr_request_id tr) # run_frames run @ [fin])"
    using run_frames_enveloped run_frames_not_terminal lambda_final_ok by (force simp: served_def run_def fin_def)
  ultimately show ?thesis
    using assms(2) by (auto simp: posts_def lambda_run_turn_def Let_def run_def fin_def)
qed

lemma acked_turn_posted:
  assumes "delivers (iv_poster iv)" and "iv_poster iv = iv_poster iv0"
  shows "posts fi (Some r) iv0 (lambda_acked_turn le fi stamps parsed s r m llm iv)"
proof -
  from reply_event_delivered [OF assms(1), of "processing_ack fi r"] assms(2) obtain iv1 where
    ack: "reply_event (processing_ack fi r) iv = (Inr (), iv1)"
      "po_posted (iv_poster iv1) = po_posted (iv_poster iv0) @ [processing_ack fi r]" "delivers (iv_poster iv1)" by auto
  obtain acc iv2 where acc: "resolve_frame_access le parsed iv1 = (acc, iv2)" by fastforce
  from frame_access_poster [OF acc] ack
    lambda_turn_posted [of iv2 iv0 fi "lambda_turn (le_config le) s r m llm (lambda_access acc s)"]
  show ?thesis by (simp add: lambda_acked_turn_def acc lambda_turn_def)
qed

lemma lambda_send_posted:
  assumes "delivers (iv_poster iv)"
  shows "posts fi rid iv (lambda_send_message le fi stamps parsed rid iv)"
  by (auto simp: lambda_send_message_def Let_def dest: lambda_session_poster intro!: posts_reply acked_turn_posted assms
      split: option.split prod.split sum.split)

text \<open>The actions handed over are answered once by the service and start no turn.\<close>

lemma delegated_dispatch:
  assumes "he_from_str he raw = Inr parsed" "get_str parsed ''action'' = Some a" "a \<in> set DELEGATED_ACTIONS"
  shows "\<exists>w' f. handle_frame he fi si acc conn orig auth_org scope raw w = (w', [f], None) \<and>
           envelope_ok (get_str parsed ''requestId'') f"
proof -
  have one: "\<exists>w' f. no_turn run = (w', [f], None) \<and> envelope_ok rid f" if "answered rid (snd run)" for rid and run :: "'a app_state \<times> json list"
    using that by (cases run) (auto simp: answered_def no_turn_def)
  from assms(3) consider "a = ''get_conversation_messages''" | "a = ''list_conversations''" | "a = ''rename_conversation''"
    by (auto simp: DELEGATED_ACTIONS_def)
  then show ?thesis
    by cases (simp_all add: handle_frame_def dispatch_def assms(1,2) one get_messages_answered list_answered rename_answered)
qed

lemma delegate_posted:
  assumes "delivers (iv_poster iv)"
    and "he_from_str (le_handler le) raw = Inr parsed" "get_str parsed ''action'' = Some a" "a \<in> set DELEGATED_ACTIONS"
  shows "posts fi (get_str parsed ''requestId'') iv (delegate_to_server le fi si conn raw parsed iv)"
proof -
  obtain acc iv1 where 1: "resolve_frame_access le parsed iv = (acc, iv1)" by fastforce
  obtain org iv2 where 2: "frame_org le parsed iv1 = (org, iv2)" by fastforce
  obtain scope iv3 where 3: "frame_user_scope le parsed iv2 = (scope, iv3)" by fastforce
  from frame_access_poster [OF 1] frame_org_poster [OF 2] frame_scope_poster [OF 3] have p: "iv_poster iv3 = iv_poster iv"
    by simp
  obtain w' f where "handle_frame (le_handler le) fi si acc conn None (Some (unwrap_or org (lc_org_id (le_config le)))) scope raw
      (app_state_new (iv_store iv3)) = (w', [f], None)" "envelope_ok (get_str parsed ''requestId'') f"
    using delegated_dispatch [OF assms(2-4)] by metis
  with p forward_delivered [OF assms(1), of "[f]"] show ?thesis
    by (simp add: delegate_to_server_def 1 2 3 posts_def served_def del: forward_events.simps)
qed

section \<open>Properties\<close>


text \<open>A session of another organization is to a verified requester what an id that was never issued is: both
  reading it and sending to it answer \<open>SESSION_NOT_FOUND\<close>, with the frame an unknown id gets, post nothing else,
  start no turn and leave the store as it was.\<close>

theorem lambda_foreign_session_unknown:
  assumes "ad_get_session (rv_adapter (le_runner le)) sid (iv_store iv) \<in> {Inr None, Inr (Some s)}"
    and "resolve_frame_principal le parsed iv = (Some p, iv1)" and "ss_organization_id s \<noteq> pr_org_id p"
    and "get_str parsed ''sessionId'' = Some sid" and "get_str parsed ''message'' = Some m" "trim m \<noteq> []"
  shows "\<exists>iv2 \<in> {iv, iv1}.
      lambda_get_session le fi parsed rid iv = reply_event (session_not_found fi rid sid) iv2 \<and>
      lambda_send_message le fi stamps parsed (Some r) iv = reply_event (session_not_found fi (Some r) sid) iv2 \<and>
      iv_store iv2 = iv_store iv \<and> iv_poster iv2 = iv_poster iv"
proof -
  obtain iv2 where "lambda_session le parsed sid iv = (Inr None, iv2)" "iv2 \<in> {iv, iv1}"
    using assms(1-3) by (auto simp: lambda_session_def frame_org_def same_org_def)
  moreover from this(2) resolve_frame_poster [OF assms(2)] have "iv_store iv2 = iv_store iv \<and> iv_poster iv2 = iv_poster iv"
    by auto
  ultimately show ?thesis
    using assms(4-6) by (intro bexI [of _ iv2]) (simp_all add: lambda_get_session_def lambda_send_message_def Let_def)
qed

text \<open>The check is of the organization only, and only for a verified frame: a frame without a token reads any session
  of the store, whatever its organization, and a colleague's session is served to every member.\<close>

theorem lambda_session_without_token:
  assumes "ad_get_session (rv_adapter (le_runner le)) sid (iv_store iv) = Inr (Some s)"
    and "frame_token_of parsed = None" and "get_str parsed ''sessionId'' = Some sid"
  shows "lambda_get_session le fi parsed rid iv = reply_event (session_event fi rid s) iv"
  using assms by (simp add: lambda_get_session_def lambda_session_def frame_org_def no_token_anonymous same_org_def)

theorem lambda_session_of_colleague:
  assumes "ad_get_session (rv_adapter (le_runner le)) sid (iv_store iv) = Inr (Some s)"
    and "resolve_frame_principal le parsed iv = (Some p, iv1)" and "ss_organization_id s = pr_org_id p"
    and "get_str parsed ''sessionId'' = Some sid"
  shows "lambda_get_session le fi parsed rid iv = reply_event (session_event fi rid s) iv1"
  using assms by (simp add: lambda_get_session_def lambda_session_def frame_org_def same_org_def)


section \<open>Witnesses\<close>

definition demo_lambda :: "(tables, unit, kb_error, string set \<times> string set \<times> turn_hook list, string, unit, string) lambda_env" where
  "demo_lambda =
     \<lparr>le_handler = demo_handler, le_runner = demo_runner, le_config = lambda_config_from_env Map.empty, le_lib = demo_lib,
      le_jwks = (\<lambda>n. demo_jwks_call 0 (Inr []))\<rparr>"

definition demo_invocation :: "(tables, (string, unit, string) verifier) invocation" where
  "demo_invocation =
     \<lparr>iv_poster = \<lparr>po_reply = (\<lambda>_. Inr True), po_calls = 0, po_posted = []\<rparr>,
      iv_store = tables_default\<lparr>Storage.sessions := [(''s1'', demo_session ''s1'' ''c1'')]\<rparr>,
      iv_verifier = JwtVerifier (jwt_hs256 demo_lib ''k'' None None), iv_verified = 0\<rparr>"

definition demo_read_frame :: json where
  "demo_read_frame =
     JObj [(''action'', JStr ''get_session''), (''sessionId'', JStr ''s1''), (''message'', JStr ''hi''), (''token'', JStr ''t'')]"

lemma demo_invocation_delivers [simp]: "delivers (iv_poster demo_invocation)"
  by (simp add: delivers_def demo_invocation_def)



lemma demo_identity:
  "resolve_frame_principal demo_lambda demo_read_frame demo_invocation =
    (Some demo_principal, demo_invocation\<lparr>iv_verified := 1\<rparr>)"
  by (simp add: resolve_frame_principal_def frame_token_of_def demo_read_frame_def get_str_def demo_lambda_def demo_invocation_def
      jwt_hs256_def demo_lib_def demo_claims_def demo_principal_def into_principal_def claims_org_id_def role_parse_def
      trim_def trim_start_def trim_end_def is_whitespace_def to_ascii_lowercase_def char_to_ascii_lowercase_def)

theorem lambda_foreign_session_unknown_witness:
  "\<exists>iv2 \<in> {demo_invocation, demo_invocation\<lparr>iv_verified := 1\<rparr>}.
      lambda_get_session demo_lambda demo_input demo_read_frame None demo_invocation =
        reply_event (session_not_found demo_input None ''s1'') iv2"
  using lambda_foreign_session_unknown [OF _ demo_identity, where sid = "''s1''" and s = "demo_session ''s1'' ''c1''" and m = "''hi''"
      and fi = demo_input and rid = None and stamps = demo_stamps and r = "''r1''"]
  by (auto simp: demo_read_frame_def get_str_def demo_lambda_def demo_runner_def demo_invocation_def memory_adapter_def
      Storage.get_session_def locked_def tables_default_def demo_session_def demo_principal_def trim_def trim_start_def
      trim_end_def is_whitespace_def)

end
