(* ===== verification/Spec2Isabelle.thy ===== *)
theory Spec2Isabelle
  imports Ingestion Session_Safety Connection Admin Streaming Fetch_Url Lambda_Front
begin

text \<open>
  \<^bold>\<open>Verification of the Rust implementation of smooth-operator.\<close>

  \<^bold>\<open>The program.\<close> Smooth-operator is the service around an agent engine: it keeps conversations, answers a
  visitor's message with an agent turn grounded in a knowledge base, and feeds that knowledge base from
  connectors. The parts and how they meet:

  \<^item> \<^emph>\<open>Ingestion\<close> (\<open>rust/ingestion\<close>). A connector's documents are cut into chunks (\<open>chunker.rs\<close>), embedded
    and stored once per content hash (\<open>pipeline.rs\<close>); a service repeats this incrementally from a cursor
    (\<open>indexing.rs\<close>). Access labels, document sets and boosts travel as stamps on the stored documents.
  \<^item> \<^emph>\<open>Retrieval\<close> (\<open>rust/smooth-operator\<close>). Readers wrap the knowledge base and enforce the stamps: one for
    organizations and allow-lists (\<open>access_control.rs\<close>), one that adds sets, metadata filters and boosts
    (\<open>curation.rs\<close>). A reranker (\<open>rerank.rs\<close>) may reorder what the \<open>knowledge_search\<close> tool returns.
  \<^item> \<^emph>\<open>Turns\<close>. A turn (\<open>runtime.rs\<close>, and \<open>runner.rs\<close> in the server) replays the history from the storage
    adapter, runs the engine's agent with the tools, persists both messages and cites its sources. The
    server claims the conversation first (\<open>running_turns.rs\<close>), gates the tools and moves a workflow along
    (\<open>agent_config.rs\<close>, \<open>handler.rs\<close>). A tool may park the turn to ask the visitor (\<open>interaction.rs\<close>,
    \<open>choices.rs\<close>, \<open>identity_intake.rs\<close>, \<open>tools/interaction.rs\<close>).
  \<^item> \<^emph>\<open>Storage\<close>. Conversations, participants, messages and sessions behind one trait (\<open>adapter.rs\<close>,
    \<open>domain.rs\<close>), with an in-memory implementation (\<open>adapters/in-memory\<close>).
  \<^item> \<^emph>\<open>The service\<close> (\<open>rust/smooth-operator-server\<close>). A WebSocket connection is given an identity
    (\<open>server.rs\<close>, \<open>auth.rs\<close>, \<open>widget_auth.rs\<close>); its frames are dispatched (\<open>handler.rs\<close>) over the shared
    state (\<open>state.rs\<close>) and answered with the frames of \<open>protocol.rs\<close>. A message starts a turn task, whose
    bridges announce what it parks on; a later frame resumes it, from memory or from a durable record. An
    admin API (\<open>admin.rs\<close>) and a backplane between pods (\<open>backplane.rs\<close>) sit beside it. The Lambda front end
    (\<open>rust/smooth-operator-lambda\<close>) serves the same protocol frame by frame.

  \<^bold>\<open>The theories.\<close> Each opens with its own list of parameters; definitions follow the order of the source
  and keep its names, with a prefix where a name recurs or HOL has it.

  \<^item> \<open>Prelude\<close>: Rust strings, JSON values, saturating 64-bit arithmetic, hash-map order, shared lemmas.
  \<^item> \<open>Access_Control\<close>: \<^typ>\<open>doc_acl\<close>, \<^typ>\<open>access_context\<close>, the side table \<open>acl_store\<close>, its ingest handle
    and the bound reader \<open>reader_query\<close>. A reader returns only entitled results whatever the backend
    answers; it returns the first \<open>limit\<close> of them; stamps survive later ingests; tenants are isolated. The
    contract of a reader bound to a requester is the locale \<open>bound_reader\<close>.
  \<^item> \<open>Curation\<close>: \<^typ>\<open>doc_meta\<close>, \<^typ>\<open>retrieval_filter\<close>, \<open>curated_store\<close> and \<open>curated_query\<close>, a second
    \<open>bound_reader\<close>. Soundness of the filter, a true top-k by boosted score, the set-list round trip, and
    that a parsed boost is finite and not negative for every bit pattern.
  \<^item> \<open>Retrieval\<close>: \<open>noop_rerank\<close>, \<open>lexical_rerank\<close>, \<open>search_execute\<close>. Rerankers satisfy the locale
    \<open>reranker\<close> (they only select), so the tool over any \<open>bound_reader\<close> stays entitled.
  \<^item> \<open>Chunker\<close>: \<open>chunk_document\<close> and its splitter. The hard cap on a chunk, preservation of the non-blank
    characters, and stable chunk ids.
  \<^item> \<open>Ingestion\<close>: \<^typ>\<open>ingest_ledger\<close>, \<open>ingest\<close>, \<open>run_once\<close>. Idempotence of a re-run, the loss of a chunk
    whose store failed, stamping order, the monotone cursor (locale \<open>indexing_store\<close>), and, end to end with
    \<open>Access_Control\<close>, enforcement of ingested labels at query time.
  \<^item> \<open>Running_Turns\<close>: \<^typ>\<open>running_turns\<close> and one atomic step per method. The interleavings of tasks are the
    runs of the relation \<open>registry_step\<close>; the tokens issued are distinct in every state reached with at most \<open>2 ^ 64\<close>
    reservations (rule induction; the counter wraps after that), so a stale release cannot evict a
    successor, and at most one reservation per conversation is live. Interface: \<open>turn_registry\<close>.
  \<^item> \<open>Agent_Config\<close>: parsing of an agent row, the auth gate, and the conversation workflow. The gate's
    decision in closed form, faithfulness of the built gate without duplicate tool ids and its failure with
    them, well-formedness of every parsed row, validity of the workflow pointer, and completion of a linear
    workflow within the attempt cap of three turns per step, whatever the judge answers.
  \<^item> \<open>Interactions\<close>: both interaction kinds and the request and submit tools. Validation equals a
    declarative acceptance predicate, canonical values validate to themselves (locales \<open>normaliser\<close>,
    \<open>hosted_kind\<close>), the reported errors are exact, and a parked turn consumes only its own resolution.
  \<^item> \<open>Storage\<close>: the domain records, the default methods over \<open>adapter_reads\<close>, and the in-memory \<open>tables\<close>.
    Message paging returns every message once, sidebar paging is seamless and owner-scoped, creation is
    idempotent per organization and key. Interface: \<open>available_adapter\<close>.
  \<^item> \<open>Turns\<close>: \<open>run_turn_inner\<close>, citations and both history loaders. Every citation is visible to the
    requester of the turn, and the replay window is the oldest fifty messages.

  \<^item> \<open>Auth\<close>: roles, principals, the verifiers and the key store (\<open>auth.rs\<close>, \<open>gateway_key.rs\<close>). A verifier built from
    the environment accepts only what its mode allows; key fetches are spaced while the issuer answers.
  \<^item> \<open>Widget_Auth\<close>: origin allow-lists, the signed context on 64-bit words, the cached policy look-up. A wildcard admits
    exactly the sub-domains of its domain.
  \<^item> \<open>Protocol\<close>: one constructor per server frame; every frame is a well-formed envelope.
  \<^item> \<open>Backplane\<close>: the in-process registry and the two bus adapters; the registry refines a roster of connections.
  \<^item> \<open>Server_Config\<close>: the configuration read from the environment, settings and connector records.
  \<^item> \<open>App_State\<close>: the session registry, parked creates, confirmations, interactions, metadata with its
    write-through. A parked create lands its writes once, in order, over any failures.
  \<^item> \<open>Conversations\<close>: who may read a conversation, session creation and resumption, listing, renaming, messages. The
    one-query listing equals the generic scan.
  \<^item> \<open>Replies\<close>: suggested replies, the streaming hold-back, skills, prompt composition.
  \<^item> \<open>Turn_Start\<close>: \<open>send_message\<close> up to the spawned task, and the tail of a turn. A message is refused without
    effect or holds its conversation; a turn ends once.
  \<^item> \<open>Dispatch\<close> and \<open>Session_Safety\<close>: the actions that resume a turn, one-time codes, the dispatcher. Every frame is
    answered, a hidden session is unknown, a session is verified only by a code, a confirmation is used once.
  \<^item> \<open>Connection\<close>: the server as a step relation over connections, writers and turn tasks. One live turn per
    conversation in every reachable state; a cancelled turn is silent; access fails closed.
  \<^item> \<open>Admin\<close>: the role gate and every admin route. Authority, tenant isolation, paging that ends.
  \<^item> \<open>Parking\<close>: the confirmation and interaction bridges of a turn with their guards and durable records, as a step
    relation over their interleavings, and the host's approver. A finished turn leaves nothing parked; every
    confirmation but the pre-approved call is shown; with ordered writes the records are retired.
  \<^item> \<open>Telemetry\<close>: what spans record. Redaction is non-interference on secret-named keys.
  \<^item> \<open>Streaming\<close>: \<open>run_streaming_turn\<close>, from the history to the judge, and the task around it. The stream is exact, the
    agent's allow-list is authoritative, citations are entitled, the next turn remembers, a refused tool ends in
    an offer to verify, and a turn is answered once whatever the engine does.
  \<^item> \<open>Fetch_Url\<close>: the \<open>fetch_url\<close> tool and the web connector: the guard on addresses as words, the redirect policy, pages
    to text. No request leaves the public addresses, wherever servers redirect.
  \<^item> \<open>Lambda_Front\<close>: the serverless front end, one invocation per frame over the same handler, runner and store. Every
    frame is answered, and what it delegates is served as the service serves it to the same identity.

  \<^bold>\<open>Modelling choices.\<close>

  \<^item> \<^emph>\<open>Errors\<close> are the left of a sum, one constructor per failure, with the values the message carries. A
    poisoned lock is a flag of the state, so each operation's reaction to it is a branch. Prose in messages,
    prompts and tool output is reduced to the values it interpolates.
  \<^item> \<^emph>\<open>Effects\<close> are explicit: an operation takes the state and returns it. A method under a mutex is one
    atomic step. Clock readings, drawn ids and the environment are arguments.
  \<^item> \<^emph>\<open>Characters\<close> are HOL's, so the model ranges over the Unicode scalar values up to U+00FF; whitespace,
    letter case and UTF-8 length are those of Rust on that range.
  \<^item> \<^emph>\<open>Numbers\<close>: \<open>usize\<close> values that saturate do so explicitly at \<open>2 ^ 64 - 1\<close>; the content hash is computed on
    64-bit words; an \<open>f32\<close> is its 32-bit pattern, on which the finite test, the comparison with zero and the
    total order are computed, while float arithmetic, parsing and printing are parameters.
  \<^item> \<^emph>\<open>Hash maps\<close> whose iteration order is observable are listed by an arbitrary bucket function, and the
    results hold for every such function.
  \<^item> \<^emph>\<open>Parameters\<close>: the engine (its knowledge base, document constructor, agent loop), the embedder, the
    connectors and the serde codecs are not part of the repository. They are arguments, with the documented
    behaviour a result relies on as a named hypothesis and a concrete instance in the result's witness.
  \<^item> \<^emph>\<open>Termination\<close>: there is no fuel. Every loop of the modelled code is a total function, structural or with
    a measure (\<open>slice_chunks\<close> on the remaining length, \<open>split_str_acc\<close> on the remaining text). The wait of a
    parked turn reads a finite queue; running dry stands for the deadline.

  \<^bold>\<open>Bounds.\<close> The step relations have no bound on connections, tasks or steps; results on reservation tokens hold
  below \<open>2 ^ 64\<close> reservations, after which the code's counter wraps. The replay result is stated within the code's
  own window of fifty messages.

  \<^bold>\<open>Not modelled.\<close> The Postgres and DynamoDB adapters are calls to services, whose
  behaviour is the storage contract already stated in \<open>App_State\<close>. Extension processes and the other network and file
  connectors and tools are I/O over third-party protocols; a turn sees of them the tools they register. Also left out:
  process set-up (exporters, sockets, the embedded console), evaluations, examples, and the servers and clients in
  other languages. Within the modelled files, log lines and the prose of fixed prompts are left out.
\<close>

end
